(* ===== verification/Thistle_Prelude.thy ===== *)
theory Thistle_Prelude
  imports Main "HOL-Library.Word"
begin

text \<open>
  What every component of the kernel and of the Recovery OS shares: the machine integers of
  the Rust sources, the ESP-IDF error codes they return, the first-match scans over fixed
  slot arrays, and the interface of a state machine whose operations keep an invariant.
\<close>

unbundle bit_operations_syntax

named_theorems esp_codes \<comment> \<open>facts that tell return codes apart\<close>
named_theorems table_simps \<comment> \<open>facts on scans over slot arrays\<close>

section \<open>Machine integers\<close>

type_synonym u8 = "8 word"
type_synonym u16 = "16 word"
type_synonym u32 = "32 word"
type_synonym u64 = "64 word"

text \<open>\<open>usize\<close> is 32 bits wide on every chip the firmware runs on.\<close>

type_synonym usize = "32 word"

definition sat_add :: "'a::len word \<Rightarrow> 'a word \<Rightarrow> 'a word" where
  "sat_add a b = (if unat a + unat b < 2 ^ LENGTH('a) then a + b else - 1)"

definition sat_mul :: "'a::len word \<Rightarrow> 'a word \<Rightarrow> 'a word" where
  "sat_mul a b = (if unat a * unat b < 2 ^ LENGTH('a) then a * b else - 1)"

definition checked_add :: "'a::len word \<Rightarrow> 'a word \<Rightarrow> 'a word option" where
  "checked_add a b = (if unat a + unat b < 2 ^ LENGTH('a) then Some (a + b) else None)"

lemma unat_max_word: "unat (- 1 :: 'a::len word) = 2 ^ LENGTH('a) - 1"
  by (simp add: unsigned_minus_1_eq_mask mask_eq_exp_minus_1)

lemma unat_add_nowrap:
  "unat a + unat b < 2 ^ LENGTH('a) \<Longrightarrow> unat (a + b :: 'a::len word) = unat a + unat b"
  by (rule unat_add_lem [THEN iffD1]) simp

lemma unat_mult_nowrap:
  "unat a * unat b < 2 ^ LENGTH('a) \<Longrightarrow> unat (a * b :: 'a::len word) = unat a * unat b"
  by (rule unat_mult_lem [THEN iffD1]) simp

lemma unat_sat_add:
  "unat (sat_add a b :: 'a::len word) = min (unat a + unat b) (2 ^ LENGTH('a) - 1)"
  by (auto simp: sat_add_def unat_max_word unat_add_nowrap min_def)

lemma unat_sat_mul:
  "unat (sat_mul a b :: 'a::len word) = min (unat a * unat b) (2 ^ LENGTH('a) - 1)"
  using not_less_eq_eq by (fastforce simp: sat_mul_def unat_max_word unat_mult_nowrap min_def)

lemma checked_add_Some:
  "checked_add a b = Some c \<Longrightarrow> unat c = unat a + unat b"
  by (auto simp: checked_add_def unat_add_nowrap split: if_splits)

lemma checked_add_None:
  "checked_add a b = None \<longleftrightarrow> 2 ^ LENGTH('a) \<le> unat a + unat (b :: 'a::len word)"
  by (auto simp: checked_add_def)

section \<open>Return codes of ESP-IDF\<close>

text \<open>The codes are \<open>i32\<close> values in the source and small constants here.\<close>

abbreviation (input) ESP_OK :: int where "ESP_OK \<equiv> 0"
abbreviation (input) ESP_FAIL :: int where "ESP_FAIL \<equiv> - 1"
abbreviation (input) ESP_ERR_NO_MEM :: int where "ESP_ERR_NO_MEM \<equiv> 0x101"
abbreviation (input) ESP_ERR_INVALID_ARG :: int where "ESP_ERR_INVALID_ARG \<equiv> 0x102"
abbreviation (input) ESP_ERR_INVALID_STATE :: int where "ESP_ERR_INVALID_STATE \<equiv> 0x103"
abbreviation (input) ESP_ERR_INVALID_SIZE :: int where "ESP_ERR_INVALID_SIZE \<equiv> 0x104"
abbreviation (input) ESP_ERR_NOT_FOUND :: int where "ESP_ERR_NOT_FOUND \<equiv> 0x105"
abbreviation (input) ESP_ERR_NOT_SUPPORTED :: int where "ESP_ERR_NOT_SUPPORTED \<equiv> 0x106"
abbreviation (input) ESP_ERR_TIMEOUT :: int where "ESP_ERR_TIMEOUT \<equiv> 0x107"
abbreviation (input) ESP_ERR_INVALID_CRC :: int where "ESP_ERR_INVALID_CRC \<equiv> 0x109"

section \<open>Results\<close>

text \<open>\<open>?\<close> and \<open>ok_or\<close>: the rest runs on success, the error is passed on.\<close>

definition and_then :: "'e + 'a \<Rightarrow> ('a \<Rightarrow> 'e + 'b) \<Rightarrow> 'e + 'b" where
  "and_then r f = (case r of Inl e \<Rightarrow> Inl e | Inr x \<Rightarrow> f x)"

definition ok_or :: "'e \<Rightarrow> 'a option \<Rightarrow> 'e + 'a" where
  "ok_or e r = (case r of None \<Rightarrow> Inl e | Some x \<Rightarrow> Inr x)"

definition ensure :: "bool \<Rightarrow> 'e \<Rightarrow> 'e + unit" where
  "ensure c e = (if c then Inr () else Inl e)"

definition unwrap_or :: "'a \<Rightarrow> 'a option \<Rightarrow> 'a" where
  "unwrap_or d v = (case v of None \<Rightarrow> d | Some x \<Rightarrow> x)"

lemma and_then_Inr [simp]: "and_then r f = Inr y \<longleftrightarrow> (\<exists>x. r = Inr x \<and> f x = Inr y)"
  by (cases r) (auto simp: and_then_def)

lemma ok_or_Inr [simp]: "ok_or e r = Inr x \<longleftrightarrow> r = Some x"
  by (cases r) (auto simp: ok_or_def)

lemma ensure_Inr [simp]: "ensure c e = Inr u \<longleftrightarrow> c"
  by (simp add: ensure_def)

section \<open>First-match scans\<close>

text \<open>
  \<open>update_first P f xs\<close> is \<open>iter_mut().find(P)\<close> followed by a write through the reference:
  \<open>None\<close> when no element satisfies \<open>P\<close>.
\<close>

fun update_first :: "('a \<Rightarrow> bool) \<Rightarrow> ('a \<Rightarrow> 'a) \<Rightarrow> 'a list \<Rightarrow> 'a list option" where
  "update_first P f [] = None"
| "update_first P f (x # xs) =
     (if P x then Some (f x # xs) else map_option (Cons x) (update_first P f xs))"

fun find_index :: "('a \<Rightarrow> bool) \<Rightarrow> 'a list \<Rightarrow> nat option" where
  "find_index P [] = None"
| "find_index P (x # xs) = (if P x then Some 0 else map_option Suc (find_index P xs))"

lemma update_first_None [table_simps]:
  "update_first P f xs = None \<longleftrightarrow> (\<forall>x\<in>set xs. \<not> P x)"
  by (induction xs) auto

lemma update_first_length:
  "update_first P f xs = Some ys \<Longrightarrow> length ys = length xs"
  by (induction xs arbitrary: ys) (auto split: if_splits)

lemma update_first_split:
  "update_first P f xs = Some ys \<Longrightarrow>
   \<exists>as x bs. xs = as @ x # bs \<and> (\<forall>a\<in>set as. \<not> P a) \<and> P x \<and> ys = as @ f x # bs"
proof (induction xs arbitrary: ys)
  case Nil
  then show ?case by simp
next
  case (Cons a xs)
  show ?case
  proof (cases "P a")
    case True
    with Cons.prems show ?thesis by (intro exI [of _ "[]"]) auto
  next
    case False
    with Cons.prems obtain zs where zs: "update_first P f xs = Some zs" "ys = a # zs"
      by auto
    from Cons.IH [OF zs(1)] obtain as x bs where
      "xs = as @ x # bs" "\<forall>a\<in>set as. \<not> P a" "P x" "zs = as @ f x # bs" by blast
    with zs(2) False show ?thesis by (intro exI [of _ "a # as"]) auto
  qed
qed

lemma update_first_Some_ex: "update_first P f xs = Some ys \<Longrightarrow> \<exists>x\<in>set xs. P x"
  by (metis update_first_None option.distinct(1))

lemma update_first_set:
  "update_first P f xs = Some ys \<Longrightarrow> y \<in> set ys \<Longrightarrow> y \<in> set xs \<or> (\<exists>x\<in>set xs. P x \<and> y = f x)"
  by (drule update_first_split) auto

lemma find_append_miss [table_simps]:
  "\<forall>x\<in>set xs. \<not> P x \<Longrightarrow> find P (xs @ ys) = find P ys"
  by (induction xs) auto

lemma find_Some_split:
  "find P xs = Some x \<Longrightarrow> \<exists>as bs. xs = as @ x # bs \<and> (\<forall>a\<in>set as. \<not> P a) \<and> P x"
proof (induction xs)
  case Nil
  then show ?case by simp
next
  case (Cons a xs)
  then show ?case
    by (cases "P a") (force intro: exI [of _ "[]"], metis Cons_eq_appendI find.simps(2) set_ConsD)
qed

lemma find_index_Some:
  "find_index P xs = Some i \<Longrightarrow> i < length xs \<and> P (xs ! i) \<and> (\<forall>j<i. \<not> P (xs ! j))"
proof (induction xs arbitrary: i)
  case Nil
  then show ?case by simp
next
  case (Cons a xs)
  then show ?case by (auto split: if_splits simp: nth_Cons split: nat.splits)
qed

lemma find_index_None:
  "find_index P xs = None \<longleftrightarrow> (\<forall>i<length xs. \<not> P (xs ! i))"
  by (induction xs) (auto simp: nth_Cons split: nat.splits)

lemma find_index_unique:
  assumes "i < length xs" "P (xs ! i)" "\<And>j. j < length xs \<Longrightarrow> P (xs ! j) \<Longrightarrow> j = i"
  shows "find_index P xs = Some i"
proof (cases "find_index P xs")
  case None
  with assms(1,2) show ?thesis by (auto simp: find_index_None)
next
  case (Some k)
  with find_index_Some [OF Some] assms(3) show ?thesis by auto
qed

lemma nth_upd: "j < length xs \<Longrightarrow> xs[i := v] ! j = (if j = i then v else xs ! j)"
  by (auto simp: nth_list_update)

lemma find_index_cut:
  assumes "find_index P xs = Some i"
  shows "xs = take i xs @ xs ! i # drop (Suc i) xs" "P (xs ! i)" "xs[i := v] = take i xs @ v # drop (Suc i) xs"
  using find_index_Some [OF assms] by (simp_all add: id_take_nth_drop upd_conv_take_nth_drop)

text \<open>The occupied slots of a table, in order.\<close>

fun somes :: "'a option list \<Rightarrow> 'a list" where
  "somes [] = []"
| "somes (None # xs) = somes xs"
| "somes (Some x # xs) = x # somes xs"

lemma somes_append [simp]: "somes (xs @ ys) = somes xs @ somes ys"
  by (induction xs rule: somes.induct) auto

lemma somes_replicate_None [simp]: "somes (replicate n None) = []"
  by (induction n) auto

lemma set_somes: "x \<in> set (somes xs) \<longleftrightarrow> Some x \<in> set xs"
  by (induction xs rule: somes.induct) auto

lemma length_somes: "length (somes xs) \<le> length xs"
  by (induction xs rule: somes.induct) auto

lemma somes_full: "length (somes xs) = length xs \<longleftrightarrow> None \<notin> set xs"
proof (induction xs rule: somes.induct)
  case (2 xs)
  then show ?case using length_somes [of xs] by simp
qed auto

section \<open>Machines that keep an invariant\<close>

text \<open>
  A component whose state is only reached through its operations: \<open>step e s\<close> runs the
  operation \<open>e\<close>. Each component interprets this locale on its own operations; what holds in
  every reachable state follows from one step lemma.
\<close>

locale machine =
  fixes step :: "'e \<Rightarrow> 's \<Rightarrow> 's"
    and inv :: "'s \<Rightarrow> bool"
  assumes inv_step: "inv s \<Longrightarrow> inv (step e s)"
begin

lemma run_inv: "inv s \<Longrightarrow> inv (fold step es s)"
  by (induction es arbitrary: s) (auto intro: inv_step)

lemma run_inv_prefix: "inv s \<Longrightarrow> inv (fold step (take n es) s)"
  by (rule run_inv)

end

text \<open>
  A machine with a bounded resource: what the invariant implies about a measure.
\<close>

locale bounded_machine = machine step inv
  for step :: "'e \<Rightarrow> 's \<Rightarrow> 's" and inv :: "'s \<Rightarrow> bool" +
  fixes usage :: "'s \<Rightarrow> nat" and capacity :: nat
  assumes inv_bound: "inv s \<Longrightarrow> usage s \<le> capacity"
begin

lemma run_bound: "inv s \<Longrightarrow> usage (fold step es s) \<le> capacity"
  by (intro inv_bound run_inv)

end

section \<open>Codecs\<close>

text \<open>
  A printer and its parser. \<open>codec\<close> asks that parsing what was printed gives the value back;
  \<open>canonical_codec\<close> asks moreover that the parser accepts nothing but what the printer writes.
\<close>

locale codec =
  fixes enc :: "'a \<Rightarrow> 'b" and dec :: "'b \<Rightarrow> 'a option" and ok :: "'a \<Rightarrow> bool"
  assumes dec_enc: "ok x \<Longrightarrow> dec (enc x) = Some x"
begin

lemma enc_inj: "ok x \<Longrightarrow> ok y \<Longrightarrow> enc x = enc y \<Longrightarrow> x = y"
  by (metis dec_enc option.inject)

end

locale canonical_codec = codec enc dec ok
  for enc :: "'a \<Rightarrow> 'b" and dec :: "'b \<Rightarrow> 'a option" and ok :: "'a \<Rightarrow> bool" +
  assumes dec_canonical: "dec s = Some x \<Longrightarrow> ok x \<and> enc x = s"
begin

lemma dec_iff: "dec s = Some x \<longleftrightarrow> ok x \<and> s = enc x"
  using dec_canonical dec_enc by blast

lemma dec_unique: "dec s = Some x \<Longrightarrow> dec t = Some x \<Longrightarrow> s = t"
  by (simp add: dec_iff)

end

end
