(* ===== verification/Rust_Str.thy ===== *)
theory Rust_Str
  imports Thistle_Prelude "HOL-Library.Sublist"
begin

text \<open>
  The operations of Rust's \<open>str\<close> that the sources use. A \<open>&str\<close> is the list of its UTF-8
  bytes (Isabelle's \<open>char\<close> is a byte), so \<open>length\<close> is \<open>str::len\<close>. Searching, splitting and
  stripping with ASCII patterns works byte by byte on valid UTF-8; \<open>trim\<close> removes Unicode
  white space, written as the byte sequences that encode it.
\<close>

section \<open>Bytes\<close>

abbreviation code :: "char \<Rightarrow> nat" where "code c \<equiv> of_char c"

definition NUL :: char where "NUL = CHR 0x00"
definition LF :: char where "LF = CHR 0x0A"
definition CR :: char where "CR = CHR 0x0D"
definition TAB :: char where "TAB = CHR 0x09"
definition DQ :: char where "DQ = CHR 0x22"
definition BSL :: char where "BSL = CHR 0x5C"

lemmas char_defs = NUL_def LF_def CR_def TAB_def DQ_def BSL_def

definition is_digit :: "char \<Rightarrow> bool" where
  "is_digit c \<longleftrightarrow> 48 \<le> code c \<and> code c \<le> 57"

definition is_lower :: "char \<Rightarrow> bool" where
  "is_lower c \<longleftrightarrow> 97 \<le> code c \<and> code c \<le> 122"

definition is_upper :: "char \<Rightarrow> bool" where
  "is_upper c \<longleftrightarrow> 65 \<le> code c \<and> code c \<le> 90"

definition is_alnum :: "char \<Rightarrow> bool" where
  "is_alnum c \<longleftrightarrow> is_digit c \<or> is_lower c \<or> is_upper c"

definition is_hexdigit :: "char \<Rightarrow> bool" where
  "is_hexdigit c \<longleftrightarrow> is_digit c \<or> (65 \<le> code c \<and> code c \<le> 70) \<or> (97 \<le> code c \<and> code c \<le> 102)"

lemmas char_class_defs = is_digit_def is_lower_def is_upper_def is_alnum_def is_hexdigit_def

definition to_ascii_lower :: "string \<Rightarrow> string" where
  "to_ascii_lower s = map (\<lambda>c. if is_upper c then char_of (code c + 32) else c) s"

section \<open>UTF-8 validation (\<open>str::from_utf8\<close>)\<close>

definition is_cont :: "nat \<Rightarrow> bool" where
  "is_cont b \<longleftrightarrow> 128 \<le> b \<and> b \<le> 191"

text \<open>How many continuation bytes follow the lead byte \<open>b\<close>: \<open>None\<close> when ill-formed.\<close>

definition utf8_tail :: "nat \<Rightarrow> nat list \<Rightarrow> nat option" where
  "utf8_tail b bs =
     (if b < 128 then Some 0
      else if 194 \<le> b \<and> b \<le> 223 then
        (case bs of c1 # _ \<Rightarrow> if is_cont c1 then Some 1 else None | _ \<Rightarrow> None)
      else if 224 \<le> b \<and> b \<le> 239 then
        (case bs of c1 # c2 # _ \<Rightarrow>
           if is_cont c1 \<and> is_cont c2 \<and> (b = 224 \<longrightarrow> 160 \<le> c1) \<and> (b = 237 \<longrightarrow> c1 \<le> 159)
           then Some 2 else None
         | _ \<Rightarrow> None)
      else if 240 \<le> b \<and> b \<le> 244 then
        (case bs of c1 # c2 # c3 # _ \<Rightarrow>
           if is_cont c1 \<and> is_cont c2 \<and> is_cont c3 \<and> (b = 240 \<longrightarrow> 144 \<le> c1) \<and> (b = 244 \<longrightarrow> c1 \<le> 143)
           then Some 3 else None
         | _ \<Rightarrow> None)
      else None)"

function utf8_bytes :: "nat list \<Rightarrow> bool" where
  "utf8_bytes [] = True"
| "utf8_bytes (b # bs) =
     (case utf8_tail b bs of None \<Rightarrow> False | Some n \<Rightarrow> utf8_bytes (drop n bs))"
  by pat_completeness auto
termination
  by (relation "measure length") auto

definition utf8_valid :: "string \<Rightarrow> bool" where
  "utf8_valid s = utf8_bytes (map of_char s)"

text \<open>\<open>CStr::to_str().unwrap_or("")\<close>\<close>

definition cstr_or_empty :: "string \<Rightarrow> string" where
  "cstr_or_empty s = (if utf8_valid s then s else [])"

lemma utf8_bytes_ascii: "\<forall>b\<in>set bs. b < 128 \<Longrightarrow> utf8_bytes bs"
  by (induction bs) (auto simp: utf8_tail_def)

lemma utf8_valid_ascii: "\<forall>c\<in>set s. code c < 128 \<Longrightarrow> utf8_valid s"
  by (simp add: utf8_valid_def utf8_bytes_ascii)

section \<open>Prefixes, searching, splitting\<close>

fun strip_prefix :: "string \<Rightarrow> string \<Rightarrow> string option" where
  "strip_prefix [] s = Some s"
| "strip_prefix (p # ps) [] = None"
| "strip_prefix (p # ps) (c # cs) = (if p = c then strip_prefix ps cs else None)"

definition starts_with :: "string \<Rightarrow> string \<Rightarrow> bool" where
  "starts_with p s \<longleftrightarrow> strip_prefix p s \<noteq> None"

definition ends_with :: "string \<Rightarrow> string \<Rightarrow> bool" where
  "ends_with p s \<longleftrightarrow> starts_with (rev p) (rev s)"

lemma strip_prefix_Some [simp]: "strip_prefix p s = Some r \<longleftrightarrow> s = p @ r"
  by (induction p s rule: strip_prefix.induct) auto

lemma strip_prefix_None: "strip_prefix p s = None \<longleftrightarrow> (\<forall>r. s \<noteq> p @ r)"
  by (metis not_None_eq strip_prefix_Some)

lemma strip_prefix_append [simp]: "strip_prefix p (p @ r) = Some r"
  by simp

lemma starts_with_iff: "starts_with p s \<longleftrightarrow> (\<exists>r. s = p @ r)"
  by (simp add: starts_with_def)

lemma ends_with_iff: "ends_with p s \<longleftrightarrow> (\<exists>r. s = r @ p)"
  unfolding ends_with_def starts_with_iff
  by (metis rev_append rev_rev_ident)

text \<open>\<open>str::find\<close> with a string pattern: the offset of its first occurrence.\<close>

fun find_sub :: "string \<Rightarrow> string \<Rightarrow> nat option" where
  "find_sub p [] = (if p = [] then Some 0 else None)"
| "find_sub p (c # cs) =
     (if starts_with p (c # cs) then Some 0 else map_option Suc (find_sub p cs))"

definition str_contains :: "string \<Rightarrow> string \<Rightarrow> bool" where
  "str_contains s p \<longleftrightarrow> find_sub p s \<noteq> None"

lemma find_sub_Some:
  "find_sub p s = Some i \<Longrightarrow> \<exists>r. s = take i s @ p @ r \<and> length (take i s) = i"
proof (induction s arbitrary: i)
  case Nil
  then show ?case by (simp split: if_splits)
next
  case (Cons c cs)
  show ?case
  proof (cases "starts_with p (c # cs)")
    case True
    with Cons.prems show ?thesis by (auto simp: starts_with_iff)
  next
    case False
    with Cons.prems obtain j where j: "find_sub p cs = Some j" "i = Suc j" by auto
    from Cons.IH [OF j(1)] j(2) show ?thesis by auto
  qed
qed

lemma find_sub_None: "find_sub p s = None \<longleftrightarrow> \<not> sublist p s"
  by (induction s) (auto simp: sublist_Cons_right starts_with_iff prefix_def)

text \<open>\<open>str::split\<close> on one ASCII character, and \<open>join\<close>.\<close>

fun split_on :: "char \<Rightarrow> string \<Rightarrow> string list" where
  "split_on d [] = [[]]"
| "split_on d (c # cs) =
     (if c = d then [] # split_on d cs
      else (case split_on d cs of [] \<Rightarrow> [[c]] | p # ps \<Rightarrow> (c # p) # ps))"

fun join :: "string \<Rightarrow> string list \<Rightarrow> string" where
  "join sep [] = []"
| "join sep [s] = s"
| "join sep (s # t # ts) = s @ sep @ join sep (t # ts)"

lemma split_on_neq_Nil [simp]: "split_on d s \<noteq> []"
  by (induction s) (auto split: list.splits)

lemma split_on_none: "d \<notin> set s \<Longrightarrow> split_on d s = [s]"
  by (induction s) auto

lemma split_on_append: "d \<notin> set s \<Longrightarrow> split_on d (s @ d # t) = s # split_on d t"
  by (induction s) auto

lemma split_on_join:
  "xs \<noteq> [] \<Longrightarrow> \<forall>x\<in>set xs. d \<notin> set x \<Longrightarrow> split_on d (join [d] xs) = xs"
  by (induction "[d]" xs rule: join.induct) (auto simp: split_on_none split_on_append)

lemma join_split_on: "join [d] (split_on d s) = s"
proof (induction s)
  case Nil
  then show ?case by simp
next
  case (Cons c cs)
  obtain p ps where p: "split_on d cs = p # ps"
    by (cases "split_on d cs") auto
  with Cons.IH have "join [d] (p # ps) = cs" by simp
  with p show ?case by (cases ps) auto
qed

lemma split_on_parts: "x \<in> set (split_on d s) \<Longrightarrow> d \<notin> set x \<and> set x \<subseteq> set s"
  by (induction s arbitrary: x) (auto split: if_splits list.splits, (metis in_mono)+)

lemma set_join: "c \<in> set (join sep xs) \<Longrightarrow> c \<in> set sep \<or> (\<exists>x\<in>set xs. c \<in> set x)"
  by (induction sep xs rule: join.induct) auto

section \<open>Trimming\<close>

text \<open>The UTF-8 encodings of the code points with the property \<open>White_Space\<close>.\<close>

definition bytes_of :: "nat list \<Rightarrow> string" where
  "bytes_of = map char_of"

definition white_space :: "string list" where
  "white_space = map bytes_of
     ([[9], [10], [11], [12], [13], [32], [194, 133], [194, 160], [225, 154, 128]]
      @ map (\<lambda>b. [226, 128, b]) [128, 129, 130, 131, 132, 133, 134, 135, 136, 137, 138]
      @ [[226, 128, 168], [226, 128, 169], [226, 128, 175], [226, 129, 159], [227, 128, 128]])"

definition drop_ws :: "string list \<Rightarrow> string \<Rightarrow> string option" where
  "drop_ws ws s = (case find (\<lambda>w. starts_with w s) ws of
                     None \<Rightarrow> None | Some w \<Rightarrow> Some (drop (length w) s))"

function trim_with :: "string list \<Rightarrow> string \<Rightarrow> string" where
  "trim_with ws s =
     (case drop_ws ws s of None \<Rightarrow> s | Some r \<Rightarrow> if length r < length s then trim_with ws r else s)"
  by pat_completeness auto
termination
  by (relation "measure (\<lambda>(ws, s). length s)") auto

declare trim_with.simps [simp del]

definition trim_start :: "string \<Rightarrow> string" where
  "trim_start s = trim_with white_space s"

definition trim_end :: "string \<Rightarrow> string" where
  "trim_end s = rev (trim_with (map rev white_space) (rev s))"

definition trim :: "string \<Rightarrow> string" where
  "trim s = trim_end (trim_start s)"

definition trim_end_matches :: "char \<Rightarrow> string \<Rightarrow> string" where
  "trim_end_matches d s = rev (dropWhile (\<lambda>c. c = d) (rev s))"

definition not_ws_byte :: "char \<Rightarrow> bool" where
  "not_ws_byte c \<longleftrightarrow> 33 \<le> code c \<and> code c < 128"

lemma white_space_heads: "w \<in> set white_space \<Longrightarrow> w \<noteq> [] \<and> \<not> not_ws_byte (hd w) \<and> \<not> not_ws_byte (last w)"
  by (auto simp: white_space_def bytes_of_def not_ws_byte_def)

lemma drop_ws_None:
  "not_ws_byte c \<Longrightarrow> \<forall>w\<in>set ws. w \<noteq> [] \<and> \<not> not_ws_byte (hd w) \<Longrightarrow> drop_ws ws (c # s) = None"
  unfolding drop_ws_def
  by (auto split: option.splits simp: find_Some_iff starts_with_iff) (metis Cons_eq_append_conv list.sel(1) nth_mem)

lemma trim_start_id: "not_ws_byte c \<Longrightarrow> trim_start (c # s) = c # s"
  unfolding trim_start_def
  by (subst trim_with.simps) (simp add: drop_ws_None white_space_heads)

lemma trim_end_id: "not_ws_byte c \<Longrightarrow> trim_end (s @ [c]) = s @ [c]"
  unfolding trim_end_def
  by (subst trim_with.simps) (auto simp: drop_ws_None white_space_heads hd_rev)

lemma blank_bytes: "bytes_of [32] = '' ''"
  by code_simp

lemma drop_ws_blank: "drop_ws white_space (CHR '' '' # s) = Some s"
proof -
  have one: "w = '' ''" if w: "w \<in> set white_space" and s: "starts_with w (CHR '' '' # s)" for w
  proof -
    have "code (hd w) = 32" using s white_space_heads [OF w] by (cases w) (auto simp: starts_with_iff)
    then have "w = bytes_of [32]" using w by (auto simp: white_space_def bytes_of_def)
    then show ?thesis using blank_bytes by simp
  qed
  have some: "'' '' \<in> set white_space" "starts_with '' '' (CHR '' '' # s)"
    unfolding blank_bytes [symmetric] by (simp add: white_space_def) (simp add: blank_bytes starts_with_def)
  then obtain w where w: "find (\<lambda>w. starts_with w (CHR '' '' # s)) white_space = Some w"
    by (cases "find (\<lambda>w. starts_with w (CHR '' '' # s)) white_space") (auto simp: find_None_iff)
  then have "w = '' ''" by (intro one) (auto simp: find_Some_iff)
  with w show ?thesis by (simp add: drop_ws_def)
qed

lemma trim_start_blank: "trim_start (CHR '' '' # s) = trim_start s"
  unfolding trim_start_def by (subst trim_with.simps) (simp add: drop_ws_blank)

lemma trim_start_Nil [simp]: "trim_start [] = []"
  unfolding trim_start_def by (subst trim_with.simps) (simp split: option.splits)

lemma trim_end_Nil [simp]: "trim_end [] = []"
  unfolding trim_end_def by (subst trim_with.simps) (simp split: option.splits)

lemma trim_id:
  assumes "\<forall>c\<in>set s. not_ws_byte c"
  shows "trim s = s"
proof (cases s)
  case Nil
  then show ?thesis by (simp add: trim_def)
next
  case (Cons c cs)
  then have "trim_start s = s" using assms by (simp add: trim_start_id)
  moreover have "trim_end (butlast s @ [last s]) = butlast s @ [last s]"
    using assms Cons by (intro trim_end_id) (metis last_in_set list.discI)
  then have "trim_end s = s"
    using Cons append_butlast_last_id [of s] by simp
  ultimately show ?thesis by (simp add: trim_def)
qed

lemma trim_end_matches_replicate:
  "s = [] \<or> last s \<noteq> d \<Longrightarrow> trim_end_matches d (s @ replicate n d) = s"
proof -
  assume "s = [] \<or> last s \<noteq> d"
  moreover have "dropWhile (\<lambda>c. c = d) (replicate n d @ t) = dropWhile (\<lambda>c. c = d) t" for t
    by (induction n) auto
  ultimately show ?thesis
    by (cases s rule: rev_cases) (auto simp: trim_end_matches_def)
qed

lemma trim_end_matches_shorter:
  "s \<noteq> [] \<Longrightarrow> last s = d \<Longrightarrow> length (trim_end_matches d s) < length s"
  by (cases s rule: rev_cases)
    (auto simp: trim_end_matches_def less_Suc_eq_le intro: length_dropWhile_le [THEN order_trans])

section \<open>Numbers\<close>

definition digit_value :: "char \<Rightarrow> nat option" where
  "digit_value c =
     (if is_digit c then Some (code c - 48)
      else if 97 \<le> code c \<and> code c \<le> 122 then Some (code c - 87)
      else if 65 \<le> code c \<and> code c \<le> 90 then Some (code c - 55)
      else None)"

fun parse_digits :: "nat \<Rightarrow> nat \<Rightarrow> string \<Rightarrow> nat option" where
  "parse_digits radix acc [] = Some acc"
| "parse_digits radix acc (c # cs) =
     (case digit_value c of
        None \<Rightarrow> None
      | Some d \<Rightarrow> if d < radix then parse_digits radix (acc * radix + d) cs else None)"

text \<open>
  \<open>from_str_radix\<close> of an unsigned type with maximum \<open>m\<close>: an optional plus sign, at least one
  digit, no overflow. \<open>parse_int\<close> is the signed version, with the minus sign accepted.
\<close>

definition parse_uint :: "nat \<Rightarrow> nat \<Rightarrow> string \<Rightarrow> nat option" where
  "parse_uint radix m s =
     (let t = (case s of CHR ''+'' # r \<Rightarrow> r | _ \<Rightarrow> s) in
      if t = [] then None
      else case parse_digits radix 0 t of None \<Rightarrow> None | Some n \<Rightarrow> if n \<le> m then Some n else None)"

definition parse_int :: "nat \<Rightarrow> string \<Rightarrow> int option" where
  "parse_int bits s =
     (case s of
        CHR ''-'' # r \<Rightarrow>
          (if r = [] then None
           else case parse_digits 10 0 r of
                  None \<Rightarrow> None
                | Some n \<Rightarrow> if n \<le> 2 ^ (bits - 1) then Some (- int n) else None)
      | _ \<Rightarrow> map_option int (parse_uint 10 (2 ^ (bits - 1) - 1) s))"

definition U16_MAX :: nat where "U16_MAX = 65535"
definition U32_MAX :: nat where "U32_MAX = 4294967295"
definition U64_MAX :: nat where "U64_MAX = 18446744073709551615"
definition USIZE_MAX :: nat where "USIZE_MAX = U32_MAX"

lemmas int_max_defs = U16_MAX_def U32_MAX_def U64_MAX_def USIZE_MAX_def

text \<open>Decimal \<open>Display\<close> of an unsigned integer.\<close>

definition digit_char :: "nat \<Rightarrow> char" where
  "digit_char d = char_of (48 + d)"

fun show_nat :: "nat \<Rightarrow> string" where
  "show_nat n = (if n < 10 then [digit_char n] else show_nat (n div 10) @ [digit_char (n mod 10)])"

declare show_nat.simps [simp del]

lemma code_digit_char [simp]: "d < 10 \<Longrightarrow> code (digit_char d) = 48 + d"
  by (simp add: digit_char_def)

lemma digit_value_digit_char [simp]: "d < 10 \<Longrightarrow> digit_value (digit_char d) = Some d"
  by (simp add: digit_value_def is_digit_def)

lemma is_digit_digit_char [simp]: "d < 10 \<Longrightarrow> is_digit (digit_char d)"
  by (simp add: is_digit_def)

lemma show_nat_digits: "c \<in> set (show_nat n) \<Longrightarrow> is_digit c"
proof (induction n rule: show_nat.induct)
  case (1 n)
  then show ?case by (subst (asm) (2) show_nat.simps) (auto split: if_splits)
qed

lemma show_nat_neq_Nil [simp]: "show_nat n \<noteq> []"
  by (subst show_nat.simps) simp

lemma parse_digits_append:
  "parse_digits r a (s @ t) =
     (case parse_digits r a s of None \<Rightarrow> None | Some b \<Rightarrow> parse_digits r b t)"
  by (induction r a s rule: parse_digits.induct) (auto split: option.splits)

lemma parse_digits_show_nat: "parse_digits 10 0 (show_nat n) = Some n"
proof (induction n rule: show_nat.induct)
  case (1 n)
  show ?case
  proof (cases "n < 10")
    case True
    then show ?thesis by (subst show_nat.simps) simp
  next
    case False
    with 1 show ?thesis by (subst show_nat.simps) (simp add: parse_digits_append)
  qed
qed

lemma digit_not_sign: "is_digit c \<Longrightarrow> c \<noteq> CHR ''+'' \<and> c \<noteq> CHR ''-''"
  by (auto simp: is_digit_def)

lemma show_nat_head: "\<exists>c cs. show_nat n = c # cs \<and> is_digit c"
  by (metis list.exhaust list.set_intros(1) show_nat_digits show_nat_neq_Nil)

lemma parse_uint_show_nat:
  assumes "n \<le> m"
  shows "parse_uint 10 m (show_nat n) = Some n"
proof -
  obtain c cs where c: "show_nat n = c # cs" "is_digit c" using show_nat_head by blast
  then have "(case show_nat n of CHR ''+'' # r \<Rightarrow> r | _ \<Rightarrow> show_nat n) = show_nat n"
    using digit_not_sign [OF c(2)] by (auto split: char.splits bool.splits)
  then show ?thesis
    using assms by (simp add: parse_uint_def Let_def parse_digits_show_nat)
qed

lemma parse_int_show_nat:
  assumes "n < 2 ^ (bits - 1)"
  shows "parse_int bits (show_nat n) = Some (int n)"
proof -
  obtain c cs where c: "show_nat n = c # cs" "is_digit c" using show_nat_head by blast
  then have "parse_int bits (show_nat n) =
      map_option int (parse_uint 10 (2 ^ (bits - 1) - 1) (show_nat n))"
    using digit_not_sign [OF c(2)] by (auto simp: parse_int_def split: char.splits bool.splits)
  then show ?thesis using assms by (simp add: parse_uint_show_nat)
qed

text \<open>Printing and parsing of decimals is a codec on the values that fit.\<close>

interpretation dec_u32: codec show_nat "parse_uint 10 U32_MAX" "\<lambda>n. n \<le> U32_MAX"
  by unfold_locales (rule parse_uint_show_nat)

lemma show_nat_inj: "show_nat m = show_nat n \<Longrightarrow> m = n"
  by (metis option.inject parse_digits_show_nat)

section \<open>Lines\<close>

text \<open>\<open>str::split_once\<close> on a character and \<open>str::lines\<close>: a line loses its terminator, LF or CR LF;
  an unterminated last line is kept as it is.\<close>

fun split_once :: "char \<Rightarrow> string \<Rightarrow> (string \<times> string) option" where
  "split_once d [] = None"
| "split_once d (c # cs) =
     (if c = d then Some ([], cs) else map_option (\<lambda>(a, b). (c # a, b)) (split_once d cs))"

definition strip_cr :: "string \<Rightarrow> string" where
  "strip_cr s = (if s \<noteq> [] \<and> last s = CR then butlast s else s)"

definition str_lines :: "string \<Rightarrow> string list" where
  "str_lines s =
     (let ps = split_on LF s
      in map strip_cr (butlast ps) @ (if last ps = [] then [] else [last ps]))"

definition unlines :: "string list \<Rightarrow> string" where
  "unlines ls = concat (map (\<lambda>l. l @ [LF]) ls)"

lemma split_once_Some: "split_once d s = Some (a, b) \<longleftrightarrow> s = a @ d # b \<and> d \<notin> set a"
proof (induction s arbitrary: a)
  case (Cons c s)
  then show ?case by (cases a) auto
qed simp

lemma split_once_append: "d \<notin> set a \<Longrightarrow> split_once d (a @ d # b) = Some (a, b)"
  by (induction a) auto

lemma str_lines_Cons: "LF \<notin> set l \<Longrightarrow> str_lines (l @ LF # s) = strip_cr l # str_lines s"
  by (simp add: str_lines_def split_on_append Let_def)

lemma str_lines_unlines:
  "\<forall>l\<in>set ls. LF \<notin> set l \<and> CR \<notin> set l \<Longrightarrow> str_lines (unlines ls) = ls"
proof (induction ls)
  case Nil
  then show ?case by (simp add: str_lines_def unlines_def)
next
  case (Cons l ls)
  then have "strip_cr l = l" using last_in_set [of l] by (auto simp: strip_cr_def simp del: last_in_set)
  with Cons show ?case using str_lines_Cons [of l "unlines ls"] by (simp add: unlines_def)
qed

lemma utf8_tail_append:
  "utf8_tail b bs = Some n \<Longrightarrow> utf8_tail b (bs @ cs) = Some n \<and> n \<le> length bs"
  by (auto simp: utf8_tail_def split: if_splits list.splits)

lemma utf8_bytes_append: "utf8_bytes as \<Longrightarrow> utf8_bytes (as @ bs) = utf8_bytes bs"
proof (induction as rule: utf8_bytes.induct)
  case (2 b as)
  then obtain n where "utf8_tail b as = Some n" "utf8_bytes (drop n as)"
    by (auto split: option.splits)
  with 2 utf8_tail_append [of b as n bs] show ?case by simp
qed simp

lemma utf8_valid_append: "utf8_valid a \<Longrightarrow> utf8_valid b \<Longrightarrow> utf8_valid (a @ b)"
  by (simp add: utf8_valid_def utf8_bytes_append)

lemma utf8_valid_unlines: "\<forall>l\<in>set ls. utf8_valid l \<Longrightarrow> utf8_valid (unlines ls)"
proof (induction ls)
  case (Cons l ls)
  have "utf8_valid [LF]" by (rule utf8_valid_ascii) (simp add: LF_def)
  with Cons have "utf8_valid (l @ [LF] @ unlines ls)" by (intro utf8_valid_append) auto
  then show ?case by (simp add: unlines_def)
qed (simp add: unlines_def utf8_valid_def)

section \<open>Ill-formed bytes\<close>

text \<open>How many bytes one replacement character stands for when the text at the lead byte \<open>b\<close> is ill-formed:
  the lead byte and what follows of a well-formed character.\<close>

definition bad_length :: "nat \<Rightarrow> nat list \<Rightarrow> nat" where
  "bad_length b bs =
     (if 224 \<le> b \<and> b \<le> 239 then
        (case bs of c1 # _ \<Rightarrow> if is_cont c1 \<and> (b = 224 \<longrightarrow> 160 \<le> c1) \<and> (b = 237 \<longrightarrow> c1 \<le> 159) then 2 else 1 | _ \<Rightarrow> 1)
      else if 240 \<le> b \<and> b \<le> 244 then
        (case bs of c1 # cs \<Rightarrow>
           if is_cont c1 \<and> (b = 240 \<longrightarrow> 144 \<le> c1) \<and> (b = 244 \<longrightarrow> c1 \<le> 143) then
             (case cs of c2 # _ \<Rightarrow> if is_cont c2 then 3 else 2 | _ \<Rightarrow> 2)
           else 1
         | _ \<Rightarrow> 1)
      else 1)"

text \<open>\<open>String::from_utf8_lossy\<close>: U+FFFD for every ill-formed piece.\<close>

function utf8_lossy :: "string \<Rightarrow> string" where
  "utf8_lossy [] = []"
| "utf8_lossy (c # cs) =
     (case utf8_tail (code c) (map of_char cs) of
        Some n \<Rightarrow> c # take n cs @ utf8_lossy (drop n cs)
      | None \<Rightarrow> bytes_of [239, 191, 189] @ utf8_lossy (drop (bad_length (code c) (map of_char cs) - 1) cs))"
  by pat_completeness auto
termination
  by (relation "measure length") auto

end
