(* ===== verification/Permissions.thy ===== *)
theory Permissions
  imports Rust_Str
begin

text \<open>
  The permission table (\<open>components/kernel_rs/src/permissions.rs\<close>): sixteen fixed slots, each a
  NUL-padded 64-byte application id and a bit mask. \<open>grant\<close>, \<open>revoke\<close>, \<open>check\<close> and \<open>get\<close> take
  the table explicitly (the source keeps it behind a mutex). The table refines the abstract
  permission map of the locale \<open>perm_store\<close>.
\<close>

section \<open>Flags\<close>

definition PERM_RADIO :: u32 where "PERM_RADIO = 0x01"
definition PERM_GPS :: u32 where "PERM_GPS = 0x02"
definition PERM_STORAGE :: u32 where "PERM_STORAGE = 0x04"
definition PERM_NETWORK :: u32 where "PERM_NETWORK = 0x08"
definition PERM_AUDIO :: u32 where "PERM_AUDIO = 0x10"
definition PERM_SYSTEM :: u32 where "PERM_SYSTEM = 0x20"
definition PERM_IPC :: u32 where "PERM_IPC = 0x40"
definition PERM_ALL :: u32 where "PERM_ALL = 0x7F"

lemmas perm_flag_defs = PERM_RADIO_def PERM_GPS_def PERM_STORAGE_def PERM_NETWORK_def
  PERM_AUDIO_def PERM_SYSTEM_def PERM_IPC_def PERM_ALL_def

section \<open>The slot table\<close>

definition MAX_APPS :: nat where "MAX_APPS = 16"
definition APP_ID_LEN :: nat where "APP_ID_LEN = 64"

record app_perms =
  ap_id :: string
  ap_perms :: u32

type_synonym perm_table = "app_perms list"

definition empty_slot :: app_perms where
  "empty_slot = \<lparr>ap_id = replicate APP_ID_LEN NUL, ap_perms = 0\<rparr>"

definition is_free :: "app_perms \<Rightarrow> bool" where
  "is_free s \<longleftrightarrow> ap_id s ! 0 = NUL"

definition slot_matches :: "string \<Rightarrow> app_perms \<Rightarrow> bool" where
  "slot_matches a s \<longleftrightarrow>
     (if is_free s then False
      else if utf8_valid (ap_id s) then trim_end_matches NUL (ap_id s) = a
      else False)"

definition set_id :: "string \<Rightarrow> app_perms \<Rightarrow> app_perms" where
  "set_id a s =
     (let len = min (length a) (APP_ID_LEN - 1)
      in s\<lparr>ap_id := take len a @ replicate (APP_ID_LEN - len) NUL\<rparr>)"

section \<open>Operations\<close>

definition perm_init :: "perm_table \<Rightarrow> int \<times> perm_table" where
  "perm_init t = (ESP_OK, map (\<lambda>_. empty_slot) t)"

definition grant :: "perm_table \<Rightarrow> string \<Rightarrow> u32 \<Rightarrow> int \<times> perm_table" where
  "grant t a p =
     (if a = [] then (ESP_ERR_INVALID_ARG, t)
      else case update_first (slot_matches a) (\<lambda>s. s\<lparr>ap_perms := ap_perms s OR p\<rparr>) t of
        Some t' \<Rightarrow> (ESP_OK, t')
      | None \<Rightarrow>
          (case update_first is_free (\<lambda>s. (set_id a s)\<lparr>ap_perms := p\<rparr>) t of
             Some t' \<Rightarrow> (ESP_OK, t')
           | None \<Rightarrow> (ESP_ERR_NO_MEM, t)))"

definition revoke :: "perm_table \<Rightarrow> string \<Rightarrow> u32 \<Rightarrow> int \<times> perm_table" where
  "revoke t a p =
     (if a = [] then (ESP_ERR_INVALID_ARG, t)
      else case update_first (slot_matches a) (\<lambda>s. s\<lparr>ap_perms := ap_perms s AND NOT p\<rparr>) t of
        Some t' \<Rightarrow> (ESP_OK, t')
      | None \<Rightarrow> (ESP_ERR_NOT_FOUND, t))"

definition check :: "perm_table \<Rightarrow> string \<Rightarrow> u32 \<Rightarrow> bool" where
  "check t a p =
     (if a = [] then False
      else case find (slot_matches a) t of
        None \<Rightarrow> False
      | Some s \<Rightarrow> ap_perms s AND p = p)"

definition perm_get :: "perm_table \<Rightarrow> string \<Rightarrow> u32" where
  "perm_get t a =
     (if a = [] then 0
      else case find (slot_matches a) t of None \<Rightarrow> 0 | Some s \<Rightarrow> ap_perms s)"

section \<open>Names of permissions\<close>

definition flag_of_name :: "string \<Rightarrow> u32" where
  "flag_of_name n =
     (if n = ''radio'' then PERM_RADIO
      else if n = ''gps'' then PERM_GPS
      else if n = ''storage'' then PERM_STORAGE
      else if n = ''network'' then PERM_NETWORK
      else if n = ''audio'' then PERM_AUDIO
      else if n = ''system'' then PERM_SYSTEM
      else if n = ''ipc'' then PERM_IPC
      else if n = ''all'' then PERM_ALL
      else 0)"

definition perm_parse :: "string \<Rightarrow> u32" where
  "perm_parse name =
     fold (\<lambda>tok acc. acc OR flag_of_name (to_ascii_lower tok)) (map trim (split_on CHR '','' name)) 0"

definition perm_flags :: "(string \<times> u32) list" where
  "perm_flags =
     [(''radio'', PERM_RADIO), (''gps'', PERM_GPS), (''storage'', PERM_STORAGE),
      (''network'', PERM_NETWORK), (''audio'', PERM_AUDIO), (''system'', PERM_SYSTEM),
      (''ipc'', PERM_IPC)]"

definition perm_to_string :: "u32 \<Rightarrow> string" where
  "perm_to_string p = join '','' (map fst (filter (\<lambda>(_, flag). p AND flag \<noteq> 0) perm_flags))"

section \<open>The C interface\<close>

text \<open>A \<open>char *\<close> argument is \<open>None\<close> for NULL and otherwise the bytes up to the terminator.\<close>

definition permissions_grant :: "perm_table \<Rightarrow> string option \<Rightarrow> u32 \<Rightarrow> int \<times> perm_table" where
  "permissions_grant t a p =
     (case a of None \<Rightarrow> (ESP_ERR_INVALID_ARG, t)
      | Some s \<Rightarrow> if utf8_valid s then grant t s p else (ESP_ERR_INVALID_ARG, t))"

definition permissions_revoke :: "perm_table \<Rightarrow> string option \<Rightarrow> u32 \<Rightarrow> int \<times> perm_table" where
  "permissions_revoke t a p =
     (case a of None \<Rightarrow> (ESP_ERR_INVALID_ARG, t)
      | Some s \<Rightarrow> if utf8_valid s then revoke t s p else (ESP_ERR_INVALID_ARG, t))"

definition permissions_check :: "perm_table \<Rightarrow> string option \<Rightarrow> u32 \<Rightarrow> int" where
  "permissions_check t a p =
     (case a of None \<Rightarrow> 0
      | Some s \<Rightarrow> if utf8_valid s then (if check t s p then 1 else 0) else 0)"

definition permissions_get :: "perm_table \<Rightarrow> string option \<Rightarrow> u32" where
  "permissions_get t a =
     (case a of None \<Rightarrow> 0 | Some s \<Rightarrow> if utf8_valid s then perm_get t s else 0)"

definition permissions_parse :: "string option \<Rightarrow> u32" where
  "permissions_parse a =
     (case a of None \<Rightarrow> 0
      | Some s \<Rightarrow>
          if utf8_valid s then
            (let n = to_ascii_lower s in if n = ''all'' then 0 else flag_of_name n)
          else 0)"

text \<open>The bytes written to a buffer of \<open>n\<close> bytes; \<open>None\<close>: nothing is written.\<close>

definition permissions_to_string :: "u32 \<Rightarrow> nat \<Rightarrow> string option" where
  "permissions_to_string p n = (if n = 0 then None else Some (take (n - 1) (perm_to_string p) @ [NUL]))"

section \<open>The slot invariant\<close>

definition slot_ok :: "app_perms \<Rightarrow> bool" where
  "slot_ok s \<longleftrightarrow> length (ap_id s) = APP_ID_LEN \<and> last (ap_id s) = NUL"

definition perm_inv :: "perm_table \<Rightarrow> bool" where
  "perm_inv t \<longleftrightarrow> length t = MAX_APPS \<and> (\<forall>s\<in>set t. slot_ok s)"

text \<open>The ids a slot can hold unchanged: not empty, at most 63 bytes, no NUL at either end.\<close>

definition valid_id :: "string \<Rightarrow> bool" where
  "valid_id a \<longleftrightarrow> a \<noteq> [] \<and> length a < APP_ID_LEN \<and> hd a \<noteq> NUL \<and> last a \<noteq> NUL \<and> utf8_valid a"

datatype perm_op = Init | Grant string u32 | Revoke string u32

fun perm_step :: "perm_op \<Rightarrow> perm_table \<Rightarrow> perm_table" where
  "perm_step Init t = snd (perm_init t)"
| "perm_step (Grant a p) t = snd (grant t a p)"
| "perm_step (Revoke a p) t = snd (revoke t a p)"

lemma slot_ok_set_id [simp]: "slot_ok (set_id a s)"
  by (simp add: slot_ok_def set_id_def Let_def APP_ID_LEN_def min_def)

lemma slot_ok_perms [simp]: "slot_ok (s\<lparr>ap_perms := p\<rparr>) = slot_ok s"
  by (simp add: slot_ok_def)

lemma slot_matches_perms [simp]: "slot_matches a (s\<lparr>ap_perms := p\<rparr>) = slot_matches a s"
  by (simp add: slot_matches_def is_free_def)

lemma perm_inv_update:
  assumes "perm_inv t" "update_first P f t = Some t'" "\<And>s. slot_ok s \<Longrightarrow> slot_ok (f s)"
  shows "perm_inv t'"
  using assms update_first_length [OF assms(2)] update_first_set [OF assms(2)]
  by (fastforce simp: perm_inv_def)

lemma perm_inv_step: "perm_inv t \<Longrightarrow> perm_inv (perm_step e t)"
proof (cases e)
  case Init
  assume "perm_inv t"
  with Init show ?thesis
    by (auto simp: perm_init_def perm_inv_def empty_slot_def slot_ok_def APP_ID_LEN_def)
qed (auto simp: grant_def revoke_def split: option.splits elim: perm_inv_update)

interpretation perm_machine: machine perm_step perm_inv
  by unfold_locales (rule perm_inv_step)

section \<open>Slots as a map\<close>

lemma utf8_valid_pad: "utf8_valid a \<Longrightarrow> utf8_valid (a @ replicate n NUL)"
  unfolding utf8_valid_def map_append
  by (subst utf8_bytes_append) (auto intro: utf8_bytes_ascii simp: NUL_def)

lemma slot_matches_set_id:
  assumes "valid_id a"
  shows "slot_matches b (set_id a s) \<longleftrightarrow> b = a"
proof -
  have "trim_end_matches NUL (a @ replicate (APP_ID_LEN - length a) NUL) = a"
    using assms by (intro trim_end_matches_replicate) (auto simp: valid_id_def)
  moreover have "(a @ replicate (APP_ID_LEN - length a) NUL) ! 0 \<noteq> NUL"
    using assms by (cases a) (auto simp: valid_id_def)
  ultimately show ?thesis
    using assms by (auto simp: slot_matches_def is_free_def set_id_def Let_def valid_id_def
        APP_ID_LEN_def utf8_valid_pad)
qed

lemma slot_matches_not_free: "slot_matches a s \<Longrightarrow> \<not> is_free s"
  by (auto simp: slot_matches_def split: if_splits)

lemma slot_matches_unique: "slot_matches a s \<Longrightarrow> slot_matches b s \<Longrightarrow> a = b"
  by (auto simp: slot_matches_def split: if_splits)

text \<open>Rewriting the first slot that satisfies \<open>P\<close> only changes what that slot answers for.\<close>

lemma perm_get_update:
  assumes "update_first P f t = Some t'"
    and "\<And>s. P s \<Longrightarrow> slot_matches b (f s) = slot_matches b s"
    and "\<And>s. P s \<Longrightarrow> slot_matches b s \<Longrightarrow> ap_perms (f s) = ap_perms s"
  shows "perm_get t' b = perm_get t b"
proof -
  from update_first_split [OF assms(1)] obtain as x bs
    where "t = as @ x # bs" "P x" "t' = as @ f x # bs" by blast
  moreover have "find (slot_matches b) (as @ x # bs) = None \<longleftrightarrow>
      find (slot_matches b) (as @ f x # bs) = None"
    using assms(2) \<open>P x\<close> by (auto simp: find_None_iff)
  moreover have "map_option ap_perms (find (slot_matches b) (as @ x # bs)) =
      map_option ap_perms (find (slot_matches b) (as @ f x # bs))"
    using assms(2,3) \<open>P x\<close> by (induction as) auto
  ultimately show ?thesis
    by (auto simp: perm_get_def split: option.splits)
qed


text \<open>The abstract contract: a map from application ids to masks.\<close>

locale perm_store =
  fixes grnt :: "'t \<Rightarrow> string \<Rightarrow> u32 \<Rightarrow> int \<times> 't"
    and rvk :: "'t \<Rightarrow> string \<Rightarrow> u32 \<Rightarrow> int \<times> 't"
    and held :: "'t \<Rightarrow> string \<Rightarrow> u32"
    and ok_id :: "string \<Rightarrow> bool"
  assumes grnt_ok: "ok_id a \<Longrightarrow> grnt t a p = (ESP_OK, t') \<Longrightarrow> held t' = (held t)(a := held t a OR p)"
    and grnt_err: "grnt t a p = (c, t') \<Longrightarrow> c \<noteq> ESP_OK \<Longrightarrow> t' = t"
    and rvk_ok: "rvk t a p = (ESP_OK, t') \<Longrightarrow> held t' = (held t)(a := held t a AND NOT p)"
    and rvk_err: "rvk t a p = (c, t') \<Longrightarrow> c \<noteq> ESP_OK \<Longrightarrow> t' = t \<and> held t a = 0"
begin

lemma held_grnt:
  assumes "ok_id a"
  shows "held (snd (grnt t a p)) b = held t b \<or> b = a \<and> held (snd (grnt t a p)) b = held t b OR p"
proof (cases "fst (grnt t a p) = ESP_OK")
  case True
  then have "grnt t a p = (ESP_OK, snd (grnt t a p))" by (metis prod.collapse)
  from grnt_ok [OF assms this] show ?thesis by auto
next
  case False
  with grnt_err [of t a p "fst (grnt t a p)" "snd (grnt t a p)"] show ?thesis by simp
qed

lemma held_rvk: "held (snd (rvk t a p)) b = (if b = a then held t b AND NOT p else held t b)"
proof (cases "fst (rvk t a p) = ESP_OK")
  case True
  then have "rvk t a p = (ESP_OK, snd (rvk t a p))" by (metis prod.collapse)
  from rvk_ok [OF this] show ?thesis by auto
next
  case False
  with rvk_err [of t a p "fst (rvk t a p)" "snd (rvk t a p)"] show ?thesis by auto
qed

lemma rvk_effective: "held (snd (rvk t a p)) a AND p = 0"
  by (simp add: held_rvk and.assoc bit.conj_cancel_left)

lemma grnt_bit:
  "ok_id b \<Longrightarrow> bit (held (snd (grnt t b p)) a) n \<Longrightarrow> bit (held t a) n \<or> b = a \<and> bit p n"
  using held_grnt [of b t p a] by (auto simp: bit_or_iff)

lemma rvk_bit: "bit (held (snd (rvk t b p)) a) n \<Longrightarrow> bit (held t a) n"
  by (auto simp: held_rvk bit_and_iff split: if_splits)

end

lemma perm_get_eq:
  "a \<noteq> [] \<Longrightarrow> perm_get t a = (case find (slot_matches a) t of None \<Rightarrow> 0 | Some s \<Rightarrow> ap_perms s)"
  by (simp add: perm_get_def)

lemma perm_get_first:
  assumes "t = as @ x # bs" "\<forall>s\<in>set as. \<not> slot_matches a s" "slot_matches a x" "a \<noteq> []"
  shows "perm_get t a = ap_perms x"
  using assms by (simp add: perm_get_def find_append_miss)

lemma perm_get_miss: "\<forall>s\<in>set t. \<not> slot_matches a s \<Longrightarrow> perm_get t a = 0"
  by (auto simp: perm_get_def split: option.splits dest: find_Some_split)

lemma update_match_get:
  assumes "update_first (slot_matches a) (\<lambda>s. s\<lparr>ap_perms := h (ap_perms s)\<rparr>) t = Some t'" "a \<noteq> []"
  shows "perm_get t' = (perm_get t)(a := h (perm_get t a))"
proof
  fix b
  show "perm_get t' b = ((perm_get t)(a := h (perm_get t a))) b"
  proof (cases "b = a")
    case False
    then show ?thesis
      by (simp, intro perm_get_update [OF assms(1)]) (auto dest: slot_matches_unique)
  next
    case True
    from update_first_split [OF assms(1)] obtain as x bs where s:
      "t = as @ x # bs" "\<forall>s\<in>set as. \<not> slot_matches a s" "slot_matches a x"
      "t' = as @ x\<lparr>ap_perms := h (ap_perms x)\<rparr> # bs" by blast
    then have "perm_get t a = ap_perms x" "perm_get t' a = h (ap_perms x)"
      using assms(2) perm_get_first [OF s(1-3)] perm_get_first [OF s(4,2)] by auto
    with True show ?thesis by simp
  qed
qed

lemma update_free_get:
  assumes "update_first is_free (\<lambda>s. (set_id a s)\<lparr>ap_perms := p\<rparr>) t = Some t'"
    and "valid_id a" "\<forall>s\<in>set t. \<not> slot_matches a s"
  shows "perm_get t' = (perm_get t)(a := p)"
proof
  fix b
  show "perm_get t' b = ((perm_get t)(a := p)) b"
  proof (cases "b = a")
    case False
    then show ?thesis
      using assms(2) by (simp, intro perm_get_update [OF assms(1)])
        (auto simp: slot_matches_set_id dest: slot_matches_not_free)
  next
    case True
    from update_first_split [OF assms(1)] obtain as x bs where s:
      "t = as @ x # bs" "t' = as @ (set_id a x)\<lparr>ap_perms := p\<rparr> # bs" by blast
    with assms(3) have "\<forall>s\<in>set as. \<not> slot_matches a s" by simp
    with True s(2) perm_get_first [of t' as "(set_id a x)\<lparr>ap_perms := p\<rparr>" bs a] assms(2)
    show ?thesis by (simp add: slot_matches_set_id valid_id_def)
  qed
qed

lemma grant_ok_get:
  assumes "valid_id a" "grant t a p = (ESP_OK, t')"
  shows "perm_get t' = (perm_get t)(a := perm_get t a OR p)"
proof (cases "update_first (slot_matches a) (\<lambda>s. s\<lparr>ap_perms := ap_perms s OR p\<rparr>) t")
  case None
  then have miss: "\<forall>s\<in>set t. \<not> slot_matches a s" by (simp add: table_simps)
  from None assms have "update_first is_free (\<lambda>s. (set_id a s)\<lparr>ap_perms := p\<rparr>) t = Some t'"
    by (auto simp: grant_def split: if_splits option.splits)
  from update_free_get [OF this assms(1) miss] show ?thesis
    by (simp add: perm_get_miss [OF miss])
next
  case (Some u)
  with assms have "u = t'" "a \<noteq> []" by (auto simp: grant_def split: if_splits)
  with update_match_get [of a "\<lambda>m. m OR p"] Some show ?thesis by auto
qed

lemma revoke_ok_get:
  assumes "revoke t a p = (ESP_OK, t')"
  shows "perm_get t' = (perm_get t)(a := perm_get t a AND NOT p)"
  using assms update_match_get [of a "\<lambda>m. m AND NOT p" t t']
  by (auto simp: revoke_def split: if_splits option.splits)

interpretation perms: perm_store grant revoke perm_get valid_id
proof unfold_locales
  show "perm_get t' = (perm_get t)(a := perm_get t a OR p)"
    if "valid_id a" "grant t a p = (ESP_OK, t')" for a t p t'
    using that by (rule grant_ok_get)
  show "t' = t" if "grant t a p = (c, t')" "c \<noteq> ESP_OK" for t a p c t'
    using that by (auto simp: grant_def split: if_splits option.splits)
  show "perm_get t' = (perm_get t)(a := perm_get t a AND NOT p)"
    if "revoke t a p = (ESP_OK, t')" for t a p t'
    using that by (rule revoke_ok_get)
  show "t' = t \<and> perm_get t a = 0" if "revoke t a p = (c, t')" "c \<noteq> ESP_OK" for t a p c t'
    using that by (auto simp: revoke_def table_simps perm_get_miss split: if_splits option.splits)
      (simp add: perm_get_def)
qed

lemma perm_get_init [simp]: "perm_get (snd (perm_init t)) a = 0"
  by (rule perm_get_miss)
    (auto simp: perm_init_def empty_slot_def slot_matches_def is_free_def APP_ID_LEN_def)


lemma grant_cases:
  assumes "valid_id a"
  shows "if fst (grant t a p) = ESP_OK
         then perm_get (snd (grant t a p)) = (perm_get t)(a := perm_get t a OR p)
         else snd (grant t a p) = t"
proof -
  obtain c t' where "grant t a p = (c, t')" by fastforce
  with perms.grnt_ok [OF assms] perms.grnt_err show ?thesis by auto
qed

lemma grant_code:
  "fst (grant t a p) =
     (if a = [] then ESP_ERR_INVALID_ARG
      else if \<exists>s\<in>set t. slot_matches a s \<or> is_free s then ESP_OK
      else ESP_ERR_NO_MEM)"
  by (auto simp: grant_def table_simps split: option.splits dest: update_first_Some_ex)

lemma check_get_iff: "p \<noteq> 0 \<Longrightarrow> check t a p \<longleftrightarrow> perm_get t a AND p = p"
  by (auto simp: check_def perm_get_def split: option.splits)

lemma long_id_no_match:
  assumes "perm_inv t" "APP_ID_LEN \<le> length a"
  shows "\<forall>s\<in>set t. \<not> slot_matches a s"
proof
  fix s assume "s \<in> set t"
  with assms(1) have "length (ap_id s) = APP_ID_LEN" "last (ap_id s) = NUL"
    by (auto simp: perm_inv_def slot_ok_def)
  then have "length (trim_end_matches NUL (ap_id s)) < APP_ID_LEN"
    using trim_end_matches_shorter [of "ap_id s" NUL] by (cases "ap_id s = []") (auto simp: APP_ID_LEN_def)
  with assms(2) show "\<not> slot_matches a s"
    by (auto simp: slot_matches_def split: if_splits)
qed

section \<open>Properties\<close>


definition table0 :: perm_table where "table0 = replicate MAX_APPS empty_slot"

lemma valid_id_abc: "valid_id ''abc''"
  by (simp add: valid_id_def NUL_def APP_ID_LEN_def utf8_valid_ascii)


text \<open>Refinement: a successful grant adds exactly its bits to exactly its application, and a
  revoke clears exactly its bits of exactly its application, whatever code it returns.\<close>

theorem perm_refines_map:
  assumes "valid_id a"
  shows "(if fst (grant t a p) = ESP_OK
          then perm_get (snd (grant t a p)) = (perm_get t)(a := perm_get t a OR p)
          else snd (grant t a p) = t) \<and>
         perm_get (snd (revoke t b q)) = (perm_get t)(b := perm_get t b AND NOT q)"
  using grant_cases [OF assms] by (auto simp: perms.held_rvk fun_eq_iff)

theorem perm_refines_map_witness:
  "perm_get (snd (grant table0 ''abc'' 5)) ''abc'' = 5 \<and>
   perm_get (snd (revoke (snd (grant table0 ''abc'' 5)) ''abc'' 4)) ''abc'' = 1"
proof -
  have "fst (grant table0 ''abc'' 5) = ESP_OK" "perm_get table0 ''abc'' = 0" by code_simp+
  with perm_refines_map [OF valid_id_abc, of table0 5 "''abc''" 4]
    perm_refines_map [OF valid_id_abc, of "snd (grant table0 ''abc'' 5)" 0 "''abc''" 4]
  show ?thesis by simp
qed

text \<open>Which code \<open>grant\<close> returns: out of memory exactly when no slot carries the id and
  none is free.\<close>

theorem grant_codes:
  "fst (grant t a p) =
     (if a = [] then ESP_ERR_INVALID_ARG
      else if (\<exists>s\<in>set t. slot_matches a s \<or> is_free s) then ESP_OK
      else ESP_ERR_NO_MEM)"
  by (rule grant_code)

text \<open>An id of 64 bytes or more is cut to 63 bytes when it is stored: the grant succeeds, the
  application it was made for does not hold the permission, and the application whose id is the
  first 63 bytes does.\<close>

theorem grant_long_id_misdirected:
  assumes "perm_inv t" "APP_ID_LEN \<le> length a" "valid_id (take (APP_ID_LEN - 1) a)"
    and "\<forall>s\<in>set t. \<not> slot_matches (take (APP_ID_LEN - 1) a) s" "\<exists>s\<in>set t. is_free s" "p \<noteq> 0"
  shows "fst (grant t a p) = ESP_OK \<and> \<not> check (snd (grant t a p)) a p
         \<and> check (snd (grant t a p)) (take (APP_ID_LEN - 1) a) p"
proof -
  let ?b = "take (APP_ID_LEN - 1) a"
  have set_eq: "set_id a = set_id ?b"
    using assms(2) by (auto simp: set_id_def Let_def APP_ID_LEN_def min_def fun_eq_iff)
  have ne: "a \<noteq> []" "?b \<noteq> []" using assms(2) by (auto simp: APP_ID_LEN_def)
  have eq: "grant t a p = grant t ?b p"
    using ne assms(4) long_id_no_match [OF assms(1,2)]
    by (simp add: grant_def set_eq update_first_None [THEN iffD2])
  have ok: "fst (grant t ?b p) = ESP_OK"
    using ne assms(5) by (auto simp: grant_code)
  have "perm_get (snd (grant t ?b p)) ?b = p"
    using grant_cases [OF assms(3), of t p] ok perm_get_miss [OF assms(4)] by simp
  with eq have "check (snd (grant t a p)) ?b p" by (simp add: check_get_iff [OF assms(6)])
  moreover have "perm_inv (snd (grant t a p))"
    using perm_inv_step [OF assms(1), of "Grant a p"] by simp
  then have "perm_get (snd (grant t a p)) a = 0"
    using long_id_no_match [OF _ assms(2)] by (intro perm_get_miss) auto
  then have "\<not> check (snd (grant t a p)) a p" using assms(6) by (simp add: check_get_iff)
  ultimately show ?thesis using eq ok by simp
qed

theorem grant_long_id_misdirected_witness:
  "let a = replicate 64 CHR ''x''; t = grant table0 a PERM_SYSTEM
   in \<not> check (snd t) a PERM_SYSTEM \<and> check (snd t) (replicate 63 CHR ''x'') PERM_SYSTEM"
proof -
  let ?a = "replicate 64 CHR ''x''"
  have b: "take (APP_ID_LEN - 1) ?a = replicate 63 CHR ''x''" by (simp add: APP_ID_LEN_def)
  have "perm_inv table0"
    by (simp add: perm_inv_def table0_def slot_ok_def empty_slot_def APP_ID_LEN_def)
  moreover have "valid_id (take (APP_ID_LEN - 1) ?a)"
    unfolding b by (auto simp: valid_id_def APP_ID_LEN_def NUL_def intro: utf8_valid_ascii)
  moreover have "\<forall>s\<in>set table0. \<not> slot_matches (take (APP_ID_LEN - 1) ?a) s" "\<exists>s\<in>set table0. is_free s"
    by (auto simp: table0_def MAX_APPS_def empty_slot_def slot_matches_def is_free_def APP_ID_LEN_def)
  ultimately show ?thesis
    using grant_long_id_misdirected [of table0 ?a PERM_SYSTEM] b
    by (simp add: APP_ID_LEN_def PERM_SYSTEM_def Let_def)
qed

lemma fold_or: "fold (\<lambda>w acc. acc OR w) ws (a :: u32) = a OR fold (\<lambda>w acc. acc OR w) ws 0"
proof (induction ws arbitrary: a)
  case Nil
  then show ?case by simp
next
  case (Cons w ws)
  from Cons [of "a OR w"] Cons [of w] show ?case by (simp add: or.assoc)
qed

lemma perm_parse_join:
  assumes "ns \<noteq> []" "\<forall>n\<in>set ns. CHR '','' \<notin> set n \<and> trim n = n \<and> to_ascii_lower n = n"
  shows "perm_parse (join '','' ns) = fold (\<lambda>w acc. acc OR w) (map flag_of_name ns) 0"
proof -
  have "perm_parse (join '','' ns) = fold (\<lambda>tok acc. acc OR flag_of_name (to_ascii_lower tok)) (map trim ns) 0"
    using assms by (simp add: perm_parse_def split_on_join)
  also have "map trim ns = ns" using assms(2) by (simp add: map_idI)
  also have "fold (\<lambda>tok acc. acc OR flag_of_name (to_ascii_lower tok)) ns 0 =
      fold (\<lambda>tok acc. acc OR flag_of_name tok) ns 0"
    using assms(2) by (intro fold_cong) auto
  finally show ?thesis by (simp add: fold_map comp_def)
qed

definition plain_name :: "string \<Rightarrow> bool" where
  "plain_name n \<longleftrightarrow> CHR '','' \<notin> set n \<and> (\<forall>c\<in>set n. not_ws_byte c \<and> \<not> is_upper c)"

lemma plain_name_fixed: "plain_name n \<Longrightarrow> CHR '','' \<notin> set n \<and> trim n = n \<and> to_ascii_lower n = n"
  by (auto simp: plain_name_def to_ascii_lower_def trim_id intro!: map_idI)

lemma perm_flags_plain: "list_all (\<lambda>(n, f). plain_name n \<and> flag_of_name n = f) perm_flags"
  by (simp add: perm_flags_def plain_name_def not_ws_byte_def is_upper_def flag_of_name_def)

lemma perm_flags_names: "(n, f) \<in> set perm_flags \<Longrightarrow> plain_name n \<and> flag_of_name n = f"
  using perm_flags_plain by (fastforce simp: list_all_iff)

lemma single_bit: "w = 2 ^ k \<Longrightarrow> (if p AND w \<noteq> 0 then w else 0) = p AND (w :: u32)"
  by (simp add: and_exp_eq_0_iff_not_bit) (auto intro!: bit_eqI simp: bit_simps)

lemma fold_filter_flags:
  "fold (\<lambda>w acc. acc OR w) (map snd (filter (\<lambda>(_, f). p AND f \<noteq> 0) perm_flags)) 0 = p AND 0x7F"
proof -
  have *: "fold (\<lambda>w acc. acc OR w) (map snd (filter (\<lambda>(_, f). p AND f \<noteq> 0) fs)) a =
      fold (\<lambda>w acc. acc OR (if p AND w \<noteq> 0 then w else 0)) (map snd fs) a"
    for fs :: "(string \<times> u32) list" and a
    by (induction fs arbitrary: a) auto
  have bits: "(if p AND 1 \<noteq> 0 then 1 else 0) = p AND 1" "(if p AND 2 \<noteq> 0 then 2 else 0) = p AND 2"
    "(if p AND 4 \<noteq> 0 then 4 else 0) = p AND 4" "(if p AND 8 \<noteq> 0 then 8 else 0) = p AND 8"
    "(if p AND 16 \<noteq> 0 then 16 else 0) = p AND 16" "(if p AND 32 \<noteq> 0 then 32 else 0) = p AND 32"
    "(if p AND 64 \<noteq> 0 then 64 else 0) = p AND 64"
    using single_bit [of 1 0 p] single_bit [of 2 1 p] single_bit [of 4 2 p] single_bit [of 8 3 p]
      single_bit [of 16 4 p] single_bit [of 32 5 p] single_bit [of 64 6 p] by simp_all
  have "map snd perm_flags = [1, 2, 4, 8, 16, 32, 64]"
    by (simp add: perm_flags_def perm_flag_defs)
  then have "fold (\<lambda>w acc. acc OR (if p AND w \<noteq> 0 then w else 0)) (map snd perm_flags) 0 =
      (((((((0 OR p AND 1) OR p AND 2) OR p AND 4) OR p AND 8) OR p AND 16) OR p AND 32) OR p AND 64)"
    by (simp only: bits fold_simps)
  also have "\<dots> = p AND 0x7F"
    by (simp only: or.left_neutral flip: bit.conj_disj_distrib) simp
  finally show ?thesis using * by simp
qed

text \<open>Printing a mask and parsing the result gives back its seven named bits.\<close>

theorem perm_parse_to_string: "perm_parse (perm_to_string p) = p AND 0x7F"
proof -
  let ?fs = "filter (\<lambda>(_, flag). p AND flag \<noteq> 0) perm_flags"
  have names: "map flag_of_name (map fst ?fs) = map snd ?fs"
    using perm_flags_names by (clarsimp simp: map_eq_conv)
  have plain: "\<forall>n\<in>set (map fst ?fs). CHR '','' \<notin> set n \<and> trim n = n \<and> to_ascii_lower n = n"
    using perm_flags_names plain_name_fixed by fastforce
  show ?thesis
  proof (cases "?fs = []")
    case True
    then have "perm_to_string p = []" by (simp add: perm_to_string_def)
    moreover have "perm_parse [] = 0"
      by (simp add: perm_parse_def trim_id flag_of_name_def to_ascii_lower_def)
    ultimately show ?thesis using fold_filter_flags [of p] True by simp
  next
    case False
    with perm_parse_join [OF _ plain] have
      "perm_parse (perm_to_string p) = fold (\<lambda>w acc. acc OR w) (map flag_of_name (map fst ?fs)) 0"
      by (simp add: perm_to_string_def del: map_map)
    then show ?thesis unfolding names fold_filter_flags .
  qed
qed

end
