(* ===== verification/Event_Bus.thy ===== *)
theory Event_Bus
  imports Thistle_Prelude "HOL-Library.Multiset"
begin

text \<open>
  The publish/subscribe bus (\<open>components/kernel_rs/src/event.rs\<close>): eight subscriber slots for
  each of seventeen event types. A handler is a C function pointer, here its address; publishing
  returns the list of the calls made, in order.
\<close>

section \<open>Event types\<close>

definition EVENT_MAX :: nat where "EVENT_MAX = 17"
definition EVENT_SUBSCRIBERS_MAX :: nat where "EVENT_SUBSCRIBERS_MAX = 8"

datatype event_type =
    SystemBoot | SystemShutdown | AppLaunched | AppStopped | AppSwitched | InputKey | InputTouch
  | RadioRx | GpsFix | BatteryLow | BatteryCharging | SdMounted | SdUnmounted | WifiConnected
  | WifiDisconnected | BleConnected | BleDisconnected

definition event_types :: "event_type list" where
  "event_types =
     [SystemBoot, SystemShutdown, AppLaunched, AppStopped, AppSwitched, InputKey, InputTouch,
      RadioRx, GpsFix, BatteryLow, BatteryCharging, SdMounted, SdUnmounted, WifiConnected,
      WifiDisconnected, BleConnected, BleDisconnected]"

fun event_type_idx :: "event_type \<Rightarrow> nat" where
  "event_type_idx SystemBoot = 0"
| "event_type_idx SystemShutdown = 1"
| "event_type_idx AppLaunched = 2"
| "event_type_idx AppStopped = 3"
| "event_type_idx AppSwitched = 4"
| "event_type_idx InputKey = 5"
| "event_type_idx InputTouch = 6"
| "event_type_idx RadioRx = 7"
| "event_type_idx GpsFix = 8"
| "event_type_idx BatteryLow = 9"
| "event_type_idx BatteryCharging = 10"
| "event_type_idx SdMounted = 11"
| "event_type_idx SdUnmounted = 12"
| "event_type_idx WifiConnected = 13"
| "event_type_idx WifiDisconnected = 14"
| "event_type_idx BleConnected = 15"
| "event_type_idx BleDisconnected = 16"

definition event_type_from_u32 :: "u32 \<Rightarrow> event_type option" where
  "event_type_from_u32 v =
     (if v = 0 then Some SystemBoot
      else if v = 1 then Some SystemShutdown
      else if v = 2 then Some AppLaunched
      else if v = 3 then Some AppStopped
      else if v = 4 then Some AppSwitched
      else if v = 5 then Some InputKey
      else if v = 6 then Some InputTouch
      else if v = 7 then Some RadioRx
      else if v = 8 then Some GpsFix
      else if v = 9 then Some BatteryLow
      else if v = 10 then Some BatteryCharging
      else if v = 11 then Some SdMounted
      else if v = 12 then Some SdUnmounted
      else if v = 13 then Some WifiConnected
      else if v = 14 then Some WifiDisconnected
      else if v = 15 then Some BleConnected
      else if v = 16 then Some BleDisconnected
      else None)"

lemma event_type_idx_nth: "i < EVENT_MAX \<Longrightarrow> event_type_idx (event_types ! i) = i"
proof -
  have "\<forall>i\<in>set [0..<17]. event_type_idx (event_types ! i) = i" by code_simp
  then show "i < EVENT_MAX \<Longrightarrow> event_type_idx (event_types ! i) = i" by (simp add: EVENT_MAX_def)
qed

lemma event_type_from_u32_eq:
  "event_type_from_u32 v = (if unat v < EVENT_MAX then Some (event_types ! unat v) else None)"
proof (cases "unat v < EVENT_MAX")
  case True
  have "\<forall>i\<in>set [0..<17]. event_type_from_u32 (word_of_nat i) = Some (event_types ! i)" by code_simp
  then have "event_type_from_u32 (word_of_nat (unat v)) = Some (event_types ! unat v)"
    by (rule bspec) (use True in \<open>simp add: EVENT_MAX_def\<close>)
  with True show ?thesis by simp
next
  case False
  then show ?thesis by (auto simp: event_type_from_u32_def EVENT_MAX_def)
qed

lemma event_type_idx_less [simp]: "event_type_idx t < EVENT_MAX"
  by (cases t) (simp_all add: EVENT_MAX_def)

section \<open>The bus\<close>

record c_event =
  ev_type :: u32
  ev_timestamp :: u32
  ev_data :: usize
  ev_data_len :: usize

record subscriber =
  sub_handler :: usize
  sub_user_data :: usize

type_synonym event_bus = "subscriber option list list"

definition new_bus :: event_bus where
  "new_bus = replicate EVENT_MAX (replicate EVENT_SUBSCRIBERS_MAX None)"

definition bus_subscribe :: "event_bus \<Rightarrow> nat \<Rightarrow> usize \<Rightarrow> usize \<Rightarrow> int \<times> event_bus" where
  "bus_subscribe b i h u =
     (case update_first (\<lambda>s. s = None) (\<lambda>_. Some \<lparr>sub_handler = h, sub_user_data = u\<rparr>) (b ! i) of
        Some slots \<Rightarrow> (ESP_OK, b[i := slots])
      | None \<Rightarrow> (ESP_ERR_NO_MEM, b))"

definition handled_by :: "usize \<Rightarrow> subscriber option \<Rightarrow> bool" where
  "handled_by h s = (case s of None \<Rightarrow> False | Some sub \<Rightarrow> sub_handler sub = h)"

definition bus_unsubscribe :: "event_bus \<Rightarrow> nat \<Rightarrow> usize \<Rightarrow> int \<times> event_bus" where
  "bus_unsubscribe b i h =
     (case update_first (handled_by h) (\<lambda>_. None) (b ! i) of
        Some slots \<Rightarrow> (ESP_OK, b[i := slots])
      | None \<Rightarrow> (ESP_ERR_NOT_FOUND, b))"

text \<open>The calls of one dispatch: handler and user data, in slot order.\<close>

fun slot_calls :: "subscriber option list \<Rightarrow> (usize \<times> usize) list" where
  "slot_calls [] = []"
| "slot_calls (None # ss) = slot_calls ss"
| "slot_calls (Some s # ss) = (sub_handler s, sub_user_data s) # slot_calls ss"

definition bus_publish :: "event_bus \<Rightarrow> c_event \<Rightarrow> int \<times> (usize \<times> usize) list" where
  "bus_publish b ev =
     (let idx = unat (ev_type ev) in
      if EVENT_MAX \<le> idx then (ESP_ERR_INVALID_ARG, []) else (ESP_OK, slot_calls (b ! idx)))"

section \<open>The C interface\<close>

definition event_bus_init :: int where "event_bus_init = ESP_OK"

definition event_subscribe :: "event_bus \<Rightarrow> u32 \<Rightarrow> usize \<Rightarrow> usize \<Rightarrow> int \<times> event_bus" where
  "event_subscribe b t h u =
     (case event_type_from_u32 t of
        None \<Rightarrow> (ESP_ERR_INVALID_ARG, b)
      | Some et \<Rightarrow> bus_subscribe b (event_type_idx et) h u)"

definition event_unsubscribe :: "event_bus \<Rightarrow> u32 \<Rightarrow> usize \<Rightarrow> int \<times> event_bus" where
  "event_unsubscribe b t h =
     (case event_type_from_u32 t of
        None \<Rightarrow> (ESP_ERR_INVALID_ARG, b)
      | Some et \<Rightarrow> bus_unsubscribe b (event_type_idx et) h)"

definition event_publish :: "event_bus \<Rightarrow> c_event option \<Rightarrow> int \<times> (usize \<times> usize) list" where
  "event_publish b ev = (case ev of None \<Rightarrow> (ESP_ERR_INVALID_ARG, []) | Some e \<Rightarrow> bus_publish b e)"

definition event_publish_simple :: "event_bus \<Rightarrow> u32 \<Rightarrow> int \<times> (usize \<times> usize) list" where
  "event_publish_simple b t =
     event_publish b (Some \<lparr>ev_type = t, ev_timestamp = 0, ev_data = 0, ev_data_len = 0\<rparr>)"

section \<open>Shape of the bus\<close>

definition bus_inv :: "event_bus \<Rightarrow> bool" where
  "bus_inv b \<longleftrightarrow> length b = EVENT_MAX \<and> (\<forall>slots\<in>set b. length slots = EVENT_SUBSCRIBERS_MAX)"

datatype bus_op = Subscribe u32 usize usize | Unsubscribe u32 usize

fun bus_step :: "bus_op \<Rightarrow> event_bus \<Rightarrow> event_bus" where
  "bus_step (Subscribe t h u) b = snd (event_subscribe b t h u)"
| "bus_step (Unsubscribe t h) b = snd (event_unsubscribe b t h)"

text \<open>What a publication of type \<open>t\<close> would call now.\<close>

definition calls :: "event_bus \<Rightarrow> u32 \<Rightarrow> (usize \<times> usize) list" where
  "calls b t = snd (event_publish_simple b t)"

definition max_calls :: "event_bus \<Rightarrow> nat" where
  "max_calls b = Max (insert 0 (set (map (length \<circ> slot_calls) b)))"

lemma calls_eq: "calls b t = (if unat t < EVENT_MAX then slot_calls (b ! unat t) else [])"
  by (simp add: calls_def event_publish_simple_def event_publish_def bus_publish_def Let_def)

lemma slot_calls_append [simp]: "slot_calls (xs @ ys) = slot_calls xs @ slot_calls ys"
  by (induction xs rule: slot_calls.induct) auto

lemma slot_calls_length: "length (slot_calls xs) \<le> length xs"
  by (induction xs rule: slot_calls.induct) auto

lemma slot_calls_replicate_None [simp]: "slot_calls (replicate n None) = []"
  by (induction n) auto

lemma bus_inv_update:
  "bus_inv b \<Longrightarrow> i < EVENT_MAX \<Longrightarrow> update_first P f (b ! i) = Some slots \<Longrightarrow> bus_inv (b[i := slots])"
  using update_first_length [of P f "b ! i" slots]
  by (auto simp: bus_inv_def dest!: set_update_subset_insert [THEN subsetD])

lemma from_u32_idx: "event_type_from_u32 t = Some et \<Longrightarrow> event_type_idx et = unat t \<and> unat t < EVENT_MAX"
  by (auto simp: event_type_from_u32_eq event_type_idx_nth split: if_splits)

lemma from_u32_iff: "(\<exists>et. event_type_from_u32 t = Some et) \<longleftrightarrow> unat t < EVENT_MAX"
  by (simp add: event_type_from_u32_eq)

lemma bus_inv_step: "bus_inv b \<Longrightarrow> bus_inv (bus_step e b)"
  by (cases e)
    (auto simp: event_subscribe_def event_unsubscribe_def bus_subscribe_def bus_unsubscribe_def
      split: option.splits intro!: bus_inv_update dest: from_u32_idx)

lemma bus_inv_max_calls: "bus_inv b \<Longrightarrow> max_calls b \<le> EVENT_SUBSCRIBERS_MAX"
  by (auto simp: max_calls_def bus_inv_def) (metis slot_calls_length)

interpretation bus: bounded_machine bus_step bus_inv max_calls EVENT_SUBSCRIBERS_MAX
  by unfold_locales (auto intro: bus_inv_step bus_inv_max_calls)

lemma new_bus_inv [simp]: "bus_inv new_bus"
  by (simp add: bus_inv_def new_bus_def)

section \<open>What subscribing and unsubscribing change\<close>

lemma subscribe_slots:
  assumes "event_subscribe b t h u = (ESP_OK, b')" "bus_inv b"
  obtains as bs where "unat t < EVENT_MAX" "b ! unat t = as @ None # bs" "None \<notin> set as"
    "b' = b[unat t := as @ Some \<lparr>sub_handler = h, sub_user_data = u\<rparr> # bs]"
proof -
  from assms obtain et slots where "event_type_from_u32 t = Some et"
    and slots: "update_first (\<lambda>s. s = None) (\<lambda>_. Some \<lparr>sub_handler = h, sub_user_data = u\<rparr>)
                  (b ! event_type_idx et) = Some slots" "b' = b[event_type_idx et := slots]"
    by (auto simp: event_subscribe_def bus_subscribe_def split: option.splits)
  then have i: "event_type_idx et = unat t" "unat t < EVENT_MAX" using from_u32_idx by auto
  from update_first_split [OF slots(1)] slots(2) i that show ?thesis by auto
qed

lemma unsubscribe_slots:
  assumes "event_unsubscribe b t h = (ESP_OK, b')" "bus_inv b"
  obtains as s bs where "unat t < EVENT_MAX" "b ! unat t = as @ Some s # bs" "sub_handler s = h"
    "\<forall>x\<in>set as. \<not> handled_by h x" "b' = b[unat t := as @ None # bs]"
proof -
  from assms obtain et slots where "event_type_from_u32 t = Some et"
    and slots: "update_first (handled_by h) (\<lambda>_. None) (b ! event_type_idx et) = Some slots"
      "b' = b[event_type_idx et := slots]"
    by (auto simp: event_unsubscribe_def bus_unsubscribe_def split: option.splits)
  then have i: "event_type_idx et = unat t" "unat t < EVENT_MAX" using from_u32_idx by auto
  from update_first_split [OF slots(1)] obtain as x bs where
    "b ! unat t = as @ x # bs" "\<forall>a\<in>set as. \<not> handled_by h a" "handled_by h x" "slots = as @ None # bs"
    using i by auto
  with slots(2) i that show ?thesis by (auto simp: handled_by_def split: option.splits)
qed

lemma calls_update:
  assumes "bus_inv b" "unat t < EVENT_MAX"
  shows "calls (b[unat t := slots]) t' = (if t' = t then slot_calls slots else calls b t')"
  using assms by (auto simp: calls_eq bus_inv_def nth_list_update simp flip: word_unat_eq_iff)

text \<open>A list of slots with no hole before a subscriber.\<close>

definition compact :: "subscriber option list \<Rightarrow> bool" where
  "compact ss \<longleftrightarrow> (\<exists>xs n. ss = map Some xs @ replicate n None)"

lemma compact_fill:
  assumes "compact (as @ None # bs)" "None \<notin> set as"
  shows "compact (as @ Some s # bs) \<and> slot_calls (as @ Some s # bs) = slot_calls (as @ None # bs) @ [(sub_handler s, sub_user_data s)]"
proof -
  from assms(1) obtain xs n where x: "as @ None # bs = map Some xs @ replicate n None"
    by (auto simp: compact_def)
  have bs: "as = map Some xs \<and> bs = replicate (n - 1) None"
    using x assms(2)
  proof (induction as arbitrary: xs)
    case Nil
    then show ?case by (cases xs; cases n) auto
  next
    case (Cons a as)
    then show ?case by (cases xs; cases n) auto
  qed
  then have "as @ Some s # bs = map Some (xs @ [s]) @ replicate (n - 1) None" by simp
  then have "compact (as @ Some s # bs)" unfolding compact_def by blast
  with bs show ?thesis by simp
qed

text \<open>Subscribing with a log of what was accepted, and what the log says of the calls.\<close>

definition subscribe_log ::
  "event_bus \<times> (u32 \<times> usize \<times> usize) list \<Rightarrow> u32 \<times> usize \<times> usize
     \<Rightarrow> event_bus \<times> (u32 \<times> usize \<times> usize) list" where
  "subscribe_log = (\<lambda>(b, log) (t, h, u).
     case event_subscribe b t h u of (c, b') \<Rightarrow> (b', if c = ESP_OK then log @ [(t, h, u)] else log))"

definition ordered :: "event_bus \<times> (u32 \<times> usize \<times> usize) list \<Rightarrow> bool" where
  "ordered = (\<lambda>(b, log). bus_inv b \<and> (\<forall>ss\<in>set b. compact ss) \<and>
     (\<forall>t. calls b t = map snd (filter (\<lambda>(t', _). t' = t) log)))"

lemma subscribe_fail: "event_subscribe b t h u = (c, b') \<Longrightarrow> c \<noteq> ESP_OK \<Longrightarrow> b' = b"
  by (auto simp: event_subscribe_def bus_subscribe_def split: option.splits)

lemma ordered_step:
  assumes "ordered (b, log)"
  shows "ordered (subscribe_log (b, log) (t, h, u))"
proof (cases "fst (event_subscribe b t h u) = ESP_OK")
  case False
  then show ?thesis
    using assms subscribe_fail [of b t h u] by (cases "event_subscribe b t h u") (auto simp: subscribe_log_def)
next
  case True
  then obtain b' where b': "event_subscribe b t h u = (ESP_OK, b')" by (metis prod.collapse)
  have inv: "bus_inv b" using assms by (simp add: ordered_def)
  from subscribe_slots [OF b' inv] obtain as bs where s:
    "unat t < EVENT_MAX" "b ! unat t = as @ None # bs" "None \<notin> set as"
    "b' = b[unat t := as @ Some \<lparr>sub_handler = h, sub_user_data = u\<rparr> # bs]" by metis
  have "b ! unat t \<in> set b" using inv s(1) by (simp add: bus_inv_def)
  with assms s(2,3) have fill: "compact (as @ Some \<lparr>sub_handler = h, sub_user_data = u\<rparr> # bs)"
    "slot_calls (as @ Some \<lparr>sub_handler = h, sub_user_data = u\<rparr> # bs) = calls b t @ [(h, u)]"
    using compact_fill [of as bs "\<lparr>sub_handler = h, sub_user_data = u\<rparr>"] s(1)
    by (auto simp: ordered_def calls_eq)
  have "bus_inv b'" using bus_inv_step [OF inv, of "Subscribe t h u"] b' by simp
  moreover have "\<forall>ss\<in>set b'. compact ss"
    using assms fill(1) s(4) by (auto simp: ordered_def dest!: set_update_subset_insert [THEN subsetD])
  moreover have "calls b' t' = map snd (filter (\<lambda>(t', _). t' = t'') (log @ [(t, h, u)]))" if "t' = t''" for t' t''
    using assms that fill(2) unfolding s(4) calls_update [OF inv s(1)] by (auto simp: ordered_def)
  ultimately show ?thesis by (simp add: subscribe_log_def b' ordered_def)
qed

lemma foldl_ordered: "ordered s \<Longrightarrow> ordered (foldl subscribe_log s subs)"
proof (induction subs arbitrary: s)
  case Nil
  then show ?case by simp
next
  case (Cons r subs)
  obtain b log t h u where "s = (b, log)" "r = (t, h, u)" by (metis prod.collapse)
  with Cons ordered_step [of b log t h u] show ?case by simp
qed

lemma ordered_new_bus: "ordered (new_bus, [])"
proof -
  have "compact (replicate n None)" for n
    by (auto simp: compact_def intro: exI [of _ "[]"])
  then have "\<forall>ss\<in>set new_bus. compact ss" by (simp add: new_bus_def)
  then show ?thesis by (simp add: ordered_def calls_eq) (simp add: new_bus_def)
qed

section \<open>Properties\<close>

text \<open>C29. Dispatch follows subscription: a successful subscription adds one call to the
  publications of its type and none elsewhere, a successful unsubscription removes the earliest
  call of that handler; the number of calls never passes eight.\<close>

theorem event_dispatch_tracks_subscriptions:
  assumes "bus_inv b"
  shows "(event_subscribe b t h u = (ESP_OK, b') \<longrightarrow>
            mset (calls b' t) = mset (calls b t) + {#(h, u)#} \<and> (\<forall>t'. t' \<noteq> t \<longrightarrow> calls b' t' = calls b t'))
       \<and> (event_unsubscribe b t h = (ESP_OK, b'') \<longrightarrow>
            (\<exists>cs v ds. calls b t = cs @ (h, v) # ds \<and> h \<notin> fst ` set cs \<and> calls b'' t = cs @ ds)
            \<and> (\<forall>t'. t' \<noteq> t \<longrightarrow> calls b'' t' = calls b t'))
       \<and> length (calls b t) \<le> EVENT_SUBSCRIBERS_MAX"
proof (intro conjI impI)
  assume "event_subscribe b t h u = (ESP_OK, b')"
  from subscribe_slots [OF this assms] obtain as bs where s:
    "unat t < EVENT_MAX" "b ! unat t = as @ None # bs"
    "b' = b[unat t := as @ Some \<lparr>sub_handler = h, sub_user_data = u\<rparr> # bs]" by metis
  show "mset (calls b' t) = mset (calls b t) + {#(h, u)#}"
    unfolding s(3) calls_update [OF assms s(1)] using s(1,2) by (simp add: calls_eq)
  show "\<forall>t'. t' \<noteq> t \<longrightarrow> calls b' t' = calls b t'"
    unfolding s(3) calls_update [OF assms s(1)] by simp
next
  assume "event_unsubscribe b t h = (ESP_OK, b'')"
  from unsubscribe_slots [OF this assms] obtain as s bs where s:
    "unat t < EVENT_MAX" "b ! unat t = as @ Some s # bs" "sub_handler s = h"
    "\<forall>x\<in>set as. \<not> handled_by h x" "b'' = b[unat t := as @ None # bs]" by metis
  have "h \<notin> fst ` set (slot_calls as)"
    using s(4) by (induction as rule: slot_calls.induct) (auto simp: handled_by_def)
  then show "\<exists>cs v ds. calls b t = cs @ (h, v) # ds \<and> h \<notin> fst ` set cs \<and> calls b'' t = cs @ ds"
    unfolding s(5) calls_update [OF assms s(1)] using s(1-3) by (auto simp: calls_eq)
  show "\<forall>t'. t' \<noteq> t \<longrightarrow> calls b'' t' = calls b t'"
    unfolding s(5) calls_update [OF assms s(1)] by simp
next
  show "length (calls b t) \<le> EVENT_SUBSCRIBERS_MAX"
    using assms slot_calls_length [of "b ! unat t"] by (auto simp: calls_eq bus_inv_def)
qed

theorem event_dispatch_tracks_subscriptions_witness:
  "calls (snd (event_subscribe new_bus 5 100 7)) 5 = [(100, 7)] \<and> calls new_bus 5 = []"
proof -
  have "fst (event_subscribe new_bus 5 100 7) = ESP_OK" by code_simp
  then have "event_subscribe new_bus 5 100 7 = (ESP_OK, snd (event_subscribe new_bus 5 100 7))"
    by (metis prod.collapse)
  moreover have "calls new_bus 5 = []" by code_simp
  ultimately show ?thesis
    using event_dispatch_tracks_subscriptions [OF new_bus_inv, of 5 100 7] by fastforce
qed

text \<open>Registration order: on a bus that has only seen subscriptions, handlers are called in the
  order in which they subscribed.\<close>

theorem event_calls_in_registration_order:
  "calls (fst (foldl subscribe_log (new_bus, []) subs)) t =
     map snd (filter (\<lambda>(t', _). t' = t) (snd (foldl subscribe_log (new_bus, []) subs)))"
proof -
  have "ordered (foldl subscribe_log (new_bus, []) subs)"
    by (rule foldl_ordered [OF ordered_new_bus])
  then show ?thesis by (auto simp: ordered_def)
qed

text \<open>Once a handler has been removed, the freed slot is the next one filled, so a later
  subscriber is called before an earlier one.\<close>

theorem event_order_after_unsubscribe:
  "calls (bus_step (Subscribe t c w) (bus_step (Unsubscribe t a) (bus_step (Subscribe t b v)
     (bus_step (Subscribe t a u) new_bus)))) t =
   (if unat t < EVENT_MAX then [(c, w), (b, v)] else [])"
proof (cases "unat t < EVENT_MAX")
  case True
  then obtain et where et: "event_type_from_u32 t = Some et" using from_u32_iff by blast
  moreover have "new_bus ! unat t = replicate 8 None"
    using True by (simp add: new_bus_def EVENT_SUBSCRIBERS_MAX_def)
  moreover have "length new_bus = EVENT_MAX" by (simp add: new_bus_def)
  ultimately show ?thesis
    using True from_u32_idx [OF et]
    by (simp add: event_subscribe_def event_unsubscribe_def bus_subscribe_def bus_unsubscribe_def
        calls_eq handled_by_def numeral_eq_Suc)
next
  case False
  then have "event_type_from_u32 t = None" by (simp add: event_type_from_u32_eq)
  with False show ?thesis by (simp add: event_subscribe_def event_unsubscribe_def calls_eq)
qed

end
