(* ===== verification/Ipc.thy ===== *)
theory Ipc
  imports Thistle_Prelude
begin

text \<open>
  The message queue between applications (\<open>components/kernel_rs/src/ipc.rs\<close>): sixteen messages
  and sixteen handler registrations behind one mutex. A blocked receiver releases the mutex; what
  the other threads do meanwhile is an explicit list of operations. The queue is an instance of
  the bounded FIFO interface.
\<close>

section \<open>Messages, handlers, state\<close>

definition IPC_MSG_MAX_DATA :: nat where "IPC_MSG_MAX_DATA = 256"
definition IPC_QUEUE_DEPTH :: nat where "IPC_QUEUE_DEPTH = 16"
definition IPC_HANDLER_MAX :: nat where "IPC_HANDLER_MAX = 16"

record ipc_message =
  im_src_app :: u32
  im_dst_app :: u32
  im_msg_type :: u32
  im_data :: "u8 list"
  im_data_len :: usize
  im_timestamp :: u32

definition default_message :: ipc_message where
  "default_message =
     \<lparr>im_src_app = 0, im_dst_app = 0, im_msg_type = 0, im_data = replicate IPC_MSG_MAX_DATA 0,
      im_data_len = 0, im_timestamp = 0\<rparr>"

record handler_entry =
  he_msg_type :: u32
  he_handler :: usize
  he_user_data :: usize
  he_active :: bool

record ipc_state =
  ipc_queue :: "ipc_message list"
  ipc_handlers :: "handler_entry list"
  ipc_initialized :: bool

definition new_ipc :: ipc_state where
  "new_ipc = \<lparr>ipc_queue = [], ipc_handlers = [], ipc_initialized = False\<rparr>"

section \<open>Operations\<close>

definition ipc_init :: "ipc_state \<Rightarrow> int \<times> ipc_state" where
  "ipc_init st =
     (if \<not> ipc_initialized st
      then (ESP_OK, st\<lparr>ipc_queue := [], ipc_handlers := [], ipc_initialized := True\<rparr>)
      else (ESP_OK, st))"

text \<open>The handlers called for a message, in the order of their registration.\<close>

definition dispatched :: "ipc_state \<Rightarrow> ipc_message \<Rightarrow> (usize \<times> usize) list" where
  "dispatched st m =
     map (\<lambda>e. (he_handler e, he_user_data e))
       (filter (\<lambda>e. he_active e \<and> he_msg_type e = im_msg_type m) (ipc_handlers st))"

text \<open>\<open>ipc_send\<close> returns its code, the handler calls it made and the next state.\<close>

definition ipc_send :: "ipc_state \<Rightarrow> ipc_message \<Rightarrow> int \<times> (usize \<times> usize) list \<times> ipc_state" where
  "ipc_send st m =
     (if \<not> ipc_initialized st then (ESP_ERR_INVALID_STATE, [], st)
      else if IPC_QUEUE_DEPTH \<le> length (ipc_queue st)
        then (ESP_ERR_NO_MEM, dispatched st m, st)
      else (ESP_OK, dispatched st m, st\<lparr>ipc_queue := ipc_queue st @ [m]\<rparr>))"

definition ipc_register_handler ::
  "ipc_state \<Rightarrow> u32 \<Rightarrow> usize \<Rightarrow> usize \<Rightarrow> int \<times> ipc_state" where
  "ipc_register_handler st t h u =
     (if \<not> ipc_initialized st then (ESP_ERR_INVALID_STATE, st)
      else if IPC_HANDLER_MAX \<le> length (filter he_active (ipc_handlers st)) then (ESP_ERR_NO_MEM, st)
      else (ESP_OK, st\<lparr>ipc_handlers := ipc_handlers st @
              [\<lparr>he_msg_type = t, he_handler = h, he_user_data = u, he_active = True\<rparr>]\<rparr>))"

text \<open>Taking the oldest message while the lock is held.\<close>

definition ipc_pop :: "ipc_state \<Rightarrow> (ipc_message \<times> ipc_state) option" where
  "ipc_pop st = (case ipc_queue st of [] \<Rightarrow> None | m # ms \<Rightarrow> Some (m, st\<lparr>ipc_queue := ms\<rparr>))"

datatype ipc_op =
    OpInit
  | OpSend ipc_message
  | OpRegister u32 usize usize
  | OpTake

fun ipc_step :: "ipc_op \<Rightarrow> ipc_state \<Rightarrow> ipc_state" where
  "ipc_step OpInit st = snd (ipc_init st)"
| "ipc_step (OpSend m) st = snd (snd (ipc_send st m))"
| "ipc_step (OpRegister t h u) st = snd (ipc_register_handler st t h u)"
| "ipc_step OpTake st = (case ipc_pop st of None \<Rightarrow> st | Some (_, st') \<Rightarrow> st')"

text \<open>
  \<open>ipc_recv st others\<close>: the fast path, or a wait during which the other threads run \<open>others\<close>;
  the wait ends with a message in the queue or at the deadline.
\<close>

definition ipc_recv :: "ipc_state \<Rightarrow> ipc_op list \<Rightarrow> (int + ipc_message) \<times> ipc_state" where
  "ipc_recv st others =
     (if \<not> ipc_initialized st then (Inl ESP_ERR_INVALID_STATE, st)
      else case ipc_pop st of
        Some (m, st') \<Rightarrow> (Inr m, st')
      | None \<Rightarrow>
          (let st1 = fold ipc_step others st in
           case ipc_pop st1 of
             Some (m, st') \<Rightarrow> (Inr m, st')
           | None \<Rightarrow> (Inl ESP_ERR_TIMEOUT, st1)))"

section \<open>The C interface\<close>

definition c_ipc_send :: "ipc_state \<Rightarrow> ipc_message option \<Rightarrow> int \<times> (usize \<times> usize) list \<times> ipc_state" where
  "c_ipc_send st m = (case m of None \<Rightarrow> (ESP_ERR_INVALID_ARG, [], st) | Some m \<Rightarrow> ipc_send st m)"

text \<open>\<open>buf\<close> is the caller's buffer: \<open>None\<close> for NULL. It is written on success only.\<close>

definition c_ipc_recv ::
  "ipc_state \<Rightarrow> ipc_message option \<Rightarrow> ipc_op list \<Rightarrow> int \<times> ipc_message option \<times> ipc_state" where
  "c_ipc_recv st buf others =
     (case buf of
        None \<Rightarrow> (ESP_ERR_INVALID_ARG, None, st)
      | Some b \<Rightarrow> (case ipc_recv st others of
                    (Inr m, st') \<Rightarrow> (ESP_OK, Some m, st')
                  | (Inl e, st') \<Rightarrow> (e, Some b, st')))"

section \<open>Invariant\<close>

definition ipc_inv :: "ipc_state \<Rightarrow> bool" where
  "ipc_inv st \<longleftrightarrow>
     length (ipc_queue st) \<le> IPC_QUEUE_DEPTH \<and> length (ipc_handlers st) \<le> IPC_HANDLER_MAX
     \<and> (\<forall>e\<in>set (ipc_handlers st). he_active e)
     \<and> (\<not> ipc_initialized st \<longrightarrow> ipc_queue st = [] \<and> ipc_handlers st = [])"

lemma ipc_pop_Some: "ipc_pop st = Some (m, st') \<longleftrightarrow> (\<exists>ms. ipc_queue st = m # ms \<and> st' = st\<lparr>ipc_queue := ms\<rparr>)"
  by (auto simp: ipc_pop_def split: list.splits)

lemma ipc_pop_None: "ipc_pop st = None \<longleftrightarrow> ipc_queue st = []"
  by (simp add: ipc_pop_def split: list.splits)

lemma ipc_inv_queue_le: "ipc_inv st \<Longrightarrow> length (ipc_queue st) \<le> IPC_QUEUE_DEPTH"
  by (simp add: ipc_inv_def)

lemma ipc_inv_step: "ipc_inv st \<Longrightarrow> ipc_inv (ipc_step e st)"
  by (cases e)
    (auto simp: ipc_init_def ipc_send_def ipc_register_handler_def ipc_pop_Some ipc_inv_def
      split: option.splits)

interpretation ipc_machine:
  bounded_machine ipc_step ipc_inv "\<lambda>st. length (ipc_queue st)" IPC_QUEUE_DEPTH
  by unfold_locales (rule ipc_inv_step, assumption, rule ipc_inv_queue_le)

lemma new_ipc_inv [simp]: "ipc_inv new_ipc"
  by (simp add: ipc_inv_def new_ipc_def)

section \<open>Bounded FIFO queues\<close>

locale bounded_fifo =
  fixes push :: "'a \<Rightarrow> 'q \<Rightarrow> bool \<times> 'q"
    and pop :: "'q \<Rightarrow> ('a \<times> 'q) option"
    and contents :: "'q \<Rightarrow> 'a list"
    and cap :: nat
    and live :: "'q \<Rightarrow> bool"
  assumes push_ok: "live q \<Longrightarrow> length (contents q) < cap \<Longrightarrow>
      \<exists>q'. push x q = (True, q') \<and> live q' \<and> contents q' = contents q @ [x]"
    and push_full: "live q \<Longrightarrow> cap \<le> length (contents q) \<Longrightarrow>
      \<exists>q'. push x q = (False, q') \<and> live q' \<and> contents q' = contents q"
    and pop_empty: "live q \<Longrightarrow> contents q = [] \<Longrightarrow> pop q = None"
    and pop_head: "live q \<Longrightarrow> contents q = x # xs \<Longrightarrow>
      \<exists>q'. pop q = Some (x, q') \<and> live q' \<and> contents q' = xs"
begin

lemma push_conserves:
  assumes "live q" "push x q = (ok, q')"
  shows "live q' \<and> contents q' = contents q @ (if ok then [x] else [])"
  using push_ok [OF assms(1), of x] push_full [OF assms(1), of x] assms(2)
  by (cases "length (contents q) < cap") fastforce+

lemma pop_conserves:
  assumes "live q"
  shows "case pop q of None \<Rightarrow> contents q = [] | Some (x, q') \<Rightarrow> live q' \<and> contents q = x # contents q'"
  using pop_empty [OF assms] pop_head [OF assms]
  by (cases "contents q") fastforce+

lemma pop_after_push:
  assumes "live q" "contents q = []" "0 < cap"
  shows "\<exists>q' q''. push x q = (True, q') \<and> pop q' = Some (x, q'') \<and> contents q'' = []"
  using push_ok [OF assms(1), of x] assms(2,3) pop_head by fastforce

end

definition ipc_push :: "ipc_message \<Rightarrow> ipc_state \<Rightarrow> bool \<times> ipc_state" where
  "ipc_push m st = (case ipc_send st m of (c, _, st') \<Rightarrow> (c = ESP_OK, st'))"

interpretation ipc_q: bounded_fifo ipc_push ipc_pop ipc_queue IPC_QUEUE_DEPTH ipc_initialized
  by unfold_locales (auto simp: ipc_push_def ipc_send_def ipc_pop_Some ipc_pop_None)

text \<open>The log of a run of the subsystem: messages accepted by \<open>ipc_send\<close>, messages taken.\<close>

fun accepted :: "ipc_state \<Rightarrow> ipc_op list \<Rightarrow> ipc_message list" where
  "accepted st [] = []"
| "accepted st (e # es) =
     (case e of OpSend m \<Rightarrow> if fst (ipc_send st m) = ESP_OK then [m] else [] | _ \<Rightarrow> [])
     @ accepted (ipc_step e st) es"

fun taken :: "ipc_state \<Rightarrow> ipc_op list \<Rightarrow> ipc_message list" where
  "taken st [] = []"
| "taken st (e # es) =
     (case e of OpTake \<Rightarrow> (case ipc_pop st of Some (m, _) \<Rightarrow> [m] | None \<Rightarrow> []) | _ \<Rightarrow> [])
     @ taken (ipc_step e st) es"

lemma ipc_step_initialized: "ipc_initialized st \<Longrightarrow> ipc_initialized (ipc_step e st)"
  by (cases e) (auto simp: ipc_init_def ipc_send_def ipc_register_handler_def ipc_pop_Some split: option.splits)

lemma ipc_send_OK_iff:
  "fst (ipc_send st m) = ESP_OK \<longleftrightarrow> ipc_initialized st \<and> length (ipc_queue st) < IPC_QUEUE_DEPTH"
  by (simp add: ipc_send_def)

lemma ipc_conservation:
  "ipc_initialized st \<Longrightarrow>
   ipc_queue st @ accepted st ops = taken st ops @ ipc_queue (fold ipc_step ops st)"
proof (induction ops arbitrary: st)
  case Nil
  then show ?case by simp
next
  case (Cons e es)
  have IH: "ipc_queue (ipc_step e st) @ accepted (ipc_step e st) es =
      taken (ipc_step e st) es @ ipc_queue (fold ipc_step es (ipc_step e st))"
    by (rule Cons.IH) (rule ipc_step_initialized [OF Cons.prems])
  show ?case
  proof (cases e)
    case (OpSend m)
    obtain c d st' where send: "ipc_send st m = (c, d, st')" by (metis prod.collapse)
    with ipc_q.push_conserves [OF Cons.prems, of m "c = ESP_OK" st'] IH OpSend show ?thesis
      by (simp add: ipc_push_def)
  next
    case OpTake
    with IH ipc_q.pop_conserves [OF Cons.prems] show ?thesis
      by (auto split: option.splits)
  qed (use IH Cons.prems in \<open>auto simp: ipc_init_def ipc_register_handler_def\<close>)
qed

section \<open>Properties\<close>

text \<open>C24. FIFO delivery: over any run of the subsystem the messages taken, followed by those still
  queued, are the messages queued at the start followed by those \<open>ipc_send\<close> accepted, in order;
  nothing is lost, duplicated or reordered.\<close>

theorem ipc_fifo:
  assumes "ipc_initialized st"
  shows "taken st ops @ ipc_queue (fold ipc_step ops st) = ipc_queue st @ accepted st ops"
  using ipc_conservation [OF assms] by simp

definition ipc0 :: ipc_state where "ipc0 = snd (ipc_init new_ipc)"

theorem ipc_fifo_witness:
  "let m1 = default_message\<lparr>im_msg_type := 1\<rparr>; m2 = default_message\<lparr>im_msg_type := 2\<rparr>;
       ops = [OpSend m1, OpRegister 1 10 0, OpSend m2, OpTake]
   in taken ipc0 ops = [m1] \<and> ipc_queue (fold ipc_step ops ipc0) = [m2]"
proof -
  have i: "ipc_initialized ipc0" "ipc_queue ipc0 = []" by (simp_all add: ipc0_def new_ipc_def ipc_init_def)
  show ?thesis
    using ipc_fifo [OF i(1), of "[OpSend (default_message\<lparr>im_msg_type := 1\<rparr>), OpRegister 1 10 0,
      OpSend (default_message\<lparr>im_msg_type := 2\<rparr>), OpTake]"] i
    by (simp add: ipc_send_def IPC_QUEUE_DEPTH_def ipc_pop_def ipc_register_handler_def Let_def
        split: list.splits if_splits)
qed

text \<open>Bounds: from a fresh subsystem no run ever queues more than sixteen messages or keeps more
  than sixteen handlers.\<close>

theorem ipc_bounds:
  "length (ipc_queue (fold ipc_step ops new_ipc)) \<le> IPC_QUEUE_DEPTH \<and>
   length (ipc_handlers (fold ipc_step ops new_ipc)) \<le> IPC_HANDLER_MAX"
  using ipc_machine.run_inv [OF new_ipc_inv, of ops] by (simp add: ipc_inv_def)

text \<open>A receiver gets the oldest message: the head of the queue if there is one, and otherwise,
  after the wait, the first of the messages sent in the meantime that no other receiver took; it
  times out exactly when there is none. What it does not get stays queued in order.\<close>

theorem ipc_recv_oldest:
  assumes "ipc_initialized st"
  shows "case ipc_recv st others of (r, st') \<Rightarrow>
    (if ipc_queue st \<noteq> [] then r = Inr (hd (ipc_queue st)) \<and> ipc_queue st' = tl (ipc_queue st)
     else case drop (length (taken st others)) (accepted st others) of
        [] \<Rightarrow> r = Inl ESP_ERR_TIMEOUT \<and> ipc_queue st' = []
      | m # ms \<Rightarrow> r = Inr m \<and> ipc_queue st' = ms)"
proof -
  have "drop (length (taken st others)) (accepted st others) = ipc_queue (fold ipc_step others st)"
    if "ipc_queue st = []"
    using ipc_conservation [OF assms, of others] that by (metis append_Nil append_eq_conv_conj)
  then show ?thesis
    using assms by (auto simp: ipc_recv_def ipc_pop_def Let_def split: list.splits)
qed

theorem ipc_recv_oldest_witness:
  "fst (ipc_recv ipc0 [OpRegister 1 2 3]) = Inl ESP_ERR_TIMEOUT \<and>
   fst (ipc_recv ipc0 [OpSend default_message]) = Inr default_message"
proof -
  have i: "ipc_initialized ipc0" "ipc_queue ipc0 = []" by (simp_all add: ipc0_def new_ipc_def ipc_init_def)
  then show ?thesis
    using ipc_recv_oldest [OF i(1), of "[OpRegister 1 2 3]"] ipc_recv_oldest [OF i(1), of "[OpSend default_message]"]
    by (simp add: ipc_send_def IPC_QUEUE_DEPTH_def Let_def split: prod.splits)
qed

text \<open>There is no wildcard registration: a handler registered for the type \<open>u32::MAX\<close> is called
  for messages of that very type only.\<close>

theorem ipc_no_wildcard:
  assumes "ipc_handlers st = [\<lparr>he_msg_type = - 1, he_handler = h, he_user_data = u, he_active = True\<rparr>]"
    and "im_msg_type m \<noteq> - 1"
  shows "fst (snd (ipc_send st m)) = []"
  using assms by (simp add: ipc_send_def dispatched_def)

theorem ipc_no_wildcard_witness:
  "fst (snd (ipc_send (ipc0\<lparr>ipc_handlers := [\<lparr>he_msg_type = - 1, he_handler = 1, he_user_data = 0, he_active = True\<rparr>]\<rparr>)
     default_message)) = []"
  by (rule ipc_no_wildcard [where h = 1 and u = 0]) (simp_all add: default_message_def)

end
