(* ===== verification/App_Manager.thy ===== *)
theory App_Manager
  imports Rust_Str
begin

text \<open>
  The application manager (\<open>components/kernel_rs/src/app_manager.rs\<close>): twenty slots, the life
  cycle of an application, eviction of the least recently used one. C structures are records with
  \<open>None\<close> for a null pointer; the callbacks and events of an operation are returned as a list of
  effects; the heap level, the clock and the result of \<open>on_create\<close> come from the environment.
\<close>

section \<open>Data\<close>

definition APP_SLOTS_MAX :: nat where "APP_SLOTS_MAX = 20"
definition APP_MEMORY_THRESHOLD_BYTES :: nat where "APP_MEMORY_THRESHOLD_BYTES = 50 * 1024"
definition APP_HANDLE_INVALID :: int where "APP_HANDLE_INVALID = - 1"

datatype app_state = Unloaded | Loading | Running | Backgrounded | Suspended

fun state_u32 :: "app_state \<Rightarrow> u32" where
  "state_u32 Unloaded = 0"
| "state_u32 Loading = 1"
| "state_u32 Running = 2"
| "state_u32 Backgrounded = 3"
| "state_u32 Suspended = 4"

definition state_from_u32 :: "u32 \<Rightarrow> app_state" where
  "state_from_u32 v =
     (if v = 1 then Loading else if v = 2 then Running else if v = 3 then Backgrounded
      else if v = 4 then Suspended else Unloaded)"

definition EVENT_APP_LAUNCHED :: u32 where "EVENT_APP_LAUNCHED = 2"
definition EVENT_APP_STOPPED :: u32 where "EVENT_APP_STOPPED = 3"
definition EVENT_APP_SWITCHED :: u32 where "EVENT_APP_SWITCHED = 4"

record app_manifest =
  am_addr :: usize \<comment> \<open>where the C side keeps it\<close>
  am_id :: "string option"
  am_name :: "string option"
  am_version :: "string option"
  am_allow_background :: bool
  am_min_memory_kb :: u32

record app_entry =
  on_create :: "usize option"
  on_start :: "usize option"
  on_pause :: "usize option"
  on_resume :: "usize option"
  on_destroy :: "usize option"
  ae_manifest :: "app_manifest option"

record app_slot =
  sl_entry :: "app_entry option"
  sl_state :: u32
  sl_handle :: int
  sl_last_used_ms :: u32

record app_manager =
  mg_slots :: "app_slot list"
  mg_slot_count :: nat
  mg_foreground :: int
  mg_next_handle :: int
  mg_initialized :: bool

datatype effect =
    OnCreate usize | OnStart usize | OnPause usize | OnResume usize | OnDestroy usize
  | Publish u32 int

record env =
  env_heap_free :: nat
  env_uptime_ms :: u32
  env_create_rc :: int

definition empty_app_slot :: app_slot where
  "empty_app_slot =
     \<lparr>sl_entry = None, sl_state = state_u32 Unloaded, sl_handle = APP_HANDLE_INVALID, sl_last_used_ms = 0\<rparr>"

definition slot_is_empty :: "app_slot \<Rightarrow> bool" where
  "slot_is_empty s \<longleftrightarrow> sl_entry s = None"

definition slot_app_id :: "app_slot \<Rightarrow> string" where
  "slot_app_id s =
     (case sl_entry s of None \<Rightarrow> []
      | Some e \<Rightarrow> (case ae_manifest e of None \<Rightarrow> []
         | Some mf \<Rightarrow> (case am_id mf of None \<Rightarrow> [] | Some i \<Rightarrow> cstr_or_empty i)))"

definition is_launcher_id :: "string \<Rightarrow> bool" where
  "is_launcher_id a \<longleftrightarrow> a = ''com.thistle.launcher'' \<or> a = ''com.thistle.tk_launcher''"

definition new_manager :: app_manager where
  "new_manager =
     \<lparr>mg_slots = replicate APP_SLOTS_MAX empty_app_slot, mg_slot_count = 0,
      mg_foreground = APP_HANDLE_INVALID, mg_next_handle = 0, mg_initialized = False\<rparr>"

text \<open>\<open>wrapping_add\<close> on \<open>i32\<close>\<close>

definition i32_wrapping_add :: "int \<Rightarrow> int \<Rightarrow> int" where
  "i32_wrapping_add a b = sint (word_of_int (a + b) :: 32 word)"

section \<open>Operations\<close>

definition mgr_init :: "app_manager \<Rightarrow> int \<times> app_manager" where
  "mgr_init m =
     (if mg_initialized m then (ESP_OK, m)
      else (ESP_OK, m\<lparr>mg_slot_count := 0, mg_foreground := APP_HANDLE_INVALID, mg_next_handle := 0,
              mg_slots := map (\<lambda>_. empty_app_slot) (mg_slots m), mg_initialized := True\<rparr>))"

text \<open>The slots in use are the first \<open>slot_count\<close>.\<close>

definition find_slot_by_id :: "app_manager \<Rightarrow> string \<Rightarrow> nat option" where
  "find_slot_by_id m a =
     find_index (\<lambda>s. \<not> slot_is_empty s \<and> slot_app_id s = a) (take (mg_slot_count m) (mg_slots m))"

definition find_slot_by_handle :: "app_manager \<Rightarrow> int \<Rightarrow> nat option" where
  "find_slot_by_handle m h =
     (if h = APP_HANDLE_INVALID then None
      else find_index (\<lambda>s. \<not> slot_is_empty s \<and> sl_handle s = h) (take (mg_slot_count m) (mg_slots m)))"

definition mgr_register :: "app_manager \<Rightarrow> app_entry option \<Rightarrow> int \<times> app_manager" where
  "mgr_register m entry =
     (case entry of None \<Rightarrow> (ESP_ERR_INVALID_ARG, m)
      | Some e \<Rightarrow> (case ae_manifest e of None \<Rightarrow> (ESP_ERR_INVALID_ARG, m)
      | Some mf \<Rightarrow> (case am_id mf of None \<Rightarrow> (ESP_ERR_INVALID_ARG, m)
      | Some i \<Rightarrow>
          if find_slot_by_id m (cstr_or_empty i) \<noteq> None then (ESP_OK, m)
          else if APP_SLOTS_MAX \<le> mg_slot_count m then (ESP_ERR_NO_MEM, m)
          else (ESP_OK, m\<lparr>mg_next_handle := i32_wrapping_add (mg_next_handle m) 1,
                 mg_slots := (mg_slots m)[mg_slot_count m :=
                   \<lparr>sl_entry = Some e, sl_state = state_u32 Unloaded, sl_handle = mg_next_handle m,
                    sl_last_used_ms = 0\<rparr>],
                 mg_slot_count := Suc (mg_slot_count m)\<rparr>))))"

text \<open>The scan of \<open>evict_lru\<close>: the oldest evictable slot so far and its timestamp.\<close>

definition evictable :: "app_manager \<Rightarrow> app_slot \<Rightarrow> bool" where
  "evictable m s \<longleftrightarrow>
     \<not> slot_is_empty s \<and> sl_handle s \<noteq> mg_foreground m \<and> \<not> is_launcher_id (slot_app_id s)
     \<and> (state_from_u32 (sl_state s) = Backgrounded \<or> state_from_u32 (sl_state s) = Suspended)"

definition lru_scan :: "app_manager \<Rightarrow> nat option \<times> u32" where
  "lru_scan m =
     fold (\<lambda>i (idx, ts).
        (let s = mg_slots m ! i in
         if evictable m s \<and> sl_last_used_ms s < ts then (Some i, sl_last_used_ms s) else (idx, ts)))
       [0..<mg_slot_count m] (None, - 1)"

definition opt_effect :: "(usize \<Rightarrow> effect) \<Rightarrow> usize option \<Rightarrow> effect list" where
  "opt_effect c cb = (case cb of None \<Rightarrow> [] | Some f \<Rightarrow> [c f])"

text \<open>Calling one callback of a slot's entry, if there is an entry and the callback is set.\<close>

definition call_cb :: "(usize \<Rightarrow> effect) \<Rightarrow> (app_entry \<Rightarrow> usize option) \<Rightarrow> app_slot \<Rightarrow> effect list" where
  "call_cb c sel s = (case sl_entry s of None \<Rightarrow> [] | Some e \<Rightarrow> opt_effect c (sel e))"

definition evict_lru :: "app_manager \<Rightarrow> int \<times> effect list \<times> app_manager" where
  "evict_lru m =
     (case fst (lru_scan m) of
        None \<Rightarrow> (APP_HANDLE_INVALID, [], m)
      | Some i \<Rightarrow>
          (let s = mg_slots m ! i; h = sl_handle s in
           (h, call_cb OnDestroy on_destroy s @ [Publish EVENT_APP_STOPPED h],
            m\<lparr>mg_slots := (mg_slots m)[i := empty_app_slot]\<rparr>)))"

definition set_state :: "nat \<Rightarrow> app_state \<Rightarrow> app_manager \<Rightarrow> app_manager" where
  "set_state i st m = m\<lparr>mg_slots := (mg_slots m)[i := (mg_slots m ! i)\<lparr>sl_state := state_u32 st\<rparr>]\<rparr>"

text \<open>\<open>launch\<close>, first part: the running foreground application is paused if it is the launcher
  and destroyed otherwise.\<close>

definition leave_foreground :: "app_manager \<Rightarrow> effect list \<times> app_manager" where
  "leave_foreground m =
     (case find_slot_by_handle m (mg_foreground m) of
        None \<Rightarrow> ([], m)
      | Some fg \<Rightarrow>
          (let s = mg_slots m ! fg in
           if state_from_u32 (sl_state s) = Running then
             (if is_launcher_id (slot_app_id s)
              then (call_cb OnPause on_pause s, set_state fg Backgrounded m)
              else (call_cb OnDestroy on_destroy s, set_state fg Unloaded m))
           else ([], m)))"

text \<open>Second part: eviction when the heap is low.\<close>

definition relieve_memory :: "env \<Rightarrow> app_manager \<Rightarrow> effect list \<times> app_manager" where
  "relieve_memory env m =
     (if env_heap_free env < APP_MEMORY_THRESHOLD_BYTES
      then (case evict_lru m of (_, effs, m') \<Rightarrow> (effs, m')) else ([], m))"

text \<open>Third part: the target's own transition. \<open>Inl rc\<close>: \<open>on_create\<close> failed with \<open>rc\<close>.\<close>

definition activate :: "env \<Rightarrow> nat \<Rightarrow> app_manager \<Rightarrow> (int + bool) \<times> effect list \<times> app_manager" where
  "activate env t m =
     (let s = mg_slots m ! t in
      case state_from_u32 (sl_state s) of
        Unloaded \<Rightarrow>
          (let m1 = set_state t Loading m;
               created = call_cb OnCreate on_create s;
               rc = (case sl_entry s of None \<Rightarrow> ESP_OK
                     | Some e \<Rightarrow> (case on_create e of None \<Rightarrow> ESP_OK | Some _ \<Rightarrow> env_create_rc env)) in
           if rc \<noteq> ESP_OK then (Inl rc, created, m1)
           else (Inr True, created @ call_cb OnStart on_start s, set_state t Running m1))
      | Loading \<Rightarrow> (Inr False, [], set_state t Running m)
      | Running \<Rightarrow> (Inr False, [], set_state t Running m)
      | _ \<Rightarrow> (Inr False, call_cb OnResume on_resume s, set_state t Running m))"

definition mgr_launch :: "env \<Rightarrow> app_manager \<Rightarrow> string \<Rightarrow> int \<times> effect list \<times> app_manager" where
  "mgr_launch env m a =
     (case find_slot_by_id m a of
        None \<Rightarrow> (ESP_ERR_NOT_FOUND, [], m)
      | Some t \<Rightarrow>
          (let th = sl_handle (mg_slots m ! t); prev = mg_foreground m in
           if prev = th then (ESP_OK, [], m)
           else
             (let (e1, m1) = leave_foreground m;
                  (e2, m2) = relieve_memory env m1;
                  (res, e3, m3) = activate env t m2 in
              case res of
                Inl rc \<Rightarrow>
                  (let m4 = (set_state t Unloaded m3)\<lparr>mg_foreground := prev\<rparr> in
                   (rc, e1 @ e2 @ e3,
                    case find_slot_by_handle m4 prev of
                      None \<Rightarrow> m4 | Some fg \<Rightarrow> set_state fg Running m4))
              | Inr is_new \<Rightarrow>
                  (ESP_OK,
                   e1 @ e2 @ e3 @ [Publish (if is_new then EVENT_APP_LAUNCHED else EVENT_APP_SWITCHED) th],
                   m3\<lparr>mg_slots := (mg_slots m3)[t := (mg_slots m3 ! t)\<lparr>sl_last_used_ms := env_uptime_ms env\<rparr>],
                      mg_foreground := th\<rparr>))))"

definition mgr_switch_to :: "env \<Rightarrow> app_manager \<Rightarrow> int \<Rightarrow> int \<times> effect list \<times> app_manager" where
  "mgr_switch_to env m h =
     (case find_slot_by_handle m h of
        None \<Rightarrow> (ESP_ERR_NOT_FOUND, [], m)
      | Some i \<Rightarrow>
          (let raw = slot_app_id (mg_slots m ! i) in
           if NUL \<in> set raw then (ESP_ERR_INVALID_ARG, [], m)
           else mgr_launch env m (cstr_or_empty raw)))"

definition mgr_get_state :: "app_manager \<Rightarrow> int \<Rightarrow> u32" where
  "mgr_get_state m h =
     (case find_slot_by_handle m h of
        Some i \<Rightarrow> sl_state (mg_slots m ! i) | None \<Rightarrow> state_u32 Unloaded)"

definition mgr_suspend :: "app_manager \<Rightarrow> int \<Rightarrow> int \<times> effect list \<times> app_manager" where
  "mgr_suspend m h =
     (case find_slot_by_handle m h of
        None \<Rightarrow> (ESP_ERR_NOT_FOUND, [], m)
      | Some i \<Rightarrow>
          (let s = mg_slots m ! i; st = state_from_u32 (sl_state s) in
           if st = Running \<or> st = Backgrounded then
             (ESP_OK, call_cb OnPause on_pause s,
              (let m1 = set_state i Suspended m in
               if mg_foreground m1 = h then m1\<lparr>mg_foreground := APP_HANDLE_INVALID\<rparr> else m1))
           else if st = Suspended then (ESP_OK, [], m)
           else (ESP_ERR_INVALID_STATE, [], m)))"

definition mgr_kill :: "app_manager \<Rightarrow> int \<Rightarrow> int \<times> effect list \<times> app_manager" where
  "mgr_kill m h =
     (case find_slot_by_handle m h of
        None \<Rightarrow> (ESP_ERR_NOT_FOUND, [], m)
      | Some i \<Rightarrow>
          (let s = mg_slots m ! i in
           if state_from_u32 (sl_state s) = Unloaded then (ESP_ERR_INVALID_STATE, [], m)
           else
             (ESP_OK, call_cb OnDestroy on_destroy s @ [Publish EVENT_APP_STOPPED h],
              (let m1 = (if mg_foreground m = h then m\<lparr>mg_foreground := APP_HANDLE_INVALID\<rparr> else m) in
               m1\<lparr>mg_slots := (mg_slots m1)[i := empty_app_slot]\<rparr>))))"

definition mgr_list_apps :: "app_manager \<Rightarrow> app_manifest list" where
  "mgr_list_apps m =
     List.map_filter (\<lambda>s. case sl_entry s of None \<Rightarrow> None | Some e \<Rightarrow> ae_manifest e)
       (take (mg_slot_count m) (mg_slots m))"

section \<open>The process-wide manager and its manifest registry\<close>

record app_globals =
  gl_manager :: app_manager
  gl_manifests :: "usize list"

definition app_register :: "app_globals \<Rightarrow> app_entry option \<Rightarrow> int \<times> app_globals" where
  "app_register g entry =
     (case mgr_register (gl_manager g) entry of
        (rc, m') \<Rightarrow>
          (let g' = g\<lparr>gl_manager := m'\<rparr> in
           if rc \<noteq> ESP_OK then (rc, g')
           else case entry of None \<Rightarrow> (rc, g')
             | Some e \<Rightarrow> (case ae_manifest e of None \<Rightarrow> (rc, g')
               | Some mf \<Rightarrow>
                   if am_addr mf \<in> set (gl_manifests g') then (rc, g')
                   else (rc, g'\<lparr>gl_manifests := gl_manifests g' @ [am_addr mf]\<rparr>))))"

definition app_manager_launch ::
  "env \<Rightarrow> app_manager \<Rightarrow> string option \<Rightarrow> int \<times> effect list \<times> app_manager" where
  "app_manager_launch env m a =
     (case a of None \<Rightarrow> (ESP_ERR_INVALID_ARG, [], m)
      | Some s \<Rightarrow> if utf8_valid s then mgr_launch env m s else (ESP_ERR_INVALID_ARG, [], m))"

definition app_manager_get_count :: "app_manager \<Rightarrow> int" where
  "app_manager_get_count m = int (mg_slot_count m)"

text \<open>The manifests written to an \<open>out\<close> array of \<open>max_count\<close> entries.\<close>

definition app_manager_list_apps :: "app_globals \<Rightarrow> int \<Rightarrow> usize list" where
  "app_manager_list_apps g max_count =
     (if max_count \<le> 0 then [] else take (nat max_count) (filter (\<lambda>p. p \<noteq> 0) (gl_manifests g)))"

end
