(* ===== verification/App_Lifecycle.thy ===== *)
theory App_Lifecycle
  imports App_Manager
begin

text \<open>
  What the application manager keeps true: the shape of the slot table (a slot's handle is its
  index, ids are unique), the states a slot can be in between operations, and that at most one
  application is running, the foreground one. Then the eviction policy and the faults of the
  low-memory and roll-back paths.
\<close>

section \<open>Invariants\<close>

text \<open>The slots that hold an application, and that no two of them have the same id.\<close>

definition used :: "app_manager \<Rightarrow> nat set" where
  "used m = {i. i < APP_SLOTS_MAX \<and> \<not> slot_is_empty (mg_slots m ! i)}"

definition ids_unique :: "app_manager \<Rightarrow> bool" where
  "ids_unique m \<longleftrightarrow> inj_on (\<lambda>i. slot_app_id (mg_slots m ! i)) (used m)"

definition am_struct :: "app_manager \<Rightarrow> bool" where
  "am_struct m \<longleftrightarrow>
     length (mg_slots m) = APP_SLOTS_MAX \<and> mg_slot_count m \<le> APP_SLOTS_MAX
     \<and> mg_next_handle m = int (mg_slot_count m)
     \<and> (mg_foreground m = - 1 \<or> (0 \<le> mg_foreground m \<and> mg_foreground m < int (mg_slot_count m)))
     \<and> (\<forall>i<APP_SLOTS_MAX. if slot_is_empty (mg_slots m ! i) then sl_handle (mg_slots m ! i) = - 1
          else i < mg_slot_count m \<and> sl_handle (mg_slots m ! i) = int i)
     \<and> ids_unique m"

definition states_ok :: "app_manager \<Rightarrow> bool" where
  "states_ok m \<longleftrightarrow> (\<forall>i<APP_SLOTS_MAX. \<not> slot_is_empty (mg_slots m ! i) \<longrightarrow>
     sl_state (mg_slots m ! i) \<in> {0, 2, 3, 4})"

text \<open>Only the application with handle \<open>f\<close> may be running.\<close>

definition only_running :: "int \<Rightarrow> app_manager \<Rightarrow> bool" where
  "only_running f m \<longleftrightarrow> (\<forall>i<APP_SLOTS_MAX. \<not> slot_is_empty (mg_slots m ! i) \<longrightarrow>
     sl_state (mg_slots m ! i) = 2 \<longrightarrow> int i = f)"

definition am_inv :: "app_manager \<Rightarrow> bool" where
  "am_inv m \<longleftrightarrow> am_struct m \<and> states_ok m \<and> only_running (mg_foreground m) m"

lemma state_roundtrip [simp]: "state_from_u32 (state_u32 s) = s"
  by (cases s) (simp_all add: state_from_u32_def)

lemma state_from_u32_iff:
  "state_from_u32 v = Running \<longleftrightarrow> v = 2" "state_from_u32 v = Backgrounded \<longleftrightarrow> v = 3"
  "state_from_u32 v = Suspended \<longleftrightarrow> v = 4" "state_from_u32 v = Loading \<longleftrightarrow> v = 1"
  by (auto simp: state_from_u32_def)

lemma set_state_sel [simp]:
  "length (mg_slots (set_state i st m)) = length (mg_slots m)"
  "mg_slot_count (set_state i st m) = mg_slot_count m"
  "mg_foreground (set_state i st m) = mg_foreground m"
  "mg_next_handle (set_state i st m) = mg_next_handle m"
  by (simp_all add: set_state_def)

lemma set_state_nth:
  "j < length (mg_slots m) \<Longrightarrow>
   mg_slots (set_state i st m) ! j =
     (if j = i then (mg_slots m ! j)\<lparr>sl_state := state_u32 st\<rparr> else mg_slots m ! j)"
  by (simp add: set_state_def nth_upd)

lemma slot_upd_simps [simp]:
  "slot_is_empty (s\<lparr>sl_state := v\<rparr>) = slot_is_empty s" "slot_app_id (s\<lparr>sl_state := v\<rparr>) = slot_app_id s"
  "slot_is_empty (s\<lparr>sl_last_used_ms := t\<rparr>) = slot_is_empty s"
  "slot_app_id (s\<lparr>sl_last_used_ms := t\<rparr>) = slot_app_id s"
  by (simp_all add: slot_is_empty_def slot_app_id_def)

lemma empty_slot_simps [simp]:
  "slot_is_empty empty_app_slot" "sl_handle empty_app_slot = - 1"
  by (simp_all add: slot_is_empty_def empty_app_slot_def APP_HANDLE_INVALID_def)

lemmas inv_defs = am_inv_def am_struct_def states_ok_def only_running_def

text \<open>The structure does not depend on states and timestamps, nor on how many slots were cleared.\<close>

lemma struct_keep:
  assumes "am_struct m" "length (mg_slots m') = length (mg_slots m)" "mg_slot_count m' = mg_slot_count m"
    and "mg_next_handle m' = mg_next_handle m" "mg_foreground m' = mg_foreground m"
    and "\<And>i. i < APP_SLOTS_MAX \<Longrightarrow>
      slot_is_empty (mg_slots m' ! i) \<and> sl_handle (mg_slots m' ! i) = - 1
      \<or> slot_is_empty (mg_slots m' ! i) = slot_is_empty (mg_slots m ! i)
         \<and> sl_handle (mg_slots m' ! i) = sl_handle (mg_slots m ! i)
         \<and> slot_app_id (mg_slots m' ! i) = slot_app_id (mg_slots m ! i)"
  shows "am_struct m'"
proof -
  have sub: "used m' \<subseteq> used m" "\<And>i. i \<in> used m' \<Longrightarrow> slot_app_id (mg_slots m' ! i) = slot_app_id (mg_slots m ! i)"
    using assms(6) by (auto simp: used_def)
  have "inj_on (\<lambda>i. slot_app_id (mg_slots m ! i)) (used m')"
    using assms(1) sub(1) by (auto simp: am_struct_def ids_unique_def intro: inj_on_subset)
  then have "ids_unique m'"
    unfolding ids_unique_def using sub(2) by (simp cong: inj_on_cong)
  with assms show ?thesis unfolding am_struct_def by (simp, metis)
qed

lemma struct_set_state: "am_struct m \<Longrightarrow> am_struct (set_state i st m)"
  by (rule struct_keep) (auto simp: set_state_nth am_struct_def)

lemma struct_clear: "am_struct m \<Longrightarrow> am_struct (m\<lparr>mg_slots := (mg_slots m)[i := empty_app_slot]\<rparr>)"
  by (rule struct_keep) (auto simp: nth_upd am_struct_def)

lemma struct_foreground:
  "am_struct m \<Longrightarrow> f = - 1 \<or> 0 \<le> f \<and> f < int (mg_slot_count m) \<Longrightarrow> am_struct (m\<lparr>mg_foreground := f\<rparr>)"
  by (simp add: am_struct_def ids_unique_def used_def)

lemma struct_length: "am_struct m \<Longrightarrow> length (mg_slots m) = APP_SLOTS_MAX"
  by (simp add: am_struct_def)

lemma states_set_state: "states_ok m \<Longrightarrow> am_struct m \<Longrightarrow> st \<noteq> Loading \<Longrightarrow> states_ok (set_state i st m)"
  by (cases st) (auto simp: states_ok_def set_state_nth struct_length)

lemma states_clear: "states_ok m \<Longrightarrow> am_struct m \<Longrightarrow> states_ok (m\<lparr>mg_slots := (mg_slots m)[i := empty_app_slot]\<rparr>)"
  by (auto simp: states_ok_def nth_upd struct_length)

lemma running_set_state:
  "only_running f m \<Longrightarrow> am_struct m \<Longrightarrow> st = Running \<longrightarrow> int i = f \<Longrightarrow> only_running f (set_state i st m)"
  by (cases st) (auto simp: only_running_def set_state_nth struct_length)

lemma running_clear:
  "only_running f m \<Longrightarrow> am_struct m \<Longrightarrow> only_running f (m\<lparr>mg_slots := (mg_slots m)[i := empty_app_slot]\<rparr>)"
  by (auto simp: only_running_def nth_upd struct_length)

lemma only_runningD:
  "only_running f m \<Longrightarrow> i < APP_SLOTS_MAX \<Longrightarrow> \<not> slot_is_empty (mg_slots m ! i) \<Longrightarrow>
   sl_state (mg_slots m ! i) = 2 \<Longrightarrow> int i = f"
  by (simp add: only_running_def)

text \<open>Once the slot that may run does not, nothing runs.\<close>

lemma running_stopped:
  assumes "only_running (int i) m" "length (mg_slots m) = length (mg_slots m')" "length (mg_slots m) = APP_SLOTS_MAX"
    and "\<And>j. j < APP_SLOTS_MAX \<Longrightarrow> j \<noteq> i \<Longrightarrow> mg_slots m' ! j = mg_slots m ! j"
    and "i < APP_SLOTS_MAX \<Longrightarrow> slot_is_empty (mg_slots m' ! i) \<or> sl_state (mg_slots m' ! i) \<noteq> 2"
  shows "only_running (- 1) m'"
  unfolding only_running_def
proof (intro allI impI)
  fix j assume j: "j < APP_SLOTS_MAX" "\<not> slot_is_empty (mg_slots m' ! j)" "sl_state (mg_slots m' ! j) = 2"
  with assms(5) have "j \<noteq> i" by blast
  with only_runningD [OF assms(1) j(1)] assms(4) [OF j(1)] j show "int j = - 1" by simp
qed

lemma running_demote:
  assumes "only_running (int i) m" "am_struct m" "st \<noteq> Running"
  shows "only_running (- 1) (set_state i st m)"
proof -
  have "state_u32 st \<noteq> 2" using assms(3) by (cases st) simp_all
  then show ?thesis
    by (intro running_stopped [OF assms(1)]) (simp_all add: set_state_nth struct_length [OF assms(2)])
qed

lemma running_clear_demote:
  "only_running (int i) m \<Longrightarrow> am_struct m \<Longrightarrow>
   only_running (- 1) (m\<lparr>mg_slots := (mg_slots m)[i := empty_app_slot]\<rparr>)"
  by (erule running_stopped) (simp_all add: nth_upd struct_length)

text \<open>Writing a slot's timestamp.\<close>

lemma touch_inv:
  assumes "am_struct m" "states_ok m" "only_running f m"
  shows "am_struct (m\<lparr>mg_slots := (mg_slots m)[i := (mg_slots m ! i)\<lparr>sl_last_used_ms := u\<rparr>]\<rparr>)"
    and "states_ok (m\<lparr>mg_slots := (mg_slots m)[i := (mg_slots m ! i)\<lparr>sl_last_used_ms := u\<rparr>]\<rparr>)"
    and "only_running f (m\<lparr>mg_slots := (mg_slots m)[i := (mg_slots m ! i)\<lparr>sl_last_used_ms := u\<rparr>]\<rparr>)"
proof -
  show "am_struct (m\<lparr>mg_slots := (mg_slots m)[i := (mg_slots m ! i)\<lparr>sl_last_used_ms := u\<rparr>]\<rparr>)"
    using assms(1) by (rule struct_keep) (auto simp: nth_upd struct_length [OF assms(1)])
qed (use assms struct_length [OF assms(1)] in \<open>auto simp: states_ok_def only_running_def nth_upd\<close>)

lemma running_none: "only_running (- 1) m \<Longrightarrow> only_running f m"
  by (auto simp: only_running_def)

lemma only_running_foreground [simp]: "only_running f (m\<lparr>mg_foreground := g\<rparr>) = only_running f m"
  and states_ok_foreground [simp]: "states_ok (m\<lparr>mg_foreground := g\<rparr>) = states_ok m"
  by (simp_all add: only_running_def states_ok_def)

section \<open>Looking slots up\<close>

lemma find_by_handle_Some:
  assumes "am_struct m" "find_slot_by_handle m h = Some i"
  shows "i < mg_slot_count m \<and> i < APP_SLOTS_MAX \<and> \<not> slot_is_empty (mg_slots m ! i) \<and> h = int i"
proof -
  from assms(2) have "find_index (\<lambda>s. \<not> slot_is_empty s \<and> sl_handle s = h) (take (mg_slot_count m) (mg_slots m)) = Some i"
    by (simp add: find_slot_by_handle_def split: if_splits)
  from find_index_Some [OF this] assms(1) show ?thesis
    by (auto simp: am_struct_def)
qed

lemma find_by_handle_int:
  assumes "am_struct m" "i < APP_SLOTS_MAX" "\<not> slot_is_empty (mg_slots m ! i)"
  shows "find_slot_by_handle m (int i) = Some i"
proof -
  have i: "i < mg_slot_count m" "sl_handle (mg_slots m ! i) = int i"
    using assms by (auto simp: am_struct_def)
  have "find_index (\<lambda>s. \<not> slot_is_empty s \<and> sl_handle s = int i) (take (mg_slot_count m) (mg_slots m)) = Some i"
    using assms i by (intro find_index_unique) (auto simp: am_struct_def)
  then show ?thesis by (simp add: find_slot_by_handle_def APP_HANDLE_INVALID_def)
qed

lemma find_by_id_Some:
  assumes "am_struct m" "find_slot_by_id m a = Some i"
  shows "i < mg_slot_count m \<and> i < APP_SLOTS_MAX \<and> \<not> slot_is_empty (mg_slots m ! i)
         \<and> slot_app_id (mg_slots m ! i) = a \<and> sl_handle (mg_slots m ! i) = int i"
  using find_index_Some [OF assms(2) [unfolded find_slot_by_id_def]] assms(1)
  by (auto simp: am_struct_def)

lemma find_by_id_None:
  assumes "am_struct m" "find_slot_by_id m a = None" "i < APP_SLOTS_MAX" "\<not> slot_is_empty (mg_slots m ! i)"
  shows "slot_app_id (mg_slots m ! i) \<noteq> a"
proof -
  have "i < mg_slot_count m" "mg_slot_count m \<le> length (mg_slots m)"
    using assms(1,3,4) by (auto simp: am_struct_def)
  with assms(2,4) show ?thesis by (auto simp: find_slot_by_id_def find_index_None)
qed

section \<open>The eviction scan\<close>

lemma struct_used: "am_struct m \<Longrightarrow> i < APP_SLOTS_MAX \<Longrightarrow> \<not> slot_is_empty (mg_slots m ! i) \<Longrightarrow> i < mg_slot_count m"
  by (auto simp: am_struct_def)

definition lru_prefix :: "app_manager \<Rightarrow> nat \<Rightarrow> nat option \<times> u32" where
  "lru_prefix m n =
     fold (\<lambda>i (idx, ts). (let s = mg_slots m ! i in
         if evictable m s \<and> sl_last_used_ms s < ts then (Some i, sl_last_used_ms s) else (idx, ts)))
       [0..<n] (None, - 1)"

lemma lru_prefix_spec:
  "case lru_prefix m n of
     (None, ts) \<Rightarrow> ts = - 1 \<and> (\<forall>i<n. evictable m (mg_slots m ! i) \<longrightarrow> sl_last_used_ms (mg_slots m ! i) = - 1)
   | (Some v, ts) \<Rightarrow> v < n \<and> evictable m (mg_slots m ! v) \<and> sl_last_used_ms (mg_slots m ! v) = ts
       \<and> (\<forall>i<n. evictable m (mg_slots m ! i) \<longrightarrow> ts \<le> sl_last_used_ms (mg_slots m ! i))"
proof (induction n)
  case 0
  then show ?case by (simp add: lru_prefix_def)
next
  case (Suc n)
  have step: "lru_prefix m (Suc n) =
      (case lru_prefix m n of (idx, ts) \<Rightarrow>
         (let s = mg_slots m ! n in
          if evictable m s \<and> sl_last_used_ms s < ts then (Some n, sl_last_used_ms s) else (idx, ts)))"
    by (simp add: lru_prefix_def split: prod.splits)
  have max: "x < - 1 \<or> x = - 1" for x :: u32
    using word_n1_ge [of x] by (auto simp: order_less_le)
  show ?case
    unfolding step using Suc max [of "sl_last_used_ms (mg_slots m ! n)"]
    by (auto simp: Let_def less_Suc_eq split: prod.splits option.splits)
qed

lemma lru_scan_eq: "lru_scan m = lru_prefix m (mg_slot_count m)"
  by (simp add: lru_scan_def lru_prefix_def)

lemma lru_scan_Some:
  assumes "fst (lru_scan m) = Some v"
  shows "v < mg_slot_count m \<and> evictable m (mg_slots m ! v) \<and>
    (\<forall>i<mg_slot_count m. evictable m (mg_slots m ! i) \<longrightarrow>
       sl_last_used_ms (mg_slots m ! v) \<le> sl_last_used_ms (mg_slots m ! i))"
  using assms lru_prefix_spec [where m = m and n = "mg_slot_count m"] unfolding lru_scan_eq
  by (auto split: prod.splits option.splits)

lemma lru_scan_None:
  assumes "fst (lru_scan m) = None"
  shows "\<forall>i<mg_slot_count m. evictable m (mg_slots m ! i) \<longrightarrow> sl_last_used_ms (mg_slots m ! i) = - 1"
  using assms lru_prefix_spec [where m = m and n = "mg_slot_count m"] unfolding lru_scan_eq
  by (auto split: prod.splits option.splits)

lemma evict_inv:
  assumes "am_struct m" "states_ok m" "only_running f m" "evict_lru m = (h, e, m')"
  shows "am_struct m' \<and> states_ok m' \<and> only_running f m' \<and> mg_foreground m' = mg_foreground m
         \<and> mg_slot_count m' = mg_slot_count m"
  using assms by (auto simp: evict_lru_def Let_def struct_clear states_clear running_clear split: option.splits)

section \<open>Operations keep the invariant\<close>

lemma leave_foreground_inv:
  assumes "am_inv m" "leave_foreground m = (e, m')"
  shows "am_struct m' \<and> states_ok m' \<and> only_running (- 1) m' \<and> mg_foreground m' = mg_foreground m
         \<and> mg_slot_count m' = mg_slot_count m"
proof -
  have inv: "am_struct m" "states_ok m" "only_running (mg_foreground m) m"
    using assms(1) by (auto simp: am_inv_def)
  show ?thesis
  proof (cases "find_slot_by_handle m (mg_foreground m)")
    case None
    then have "only_running (- 1) m"
      using inv find_by_handle_int [OF inv(1)] by (fastforce simp: only_running_def)
    with None inv assms(2) show ?thesis by (auto simp: leave_foreground_def)
  next
    case (Some fg)
    have fg: "mg_foreground m = int fg" using find_by_handle_Some [OF inv(1) Some] by simp
    have demote: "only_running (- 1) (set_state fg st m)" if "st \<noteq> Running" for st
      using running_demote [OF _ inv(1) that] inv(3) fg by simp
    have keep: "only_running (- 1) m" if "sl_state (mg_slots m ! fg) \<noteq> 2"
      by (rule running_stopped [of fg m]) (use that inv(3) fg struct_length [OF inv(1)] in simp_all)
    show ?thesis
      using Some assms(2) inv demote keep
      by (auto simp: leave_foreground_def Let_def state_from_u32_iff struct_set_state states_set_state
          split: if_splits)
  qed
qed

lemma relieve_memory_inv:
  assumes "am_struct m" "states_ok m" "only_running f m" "relieve_memory env m = (e, m')"
  shows "am_struct m' \<and> states_ok m' \<and> only_running f m' \<and> mg_foreground m' = mg_foreground m
         \<and> mg_slot_count m' = mg_slot_count m"
  using assms evict_inv [OF assms(1-3)]
  by (auto simp: relieve_memory_def split: if_splits prod.splits)

lemma set_state_twice: "set_state i st (set_state i st' m) = set_state i st m"
  by (cases "i < length (mg_slots m)") (auto simp: set_state_def list_update_beyond)

lemma activate_eq:
  assumes "activate env t m = (r, e, m')"
  shows "if isl r then m' = set_state t Loading m \<and> projl r \<noteq> ESP_OK else m' = set_state t Running m"
  using assms
  by (auto simp: activate_def Let_def set_state_twice split: app_state.splits if_splits option.splits)

lemma launch_fail:
  assumes "find_slot_by_id m a = Some t" "mg_foreground m \<noteq> sl_handle (mg_slots m ! t)"
    and "leave_foreground m = (e1, m1)" "relieve_memory env m1 = (e2, m2)"
    and "activate env t m2 = (Inl rc, e3, m3)"
  shows "mgr_launch env m a =
    (rc, e1 @ e2 @ e3,
     (let m4 = (set_state t Unloaded m3)\<lparr>mg_foreground := mg_foreground m\<rparr> in
      case find_slot_by_handle m4 (mg_foreground m) of None \<Rightarrow> m4 | Some fg \<Rightarrow> set_state fg Running m4))"
  using assms by (simp add: mgr_launch_def Let_def)

lemma launch_success:
  assumes "find_slot_by_id m a = Some t" "mg_foreground m \<noteq> sl_handle (mg_slots m ! t)"
    and "leave_foreground m = (e1, m1)" "relieve_memory env m1 = (e2, m2)"
    and "activate env t m2 = (Inr is_new, e3, m3)"
  shows "mgr_launch env m a =
    (ESP_OK,
     e1 @ e2 @ e3 @ [Publish (if is_new then EVENT_APP_LAUNCHED else EVENT_APP_SWITCHED) (sl_handle (mg_slots m ! t))],
     m3\<lparr>mg_slots := (mg_slots m3)[t := (mg_slots m3 ! t)\<lparr>sl_last_used_ms := env_uptime_ms env\<rparr>],
        mg_foreground := sl_handle (mg_slots m ! t)\<rparr>)"
  using assms by (simp add: mgr_launch_def Let_def)

lemma launch_inv: "am_inv m \<Longrightarrow> am_inv (snd (snd (mgr_launch env m a)))"
proof (cases "find_slot_by_id m a")
  case None
  then show "am_inv m \<Longrightarrow> ?thesis" by (simp add: mgr_launch_def)
next
  case (Some t)
  assume inv: "am_inv m"
  then have st: "am_struct m" and fgr: "mg_foreground m = - 1 \<or> 0 \<le> mg_foreground m \<and> mg_foreground m < int (mg_slot_count m)"
    by (auto simp: am_inv_def am_struct_def)
  note t = find_by_id_Some [OF st Some]
  show ?thesis
  proof (cases "mg_foreground m = int t")
    case True
    with Some inv t show ?thesis by (simp add: mgr_launch_def Let_def)
  next
    case False
    obtain e1 m1 where l: "leave_foreground m = (e1, m1)" by fastforce
    obtain e2 m2 where r: "relieve_memory env m1 = (e2, m2)" by fastforce
    obtain res e3 m3 where a: "activate env t m2 = (res, e3, m3)" by (metis prod.collapse)
    note i1 = leave_foreground_inv [OF inv l]
    note i2 = relieve_memory_inv [of m1 "- 1" env, OF _ _ _ r]
    have s2: "am_struct m2" "states_ok m2" "only_running (- 1) m2" "mg_slot_count m2 = mg_slot_count m"
      using i1 i2 by auto
    show ?thesis
    proof (cases res)
      case (Inl rc)
      with activate_eq [OF a] have m3: "m3 = set_state t Loading m2" by simp
      let ?m4 = "(set_state t Unloaded m2)\<lparr>mg_foreground := mg_foreground m\<rparr>"
      have s4: "am_struct ?m4" "states_ok ?m4" "only_running (- 1) ?m4"
        using s2 fgr by (auto intro!: struct_foreground struct_set_state states_set_state running_set_state)
      have roll: "am_inv (set_state fg Running ?m4)" if "find_slot_by_handle ?m4 (mg_foreground m) = Some fg" for fg
        using s4 find_by_handle_Some [OF s4(1) that] running_none [OF s4(3)]
        by (auto simp: am_inv_def intro!: struct_set_state states_set_state running_set_state)
      show ?thesis
        unfolding launch_fail [OF Some _ l r a [unfolded Inl], simplified t, OF False] m3 set_state_twice
        using s4 running_none [OF s4(3)] roll by (simp add: am_inv_def Let_def split: option.split)
    next
      case (Inr is_new)
      with activate_eq [OF a] have m3: "m3 = set_state t Running m2" by simp
      have s3: "am_struct m3" "states_ok m3" "only_running (int t) m3" "mg_slot_count m3 = mg_slot_count m"
        using s2 running_none [OF s2(3)]
        by (auto simp: m3 intro!: struct_set_state states_set_state running_set_state)
      have "am_inv (m3\<lparr>mg_slots := (mg_slots m3)[t := (mg_slots m3 ! t)\<lparr>sl_last_used_ms := u\<rparr>], mg_foreground := int t\<rparr>)" for u
        using struct_foreground [OF touch_inv(1) [OF s3(1-3)], of "int t"] touch_inv(2,3) [OF s3(1-3)] s3(4) t
        by (simp add: am_inv_def)
      then show ?thesis
        unfolding launch_success [OF Some _ l r a [unfolded Inr], simplified t, OF False] by (simp add: t)
    qed
  qed
qed

lemma switch_inv: "am_inv m \<Longrightarrow> am_inv (snd (snd (mgr_switch_to env m h)))"
  by (cases "find_slot_by_handle m h") (simp_all add: mgr_switch_to_def Let_def launch_inv)

lemma suspend_inv:
  assumes "am_inv m"
  shows "am_inv (snd (snd (mgr_suspend m h)))"
proof (cases "find_slot_by_handle m h")
  case None
  with assms show ?thesis by (simp add: mgr_suspend_def)
next
  case (Some i)
  have inv: "am_struct m" "states_ok m" "only_running (mg_foreground m) m"
    using assms by (auto simp: am_inv_def)
  let ?m1 = "set_state i Suspended m"
  have s: "am_struct ?m1" "states_ok ?m1" "only_running (mg_foreground m) ?m1"
    using inv by (auto intro!: struct_set_state states_set_state running_set_state)
  have h: "h = int i" using find_by_handle_Some [OF inv(1) Some] by simp
  have "only_running (- 1) ?m1" if "mg_foreground m = int i"
    using running_demote [OF _ inv(1)] inv(3) that by simp
  then have "am_inv (?m1\<lparr>mg_foreground := - 1\<rparr>)" if "mg_foreground m = int i"
    using s that by (simp add: am_inv_def struct_foreground)
  moreover have "am_inv ?m1" using s by (simp add: am_inv_def)
  ultimately show ?thesis
    using Some h assms by (simp add: mgr_suspend_def Let_def APP_HANDLE_INVALID_def)
qed

lemma kill_inv:
  assumes "am_inv m"
  shows "am_inv (snd (snd (mgr_kill m h)))"
proof (cases "find_slot_by_handle m h")
  case None
  with assms show ?thesis by (simp add: mgr_kill_def)
next
  case (Some i)
  have inv: "am_struct m" "states_ok m" "only_running (mg_foreground m) m"
    using assms by (auto simp: am_inv_def)
  have h: "h = int i" using find_by_handle_Some [OF inv(1) Some] by simp
  let ?m1 = "m\<lparr>mg_slots := (mg_slots m)[i := empty_app_slot]\<rparr>"
  have s: "am_struct ?m1" "states_ok ?m1" "only_running (mg_foreground m) ?m1"
    using inv by (auto intro!: struct_clear states_clear running_clear)
  have stop: "only_running (- 1) ?m1" if "mg_foreground m = int i"
    using running_clear_demote [OF _ inv(1)] inv(3) that by simp
  have "am_inv (m\<lparr>mg_foreground := - 1, mg_slots := (mg_slots m)[i := empty_app_slot]\<rparr>)"
    if "mg_foreground m = int i"
  proof -
    have "am_inv (?m1\<lparr>mg_foreground := - 1\<rparr>)"
      using s stop that struct_foreground [OF s(1), of "- 1"] by (simp add: am_inv_def)
    moreover have "m\<lparr>mg_foreground := - 1, mg_slots := (mg_slots m)[i := empty_app_slot]\<rparr> = ?m1\<lparr>mg_foreground := - 1\<rparr>"
      by (cases m) simp
    ultimately show ?thesis by (simp only:)
  qed
  moreover have "am_inv ?m1" using s by (simp add: am_inv_def)
  ultimately show ?thesis
    using Some h assms by (simp add: mgr_kill_def Let_def APP_HANDLE_INVALID_def)
qed

lemma i32_wrapping_small: "i < 1000 \<Longrightarrow> i32_wrapping_add (int i) 1 = int (Suc i)"
proof -
  assume "i < 1000"
  then have "signed_take_bit 31 (int i + 1) = int i + 1"
    by (intro signed_take_bit_int_eq_self) auto
  then show ?thesis
    unfolding i32_wrapping_add_def by (subst signed_of_int) simp
qed

lemma struct_append:
  assumes "am_struct m" "mg_slot_count m < APP_SLOTS_MAX"
    and "\<And>j. j < APP_SLOTS_MAX \<Longrightarrow> \<not> slot_is_empty (mg_slots m ! j) \<Longrightarrow> slot_app_id (mg_slots m ! j) \<noteq> a"
    and "nh = int (Suc (mg_slot_count m))" "slot_app_id s = a" "\<not> slot_is_empty s" "sl_handle s = mg_next_handle m"
  shows "am_struct (m\<lparr>mg_next_handle := nh, mg_slots := (mg_slots m)[mg_slot_count m := s],
                     mg_slot_count := Suc (mg_slot_count m)\<rparr>)" (is "am_struct ?m'")
proof -
  have len: "length (mg_slots m) = APP_SLOTS_MAX" by (rule struct_length [OF assms(1)])
  have nth: "mg_slots ?m' ! i = (if i = mg_slot_count m then s else mg_slots m ! i)" if "i < APP_SLOTS_MAX" for i
    using that len by (simp add: nth_upd)
  have fresh: "mg_slot_count m \<notin> used m"
    using struct_used [OF assms(1)] by (auto simp: used_def)
  have used: "used ?m' = insert (mg_slot_count m) (used m)"
    using assms(2,6) nth fresh by (auto simp: used_def split: if_splits)
  have same: "slot_app_id (mg_slots ?m' ! i) = slot_app_id (mg_slots m ! i)" if "i \<in> used m" for i
    using that fresh nth [of i] by (auto simp: used_def)
  have "inj_on (\<lambda>i. slot_app_id (mg_slots ?m' ! i)) (used m)"
    using assms(1) same by (simp add: am_struct_def ids_unique_def cong: inj_on_cong)
  moreover have "slot_app_id (mg_slots ?m' ! mg_slot_count m) = a"
    using nth [OF assms(2)] assms(5) by simp
  moreover have "slot_app_id (mg_slots ?m' ! i) \<noteq> a" if "i \<in> used m" for i
    using same [OF that] assms(3) that by (auto simp: used_def)
  ultimately have "ids_unique ?m'"
    unfolding ids_unique_def used by (simp add: fresh) blast
  then show ?thesis
    using assms(1,2,4,6,7) by (auto simp: am_struct_def less_Suc_eq nth_upd)
qed

lemma register_inv:
  assumes "am_inv m"
  shows "am_inv (snd (mgr_register m entry))"
proof -
  have inv: "am_struct m" "states_ok m" "only_running (mg_foreground m) m"
    using assms by (auto simp: am_inv_def)
  have add: "am_inv (m\<lparr>mg_next_handle := i32_wrapping_add (mg_next_handle m) 1,
      mg_slots := (mg_slots m)[mg_slot_count m :=
         \<lparr>sl_entry = Some e, sl_state = state_u32 Unloaded, sl_handle = mg_next_handle m, sl_last_used_ms = 0\<rparr>],
      mg_slot_count := Suc (mg_slot_count m)\<rparr>)"
    if "find_slot_by_id m (cstr_or_empty i) = None" "mg_slot_count m < APP_SLOTS_MAX"
      "ae_manifest e = Some mf" "am_id mf = Some i" for e mf i
  proof -
    have idx: "slot_app_id (mg_slots m ! j) \<noteq> cstr_or_empty i" if "j < APP_SLOTS_MAX" "\<not> slot_is_empty (mg_slots m ! j)" for j
      using find_by_id_None [OF inv(1)] that \<open>find_slot_by_id m _ = None\<close> by blast
    have nh: "i32_wrapping_add (mg_next_handle m) 1 = int (Suc (mg_slot_count m))"
      using inv(1) i32_wrapping_small [of "mg_slot_count m"] by (simp add: am_struct_def APP_SLOTS_MAX_def)
    have new: "slot_app_id \<lparr>sl_entry = Some e, sl_state = 0, sl_handle = h, sl_last_used_ms = 0\<rparr> = cstr_or_empty i"
      "\<not> slot_is_empty \<lparr>sl_entry = Some e, sl_state = 0, sl_handle = h, sl_last_used_ms = 0\<rparr>" for h
      using that(3,4) by (simp_all add: slot_app_id_def slot_is_empty_def)
    have "am_struct (m\<lparr>mg_next_handle := i32_wrapping_add (mg_next_handle m) 1,
      mg_slots := (mg_slots m)[mg_slot_count m :=
         \<lparr>sl_entry = Some e, sl_state = state_u32 Unloaded, sl_handle = mg_next_handle m, sl_last_used_ms = 0\<rparr>],
      mg_slot_count := Suc (mg_slot_count m)\<rparr>)"
      by (rule struct_append [OF inv(1) that(2) idx nh]) (simp_all add: new)
    then show ?thesis
      using inv(2,3) new(2) struct_length [OF inv(1)]
      by (auto simp: am_inv_def states_ok_def only_running_def nth_upd)
  qed
  show ?thesis
    using assms add by (auto simp: mgr_register_def split: option.splits)
qed

lemma blank_inv:
  assumes "\<And>i. i < APP_SLOTS_MAX \<Longrightarrow> mg_slots m ! i = empty_app_slot" "length (mg_slots m) = APP_SLOTS_MAX"
    and "mg_slot_count m = 0" "mg_foreground m = - 1" "mg_next_handle m = 0"
  shows "am_inv m"
proof -
  have "used m = {}" using assms(1) by (auto simp: used_def)
  with assms show ?thesis
    by (simp add: am_inv_def am_struct_def ids_unique_def states_ok_def only_running_def)
qed

lemma new_manager_inv [simp]: "am_inv new_manager"
  by (rule blank_inv) (simp_all add: new_manager_def APP_HANDLE_INVALID_def)

lemma init_inv:
  assumes "am_inv m"
  shows "am_inv (snd (mgr_init m))"
proof (cases "mg_initialized m")
  case True
  with assms show ?thesis by (simp add: mgr_init_def)
next
  case False
  have "length (mg_slots m) = APP_SLOTS_MAX" using assms by (simp add: am_inv_def struct_length)
  with False show ?thesis
    by (intro blank_inv) (simp_all add: mgr_init_def APP_HANDLE_INVALID_def)
qed

section \<open>The manager as a machine\<close>

datatype am_op =
    OInit
  | ORegister "app_entry option"
  | OLaunch env string
  | OSwitch env int
  | OSuspend int
  | OKill int
  | OEvict

fun am_step :: "am_op \<Rightarrow> app_manager \<Rightarrow> app_manager" where
  "am_step OInit m = snd (mgr_init m)"
| "am_step (ORegister e) m = snd (mgr_register m e)"
| "am_step (OLaunch env a) m = snd (snd (mgr_launch env m a))"
| "am_step (OSwitch env h) m = snd (snd (mgr_switch_to env m h))"
| "am_step (OSuspend h) m = snd (snd (mgr_suspend m h))"
| "am_step (OKill h) m = snd (snd (mgr_kill m h))"
| "am_step OEvict m = snd (snd (evict_lru m))"

definition running_slots :: "app_manager \<Rightarrow> nat set" where
  "running_slots m = {i. i < APP_SLOTS_MAX \<and> \<not> slot_is_empty (mg_slots m ! i) \<and> sl_state (mg_slots m ! i) = 2}"

lemma am_inv_step: "am_inv m \<Longrightarrow> am_inv (am_step e m)"
proof (cases e)
  case OEvict
  assume "am_inv m"
  with OEvict show ?thesis
    using evict_inv [of m "mg_foreground m"] by (cases "evict_lru m") (auto simp: am_inv_def)
qed (simp_all add: init_inv register_inv launch_inv switch_inv suspend_inv kill_inv)

lemma running_foreground: "am_inv m \<Longrightarrow> i \<in> running_slots m \<Longrightarrow> int i = mg_foreground m"
  using only_runningD [of "mg_foreground m" m i] by (simp add: running_slots_def am_inv_def)

lemma running_card: "am_inv m \<Longrightarrow> card (running_slots m) \<le> 1"
proof -
  assume inv: "am_inv m"
  have "running_slots m \<subseteq> {nat (mg_foreground m)}"
    using running_foreground [OF inv] by (auto simp: subset_iff) (metis nat_int)
  then show ?thesis using card_mono [of "{nat (mg_foreground m)}"] by force
qed

interpretation am: bounded_machine am_step am_inv "card \<circ> running_slots" 1
  by unfold_locales (simp add: am_inv_step, simp add: running_card [simplified])

section \<open>Concrete managers\<close>

text \<open>A manager with the slots \<open>ss\<close> in use and the rest blank, on which operations evaluate by
  rewriting \<open>ss\<close> alone.\<close>

definition mk :: "app_slot list \<Rightarrow> int \<Rightarrow> app_manager" where
  "mk ss fg =
     \<lparr>mg_slots = ss @ replicate (APP_SLOTS_MAX - length ss) empty_app_slot, mg_slot_count = length ss,
      mg_foreground = fg, mg_next_handle = int (length ss), mg_initialized = True\<rparr>"

lemma mk_sel:
  "mg_slot_count (mk ss fg) = length ss" "mg_foreground (mk ss fg) = fg"
  "i < length ss \<Longrightarrow> mg_slots (mk ss fg) ! i = ss ! i"
  "find_slot_by_id (mk ss fg) a = find_index (\<lambda>s. \<not> slot_is_empty s \<and> slot_app_id s = a) ss"
  "find_slot_by_handle (mk ss fg) h =
     (if h = - 1 then None else find_index (\<lambda>s. \<not> slot_is_empty s \<and> sl_handle s = h) ss)"
  by (simp_all add: mk_def nth_append find_slot_by_id_def find_slot_by_handle_def APP_HANDLE_INVALID_def)

lemma mk_upd:
  "i < length ss \<Longrightarrow> set_state i st (mk ss fg) = mk (ss[i := (ss ! i)\<lparr>sl_state := state_u32 st\<rparr>]) fg"
  "i < length ss \<Longrightarrow> mk ss fg\<lparr>mg_slots := (mg_slots (mk ss fg))[i := s]\<rparr> = mk (ss[i := s]) fg"
  "mk ss fg\<lparr>mg_foreground := g\<rparr> = mk ss g"
  by (simp_all add: mk_def set_state_def list_update_append nth_append)

lemma mk_init: "am_step OInit new_manager = mk [] (- 1)"
  by (simp add: mgr_init_def new_manager_def mk_def APP_HANDLE_INVALID_def)

lemma mk_register:
  assumes "length ss < 20" "ae_manifest e = Some mf" "am_id mf = Some a" "utf8_valid a"
    and "\<forall>s\<in>set ss. slot_is_empty s \<or> slot_app_id s \<noteq> a"
  shows "am_step (ORegister (Some e)) (mk ss fg) =
    mk (ss @ [\<lparr>sl_entry = Some e, sl_state = 0, sl_handle = int (length ss), sl_last_used_ms = 0\<rparr>]) fg"
proof -
  have "find_slot_by_id (mk ss fg) a = None"
    using assms(5) by (auto simp: mk_sel find_index_None)
  moreover have "replicate (20 - length ss) x = x # replicate (19 - length ss) x" for x :: app_slot
    using assms(1) by (simp flip: replicate_Suc add: Suc_diff_le)
  ultimately show ?thesis
    using assms(1-4) i32_wrapping_small [of "length ss"]
    by (simp add: mgr_register_def cstr_or_empty_def mk_def APP_SLOTS_MAX_def)
qed

definition entry_of :: "string \<Rightarrow> usize \<Rightarrow> app_entry" where
  "entry_of a f =
     \<lparr>on_create = Some f, on_start = Some (f + 1), on_pause = Some (f + 2), on_resume = Some (f + 3),
      on_destroy = Some (f + 4),
      ae_manifest = Some \<lparr>am_addr = f, am_id = Some a, am_name = None, am_version = None,
                          am_allow_background = True, am_min_memory_kb = 0\<rparr>\<rparr>"

definition slot_of :: "string \<Rightarrow> usize \<Rightarrow> u32 \<Rightarrow> int \<Rightarrow> u32 \<Rightarrow> app_slot" where
  "slot_of a f st h t =
     \<lparr>sl_entry = Some (entry_of a f), sl_state = st, sl_handle = h, sl_last_used_ms = t\<rparr>"

definition mk_env :: "nat \<Rightarrow> int \<Rightarrow> env" where
  "mk_env free rc = \<lparr>env_heap_free = free, env_uptime_ms = 7, env_create_rc = rc\<rparr>"

lemma slot_of_simps [simp]:
  "\<not> slot_is_empty (slot_of a f st h t)" "utf8_valid a \<Longrightarrow> slot_app_id (slot_of a f st h t) = a"
  "sl_handle (slot_of a f st h t) = h" "sl_state (slot_of a f st h t) = st"
  "sl_last_used_ms (slot_of a f st h t) = t" "sl_entry (slot_of a f st h t) = Some (entry_of a f)"
  "slot_of a f st h t\<lparr>sl_state := st'\<rparr> = slot_of a f st' h t"
  "slot_of a f st h t\<lparr>sl_last_used_ms := t'\<rparr> = slot_of a f st h t'"
  by (simp_all add: slot_is_empty_def slot_app_id_def slot_of_def entry_of_def cstr_or_empty_def)

lemma entry_of_simps [simp]:
  "on_create (entry_of a f) = Some f" "on_start (entry_of a f) = Some (f + 1)"
  "on_pause (entry_of a f) = Some (f + 2)" "on_resume (entry_of a f) = Some (f + 3)"
  "on_destroy (entry_of a f) = Some (f + 4)"
  by (simp_all add: entry_of_def)

lemma utf8_ab [simp]: "utf8_valid ''a''" "utf8_valid ''b''"
  by (simp_all add: utf8_valid_ascii)

lemma register_entry:
  assumes "length ss < 20" "utf8_valid a" "\<forall>s\<in>set ss. slot_is_empty s \<or> slot_app_id s \<noteq> a"
  shows "am_step (ORegister (Some (entry_of a f))) (mk ss fg) = mk (ss @ [slot_of a f 0 (int (length ss)) 0]) fg"
proof -
  obtain mf where mf: "ae_manifest (entry_of a f) = Some mf" "am_id mf = Some a"
    by (simp add: entry_of_def)
  show ?thesis unfolding slot_of_def by (rule mk_register [OF assms(1) mf assms(2,3)])
qed

lemma two_registered:
  "fold am_step [OInit, ORegister (Some (entry_of ''a'' 10)), ORegister (Some (entry_of ''b'' 20))] new_manager =
   mk [slot_of ''a'' 10 0 0 0, slot_of ''b'' 20 0 1 0] (- 1)"
  by (simp add: mk_init register_entry del: am_step.simps)

lemmas launch_eval = mgr_launch_def leave_foreground_def relieve_memory_def activate_def mk_env_def
  mk_sel mk_upd Let_def APP_MEMORY_THRESHOLD_BYTES_def state_from_u32_def is_launcher_id_def
  call_cb_def opt_effect_def

lemma launch_a:
  "am_step (OLaunch (mk_env 100000 0) ''a'') (mk [slot_of ''a'' 10 0 0 0, slot_of ''b'' 20 0 1 0] (- 1)) =
   mk [slot_of ''a'' 10 2 0 7, slot_of ''b'' 20 0 1 0] 0"
  by (simp add: launch_eval)

lemma suspend_a:
  "am_step (OSuspend 0) (mk [slot_of ''a'' 10 2 0 7, slot_of ''b'' 20 0 1 0] 0) =
   mk [slot_of ''a'' 10 4 0 7, slot_of ''b'' 20 0 1 0] (- 1)"
  by (simp add: mgr_suspend_def mk_sel mk_upd Let_def state_from_u32_def APP_HANDLE_INVALID_def)

definition boot_a :: "am_op list" where
  "boot_a = [OInit, ORegister (Some (entry_of ''a'' 10)), ORegister (Some (entry_of ''b'' 20)),
     OLaunch (mk_env 100000 0) ''a'']"

lemma boot_a_eq: "fold am_step boot_a new_manager = mk [slot_of ''a'' 10 2 0 7, slot_of ''b'' 20 0 1 0] 0"
  using two_registered launch_a unfolding boot_a_def by (simp del: am_step.simps)

lemma running_a_inv: "am_inv (mk [slot_of ''a'' 10 2 0 7, slot_of ''b'' 20 0 1 0] 0)"
  using am.run_inv [OF new_manager_inv, of boot_a] by (simp add: boot_a_eq)

lemma suspended_a_inv: "am_inv (mk [slot_of ''a'' 10 4 0 7, slot_of ''b'' 20 0 1 0] (- 1))"
  using am_inv_step [OF running_a_inv, of "OSuspend 0"] by (simp only: suspend_a)

section \<open>Launching with memory to spare\<close>

text \<open>What becomes of the running application when another one comes to the foreground.\<close>

definition retired :: "app_slot \<Rightarrow> app_slot" where
  "retired s = s\<lparr>sl_state := if is_launcher_id (slot_app_id s) then 3 else 0\<rparr>"

lemma retired_simps [simp]:
  "slot_is_empty (retired s) = slot_is_empty s" "slot_app_id (retired s) = slot_app_id s"
  "sl_handle (retired s) = sl_handle s"
  by (simp_all add: retired_def)

lemma running_slotsD:
  assumes "am_inv m" "i \<in> running_slots m"
  shows "find_slot_by_handle m (mg_foreground m) = Some i"
  using find_by_handle_int [of m i] running_foreground [OF assms] assms
  by (auto simp: am_inv_def running_slots_def)

lemma leave_foreground_slots:
  assumes "am_inv m" "leave_foreground m = (e, m')" "i < APP_SLOTS_MAX"
  shows "mg_slots m' ! i = (if i \<in> running_slots m then retired (mg_slots m ! i) else mg_slots m ! i)"
proof (cases "find_slot_by_handle m (mg_foreground m)")
  case None
  with running_slotsD [OF assms(1)] assms(2) show ?thesis by (auto simp: leave_foreground_def)
next
  case (Some f)
  have st: "am_struct m" using assms(1) by (simp add: am_inv_def)
  have only: "i \<in> running_slots m \<longleftrightarrow> i = f \<and> sl_state (mg_slots m ! f) = 2"
    using running_slotsD [OF assms(1), of i] Some find_by_handle_Some [OF st Some]
    by (auto simp: running_slots_def)
  show ?thesis
    using Some assms(2,3) only struct_length [OF st]
    by (auto simp: leave_foreground_def Let_def state_from_u32_iff set_state_nth retired_def split: if_splits)
qed



section \<open>What killing and evicting leave behind\<close>

lemma launch_count:
  "mg_slot_count (snd (snd (mgr_launch env m a))) = mg_slot_count m \<and>
   mg_initialized (snd (snd (mgr_launch env m a))) = mg_initialized m"
proof -
  have l: "mg_slot_count (snd (leave_foreground x)) = mg_slot_count x \<and>
      mg_initialized (snd (leave_foreground x)) = mg_initialized x" for x
    by (simp add: leave_foreground_def Let_def set_state_def split: option.split)
  have r: "mg_slot_count (snd (relieve_memory env x)) = mg_slot_count x \<and>
      mg_initialized (snd (relieve_memory env x)) = mg_initialized x" for x
    by (simp add: relieve_memory_def evict_lru_def Let_def split: option.split)
  have a: "mg_slot_count (snd (snd (activate env t x))) = mg_slot_count x \<and>
      mg_initialized (snd (snd (activate env t x))) = mg_initialized x" for t x
    by (simp add: activate_def Let_def set_state_def split: app_state.split)
  show ?thesis
  proof (cases "find_slot_by_id m a")
    case (Some t)
    obtain e1 m1 where 1: "leave_foreground m = (e1, m1)" by fastforce
    obtain e2 m2 where 2: "relieve_memory env m1 = (e2, m2)" by fastforce
    obtain res e3 m3 where 3: "activate env t m2 = (res, e3, m3)" by (metis prod.collapse)
    have "mg_slot_count m3 = mg_slot_count m \<and> mg_initialized m3 = mg_initialized m"
      using l [of m] r [of m1] a [of t m2] by (simp add: 1 2 3)
    then show ?thesis
      by (auto simp: mgr_launch_def Some 1 2 3 Let_def set_state_def split: sum.split option.split)
  qed (simp add: mgr_launch_def)
qed

text \<open>On an initialised manager no operation lowers the number of slots taken.\<close>

lemma step_count:
  assumes "mg_initialized m"
  shows "mg_slot_count m \<le> mg_slot_count (am_step e m) \<and> mg_initialized (am_step e m)"
proof (cases e)
  case (ORegister x)
  with assms show ?thesis by (auto simp: mgr_register_def split: option.splits)
next
  case (OLaunch env a)
  with assms launch_count show ?thesis by simp
next
  case (OSwitch env h)
  with assms launch_count show ?thesis by (auto simp: mgr_switch_to_def Let_def split: option.splits)
next
  case (OSuspend h)
  with assms show ?thesis by (auto simp: mgr_suspend_def Let_def set_state_def split: option.splits)
next
  case (OKill h)
  with assms show ?thesis by (auto simp: mgr_kill_def Let_def split: option.splits)
qed (use assms in \<open>auto simp: mgr_init_def evict_lru_def Let_def split: option.splits\<close>)

lemma run_count:
  "mg_initialized m \<Longrightarrow> mg_slot_count m \<le> mg_slot_count (fold am_step ops m) \<and> mg_initialized (fold am_step ops m)"
proof (induction ops arbitrary: m)
  case (Cons e ops)
  with step_count [OF Cons.prems, of e] Cons.IH [of "am_step e m"] show ?case by force
qed simp

section \<open>Properties\<close>

text \<open>C22. Whatever operations ran since boot, at most one application is running, and it is the
  foreground one; a slot's handle is its index and no two applications share an id.\<close>

theorem am_single_running:
  assumes "m = fold am_step ops new_manager"
  shows "card (running_slots m) \<le> 1 \<and> (\<forall>i\<in>running_slots m. int i = mg_foreground m)
    \<and> (\<forall>i<APP_SLOTS_MAX. \<not> slot_is_empty (mg_slots m ! i) \<longrightarrow> sl_handle (mg_slots m ! i) = int i)
    \<and> ids_unique m"
proof -
  have inv: "am_inv m" unfolding assms by (rule am.run_inv) simp
  then have "am_struct m" by (simp add: am_inv_def)
  then have "\<forall>i<APP_SLOTS_MAX. \<not> slot_is_empty (mg_slots m ! i) \<longrightarrow> sl_handle (mg_slots m ! i) = int i"
    "ids_unique m"
    by (auto simp: am_struct_def)
  with running_card [OF inv] running_foreground [OF inv] show ?thesis by blast
qed

theorem am_single_running_witness:
  "card (running_slots (fold am_step boot_a new_manager)) \<le> 1 \<and>
   mg_foreground (fold am_step boot_a new_manager) = 0"
  using am_single_running [OF refl, of boot_a] boot_a_eq by (simp add: mk_sel)



text \<open>Eviction takes a backgrounded or suspended application that is neither in the foreground
  nor a launcher, one that was used no later than any other such application, destroys it, announces
  its handle and blanks its slot only; when it takes none, every candidate's timestamp is the
  largest one.\<close>

theorem am_evict_victim:
  assumes "evict_lru m = (h, effs, m')"
  shows "(\<exists>v<mg_slot_count m. evictable m (mg_slots m ! v) \<and> h = sl_handle (mg_slots m ! v)
      \<and> (\<forall>i<mg_slot_count m. evictable m (mg_slots m ! i) \<longrightarrow>
            sl_last_used_ms (mg_slots m ! v) \<le> sl_last_used_ms (mg_slots m ! i))
      \<and> last effs = Publish EVENT_APP_STOPPED h
      \<and> m' = m\<lparr>mg_slots := (mg_slots m)[v := empty_app_slot]\<rparr>)
    \<or> (h = APP_HANDLE_INVALID \<and> effs = [] \<and> m' = m \<and>
        (\<forall>i<mg_slot_count m. evictable m (mg_slots m ! i) \<longrightarrow> sl_last_used_ms (mg_slots m ! i) = - 1))"
proof (cases "fst (lru_scan m)")
  case None
  with assms lru_scan_None [OF None] show ?thesis by (simp add: evict_lru_def)
next
  case (Some v)
  with assms have "h = sl_handle (mg_slots m ! v)" "last effs = Publish EVENT_APP_STOPPED h"
    "m' = m\<lparr>mg_slots := (mg_slots m)[v := empty_app_slot]\<rparr>"
    by (auto simp: evict_lru_def Let_def)
  with lru_scan_Some [OF Some] show ?thesis by blast
qed

theorem am_evict_victim_witness:
  "\<exists>v<2. 1 = sl_handle ([slot_of ''a'' 10 4 0 7, slot_of ''b'' 20 3 1 5] ! v) \<and>
     snd (snd (evict_lru (mk [slot_of ''a'' 10 4 0 7, slot_of ''b'' 20 3 1 5] (- 1)))) =
       mk [slot_of ''a'' 10 4 0 7, slot_of ''b'' 20 3 1 5] (- 1)
         \<lparr>mg_slots := (mg_slots (mk [slot_of ''a'' 10 4 0 7, slot_of ''b'' 20 3 1 5] (- 1)))[v := empty_app_slot]\<rparr>"
proof -
  let ?m = "mk [slot_of ''a'' 10 4 0 7, slot_of ''b'' 20 3 1 5] (- 1)"
  obtain h effs m' where e: "evict_lru ?m = (h, effs, m')" by (metis prod.collapse)
  moreover have "fst (evict_lru ?m) = 1" "evictable ?m (mg_slots ?m ! 1)"
    by (simp_all add: evict_lru_def lru_scan_def evictable_def launch_eval upt_rec)
  ultimately show ?thesis
    using am_evict_victim [OF e] by (auto simp: mk_sel APP_HANDLE_INVALID_def numeral_2_eq_2)
qed

text \<open>When the heap is low, launching the backgrounded application that is itself the one used
  least recently evicts it: the launch still answers \<open>ESP_OK\<close>, but the application was
  destroyed and neither resumed nor created again, its id is no longer registered, and the
  foreground handle names an empty slot.\<close>

theorem am_launch_evicts_target:
  assumes "am_inv m" "find_slot_by_id m a = Some t" "mg_foreground m \<noteq> int t"
    and "env_heap_free env < APP_MEMORY_THRESHOLD_BYTES"
    and "fst (lru_scan (snd (leave_foreground m))) = Some t"
  shows "case mgr_launch env m a of (rc, effs, m') \<Rightarrow>
    rc = ESP_OK \<and> effs = fst (leave_foreground m) @ call_cb OnDestroy on_destroy (mg_slots (snd (leave_foreground m)) ! t)
      @ [Publish EVENT_APP_STOPPED (int t), Publish EVENT_APP_LAUNCHED (int t)]
    \<and> mg_foreground m' = int t \<and> find_slot_by_handle m' (int t) = None \<and> find_slot_by_id m' a = None"
proof -
  obtain e1 m1 where l: "leave_foreground m = (e1, m1)" by fastforce
  note i1 = leave_foreground_inv [OF assms(1) l] and s1 = leave_foreground_slots [OF assms(1) l]
  have st: "am_struct m" using assms(1) by (simp add: am_inv_def)
  note t = find_by_id_Some [OF st assms(2)]
  have len: "length (mg_slots m1) = APP_SLOTS_MAX" using i1 by (simp add: struct_length)
  have h: "sl_handle (mg_slots m1 ! t) = int t" using s1 t by (simp add: retired_def)
  let ?m2 = "m1\<lparr>mg_slots := (mg_slots m1)[t := empty_app_slot]\<rparr>"
  have r: "relieve_memory env m1 =
      (call_cb OnDestroy on_destroy (mg_slots m1 ! t) @ [Publish EVENT_APP_STOPPED (int t)], ?m2)"
    using assms(4,5) l h by (simp add: relieve_memory_def evict_lru_def Let_def)
  have a: "activate env t ?m2 = (Inr True, [], set_state t Running ?m2)"
    using len t by (simp add: activate_def Let_def set_state_twice empty_app_slot_def state_from_u32_def call_cb_def)
  let ?m' = "snd (snd (mgr_launch env m a))"
  have sl: "slot_is_empty (mg_slots ?m' ! t)" "\<And>i. i < APP_SLOTS_MAX \<Longrightarrow> i \<noteq> t \<Longrightarrow> mg_slots ?m' ! i = mg_slots m1 ! i"
    using t len by (simp_all add: launch_success [OF assms(2) _ l r a] assms(3) set_state_nth)
  have st': "am_struct ?m'" using launch_inv [OF assms(1)] by (simp add: am_inv_def)
  have "find_slot_by_handle ?m' (int t) = None"
    using find_by_handle_Some [OF st', of "int t"] sl(1) by (cases "find_slot_by_handle ?m' (int t)") auto
  have gone: "find_slot_by_id ?m' a \<noteq> Some i" for i
  proof
    assume "find_slot_by_id ?m' a = Some i"
    note i = find_by_id_Some [OF st' this]
    with sl(1) have "i \<noteq> t" by blast
    with i sl(2) [of i] s1 [of i] have "i < APP_SLOTS_MAX" "i \<noteq> t" "\<not> slot_is_empty (mg_slots m ! i)"
      "slot_app_id (mg_slots m ! i) = a"
      by (simp_all split: if_splits)
    with t st show False by (auto simp: am_struct_def ids_unique_def used_def inj_on_def)
  qed
  have "find_slot_by_id ?m' a = None" using gone by (metis not_Some_eq)
  with \<open>find_slot_by_handle ?m' (int t) = None\<close> show ?thesis
    using t by (simp add: launch_success [OF assms(2) _ l r a] assms(3) l)
qed

theorem am_launch_evicts_target_witness:
  "case mgr_launch (mk_env 1000 0) (mk [slot_of ''a'' 10 4 0 7, slot_of ''b'' 20 0 1 0] (- 1)) ''a'' of
     (rc, effs, m') \<Rightarrow> rc = ESP_OK
       \<and> effs = [OnDestroy 14, Publish EVENT_APP_STOPPED 0, Publish EVENT_APP_LAUNCHED 0]
       \<and> find_slot_by_id m' ''a'' = None"
proof -
  let ?m = "mk [slot_of ''a'' 10 4 0 7, slot_of ''b'' 20 0 1 0] (- 1)"
  have "find_slot_by_id ?m ''a'' = Some 0" "leave_foreground ?m = ([], ?m)"
    "fst (lru_scan ?m) = Some 0"
    by (simp_all add: lru_scan_def evictable_def launch_eval upt_rec)
  with am_launch_evicts_target [OF suspended_a_inv, of "''a''" 0 "mk_env 1000 0"] show ?thesis
    by (auto simp: mk_sel mk_env_def APP_MEMORY_THRESHOLD_BYTES_def call_cb_def opt_effect_def)
qed

text \<open>When \<open>on_create\<close> of a new application fails, the launch returns its error and puts the
  previous foreground application, which was destroyed on the way, back in the foreground and back in
  the running state, without calling any of its callbacks again.\<close>

theorem am_failed_launch_revives_destroyed:
  assumes "am_inv m" "find_slot_by_id m a = Some t" "find_slot_by_handle m (mg_foreground m) = Some f"
    and "t \<noteq> f" "sl_state (mg_slots m ! f) = 2" "\<not> is_launcher_id (slot_app_id (mg_slots m ! f))"
    and "sl_state (mg_slots m ! t) = 0" "sl_entry (mg_slots m ! t) = Some e" "on_create e = Some c"
    and "env_create_rc env = rc" "rc \<noteq> ESP_OK" "APP_MEMORY_THRESHOLD_BYTES \<le> env_heap_free env"
  shows "case mgr_launch env m a of (rc', effs, m') \<Rightarrow>
    rc' = rc \<and> effs = call_cb OnDestroy on_destroy (mg_slots m ! f) @ [OnCreate c]
    \<and> mg_foreground m' = mg_foreground m \<and> mgr_get_state m' (mg_foreground m) = 2"
proof -
  have st: "am_struct m" using assms(1) by (simp add: am_inv_def)
  note t = find_by_id_Some [OF st assms(2)] and f = find_by_handle_Some [OF st assms(3)]
  note len = struct_length [OF st]
  let ?m1 = "set_state f Unloaded m"
  have l: "leave_foreground m = (call_cb OnDestroy on_destroy (mg_slots m ! f), ?m1)"
    using assms by (simp add: leave_foreground_def Let_def state_from_u32_iff)
  have r: "relieve_memory env ?m1 = ([], ?m1)" using assms by (simp add: relieve_memory_def)
  have a: "activate env t ?m1 = (Inl rc, [OnCreate c], set_state t Loading ?m1)"
    using assms t len by (simp add: activate_def Let_def set_state_nth state_from_u32_def call_cb_def opt_effect_def)
  let ?m4 = "(set_state t Unloaded (set_state t Loading ?m1))\<lparr>mg_foreground := mg_foreground m\<rparr>"
  have st4: "am_struct ?m4"
    using st f by (intro struct_foreground struct_set_state) auto
  have used4: "\<not> slot_is_empty (mg_slots ?m4 ! f)" using f t len assms(4) by (simp add: set_state_nth)
  have f4: "find_slot_by_handle ?m4 (mg_foreground m) = Some f"
    using find_by_handle_int [OF st4 _ used4] f by simp
  have run: "mg_slots (set_state f Running ?m4) ! f = (mg_slots ?m4 ! f)\<lparr>sl_state := 2\<rparr>"
    using f len by (simp add: set_state_nth)
  have used5: "\<not> slot_is_empty (mg_slots (set_state f Running ?m4) ! f)" using used4 by (simp add: run)
  have "find_slot_by_handle (set_state f Running ?m4) (mg_foreground m) = Some f"
    using find_by_handle_int [OF struct_set_state [OF st4] _ used5] f by simp
  then have "mgr_get_state (set_state f Running ?m4) (mg_foreground m) = 2"
    by (simp add: mgr_get_state_def run)
  then show ?thesis
    using f4 f t assms(4) by (simp add: launch_fail [OF assms(2) _ l r a] Let_def)
qed

theorem am_failed_launch_revives_destroyed_witness:
  "case mgr_launch (mk_env 100000 (- 1)) (mk [slot_of ''a'' 10 2 0 7, slot_of ''b'' 20 0 1 0] 0) ''b'' of
     (rc, effs, m') \<Rightarrow> rc = - 1 \<and> effs = [OnDestroy 14, OnCreate 20] \<and> mgr_get_state m' 0 = 2"
  using am_failed_launch_revives_destroyed
      [OF running_a_inv, of "''b''" 1 0 "entry_of ''b'' 20" 20 "mk_env 100000 (- 1)" "- 1"]
  by (auto simp: mk_sel mk_env_def APP_MEMORY_THRESHOLD_BYTES_def is_launcher_id_def call_cb_def opt_effect_def)

text \<open>Slots are never given back: once twenty registrations went through, no sequence of
  operations, kills and evictions included, lets an application register that is not in the table,
  although killed applications left blank slots behind.\<close>

theorem am_slots_never_reclaimed:
  assumes "mg_initialized m" "mg_slot_count m = APP_SLOTS_MAX" "m' = fold am_step ops m"
    and "ae_manifest e = Some mf" "am_id mf = Some a" "find_slot_by_id m' (cstr_or_empty a) = None"
  shows "mgr_register m' (Some e) = (ESP_ERR_NO_MEM, m')"
  using assms run_count [OF assms(1), of ops] by (simp add: mgr_register_def)

theorem am_slots_never_reclaimed_witness:
  "am_step (OKill 0) (mk (slot_of ''a'' 10 2 0 0 # replicate 19 empty_app_slot) 0) = mk (replicate 20 empty_app_slot) (- 1) \<and>
   mgr_register (mk (replicate 20 empty_app_slot) (- 1)) (Some (entry_of ''b'' 20)) =
     (ESP_ERR_NO_MEM, mk (replicate 20 empty_app_slot) (- 1))"
proof -
  let ?m = "mk (slot_of ''a'' 10 2 0 0 # replicate 19 empty_app_slot) 0"
  have kill: "am_step (OKill 0) ?m = mk (replicate 20 empty_app_slot) (- 1)"
    by (simp add: mgr_kill_def mk_def find_slot_by_handle_def APP_SLOTS_MAX_def APP_HANDLE_INVALID_def
        state_from_u32_def Let_def eval_nat_numeral)
  have "find_slot_by_id (mk (replicate 20 empty_app_slot) (- 1)) (cstr_or_empty ''b'') = None"
    by (simp add: mk_sel find_index_None)
  with am_slots_never_reclaimed [of ?m "mk (replicate 20 empty_app_slot) (- 1)" "[OKill 0]" "entry_of ''b'' 20" _ "''b''"] kill
  show ?thesis by (simp add: mk_def APP_SLOTS_MAX_def entry_of_def del: am_step.simps)
qed

end
