(* ===== verification/Rust_Path.thy ===== *)
theory Rust_Path
  imports Rust_Str
begin

text \<open>
  Paths of \<open>std::path\<close> on Unix: their components, joining, the parent, and what these do to a path
  that is put together from an absolute root and a relative rest.
\<close>

text \<open>\<open>Path::components\<close>: empty parts and inner dots disappear.\<close>

datatype component = RootDir | CurDir | ParentDir | Normal string

definition part_component :: "string \<Rightarrow> component list" where
  "part_component x = (if x = [] \<or> x = ''.'' then [] else if x = ''..'' then [ParentDir] else [Normal x])"

definition is_absolute :: "string \<Rightarrow> bool" where
  "is_absolute s \<longleftrightarrow> s \<noteq> [] \<and> hd s = CHR ''/''"

definition tail_components :: "string list \<Rightarrow> component list" where
  "tail_components parts = concat (map part_component parts)"

definition path_components :: "string \<Rightarrow> component list" where
  "path_components s =
     (let parts = split_on CHR ''/'' s in
      (if is_absolute s then [RootDir] else if hd parts = ''.'' then [CurDir] else part_component (hd parts))
      @ tail_components (tl parts))"

fun is_normal :: "component \<Rightarrow> bool" where
  "is_normal (Normal _) = True"
| "is_normal _ = False"

fun part_name :: "component \<Rightarrow> string" where
  "part_name (Normal x) = x"
| "part_name _ = []"

text \<open>Two paths are equal when their components are; \<open>join\<close> replaces the root by an absolute path and
  otherwise puts one separator; the parent drops the last component unless it is the root.\<close>

definition same_path :: "string \<Rightarrow> string \<Rightarrow> bool" where
  "same_path a b \<longleftrightarrow> path_components a = path_components b"

definition path_join :: "string \<Rightarrow> string \<Rightarrow> string" where
  "path_join a b =
     (if is_absolute b then b
      else if a = [] \<or> last a = CHR ''/'' then a @ b
      else a @ CHR ''/'' # b)"

definition parent_components :: "string \<Rightarrow> component list option" where
  "parent_components p =
     (let cs = path_components p in if cs = [] \<or> last cs = RootDir then None else Some (butlast cs))"

lemma split_on_at: "split_on d (a @ d # b) = split_on d a @ split_on d b"
proof (induction a)
  case (Cons c a)
  obtain x xs where "split_on d a = x # xs" by (cases "split_on d a") auto
  with Cons show ?case by auto
qed simp

lemma tail_components_append [simp]:
  "tail_components (xs @ ys) = tail_components xs @ tail_components ys"
  "tail_components [] = []" "tail_components ([] # xs) = tail_components xs"
  by (simp_all add: tail_components_def part_component_def)

lemma absolute_components:
  "is_absolute s \<Longrightarrow> path_components s = RootDir # tail_components (split_on CHR ''/'' s)"
  by (cases s) (auto simp: path_components_def is_absolute_def)

lemma join_components:
  assumes "is_absolute root" "\<not> is_absolute b"
  shows "path_components (path_join root b) = path_components root @ tail_components (split_on CHR ''/'' b)"
proof -
  have abs: "is_absolute (root @ x)" for x using assms(1) by (auto simp: is_absolute_def)
  show ?thesis
  proof (cases "last root = CHR ''/''")
    case True
    moreover have "root \<noteq> []" using assms(1) by (simp add: is_absolute_def)
    ultimately obtain r where r: "root = r @ [CHR ''/'']" by (metis append_butlast_last_id)
    then have "split_on CHR ''/'' (root @ b) = split_on CHR ''/'' r @ split_on CHR ''/'' b"
      "split_on CHR ''/'' root = split_on CHR ''/'' r @ [[]]"
      using split_on_at [of "CHR ''/''" r b] split_on_at [of "CHR ''/''" r "[]"] by simp_all
    with True assms show ?thesis
      using absolute_components [OF abs] absolute_components [OF assms(1)] by (simp add: path_join_def)
  next
    case False
    with assms show ?thesis
      using absolute_components [OF abs] absolute_components [OF assms(1)]
      by (auto simp: path_join_def split_on_at is_absolute_def)
  qed
qed

end
