(* ===== verification/Rust_Io.thy ===== *)
theory Rust_Io
  imports Rust_Path
begin

text \<open>
  The part of \<open>std::fs\<close> the Recovery OS uses, on one volume whose paths are lists of components
  below its root. Every primitive can fail and power can be lost at any of them: the \<open>fates\<close> of a
  run say what happens at each call, and a call that does not run to its end may leave a torn
  effect behind. Programs are functions on the disk; a program logic (\<open>io_spec\<close>) says what holds
  after a normal return and what holds after an error or a power loss.
\<close>

section \<open>The volume\<close>

type_synonym path = "string list"

datatype node = File string | Dir

type_synonym fs = "(path \<times> node) list"

definition look :: "fs \<Rightarrow> path \<Rightarrow> node option" where
  "look m p = (if p = [] then Some Dir else map_of m p)"

definition put :: "path \<Rightarrow> node \<Rightarrow> fs \<Rightarrow> fs" where
  "put p n m = (p, n) # m"

definition del :: "path \<Rightarrow> fs \<Rightarrow> fs" where
  "del p m = filter (\<lambda>(q, _). q \<noteq> p) m"

definition del_tree :: "path \<Rightarrow> fs \<Rightarrow> fs" where
  "del_tree p m = filter (\<lambda>(q, _). \<not> prefix p q) m"

definition move :: "path \<Rightarrow> path \<Rightarrow> fs \<Rightarrow> fs" where
  "move a b m =
     map (\<lambda>(q, n). (if prefix a q then b @ drop (length a) q else q, n))
       (filter (\<lambda>(q, _). q \<noteq> b) m)"

definition leaf :: "path \<Rightarrow> fs \<Rightarrow> bool" where
  "leaf p m \<longleftrightarrow> (\<forall>(q, _)\<in>set m. \<not> strict_prefix p q)"

section \<open>Programs\<close>

datatype io_error = NotFound | AlreadyExists | InvalidInput | InvalidData | Other

text \<open>\<open>Fail\<close> and \<open>PowerLoss\<close> carry what a torn effect may depend on: the bytes that reached a file,
  the entries a recursive removal got to.\<close>

datatype fate = Fine | Fail string "path list" | PowerLoss string "path list"

record disk =
  dk_fs :: fs
  dk_fates :: "fate list"

datatype 'a outcome = Val 'a | Err io_error | Off

type_synonym ('s, 'a) io = "'s disk_scheme \<Rightarrow> 'a outcome \<times> 's disk_scheme"

definition ret :: "'a \<Rightarrow> ('s, 'a) io" where
  "ret x d = (Val x, d)"

definition throw :: "io_error \<Rightarrow> ('s, 'a) io" where
  "throw e d = (Err e, d)"

definition bind_io :: "('s, 'a) io \<Rightarrow> ('a \<Rightarrow> ('s, 'b) io) \<Rightarrow> ('s, 'b) io" where
  "bind_io c f d =
     (case c d of (Val x, d') \<Rightarrow> f x d' | (Err e, d') \<Rightarrow> (Err e, d') | (Off, d') \<Rightarrow> (Off, d'))"

definition seq :: "('s, unit) io \<Rightarrow> ('s, 'b) io \<Rightarrow> ('s, 'b) io" where
  "seq c f = bind_io c (\<lambda>_. f)"

text \<open>What follows an error; nothing follows a power loss.\<close>

definition handle :: "('s, 'a) io \<Rightarrow> (io_error \<Rightarrow> ('s, 'a) io) \<Rightarrow> ('s, 'a) io" where
  "handle c h d = (case c d of (Val x, d') \<Rightarrow> (Val x, d') | (Err e, d') \<Rightarrow> h e d' | (Off, d') \<Rightarrow> (Off, d'))"

text \<open>Reading the tree without any effect (\<open>Path::exists\<close>).\<close>

definition asks :: "(fs \<Rightarrow> 'a) \<Rightarrow> ('s, 'a) io" where
  "asks f d = (Val (f (dk_fs d)), d)"

fun for_each :: "('a \<Rightarrow> ('s, unit) io) \<Rightarrow> 'a list \<Rightarrow> ('s, unit) io" where
  "for_each f [] = ret ()"
| "for_each f (x # xs) = seq (f x) (for_each f xs)"

text \<open>A primitive: its effect or error when it runs, its torn effect otherwise.\<close>

definition prim :: "(fs \<Rightarrow> io_error + 'a \<times> fs) \<Rightarrow> (string \<Rightarrow> path list \<Rightarrow> fs \<Rightarrow> fs) \<Rightarrow> ('s, 'a) io" where
  "prim act torn d =
     (let rest = d\<lparr>dk_fates := tl (dk_fates d)\<rparr> in
      case dk_fates d of
        Fail g ps # _ \<Rightarrow> (Err Other, rest\<lparr>dk_fs := torn g ps (dk_fs d)\<rparr>)
      | PowerLoss g ps # _ \<Rightarrow> (Off, rest\<lparr>dk_fs := torn g ps (dk_fs d)\<rparr>)
      | _ \<Rightarrow> (case act (dk_fs d) of
                Inl e \<Rightarrow> (Err e, rest) | Inr (x, m) \<Rightarrow> (Val x, rest\<lparr>dk_fs := m\<rparr>)))"

section \<open>The primitives\<close>

text \<open>\<open>create_dir_all\<close>: fails when a file is in the way; interrupted, it has made the first few.\<close>

definition missing_dirs :: "path \<Rightarrow> fs \<Rightarrow> path list" where
  "missing_dirs p m = filter (\<lambda>q. look m q = None) (map (\<lambda>n. take n p) [0..<Suc (length p)])"

definition mkdirs :: "path list \<Rightarrow> fs \<Rightarrow> fs" where
  "mkdirs qs m = fold (\<lambda>q. put q Dir) qs m"

definition create_dir_all :: "path \<Rightarrow> ('s, unit) io" where
  "create_dir_all p =
     prim (\<lambda>m. if \<exists>n\<in>set [0..<Suc (length p)]. look m (take n p) \<noteq> None \<and> look m (take n p) \<noteq> Some Dir
               then Inl AlreadyExists else Inr ((), mkdirs (missing_dirs p m) m))
          (\<lambda>g _ m. if \<exists>n\<in>set [0..<Suc (length p)]. look m (take n p) \<noteq> None \<and> look m (take n p) \<noteq> Some Dir
               then m else mkdirs (take (length g) (missing_dirs p m)) m)"

text \<open>Creating or truncating a file and writing it; interrupted, it may hold anything.\<close>

definition writable :: "path \<Rightarrow> fs \<Rightarrow> bool" where
  "writable p m \<longleftrightarrow> p \<noteq> [] \<and> look m (butlast p) = Some Dir \<and> look m p \<noteq> Some Dir"

definition write_file :: "path \<Rightarrow> string \<Rightarrow> ('s, unit) io" where
  "write_file p s =
     prim (\<lambda>m. if writable p m then Inr ((), put p (File s) m) else Inl NotFound)
          (\<lambda>g ps m. if ps = [] \<and> writable p m then put p (File g) m else m)"

definition copy_file :: "path \<Rightarrow> path \<Rightarrow> ('s, unit) io" where
  "copy_file a b =
     prim (\<lambda>m. case look m a of
                 Some (File s) \<Rightarrow> if writable b m then Inr ((), put b (File s) m) else Inl NotFound
               | _ \<Rightarrow> Inl NotFound)
          (\<lambda>g ps m. case look m a of
                 Some (File _) \<Rightarrow> if ps = [] \<and> writable b m then put b (File g) m else m
               | _ \<Rightarrow> m)"

definition sync_file :: "path \<Rightarrow> ('s, unit) io" where
  "sync_file p =
     prim (\<lambda>m. case look m p of Some (File _) \<Rightarrow> Inr ((), m) | _ \<Rightarrow> Inl NotFound) (\<lambda>_ _ m. m)"

definition read_file :: "path \<Rightarrow> ('s, string) io" where
  "read_file p =
     prim (\<lambda>m. case look m p of Some (File s) \<Rightarrow> Inr (s, m) | _ \<Rightarrow> Inl NotFound) (\<lambda>_ _ m. m)"

text \<open>\<open>rename\<close> is atomic. A file replaces a file, a directory an empty directory.\<close>

definition rename_act :: "path \<Rightarrow> path \<Rightarrow> fs \<Rightarrow> io_error + unit \<times> fs" where
  "rename_act a b m =
     (if a = [] \<or> b = [] then Inl Other
      else case look m a of
        None \<Rightarrow> Inl NotFound
      | Some n \<Rightarrow>
          if look m (butlast b) \<noteq> Some Dir then Inl NotFound
          else if a = b then Inr ((), m)
          else if n = Dir \<and> prefix a b then Inl InvalidInput
          else case look m b of
            None \<Rightarrow> Inr ((), move a b m)
          | Some (File _) \<Rightarrow> if n = Dir then Inl Other else Inr ((), move a b m)
          | Some Dir \<Rightarrow> if n = Dir \<and> leaf b m then Inr ((), move a b m) else Inl Other)"

definition rename :: "path \<Rightarrow> path \<Rightarrow> ('s, unit) io" where
  "rename a b = prim (rename_act a b) (\<lambda>_ _ m. m)"

definition remove_file :: "path \<Rightarrow> ('s, unit) io" where
  "remove_file p =
     prim (\<lambda>m. case look m p of Some (File _) \<Rightarrow> Inr ((), del p m) | None \<Rightarrow> Inl NotFound | Some Dir \<Rightarrow> Inl Other)
          (\<lambda>_ _ m. m)"

text \<open>\<open>remove_dir_all\<close>: interrupted, it has removed some of the entries, each after what was below it.\<close>

definition remove_some :: "path \<Rightarrow> path list \<Rightarrow> fs \<Rightarrow> fs" where
  "remove_some p ps m = fold (\<lambda>q m. if prefix p q \<and> leaf q m then del q m else m) ps m"

definition remove_dir_all :: "path \<Rightarrow> ('s, unit) io" where
  "remove_dir_all p =
     prim (\<lambda>m. if p \<noteq> [] \<and> look m p = Some Dir then Inr ((), del_tree p m)
               else Inl (if look m p = None then NotFound else Other))
          (\<lambda>_ ps m. if p \<noteq> [] \<and> look m p = Some Dir then remove_some p ps m else m)"

text \<open>An operation outside the volume, such as writing the firmware partition.\<close>

definition outside_call :: "('s, unit) io" where
  "outside_call = prim (\<lambda>m. Inr ((), m)) (\<lambda>_ _ m. m)"

section \<open>Well-formed trees\<close>

text \<open>What exists lies in a directory.\<close>

definition wf_fs :: "fs \<Rightarrow> bool" where
  "wf_fs m \<longleftrightarrow> (\<forall>p. look m p \<noteq> None \<longrightarrow> look m (butlast p) = Some Dir)"

lemma look_Nil [simp]: "look m [] = Some Dir"
  by (simp add: look_def)

lemma look_put: "p \<noteq> [] \<Longrightarrow> look (put p n m) q = (if q = p then Some n else look m q)"
  by (simp add: look_def put_def)

lemma map_of_filter_key: "map_of (filter (\<lambda>(q, _). P q) m) q = (if P q then map_of m q else None)"
  by (induction m) auto

lemma look_del: "p \<noteq> [] \<Longrightarrow> look (del p m) q = (if q = p then None else look m q)"
  by (simp add: look_def del_def map_of_filter_key)

lemma look_del_tree: "p \<noteq> [] \<Longrightarrow> look (del_tree p m) q = (if prefix p q then None else look m q)"
  by (auto simp: look_def del_tree_def map_of_filter_key)

lemma leaf_iff: "leaf p m \<longleftrightarrow> (\<forall>q. strict_prefix p q \<longrightarrow> look m q = None)"
proof
  assume l: "leaf p m"
  show "\<forall>q. strict_prefix p q \<longrightarrow> look m q = None"
  proof (intro allI impI)
    fix q assume q: "strict_prefix p q"
    with l have "(q, n) \<notin> set m" for n by (auto simp: leaf_def)
    then have "map_of m q = None" using map_of_SomeD by (metis not_None_eq)
    with q show "look m q = None" by (auto simp: look_def)
  qed
next
  assume r: "\<forall>q. strict_prefix p q \<longrightarrow> look m q = None"
  have "\<not> strict_prefix p q" if "(q, n) \<in> set m" for q n
  proof
    assume q: "strict_prefix p q"
    with r have "look m q = None" by blast
    with q have "map_of m q = None" by (auto simp: look_def split: if_splits)
    with that show False by (force simp: map_of_eq_None_iff)
  qed
  then show "leaf p m" by (auto simp: leaf_def)
qed

lemma wf_strict_prefix:
  "wf_fs m \<Longrightarrow> look m q \<noteq> None \<Longrightarrow> strict_prefix p q \<Longrightarrow> look m p = Some Dir"
proof (induction q rule: rev_induct)
  case (snoc x q)
  then have q: "look m q = Some Dir" by (metis butlast_snoc wf_fs_def)
  show ?case
  proof (cases "p = q")
    case False
    with snoc.prems(3) have "strict_prefix p q"
      by (metis prefix_snoc prefix_order.le_less prefix_order.less_le)
    with snoc.IH snoc.prems(1) q show ?thesis by simp
  qed (use q in simp)
qed simp

lemma wf_leaf: "wf_fs m \<Longrightarrow> look m p \<noteq> Some Dir \<Longrightarrow> leaf p m"
  unfolding leaf_iff using wf_strict_prefix by blast

lemma map_of_move:
  assumes "\<forall>q. strict_prefix a q \<longrightarrow> map_of m q = None" "a \<noteq> b"
  shows "map_of (move a b m) q = (if q = b then map_of m a else if q = a then None else map_of m q)"
  using assms(1)
proof (induction m)
  case Nil
  then show ?case by (simp add: move_def)
next
  case (Cons e m)
  obtain r n where e: "e = (r, n)" by fastforce
  have nr: "\<not> strict_prefix a r" "\<forall>q. strict_prefix a q \<longrightarrow> map_of m q = None"
    using Cons.prems unfolding e by (auto split: if_splits)
  have pre: "prefix a r \<longleftrightarrow> r = a" using nr(1) by (auto simp: strict_prefix_def)
  have step: "move a b (e # m) =
      (if r = b then move a b m else ((if r = a then b else r), n) # move a b m)"
    using pre by (auto simp: move_def e)
  show ?case unfolding step using Cons.IH [OF nr(2)] assms(2) by (auto simp: e)
qed

lemma look_move:
  assumes "wf_fs m" "look m a = Some (File s)" "a \<noteq> b" "b \<noteq> []"
  shows "look (move a b m) q = (if q = b then Some (File s) else if q = a then None else look m q)"
proof -
  have a: "a \<noteq> []" using assms(2) by (auto simp: look_def)
  have "\<forall>q. strict_prefix a q \<longrightarrow> map_of m q = None"
    using wf_leaf [OF assms(1), of a] assms(2) by (auto simp: leaf_iff look_def split: if_splits)
  from map_of_move [OF this assms(3)] a assms(2,4) show ?thesis by (auto simp: look_def)
qed

lemma wf_put: "wf_fs m \<Longrightarrow> p \<noteq> [] \<Longrightarrow> look m (butlast p) = Some Dir \<Longrightarrow> look m p \<noteq> Some Dir \<or> n = Dir \<Longrightarrow> wf_fs (put p n m)"
  by (auto simp: wf_fs_def look_put dest: arg_cong [where f = length])

lemma wf_del: "wf_fs m \<Longrightarrow> p \<noteq> [] \<Longrightarrow> leaf p m \<Longrightarrow> wf_fs (del p m)"
  unfolding wf_fs_def leaf_iff
  by (auto simp: look_del) (metis append_butlast_last_id butlast.simps(1) not_Cons_self2 option.distinct(1)
      prefix_order.less_le prefixI append_self_conv)

lemma wf_del_tree: "wf_fs m \<Longrightarrow> p \<noteq> [] \<Longrightarrow> wf_fs (del_tree p m)"
  unfolding wf_fs_def by (auto simp: look_del_tree) (metis prefix_order.trans prefixeq_butlast)

lemma wf_move:
  assumes "wf_fs m" "look m a = Some (File s)" "a \<noteq> b" "b \<noteq> []" "look m (butlast b) = Some Dir" "look m b \<noteq> Some Dir"
  shows "wf_fs (move a b m)"
  using assms unfolding wf_fs_def look_move [OF assms(1-4)]
  by (auto split: if_splits) 

end
