(* ===== verification/Io_Logic.thy ===== *)
theory Io_Logic
  imports Rust_Io
begin

text \<open>
  A program logic for the disk programs: \<open>io_spec P c Q E\<close> says that from a tree satisfying \<open>P\<close>,
  whatever the fates, a normal return leaves \<open>Q\<close> and an error or a power loss leaves \<open>E\<close>;
  \<open>io_total P c Q\<close> that without faults the program returns normally and leaves \<open>Q\<close>. One rule per
  program constructor and per primitive; and the contract of a program that can be recovered from.
\<close>

definition io_spec :: "(fs \<Rightarrow> bool) \<Rightarrow> ('s, 'a) io \<Rightarrow> ('a \<Rightarrow> fs \<Rightarrow> bool) \<Rightarrow> (fs \<Rightarrow> bool) \<Rightarrow> bool" where
  "io_spec P c Q E \<longleftrightarrow>
     (\<forall>d :: 's disk_scheme. P (dk_fs d) \<longrightarrow>
        (case c d of (Val x, d') \<Rightarrow> Q x (dk_fs d') | (Err e, d') \<Rightarrow> E (dk_fs d') | (Off, d') \<Rightarrow> E (dk_fs d')))"

definition io_total :: "(fs \<Rightarrow> bool) \<Rightarrow> ('s, 'a) io \<Rightarrow> ('a \<Rightarrow> fs \<Rightarrow> bool) \<Rightarrow> bool" where
  "io_total P c Q \<longleftrightarrow>
     (\<forall>d :: 's disk_scheme. P (dk_fs d) \<and> dk_fates d = [] \<longrightarrow>
        (\<exists>x d'. c d = (Val x, d') \<and> Q x (dk_fs d') \<and> dk_fates d' = []))"

lemma io_spec_run: "io_spec P c Q E \<Longrightarrow> P (dk_fs d) \<Longrightarrow> c d = (Val x, d') \<Longrightarrow> Q x (dk_fs d')"
  by (auto simp: io_spec_def split: prod.splits)

section \<open>Constructors\<close>

lemma spec_conseq:
  "io_spec P' c Q' E' \<Longrightarrow> (\<And>m. P m \<Longrightarrow> P' m) \<Longrightarrow> (\<And>x m. Q' x m \<Longrightarrow> Q x m) \<Longrightarrow> (\<And>m. E' m \<Longrightarrow> E m) \<Longrightarrow> io_spec P c Q E"
  by (fastforce simp: io_spec_def split: prod.splits outcome.splits)

lemma spec_pre: "io_spec P' c Q E \<Longrightarrow> (\<And>m. P m \<Longrightarrow> P' m) \<Longrightarrow> io_spec P c Q E"
  by (rule spec_conseq)

lemma spec_fact: "(\<And>m. P m \<Longrightarrow> F) \<Longrightarrow> (F \<Longrightarrow> io_spec P c Q E) \<Longrightarrow> io_spec P c Q E"
  by (meson io_spec_def)

lemma spec_ret: "(\<And>m. P m \<Longrightarrow> Q x m) \<Longrightarrow> io_spec P (ret x) Q E"
  by (simp add: io_spec_def ret_def)

lemma spec_throw: "(\<And>m. P m \<Longrightarrow> E m) \<Longrightarrow> io_spec P (throw e) Q E"
  by (simp add: io_spec_def throw_def)

lemma spec_asks: "(\<And>m. P m \<Longrightarrow> Q (f m) m) \<Longrightarrow> io_spec P (asks f) Q E"
  by (simp add: io_spec_def asks_def)

lemma spec_bind:
  fixes c :: "('s, 'a) io"
  assumes "io_spec P c R E" "\<And>x. io_spec (R x) (f x) Q E"
  shows "io_spec P (bind_io c f) Q E"
  unfolding io_spec_def
proof (intro allI impI)
  fix d :: "'s disk_scheme" assume "P (dk_fs d)"
  with assms(1) have c: "case c d of (Val x, d') \<Rightarrow> R x (dk_fs d') | (Err e, d') \<Rightarrow> E (dk_fs d') | (Off, d') \<Rightarrow> E (dk_fs d')"
    by (simp add: io_spec_def)
  show "case bind_io c f d of (Val x, d') \<Rightarrow> Q x (dk_fs d') | (Err e, d') \<Rightarrow> E (dk_fs d') | (Off, d') \<Rightarrow> E (dk_fs d')"
  proof (cases "c d")
    case (Pair r d')
    show ?thesis
    proof (cases r)
      case (Val x)
      with c Pair have "R x (dk_fs d')" by simp
      with assms(2) [of x] Pair Val show ?thesis by (simp add: bind_io_def io_spec_def)
    qed (use c Pair in \<open>simp_all add: bind_io_def\<close>)
  qed
qed

lemma spec_seq: "io_spec P c (\<lambda>_. R) E \<Longrightarrow> io_spec R f Q E \<Longrightarrow> io_spec P (seq c f) Q E"
  unfolding seq_def by (rule spec_bind [where R = "\<lambda>_. R"])

lemma spec_handle:
  fixes c :: "('s, 'a) io"
  assumes "io_spec P c Q R" "\<And>e. io_spec R (h e) Q E" "\<And>m. R m \<Longrightarrow> E m"
  shows "io_spec P (handle c h) Q E"
  unfolding io_spec_def
proof (intro allI impI)
  fix d :: "'s disk_scheme" assume "P (dk_fs d)"
  with assms(1) have c: "case c d of (Val x, d') \<Rightarrow> Q x (dk_fs d') | (Err e, d') \<Rightarrow> R (dk_fs d') | (Off, d') \<Rightarrow> R (dk_fs d')"
    by (simp add: io_spec_def)
  show "case handle c h d of (Val x, d') \<Rightarrow> Q x (dk_fs d') | (Err e, d') \<Rightarrow> E (dk_fs d') | (Off, d') \<Rightarrow> E (dk_fs d')"
  proof (cases "c d")
    case (Pair r d')
    show ?thesis
    proof (cases r)
      case (Err e)
      with c Pair assms(2) [of e] show ?thesis by (simp add: handle_def io_spec_def)
    qed (use c Pair assms(3) in \<open>simp_all add: handle_def\<close>)
  qed
qed

lemma spec_for_each:
  assumes "\<And>done x rest. xs = done @ x # rest \<Longrightarrow> io_spec (I done) (f x) (\<lambda>_. I (done @ [x])) E"
  shows "io_spec (I []) (for_each f xs) (\<lambda>_. I xs) E"
proof -
  have "xs = done @ rest \<Longrightarrow> io_spec (I done) (for_each f rest) (\<lambda>_. I xs) E" for "done" rest
  proof (induction rest arbitrary: "done")
    case Nil
    then show ?case by (auto intro: spec_ret)
  next
    case (Cons x rest)
    show ?case
      unfolding for_each.simps using assms [OF Cons.prems] Cons.IH [of "done @ [x]"] Cons.prems
      by (intro spec_seq) auto
  qed
  from this [of "[]" xs] show ?thesis by simp
qed

lemma spec_prim:
  assumes "\<And>m x m'. P m \<Longrightarrow> act m = Inr (x, m') \<Longrightarrow> Q x m'" "\<And>m. P m \<Longrightarrow> E m"
    and "\<And>m g ps. P m \<Longrightarrow> E (torn g ps m)"
  shows "io_spec P (prim act torn) Q E"
  unfolding io_spec_def prim_def Let_def
  using assms by (auto split: list.split fate.split sum.split)

section \<open>Runs without faults\<close>

lemma total_ret: "(\<And>m. P m \<Longrightarrow> Q x m) \<Longrightarrow> io_total P (ret x) Q"
  by (simp add: io_total_def ret_def)

lemma total_asks: "(\<And>m. P m \<Longrightarrow> Q (f m) m) \<Longrightarrow> io_total P (asks f) Q"
  by (simp add: io_total_def asks_def)

lemma total_pre: "io_total P' c Q \<Longrightarrow> (\<And>m. P m \<Longrightarrow> P' m) \<Longrightarrow> io_total P c Q"
  by (simp add: io_total_def)

lemma total_fact: "(\<And>m. P m \<Longrightarrow> F) \<Longrightarrow> (F \<Longrightarrow> io_total P c Q) \<Longrightarrow> io_total P c Q"
  by (meson io_total_def)

lemma total_bind:
  fixes c :: "('s, 'a) io"
  assumes "io_total P c R" "\<And>x. io_total (R x) (f x) Q"
  shows "io_total P (bind_io c f) Q"
  unfolding io_total_def
proof (intro allI impI)
  fix d :: "'s disk_scheme" assume "P (dk_fs d) \<and> dk_fates d = []"
  with assms(1) obtain x d' where "c d = (Val x, d')" "R x (dk_fs d')" "dk_fates d' = []"
    unfolding io_total_def by meson
  with assms(2) [of x] show "\<exists>x d'. bind_io c f d = (Val x, d') \<and> Q x (dk_fs d') \<and> dk_fates d' = []"
    by (simp add: bind_io_def io_total_def)
qed

lemma total_seq: "io_total P c (\<lambda>_. R) \<Longrightarrow> io_total R f Q \<Longrightarrow> io_total P (seq c f) Q"
  unfolding seq_def by (rule total_bind [where R = "\<lambda>_. R"])

lemma total_handle: "io_total P c Q \<Longrightarrow> io_total P (handle c h) Q"
  by (fastforce simp: io_total_def handle_def)

lemma total_for_each:
  assumes "\<And>done x rest. xs = done @ x # rest \<Longrightarrow> io_total (I done) (f x) (\<lambda>_. I (done @ [x]))"
  shows "io_total (I []) (for_each f xs) (\<lambda>_. I xs)"
proof -
  have "xs = done @ rest \<Longrightarrow> io_total (I done) (for_each f rest) (\<lambda>_. I xs)" for "done" rest
  proof (induction rest arbitrary: "done")
    case Nil
    then show ?case by (auto intro: total_ret)
  next
    case (Cons x rest)
    show ?case
      unfolding for_each.simps using assms [OF Cons.prems] Cons.IH [of "done @ [x]"] Cons.prems
      by (intro total_seq) auto
  qed
  from this [of "[]" xs] show ?thesis by simp
qed

lemma total_prim:
  assumes "\<And>m. P m \<Longrightarrow> \<exists>x m'. act m = Inr (x, m') \<and> Q x m'"
  shows "io_total P (prim act torn) Q"
  unfolding io_total_def prim_def Let_def using assms by fastforce

section \<open>Primitives\<close>

text \<open>What \<open>create_dir_all p\<close> may change: directories on the way to \<open>p\<close> appear.\<close>

definition grown :: "path \<Rightarrow> fs \<Rightarrow> fs \<Rightarrow> bool" where
  "grown p m m' \<longleftrightarrow> wf_fs m' \<and>
     (\<forall>q. look m' q = look m q \<or> (look m q = None \<and> look m' q = Some Dir \<and> prefix q p))"

lemma look_put_Dir [simp]: "look (put p Dir m) q = (if q = p then Some Dir else look m q)"
  by (simp add: look_def put_def)

lemma look_mkdirs: "look (mkdirs qs m) q = (if q \<in> set qs then Some Dir else look m q)"
proof (induction qs arbitrary: m)
  case Nil
  then show ?case by (simp add: mkdirs_def)
next
  case (Cons p qs)
  from Cons [of "put p Dir m"] show ?case by (simp add: mkdirs_def)
qed

lemma take_filter: "\<exists>j\<le>length xs. take k (filter P xs) = filter P (take j xs)"
proof (induction xs arbitrary: k)
  case (Cons x xs)
  show ?case
  proof (cases "P x \<and> k = 0")
    case True
    then show ?thesis by (intro exI [of _ 0]) simp
  next
    case False
    obtain j where "j \<le> length xs" "take (if P x then k - 1 else k) (filter P xs) = filter P (take j xs)"
      using Cons by blast
    with False show ?thesis by (intro exI [of _ "Suc j"]) (cases k, auto)
  qed
qed simp

lemma some_missing:
  "\<exists>j\<le>Suc (length p). set (take k (missing_dirs p m)) = {q. \<exists>n<j. q = take n p \<and> look m q = None}"
proof -
  obtain j where j: "j \<le> length (map (\<lambda>n. take n p) [0..<Suc (length p)])"
    "take k (missing_dirs p m) = filter (\<lambda>q. look m q = None) (take j (map (\<lambda>n. take n p) [0..<Suc (length p)]))"
    unfolding missing_dirs_def using take_filter by blast
  then have "take j (map (\<lambda>n. take n p) [0..<Suc (length p)]) = map (\<lambda>n. take n p) [0..<j]"
    by (simp add: take_map take_upt del: upt_Suc)
  then have "set (take k (missing_dirs p m)) = {q. \<exists>n<j. q = take n p \<and> look m q = None}"
    unfolding j(2) by auto
  with j(1) show ?thesis by auto
qed

lemma mkdirs_grown:
  assumes "wf_fs m" and "\<forall>n\<in>set [0..<Suc (length p)]. look m (take n p) = None \<or> look m (take n p) = Some Dir"
  shows "grown p m (mkdirs (take k (missing_dirs p m)) m)"
proof -
  obtain j where j: "j \<le> Suc (length p)"
    "set (take k (missing_dirs p m)) = {q. \<exists>n<j. q = take n p \<and> look m q = None}"
    using some_missing by blast
  let ?m = "mkdirs (take k (missing_dirs p m)) m"
  have look: "look ?m q = (if \<exists>n<j. q = take n p \<and> look m q = None then Some Dir else look m q)" for q
    unfolding look_mkdirs j(2) by simp
  have parent: "look ?m (butlast (take n p)) = Some Dir" if "n < j" for n
  proof (cases n)
    case (Suc i)
    with that j(1) have i: "butlast (take n p) = take i p" "i < j" "i \<in> set [0..<Suc (length p)]"
      by (auto simp: butlast_take)
    from assms(2) i(3) have "look m (take i p) = None \<or> look m (take i p) = Some Dir" by blast
    then show ?thesis unfolding look i(1) using i(2) by auto
  qed simp
  have "wf_fs ?m"
    unfolding wf_fs_def
  proof (intro allI impI)
    fix q assume q: "look ?m q \<noteq> None"
    show "look ?m (butlast q) = Some Dir"
    proof (cases "\<exists>n<j. q = take n p \<and> look m q = None")
      case False
      with q have "look m q \<noteq> None" unfolding look by (auto split: if_splits)
      with assms(1) show ?thesis unfolding look wf_fs_def by auto
    qed (use parent in auto)
  qed
  moreover have "prefix (take n p) p" for n by (rule take_is_prefix)
  ultimately show ?thesis unfolding grown_def look by auto
qed

lemma grown_refl: "wf_fs m \<Longrightarrow> grown p m m"
  by (simp add: grown_def)

lemma spec_create_dir_all:
  assumes "\<And>m. P m \<Longrightarrow> wf_fs m"
    and "\<And>m m'. P m \<Longrightarrow> grown p m m' \<Longrightarrow> look m' p = Some Dir \<Longrightarrow> Q () m'"
    and "\<And>m m'. P m \<Longrightarrow> grown p m m' \<Longrightarrow> E m'"
  shows "io_spec P (create_dir_all p) Q E"
  unfolding create_dir_all_def
proof (rule spec_prim)
  fix m assume m: "P m"
  note wf = assms(1) [OF m]
  let ?blocked = "\<exists>n\<in>set [0..<Suc (length p)]. look m (take n p) \<noteq> None \<and> look m (take n p) \<noteq> Some Dir"
  have grown: "grown p m (mkdirs (take k (missing_dirs p m)) m)" if "\<not> ?blocked" for k
    using that by (intro mkdirs_grown [OF wf]) blast
  have "look (mkdirs (missing_dirs p m) m) p = Some Dir" if "\<not> ?blocked"
  proof -
    have "length p \<in> set [0..<Suc (length p)]" by simp
    with that have "look m p = None \<or> look m p = Some Dir" by (metis take_all order_refl)
    moreover have "look m p = None \<Longrightarrow> p \<in> set (missing_dirs p m)"
      using \<open>length p \<in> _\<close> unfolding missing_dirs_def by (auto simp: image_iff simp del: upt_Suc intro!: bexI [of _ "length p"])
    ultimately show ?thesis by (auto simp: look_mkdirs)
  qed
  with grown [of "length (missing_dirs p m)"] assms(2) [OF m]
  show "\<And>x m'. (if ?blocked then Inl AlreadyExists else Inr ((), mkdirs (missing_dirs p m) m)) = Inr (x, m') \<Longrightarrow> Q x m'"
    by (auto split: if_splits)
  show "E m" by (rule assms(3) [OF m grown_refl [OF wf]])
  show "\<And>g ps. E (if ?blocked then m else mkdirs (take (length g) (missing_dirs p m)) m)"
    using assms(3) [OF m] grown grown_refl [OF wf] by auto
qed

lemma spec_write_file:
  assumes "\<And>m. P m \<Longrightarrow> wf_fs m \<and> E m"
    and "\<And>m m' s'. P m \<Longrightarrow> wf_fs m' \<Longrightarrow> look m' = (look m)(p \<mapsto> File s') \<Longrightarrow> writable p m \<Longrightarrow> E m' \<and> (s' = s \<longrightarrow> Q () m')"
  shows "io_spec P (write_file p s) Q E"
proof -
  have "wf_fs (put p (File g) m) \<and> look (put p (File g) m) = (look m)(p \<mapsto> File g)" if "P m" "writable p m" for m g
    using that assms(1) by (auto simp: writable_def look_put fun_eq_iff intro: wf_put)
  with assms show ?thesis
    unfolding write_file_def by (intro spec_prim) (auto split: if_splits)
qed

lemma spec_copy_file:
  assumes "\<And>m. P m \<Longrightarrow> wf_fs m \<and> E m"
    and "\<And>m m' s s'. P m \<Longrightarrow> wf_fs m' \<Longrightarrow> look m a = Some (File s) \<Longrightarrow> look m' = (look m)(b \<mapsto> File s') \<Longrightarrow>
           writable b m \<Longrightarrow> E m' \<and> (s' = s \<longrightarrow> Q () m')"
  shows "io_spec P (copy_file a b) Q E"
proof -
  have "wf_fs (put b (File g) m) \<and> look (put b (File g) m) = (look m)(b \<mapsto> File g)" if "P m" "writable b m" for m g
    using that assms(1) by (auto simp: writable_def look_put fun_eq_iff intro: wf_put)
  with assms show ?thesis
    unfolding copy_file_def by (intro spec_prim) (auto split: if_splits option.splits node.splits)
qed

lemma spec_sync_file: "(\<And>m. P m \<Longrightarrow> E m \<and> Q () m) \<Longrightarrow> io_spec P (sync_file p) Q E"
  unfolding sync_file_def by (intro spec_prim) (auto split: option.splits node.splits)

lemma spec_read_file:
  "(\<And>m. P m \<Longrightarrow> E m) \<Longrightarrow> (\<And>m s. P m \<Longrightarrow> look m p = Some (File s) \<Longrightarrow> Q s m) \<Longrightarrow> io_spec P (read_file p) Q E"
  unfolding read_file_def by (intro spec_prim) (auto split: option.splits node.splits)

lemma spec_outside_call: "(\<And>m. P m \<Longrightarrow> E m \<and> Q () m) \<Longrightarrow> io_spec P outside_call Q E"
  unfolding outside_call_def by (intro spec_prim) auto

text \<open>Renaming what is known not to be a directory.\<close>

lemma rename_act_file:
  assumes "rename_act a b m = Inr (x, m')" "wf_fs m" "look m a \<noteq> Some Dir" "a \<noteq> b"
  shows "\<exists>s. look m a = Some (File s) \<and> wf_fs m' \<and> look m' = (look m)(a := None, b \<mapsto> File s) \<and> look m b \<noteq> Some Dir"
proof -
  from assms(1) obtain n where n: "look m a = Some n" by (auto simp: rename_act_def split: if_splits option.splits)
  with assms(3) obtain s where "n = File s" by (cases n) auto
  with assms(1,4) n have s: "look m a = Some (File s)" "b \<noteq> []" "look m (butlast b) = Some Dir"
      "look m b \<noteq> Some Dir" "m' = move a b m"
    by (auto simp: rename_act_def split: if_splits option.splits node.splits)
  with wf_move [OF assms(2) s(1) assms(4)] look_move [OF assms(2) s(1) assms(4)] show ?thesis
    by (auto simp: fun_eq_iff)
qed

lemma spec_rename:
  assumes "a \<noteq> b" "\<And>m. P m \<Longrightarrow> wf_fs m \<and> look m a \<noteq> Some Dir \<and> E m"
    and "\<And>m m' s. P m \<Longrightarrow> look m a = Some (File s) \<Longrightarrow> wf_fs m' \<Longrightarrow> look m' = (look m)(a := None, b \<mapsto> File s) \<Longrightarrow>
           look m b \<noteq> Some Dir \<Longrightarrow> Q () m'"
  shows "io_spec P (rename a b) Q E"
  unfolding rename_def
proof (rule spec_prim)
  fix m x m' assume m: "P m" and r: "rename_act a b m = Inr (x, m')"
  from rename_act_file [OF r] m assms(1,2) obtain s where
    "look m a = Some (File s)" "wf_fs m'" "look m' = (look m)(a := None, b \<mapsto> File s)" "look m b \<noteq> Some Dir"
    by blast
  with assms(3) [OF m] show "Q x m'" by simp
qed (use assms in auto)

lemma del_file:
  "wf_fs m \<Longrightarrow> look m p = Some (File s) \<Longrightarrow> wf_fs (del p m) \<and> look (del p m) = (look m)(p := None)"
proof -
  assume m: "wf_fs m" "look m p = Some (File s)"
  then have "p \<noteq> []" by auto
  with m show ?thesis using wf_del [of m p] wf_leaf [of m p] by (auto simp: fun_eq_iff look_del)
qed

lemma spec_remove_file:
  assumes "\<And>m. P m \<Longrightarrow> wf_fs m \<and> E m"
    and "\<And>m m'. P m \<Longrightarrow> wf_fs m' \<Longrightarrow> look m' = (look m)(p := None) \<Longrightarrow> look m p \<noteq> Some Dir \<Longrightarrow> Q () m'"
  shows "io_spec P (remove_file p) Q E"
  unfolding remove_file_def using assms del_file
  by (intro spec_prim) (fastforce split: option.splits node.splits)+

text \<open>Removing a file that may be absent.\<close>

lemma spec_remove_present:
  assumes "\<And>m. P m \<Longrightarrow> wf_fs m \<and> E m"
    and "\<And>m m'. P m \<Longrightarrow> wf_fs m' \<Longrightarrow> look m' = (look m)(p := None) \<Longrightarrow> Q () m'"
  shows "io_spec P (handle (remove_file p) (\<lambda>e. if e = NotFound then ret () else throw e) :: ('s, unit) io) Q E"
  unfolding io_spec_def
proof (intro allI impI)
  fix d :: "'s disk_scheme" assume d: "P (dk_fs d)"
  have none: "Q () (dk_fs d)" if "look (dk_fs d) p = None"
    using assms(2) [OF d, of "dk_fs d"] assms(1) [OF d] that by (auto simp: fun_upd_idem)
  have some: "Q () (del p (dk_fs d))" if "look (dk_fs d) p = Some (File s)" for s
    using assms(2) [OF d] del_file [OF _ that] assms(1) [OF d] by blast
  show "case handle (remove_file p) (\<lambda>e. if e = NotFound then ret () else throw e) d of
      (Val x, d') \<Rightarrow> Q x (dk_fs d') | (Err e, d') \<Rightarrow> E (dk_fs d') | (Off, d') \<Rightarrow> E (dk_fs d')"
    using none some assms(1) [OF d]
    by (auto simp: handle_def remove_file_def prim_def Let_def ret_def throw_def
        split: list.split fate.split option.split node.split)
qed

text \<open>What an interrupted \<open>remove_dir_all p\<close> may change.\<close>

definition shrunk :: "path \<Rightarrow> fs \<Rightarrow> fs \<Rightarrow> bool" where
  "shrunk p m m' \<longleftrightarrow> wf_fs m' \<and> (\<forall>q. look m' q = look m q \<or> (prefix p q \<and> look m' q = None))"

lemma remove_some_shrunk:
  assumes "wf_fs m" "p \<noteq> []"
  shows "shrunk p m (remove_some p ps m)"
  using assms(1)
proof (induction ps arbitrary: m)
  case (Cons q ps)
  let ?m = "if prefix p q \<and> leaf q m then del q m else m"
  have q: "q \<noteq> []" if "prefix p q" using that assms(2) by auto
  have one: "shrunk p m ?m"
    using Cons.prems q by (auto simp: shrunk_def look_del intro: wf_del)
  then have "wf_fs ?m" by (simp add: shrunk_def)
  from Cons.IH [OF this] have "shrunk p ?m (remove_some p (q # ps) m)"
    by (simp add: remove_some_def)
  with one show ?case unfolding shrunk_def by metis
qed (simp add: shrunk_def remove_some_def)

lemma spec_remove_dir_all:
  assumes "\<And>m. P m \<Longrightarrow> wf_fs m" "p \<noteq> []"
    and "\<And>m m'. P m \<Longrightarrow> wf_fs m' \<Longrightarrow> look m' = (\<lambda>q. if prefix p q then None else look m q) \<Longrightarrow> Q () m'"
    and "\<And>m m'. P m \<Longrightarrow> shrunk p m m' \<Longrightarrow> E m'"
  shows "io_spec P (remove_dir_all p) Q E"
proof -
  have full: "wf_fs (del_tree p m) \<and> look (del_tree p m) = (\<lambda>q. if prefix p q then None else look m q)" if "P m" for m
    using that assms(1,2) by (auto simp: look_del_tree wf_del_tree fun_eq_iff)
  have "shrunk p m m" if "P m" for m using assms(1) [OF that] by (simp add: shrunk_def)
  with full assms remove_some_shrunk show ?thesis
    unfolding remove_dir_all_def by (intro spec_prim) (auto split: if_splits)
qed

section \<open>Programs that cannot fail by themselves\<close>

text \<open>\<open>io_sure\<close> joins both judgements: the program is safe under every fate, and without faults it
  returns. The preconditions of its rules therefore rule out the errors of the primitives.\<close>

definition io_sure :: "(fs \<Rightarrow> bool) \<Rightarrow> ('s, 'a) io \<Rightarrow> ('a \<Rightarrow> fs \<Rightarrow> bool) \<Rightarrow> (fs \<Rightarrow> bool) \<Rightarrow> bool" where
  "io_sure P c Q E \<longleftrightarrow> io_spec P c Q E \<and> io_total P c Q"

lemma sure_conseq:
  assumes "io_sure P' c Q' E'" "\<And>m. P m \<Longrightarrow> P' m" "\<And>x m. Q' x m \<Longrightarrow> Q x m" "\<And>m. E' m \<Longrightarrow> E m"
  shows "io_sure P c Q E"
  using assms spec_conseq [of P' c Q' E' P Q E] unfolding io_sure_def io_total_def by meson

lemma sure_pre: "io_sure P' c Q E \<Longrightarrow> (\<And>m. P m \<Longrightarrow> P' m) \<Longrightarrow> io_sure P c Q E"
  by (rule sure_conseq)

lemma sure_ret: "(\<And>m. P m \<Longrightarrow> Q x m) \<Longrightarrow> io_sure P (ret x) Q E"
  by (simp add: io_sure_def spec_ret total_ret)

lemma sure_asks: "(\<And>m. P m \<Longrightarrow> Q (f m) m) \<Longrightarrow> io_sure P (asks f) Q E"
  by (simp add: io_sure_def spec_asks total_asks)

lemma sure_bind: "io_sure P c R E \<Longrightarrow> (\<And>x. io_sure (R x) (f x) Q E) \<Longrightarrow> io_sure P (bind_io c f) Q E"
  unfolding io_sure_def by (meson spec_bind total_bind)

lemma sure_seq: "io_sure P c (\<lambda>_. R) E \<Longrightarrow> io_sure R f Q E \<Longrightarrow> io_sure P (seq c f) Q E"
  by (simp add: io_sure_def spec_seq [of P c R E] total_seq [of P c R])

lemma sure_fact: "(\<And>m. P m \<Longrightarrow> F) \<Longrightarrow> (F \<Longrightarrow> io_sure P c Q E) \<Longrightarrow> io_sure P c Q E"
  unfolding io_sure_def using spec_fact [of P F c Q E] total_fact [of P F c Q] by argo

lemma sure_for_each:
  assumes "\<And>done x rest. xs = done @ x # rest \<Longrightarrow> io_sure (I done) (f x) (\<lambda>_. I (done @ [x])) E"
  shows "io_sure (I []) (for_each f xs) (\<lambda>_. I xs) E"
  using assms spec_for_each [of xs I f E] total_for_each [of xs I f] by (simp add: io_sure_def)

lemma sure_create_dir_all:
  assumes "\<And>m. P m \<Longrightarrow> wf_fs m \<and> look m p = Some Dir"
    and "\<And>m m'. P m \<Longrightarrow> grown p m m' \<Longrightarrow> Q () m' \<and> E m'"
  shows "io_sure P (create_dir_all p) Q E"
  unfolding io_sure_def
proof
  show "io_spec P (create_dir_all p) Q E" using assms by (intro spec_create_dir_all) auto
  show "io_total P (create_dir_all p) Q"
    unfolding create_dir_all_def
  proof (rule total_prim)
    fix m assume m: "P m"
    have all: "look m (take n p) = Some Dir" for n
      using assms(1) [OF m] wf_strict_prefix [of m p "take n p"] take_is_prefix [of n p]
      by (cases "take n p = p") (auto simp: strict_prefix_def)
    from all [of "length p"] all have "missing_dirs p m = []" by (simp add: missing_dirs_def)
    with all assms(1,2) m grown_refl show "\<exists>x m'. (if \<exists>n\<in>set [0..<Suc (length p)]. look m (take n p) \<noteq> None \<and>
        look m (take n p) \<noteq> Some Dir then Inl AlreadyExists else Inr ((), mkdirs (missing_dirs p m) m)) = Inr (x, m') \<and> Q x m'"
      by (simp add: mkdirs_def del: set_upt)
  qed
qed

lemma sure_read_file:
  assumes "\<And>m. P m \<Longrightarrow> look m p = Some (File s) \<and> Q s m \<and> E m"
  shows "io_sure P (read_file p) Q E"
  unfolding io_sure_def
proof
  show "io_spec P (read_file p) Q E" using assms by (intro spec_read_file) auto
  show "io_total P (read_file p) Q"
    unfolding read_file_def using assms by (intro total_prim) auto
qed

lemma sure_rename:
  assumes "a \<noteq> b" "b \<noteq> []"
    and "\<And>m. P m \<Longrightarrow> wf_fs m \<and> (\<exists>s. look m a = Some (File s)) \<and> look m (butlast b) = Some Dir \<and> look m b \<noteq> Some Dir \<and> E m"
    and "\<And>m m' s. P m \<Longrightarrow> look m a = Some (File s) \<Longrightarrow> wf_fs m' \<Longrightarrow> look m' = (look m)(a := None, b \<mapsto> File s) \<Longrightarrow> Q () m'"
  shows "io_sure P (rename a b) Q E"
  unfolding io_sure_def
proof
  show "io_spec P (rename a b) Q E"
    using assms(3,4) by (intro spec_rename [OF assms(1)]) fastforce+
  show "io_total P (rename a b) Q"
    unfolding rename_def
  proof (rule total_prim)
    fix m assume m: "P m"
    then obtain s where s: "wf_fs m" "look m a = Some (File s)" "look m (butlast b) = Some Dir" "look m b \<noteq> Some Dir"
      using assms(3) by blast
    then have r: "rename_act a b m = Inr ((), move a b m)"
      using assms(1,2) by (auto simp: rename_act_def split: option.splits node.splits)
    with rename_act_file [OF r s(1) _ assms(1)] s assms(4) [OF m] show "\<exists>x m'. rename_act a b m = Inr (x, m') \<and> Q x m'"
      by auto
  qed
qed

lemma sure_remove_present:
  assumes "\<And>m. P m \<Longrightarrow> wf_fs m \<and> look m p \<noteq> Some Dir \<and> E m"
    and "\<And>m m'. P m \<Longrightarrow> wf_fs m' \<Longrightarrow> look m' = (look m)(p := None) \<Longrightarrow> Q () m'"
  shows "io_sure P (handle (remove_file p) (\<lambda>e. if e = NotFound then ret () else throw e) :: ('s, unit) io) Q E"
  unfolding io_sure_def
proof
  show "io_spec P (handle (remove_file p) (\<lambda>e. if e = NotFound then ret () else throw e) :: ('s, unit) io) Q E"
    using assms by (intro spec_remove_present) auto
  show "io_total P (handle (remove_file p) (\<lambda>e. if e = NotFound then ret () else throw e) :: ('s, unit) io) Q"
    unfolding io_total_def
  proof (intro allI impI)
    fix d :: "'s disk_scheme" assume d: "P (dk_fs d) \<and> dk_fates d = []"
    then have m: "wf_fs (dk_fs d)" "look (dk_fs d) p \<noteq> Some Dir" "P (dk_fs d)" using assms(1) by auto
    show "\<exists>x d'. handle (remove_file p) (\<lambda>e. if e = NotFound then ret () else throw e) d = (Val x, d') \<and>
        Q x (dk_fs d') \<and> dk_fates d' = []"
    proof (cases "look (dk_fs d) p")
      case None
      with assms(2) [OF m(3), of "dk_fs d"] m d show ?thesis
        by (simp add: handle_def remove_file_def prim_def ret_def fun_upd_idem)
    next
      case (Some n)
      with m(2) obtain s where s: "look (dk_fs d) p = Some (File s)" by (cases n) auto
      with assms(2) [OF m(3)] del_file [OF m(1) s] d show ?thesis
        by (simp add: handle_def remove_file_def prim_def ret_def)
    qed
  qed
qed

lemma sure_remove_dir_all:
  assumes "p \<noteq> []" "\<And>m. P m \<Longrightarrow> wf_fs m \<and> look m p = Some Dir"
    and "\<And>m m'. P m \<Longrightarrow> wf_fs m' \<Longrightarrow> look m' = (\<lambda>q. if prefix p q then None else look m q) \<Longrightarrow> Q () m'"
    and "\<And>m m'. P m \<Longrightarrow> shrunk p m m' \<Longrightarrow> E m'"
  shows "io_sure P (remove_dir_all p) Q E"
  unfolding io_sure_def
proof
  show "io_spec P (remove_dir_all p) Q E" using assms by (intro spec_remove_dir_all) auto
  have "Q () (del_tree p m)" if "P m" for m
    using assms(1,2) that by (intro assms(3) [OF that]) (auto simp: look_del_tree wf_del_tree fun_eq_iff)
  then show "io_total P (remove_dir_all p) Q"
    unfolding remove_dir_all_def using assms(1,2) by (intro total_prim) auto
qed

section \<open>Recoverable programs\<close>

text \<open>
  A program and its recovery procedure: interrupted anywhere, both leave a tree that is \<open>safe\<close>,
  and from a safe tree the recovery, when it is left alone, succeeds and reaches \<open>restored\<close>.
  Then no history of interrupted recoveries does any harm.
\<close>

definition tree_after :: "(unit, unit) io \<Rightarrow> fate list \<Rightarrow> fs \<Rightarrow> fs" where
  "tree_after c fates m = dk_fs (snd (c \<lparr>dk_fs = m, dk_fates = fates\<rparr>))"

lemma io_spec_tree_after:
  assumes "io_spec P c (\<lambda>_. E) E" "P m"
  shows "E (tree_after c fates m)"
proof -
  obtain r d where r: "c \<lparr>dk_fs = m, dk_fates = fates\<rparr> = (r, d)" by fastforce
  have "case c \<lparr>dk_fs = m, dk_fates = fates\<rparr> of
      (Val x, d') \<Rightarrow> E (dk_fs d') | (Err e, d') \<Rightarrow> E (dk_fs d') | (Off, d') \<Rightarrow> E (dk_fs d')"
    using assms by (simp add: io_spec_def)
  then show ?thesis unfolding r by (cases r) (simp_all add: tree_after_def r)
qed

locale recoverable =
  fixes recover :: "(unit, unit) io" and safe :: "fs \<Rightarrow> bool" and restored :: "fs \<Rightarrow> bool"
  assumes recovery: "io_sure safe recover (\<lambda>_. restored) safe"
    and restored_safe: "restored m \<Longrightarrow> safe m"
begin

lemma recover_safe: "io_spec safe recover (\<lambda>_. safe) safe"
  using recovery restored_safe unfolding io_sure_def by (blast intro: spec_conseq)

lemma recover_restores: "io_spec safe recover (\<lambda>_. restored) (\<lambda>_. True)"
  using recovery unfolding io_sure_def by (blast intro: spec_conseq)

lemma recover_returns: "io_total safe recover (\<lambda>_. restored)"
  using recovery unfolding io_sure_def by blast

lemma safe_after: "safe m \<Longrightarrow> safe (tree_after recover fates m)"
  by (rule io_spec_tree_after [OF recover_safe])

lemma safe_after_many: "safe m \<Longrightarrow> safe (fold (tree_after recover) attempts m)"
  by (induction attempts arbitrary: m) (auto intro: safe_after)

lemma recovers_eventually:
  assumes "safe m"
  shows "\<exists>d. recover \<lparr>dk_fs = fold (tree_after recover) attempts m, dk_fates = []\<rparr> = (Val (), d) \<and> restored (dk_fs d)"
  using recover_returns safe_after_many [OF assms, of attempts]
  by (force simp: io_total_def)

lemma return_restores:
  "safe m \<Longrightarrow> recover \<lparr>dk_fs = fold (tree_after recover) attempts m, dk_fates = fates\<rparr> = (Val (), d) \<Longrightarrow> restored (dk_fs d)"
  using recover_restores safe_after_many [of m attempts]
  by (force simp: io_spec_def split: prod.splits outcome.splits)

end

end
