(* ===== verification/Bundle_Transaction.thy ===== *)
theory Bundle_Transaction
  imports Io_Logic
begin

text \<open>
  Bundle installation in the Recovery OS (\<open>recovery/src/bundle_transaction.rs\<close>): files are staged,
  a journal is written, the originals move to a backup, the staged files take their places, the
  firmware is written and selected. The volume is the SD card; its root is the empty path. The
  closures \<open>write_firmware\<close>, \<open>select_boot_partition\<close> and \<open>boundary\<close> are parameters.
\<close>

section \<open>Names and data\<close>

definition TRANSACTION_DIR :: string where "TRANSACTION_DIR = ''.thistle-bundle-transaction''"
definition STAGE_DIR :: string where "STAGE_DIR = ''stage''"
definition BACKUP_DIR :: string where "BACKUP_DIR = ''backup''"
definition JOURNAL_FILE :: string where "JOURNAL_FILE = ''journal''"
definition JOURNAL_TMP :: string where "JOURNAL_TMP = ''journal.tmp''"
definition JOURNAL_VERSION :: string where "JOURNAL_VERSION = ''THISTLE_BUNDLE_V1''"
definition FILES_ACTIVE_MARKER :: string where "FILES_ACTIVE_MARKER = ''files-active''"
definition FIRMWARE_WRITTEN_MARKER :: string where "FIRMWARE_WRITTEN_MARKER = ''firmware-written''"

datatype phase = Prepared | FilesActive | FirmwareWritten

fun phase_as_str :: "phase \<Rightarrow> string" where
  "phase_as_str Prepared = ''prepared''"
| "phase_as_str FilesActive = ''files_active''"
| "phase_as_str FirmwareWritten = ''firmware_written''"

definition phase_parse :: "string \<Rightarrow> io_error + phase" where
  "phase_parse v =
     (if v = ''prepared'' then Inr Prepared
      else if v = ''files_active'' then Inr FilesActive
      else if v = ''firmware_written'' then Inr FirmwareWritten
      else Inl InvalidData)"

datatype recovery_action = NoAction | Rollback | Finalize

datatype boundary =
    StageFile nat | WritePreparedJournal | BackupFile nat | ActivateFile nat
  | WriteFilesActiveJournal | WriteFirmware | WriteFirmwareJournal | SelectBootPartition

datatype bundle_contents = Bytes string | FromFile path

record bundle_file =
  bf_path :: string
  bf_contents :: bundle_contents

record journal_entry =
  had_original :: bool
  relative_path :: string

record journal =
  jn_phase :: phase
  jn_entries :: "journal_entry list"

section \<open>Relative paths\<close>

text \<open>Where \<open>root.join(relative)\<close> points, below the root.\<close>

definition dest_path :: "string \<Rightarrow> path" where
  "dest_path s = map part_name (path_components s)"

definition validate_relative_path :: "string \<Rightarrow> io_error + unit" where
  "validate_relative_path s =
     (if s = [] \<or> is_absolute s then Inl InvalidInput
      else if \<not> list_all is_normal (path_components s) then Inl InvalidInput
      else if \<not> utf8_valid s then Inl InvalidInput
      else if TAB \<in> set s \<or> LF \<in> set s \<or> CR \<in> set s then Inl InvalidInput
      else Inr ())"

definition bundle_file_new :: "string \<Rightarrow> string \<Rightarrow> io_error + bundle_file" where
  "bundle_file_new p s =
     (case validate_relative_path p of Inl e \<Rightarrow> Inl e
      | Inr _ \<Rightarrow> Inr \<lparr>bf_path = p, bf_contents = Bytes s\<rparr>)"

definition bundle_file_from_file :: "string \<Rightarrow> path \<Rightarrow> io_error + bundle_file" where
  "bundle_file_from_file p src =
     (case validate_relative_path p of Inl e \<Rightarrow> Inl e
      | Inr _ \<Rightarrow> Inr \<lparr>bf_path = p, bf_contents = FromFile src\<rparr>)"

definition transaction_root :: path where "transaction_root = [TRANSACTION_DIR]"

definition journal_path :: path where "journal_path = transaction_root @ [JOURNAL_FILE]"

definition staged_path :: "path \<Rightarrow> path" where "staged_path p = transaction_root @ [STAGE_DIR] @ p"

definition backup_path :: "path \<Rightarrow> path" where "backup_path p = transaction_root @ [BACKUP_DIR] @ p"

section \<open>File helpers\<close>

definition path_exists :: "path \<Rightarrow> fs \<Rightarrow> bool" where
  "path_exists p m \<longleftrightarrow> look m p \<noteq> None"

definition ensure_parent :: "path \<Rightarrow> ('s, unit) io" where
  "ensure_parent p = (if p = [] then ret () else create_dir_all (butlast p))"

definition write_synced :: "path \<Rightarrow> string \<Rightarrow> ('s, unit) io" where
  "write_synced p s = seq (ensure_parent p) (seq (write_file p s) (sync_file p))"

definition stage_contents :: "path \<Rightarrow> bundle_contents \<Rightarrow> ('s, unit) io" where
  "stage_contents p c =
     (case c of
        Bytes s \<Rightarrow> write_synced p s
      | FromFile src \<Rightarrow> seq (ensure_parent p) (seq (copy_file src p) (sync_file p)))"

definition remove_file_if_present :: "path \<Rightarrow> ('s, unit) io" where
  "remove_file_if_present p = handle (remove_file p) (\<lambda>e. if e = NotFound then ret () else throw e)"

section \<open>The journal\<close>

definition transaction_exists :: "fs \<Rightarrow> bool" where
  "transaction_exists m = path_exists journal_path m"

definition entry_line :: "journal_entry \<Rightarrow> string" where
  "entry_line e = (if had_original e then ''1'' else ''0'') @ [TAB] @ relative_path e"

definition journal_text :: "journal_entry list \<Rightarrow> string" where
  "journal_text es =
     unlines (JOURNAL_VERSION # (''phase='' @ phase_as_str Prepared) # map entry_line es)"

definition write_journal :: "journal \<Rightarrow> ('s, unit) io" where
  "write_journal j =
     bind_io (asks transaction_exists) (\<lambda>ex.
       if jn_phase j \<noteq> Prepared \<or> ex then throw InvalidInput
       else
         (let tmp = transaction_root @ [JOURNAL_TMP];
              good = takeWhile (\<lambda>e. utf8_valid (relative_path e)) (jn_entries j) in
          seq (create_dir_all transaction_root)
            (seq (write_file tmp (journal_text good))
              (if length good < length (jn_entries j) then throw InvalidInput
               else seq (sync_file tmp) (rename tmp journal_path)))))"

fun parse_entries :: "path list \<Rightarrow> string list \<Rightarrow> io_error + journal_entry list" where
  "parse_entries seen [] = Inr []"
| "parse_entries seen (l # ls) =
     (case split_once TAB l of
        None \<Rightarrow> Inl InvalidData
      | Some (existed, p) \<Rightarrow>
          (case validate_relative_path p of
             Inl e \<Rightarrow> Inl e
           | Inr _ \<Rightarrow>
               if dest_path p \<in> set seen then Inl InvalidData
               else if existed \<noteq> ''0'' \<and> existed \<noteq> ''1'' then Inl InvalidData
               else (case parse_entries (dest_path p # seen) ls of
                       Inl e \<Rightarrow> Inl e
                     | Inr es \<Rightarrow> Inr (\<lparr>had_original = (existed = ''1''), relative_path = p\<rparr> # es))))"

definition parse_journal :: "string \<Rightarrow> io_error + journal_entry list" where
  "parse_journal s =
     (if \<not> utf8_valid s then Inl InvalidData
      else case str_lines s of
        v # ph # ls \<Rightarrow>
          if v \<noteq> JOURNAL_VERSION then Inl InvalidData
          else (case strip_prefix ''phase='' ph of
             None \<Rightarrow> Inl InvalidData
           | Some w \<Rightarrow> (case phase_parse w of
               Inl e \<Rightarrow> Inl e
             | Inr x \<Rightarrow>
                 if x \<noteq> Prepared then Inl InvalidData
                 else (case parse_entries [] ls of
                         Inl e \<Rightarrow> Inl e
                       | Inr es \<Rightarrow> if es = [] then Inl InvalidData else Inr es)))
      | _ \<Rightarrow> Inl InvalidData)"

definition marked_phase :: "fs \<Rightarrow> phase" where
  "marked_phase m =
     (if path_exists (transaction_root @ [FIRMWARE_WRITTEN_MARKER]) m then FirmwareWritten
      else if path_exists (transaction_root @ [FILES_ACTIVE_MARKER]) m then FilesActive
      else Prepared)"

definition read_journal :: "('s, journal) io" where
  "read_journal =
     bind_io (read_file journal_path) (\<lambda>s.
       case parse_journal s of
         Inl e \<Rightarrow> throw e
       | Inr es \<Rightarrow> bind_io (asks marked_phase) (\<lambda>ph. ret \<lparr>jn_phase = ph, jn_entries = es\<rparr>))"

definition write_phase :: "phase \<Rightarrow> ('s, unit) io" where
  "write_phase ph =
     (case ph of
        Prepared \<Rightarrow> ret ()
      | FilesActive \<Rightarrow> write_synced (transaction_root @ [FILES_ACTIVE_MARKER]) (phase_as_str ph)
      | FirmwareWritten \<Rightarrow> write_synced (transaction_root @ [FIRMWARE_WRITTEN_MARKER]) (phase_as_str ph))"

section \<open>Recovery\<close>

definition recovery_action :: "bool \<Rightarrow> bool \<Rightarrow> ('s, recovery_action) io" where
  "recovery_action selected valid =
     bind_io (asks transaction_exists) (\<lambda>ex.
       if \<not> ex then ret NoAction
       else bind_io read_journal (\<lambda>j.
         if jn_phase j = FirmwareWritten \<and> selected \<and> valid then ret Finalize else ret Rollback))"

definition restore_entry :: "journal_entry \<Rightarrow> ('s, unit) io" where
  "restore_entry e =
     (let dest = dest_path (relative_path e); staged = staged_path dest; backup = backup_path dest in
      if had_original e then
        bind_io (asks (path_exists backup)) (\<lambda>b.
          if b then seq (remove_file_if_present dest) (seq (ensure_parent dest) (rename backup dest))
          else ret ())
      else
        bind_io (asks (path_exists staged)) (\<lambda>s. if \<not> s then remove_file_if_present dest else ret ()))"

definition rollback :: "('s, unit) io" where
  "rollback =
     bind_io (asks transaction_exists) (\<lambda>ex.
       if \<not> ex then ret ()
       else bind_io read_journal (\<lambda>j.
         seq (for_each restore_entry (rev (jn_entries j))) (remove_dir_all transaction_root)))"

definition finalize :: "('s, unit) io" where
  "finalize =
     bind_io (asks (path_exists transaction_root)) (\<lambda>ex.
       if ex then remove_dir_all transaction_root else ret ())"

section \<open>Installation\<close>

fun stage_files ::
  "(boundary \<Rightarrow> ('s, unit) io) \<Rightarrow> nat \<Rightarrow> path list \<Rightarrow> bundle_file list \<Rightarrow> ('s, journal_entry list) io" where
  "stage_files hook i seen [] = ret []"
| "stage_files hook i seen (f # fs) =
     (let dest = dest_path (bf_path f) in
      if dest \<in> set seen then throw InvalidInput
      else seq (hook (StageFile i))
        (seq (stage_contents (staged_path dest) (bf_contents f))
          (bind_io (asks (path_exists dest)) (\<lambda>had.
            bind_io (stage_files hook (Suc i) (dest # seen) fs) (\<lambda>es.
              ret (\<lparr>had_original = had, relative_path = bf_path f\<rparr> # es))))))"

definition prepare :: "(boundary \<Rightarrow> ('s, unit) io) \<Rightarrow> bundle_file list \<Rightarrow> ('s, unit) io" where
  "prepare hook files =
     bind_io (stage_files hook 0 [] files) (\<lambda>es.
       seq (hook WritePreparedJournal) (write_journal \<lparr>jn_phase = Prepared, jn_entries = es\<rparr>))"

definition activate_entry :: "(boundary \<Rightarrow> ('s, unit) io) \<Rightarrow> nat \<times> journal_entry \<Rightarrow> ('s, unit) io" where
  "activate_entry hook ie =
     (let (i, e) = ie; dest = dest_path (relative_path e);
          staged = staged_path dest; backup = backup_path dest in
      seq (if had_original e
           then seq (hook (BackupFile i)) (seq (ensure_parent backup) (rename dest backup))
           else ret ())
        (seq (hook (ActivateFile i)) (seq (ensure_parent dest) (rename staged dest))))"

definition operate :: "(boundary \<Rightarrow> ('s, unit) io) \<Rightarrow> ('s, unit) io \<Rightarrow> ('s, unit) io \<Rightarrow> ('s, unit) io" where
  "operate hook write_firmware select_boot_partition =
     bind_io read_journal (\<lambda>j.
       seq (for_each (activate_entry hook) (enumerate 0 (jn_entries j)))
         (seq (hook WriteFilesActiveJournal)
         (seq (write_phase FilesActive)
         (seq (hook WriteFirmware)
         (seq write_firmware
         (seq (hook WriteFirmwareJournal)
         (seq (write_phase FirmwareWritten)
         (seq (hook SelectBootPartition) select_boot_partition))))))))"

definition install ::
  "(boundary \<Rightarrow> ('s, unit) io) \<Rightarrow> ('s, unit) io \<Rightarrow> ('s, unit) io \<Rightarrow> bundle_file list \<Rightarrow> ('s, unit) io" where
  "install hook write_firmware select_boot_partition files =
     bind_io (asks transaction_exists) (\<lambda>ex.
       if ex then throw AlreadyExists
       else
         seq (bind_io (asks (path_exists transaction_root)) (\<lambda>x.
                if x then remove_dir_all transaction_root else ret ()))
         (seq (create_dir_all (transaction_root @ [STAGE_DIR]))
         (seq (create_dir_all (transaction_root @ [BACKUP_DIR]))
         (seq (handle (prepare hook files)
                (\<lambda>e. seq (handle (remove_dir_all transaction_root) (\<lambda>_. ret ())) (throw e)))
              (handle (operate hook write_firmware select_boot_partition)
                (\<lambda>e. seq (handle rollback (\<lambda>_. throw Other)) (throw e)))))))"

section \<open>At boot\<close>

definition BUNDLE_DOWNLOAD_DIR :: path where "BUNDLE_DOWNLOAD_DIR = [''.thistle-bundle-download'']"

definition recover_interrupted_bundle :: "bool \<Rightarrow> bool \<Rightarrow> ('s, unit) io" where
  "recover_interrupted_bundle ota_selected ota_valid =
     bind_io (recovery_action ota_selected ota_valid) (\<lambda>a.
       seq (case a of NoAction \<Rightarrow> ret () | Rollback \<Rightarrow> rollback | Finalize \<Rightarrow> finalize)
         (bind_io (asks (path_exists BUNDLE_DOWNLOAD_DIR)) (\<lambda>x.
            if x then remove_dir_all BUNDLE_DOWNLOAD_DIR else ret ())))"

end
