(* ===== verification/Bundle_Safety.thy ===== *)
theory Bundle_Safety
  imports Bundle_Transaction
begin

text \<open>
  What a bundle installation guarantees on the volume: whatever call fails and wherever power is
  lost, during the installation or during any of the following rollbacks, a rollback that is left
  alone gives the user's files back as they were. First the journal's round trip, then the
  invariant of an open transaction, then the rollback, then the installation.
\<close>

section \<open>The journal\<close>

definition entry_dest :: "journal_entry \<Rightarrow> path" where
  "entry_dest e = dest_path (relative_path e)"

lemma validate_OK:
  "validate_relative_path s = Inr () \<longleftrightarrow>
     s \<noteq> [] \<and> \<not> is_absolute s \<and> list_all is_normal (path_components s) \<and> utf8_valid s
     \<and> TAB \<notin> set s \<and> LF \<notin> set s \<and> CR \<notin> set s"
  by (auto simp: validate_relative_path_def)

lemma parse_entries_lines:
  "\<forall>e\<in>set es. validate_relative_path (relative_path e) = Inr () \<Longrightarrow>
   distinct (map entry_dest es) \<Longrightarrow> set (map entry_dest es) \<inter> set seen = {} \<Longrightarrow>
   parse_entries seen (map entry_line es) = Inr es"
proof (induction es arbitrary: seen)
  case (Cons e es)
  have "TAB \<notin> set ''0''" "TAB \<notin> set ''1''" by (simp_all add: TAB_def)
  then have line: "split_once TAB (entry_line e) = Some (if had_original e then ''1'' else ''0'', relative_path e)"
    using split_once_append [of TAB "''0''"] split_once_append [of TAB "''1''"] by (simp add: entry_line_def)
  have "parse_entries (entry_dest e # seen) (map entry_line es) = Inr es"
    using Cons.prems by (intro Cons.IH) auto
  then show ?case
    using line Cons.prems by (auto simp: entry_dest_def)
qed simp

definition good_entries :: "journal_entry list \<Rightarrow> bool" where
  "good_entries es \<longleftrightarrow> es \<noteq> [] \<and> distinct (map entry_dest es)
     \<and> (\<forall>e\<in>set es. validate_relative_path (relative_path e) = Inr ())"

lemma journal_lines:
  assumes "\<forall>e\<in>set es. validate_relative_path (relative_path e) = Inr ()"
  shows "str_lines (journal_text es) = JOURNAL_VERSION # (''phase='' @ phase_as_str Prepared) # map entry_line es"
    and "utf8_valid (journal_text es)"
proof -
  have c: "LF \<notin> set ''0''" "LF \<notin> set ''1''" "CR \<notin> set ''0''" "CR \<notin> set ''1''" "LF \<noteq> TAB" "CR \<noteq> TAB"
    by (simp_all add: char_defs)
  define ph where "ph = ''phase='' @ phase_as_str Prepared"
  have h: "LF \<notin> set JOURNAL_VERSION \<and> CR \<notin> set JOURNAL_VERSION \<and> utf8_valid JOURNAL_VERSION"
    "LF \<notin> set ph \<and> CR \<notin> set ph \<and> utf8_valid ph"
    by (auto simp: ph_def JOURNAL_VERSION_def char_defs intro!: utf8_valid_ascii)
  have line: "LF \<notin> set (entry_line e) \<and> CR \<notin> set (entry_line e)" if "e \<in> set es" for e
    using assms that c by (auto simp: entry_line_def validate_OK)
  show "str_lines (journal_text es) = JOURNAL_VERSION # (''phase='' @ phase_as_str Prepared) # map entry_line es"
    unfolding journal_text_def ph_def [symmetric] using h line by (intro str_lines_unlines) auto
  have "utf8_valid (''0'' @ [TAB] @ p)" "utf8_valid (''1'' @ [TAB] @ p)" if "utf8_valid p" for p
    by (intro utf8_valid_append that utf8_valid_ascii; simp add: TAB_def)+
  then have "utf8_valid (entry_line e)" if "e \<in> set es" for e
    using assms that by (simp add: entry_line_def validate_OK)
  then show "utf8_valid (journal_text es)"
    unfolding journal_text_def ph_def [symmetric] using h by (intro utf8_valid_unlines) auto
qed

lemma parse_journal_text:
  assumes "good_entries es"
  shows "parse_journal (journal_text es) = Inr es"
  using assms journal_lines [of es] parse_entries_lines [of es "[]"]
  by (simp add: parse_journal_def good_entries_def phase_parse_def del: phase_as_str.simps)
     (simp add: phase_parse_def)

interpretation bundle_journal:
  codec journal_text "\<lambda>s. case parse_journal s of Inl _ \<Rightarrow> None | Inr es \<Rightarrow> Some es" good_entries
  by unfold_locales (simp add: parse_journal_text)

section \<open>Paths of a transaction\<close>

definition user_path :: "path \<Rightarrow> bool" where
  "user_path p \<longleftrightarrow> p \<noteq> [] \<and> hd p \<noteq> TRANSACTION_DIR"

lemmas tx_path_defs = journal_path_def staged_path_def backup_path_def transaction_root_def

lemma names_differ:
  "STAGE_DIR \<noteq> BACKUP_DIR" "JOURNAL_FILE \<noteq> STAGE_DIR" "JOURNAL_FILE \<noteq> BACKUP_DIR" "JOURNAL_TMP \<noteq> JOURNAL_FILE"
  "JOURNAL_TMP \<noteq> STAGE_DIR" "JOURNAL_TMP \<noteq> BACKUP_DIR"
  "FILES_ACTIVE_MARKER \<notin> {STAGE_DIR, BACKUP_DIR, JOURNAL_FILE, JOURNAL_TMP}"
  "FIRMWARE_WRITTEN_MARKER \<notin> {STAGE_DIR, BACKUP_DIR, JOURNAL_FILE, JOURNAL_TMP}"
  "FILES_ACTIVE_MARKER \<noteq> FIRMWARE_WRITTEN_MARKER"
  by (simp_all add: STAGE_DIR_def BACKUP_DIR_def JOURNAL_FILE_def JOURNAL_TMP_def
      FILES_ACTIVE_MARKER_def FIRMWARE_WRITTEN_MARKER_def)

lemma path_simps [simp]:
  "staged_path p = staged_path q \<longleftrightarrow> p = q" "backup_path p = backup_path q \<longleftrightarrow> p = q"
  "staged_path p \<noteq> backup_path q" "backup_path p \<noteq> staged_path q"
  "journal_path \<noteq> staged_path p" "staged_path p \<noteq> journal_path"
  "journal_path \<noteq> backup_path p" "backup_path p \<noteq> journal_path"
  "\<not> user_path (staged_path p)" "\<not> user_path (backup_path p)" "\<not> user_path journal_path"
  "\<not> user_path transaction_root" "\<not> user_path []"
  "staged_path p \<noteq> []" "backup_path p \<noteq> []" "journal_path \<noteq> []" "transaction_root \<noteq> []"
  "[] \<noteq> staged_path p" "[] \<noteq> backup_path p" "[] \<noteq> journal_path" "[] \<noteq> transaction_root"
  "\<not> user_path (transaction_root @ p)"
  using names_differ by (auto simp: tx_path_defs user_path_def)

lemma user_path_neq [simp]:
  "user_path p \<Longrightarrow> p \<noteq> staged_path q" "user_path p \<Longrightarrow> p \<noteq> backup_path q" "user_path p \<Longrightarrow> p \<noteq> journal_path"
  "user_path p \<Longrightarrow> staged_path q \<noteq> p" "user_path p \<Longrightarrow> backup_path q \<noteq> p" "user_path p \<Longrightarrow> journal_path \<noteq> p"
  by (auto simp: user_path_def tx_path_defs)

lemma user_path_tx: "user_path p \<Longrightarrow> p \<noteq> transaction_root @ q" "user_path p \<Longrightarrow> transaction_root @ q \<noteq> p"
  by (auto simp: user_path_def transaction_root_def)

lemma user_path_ne: "user_path p \<Longrightarrow> p \<noteq> []"
  by (simp add: user_path_def)

lemma user_path_prefix: "prefix q p \<Longrightarrow> q \<noteq> [] \<Longrightarrow> user_path p \<longleftrightarrow> user_path q"
  by (auto simp: prefix_def user_path_def)

text \<open>The contents of a user's file.\<close>

definition file_in :: "fs \<Rightarrow> path \<Rightarrow> string option" where
  "file_in m p = (case look m p of Some (File s) \<Rightarrow> Some s | _ \<Rightarrow> None)"

lemma file_in_cong: "look m p = look m' q \<Longrightarrow> file_in m p = file_in m' q"
  by (simp add: file_in_def)

text \<open>The destinations of a bundle lie outside the transaction directory, none below another.\<close>

definition apart :: "path set \<Rightarrow> bool" where
  "apart ps \<longleftrightarrow> (\<forall>p\<in>ps. user_path p) \<and> (\<forall>p\<in>ps. \<forall>q\<in>ps. prefix p q \<longrightarrow> p = q)"

lemma dest_path_neq_Nil: "validate_relative_path s = Inr () \<Longrightarrow> dest_path s \<noteq> []"
proof -
  assume v: "validate_relative_path s = Inr ()"
  then obtain c cs where s: "s = c # cs" "c \<noteq> CHR ''/''" by (cases s) (auto simp: validate_OK is_absolute_def)
  then have hd: "hd (split_on CHR ''/'' s) \<noteq> []" by (auto split: list.splits)
  with v s show ?thesis
    by (auto simp: dest_path_def path_components_def validate_OK Let_def part_component_def split: if_splits)
qed

section \<open>An open transaction\<close>

text \<open>What holds of one entry while the journal exists: the original file is at its destination or
  in the backup; where there was none, the destination is free as long as the staged file is there.\<close>

definition entry_ok :: "(path \<Rightarrow> string option) \<Rightarrow> fs \<Rightarrow> journal_entry \<Rightarrow> bool" where
  "entry_ok orig m e \<longleftrightarrow>
     (let d = entry_dest e in
      look m d \<noteq> Some Dir \<and> look m (backup_path d) \<noteq> Some Dir \<and> look m (staged_path d) \<noteq> Some Dir \<and>
      (if had_original e
       then orig d \<noteq> None \<and> look m (butlast d) = Some Dir \<and>
            (if look m (backup_path d) = None then file_in m d = orig d else file_in m (backup_path d) = orig d)
       else orig d = None \<and> (look m (staged_path d) \<noteq> None \<longrightarrow> file_in m d = None)))"

lemma entry_ok_cong:
  "look m' (entry_dest e) = look m (entry_dest e) \<Longrightarrow>
   look m' (staged_path (entry_dest e)) = look m (staged_path (entry_dest e)) \<Longrightarrow>
   look m' (backup_path (entry_dest e)) = look m (backup_path (entry_dest e)) \<Longrightarrow>
   look m' (butlast (entry_dest e)) = look m (butlast (entry_dest e)) \<Longrightarrow>
   entry_ok orig m e = entry_ok orig m' e"
  by (simp add: entry_ok_def Let_def file_in_def)

definition tx_open :: "journal_entry list \<Rightarrow> (path \<Rightarrow> string option) \<Rightarrow> fs \<Rightarrow> bool" where
  "tx_open es orig m \<longleftrightarrow>
     wf_fs m \<and> look m journal_path = Some (File (journal_text es))
     \<and> (\<forall>p. user_path p \<and> p \<notin> entry_dest ` set es \<longrightarrow> file_in m p = orig p)
     \<and> (\<forall>e\<in>set es. entry_ok orig m e)"

definition tx_closed :: "(path \<Rightarrow> string option) \<Rightarrow> fs \<Rightarrow> bool" where
  "tx_closed orig m \<longleftrightarrow> wf_fs m \<and> look m journal_path = None \<and> (\<forall>p. user_path p \<longrightarrow> file_in m p = orig p)"

definition tx_safe :: "journal_entry list \<Rightarrow> (path \<Rightarrow> string option) \<Rightarrow> fs \<Rightarrow> bool" where
  "tx_safe es orig m \<longleftrightarrow> tx_closed orig m \<or> tx_open es orig m"

text \<open>The paths that matter to a transaction, and changes that spare them.\<close>

definition watched :: "journal_entry list \<Rightarrow> path set" where
  "watched es = insert journal_path (\<Union>e\<in>set es. {entry_dest e, staged_path (entry_dest e), backup_path (entry_dest e)})"

definition framed :: "journal_entry list \<Rightarrow> fs \<Rightarrow> fs \<Rightarrow> bool" where
  "framed es m m' \<longleftrightarrow> wf_fs m' \<and> (\<forall>q\<in>watched es. look m' q = look m q) \<and>
     (\<forall>q. user_path q \<longrightarrow> look m' q = look m q \<or> (look m q = None \<and> look m' q = Some Dir))"

lemma framed_look:
  assumes "framed es m m'" "e \<in> set es"
  shows "look m' (entry_dest e) = look m (entry_dest e)"
    "look m' (staged_path (entry_dest e)) = look m (staged_path (entry_dest e))"
    "look m' (backup_path (entry_dest e)) = look m (backup_path (entry_dest e))"
  using assms by (auto simp: framed_def watched_def)

lemma framed_file_in: "framed es m m' \<Longrightarrow> user_path q \<Longrightarrow> file_in m' q = file_in m q"
  unfolding framed_def file_in_def by force

lemma butlast_user: "user_path p \<Longrightarrow> butlast p = [] \<or> user_path (butlast p)"
  by (cases p) (auto simp: user_path_def)

lemma framed_dir: "framed es m m' \<Longrightarrow> user_path p \<Longrightarrow> look m (butlast p) = Some Dir \<Longrightarrow> look m' (butlast p) = Some Dir"
  using butlast_user [of p] unfolding framed_def by force

lemma framed_open:
  assumes "framed es m m'" "tx_open es orig m" "apart (entry_dest ` set es)"
  shows "tx_open es orig m'"
proof -
  have "entry_ok orig m' e" if e: "e \<in> set es" for e
  proof -
    have u: "user_path (entry_dest e)" using assms(3) e by (auto simp: apart_def)
    have "entry_ok orig m e" using assms(2) e by (simp add: tx_open_def)
    with framed_look [OF assms(1) e] framed_dir [OF assms(1) u] show ?thesis
      by (auto simp: entry_ok_def Let_def file_in_def)
  qed
  moreover have "look m' journal_path = look m journal_path" "wf_fs m'"
    using assms(1) by (auto simp: framed_def watched_def)
  ultimately show ?thesis
    using assms(2) framed_file_in [OF assms(1)] by (simp add: tx_open_def)
qed

lemma grown_framed:
  assumes "grown p m m'" "\<forall>q. prefix q p \<longrightarrow> q \<notin> watched es"
  shows "framed es m m'"
  using assms unfolding grown_def framed_def by blast

text \<open>The directories the program makes are none of the watched paths.\<close>

lemma spared:
  assumes "apart (entry_dest ` set es)" "e \<in> set es"
  shows "prefix q (butlast (entry_dest e)) \<Longrightarrow> q \<notin> watched es"
    and "prefix q (butlast (backup_path (entry_dest e))) \<Longrightarrow> q \<notin> watched es"
    and "prefix q transaction_root \<Longrightarrow> q \<notin> watched es"
proof -
  have u: "user_path (entry_dest e')" if "e' \<in> set es" for e' using assms(1) that by (auto simp: apart_def)
  note ne = user_path_ne [OF u]
  have strict: "q \<noteq> p'" if "prefix q (butlast p)" "p \<noteq> []" "p' = p" for p p'
    using that by (metis append_butlast_last_id butlast_conv_take last_in_set length_butlast diff_less length_greater_0_conv not_less prefix_length_le zero_less_one)
  have free: "entry_dest e' = entry_dest e" if "e' \<in> set es" "prefix (entry_dest e') (entry_dest e)" for e'
    using that assms unfolding apart_def by blast
  have up: "prefix q p" if "prefix q (butlast p)" for p
    using that prefixeq_butlast prefix_order.trans by blast
  show "q \<notin> watched es" if q: "prefix q (butlast (entry_dest e))"
  proof -
    have "q = [] \<or> user_path q"
      using user_path_prefix [OF up [OF q]] u [OF assms(2)] by auto
    moreover have "q \<noteq> entry_dest e'" if "e' \<in> set es" for e'
      using free [OF that] strict [OF q ne [OF assms(2)]] up [OF q] by auto
    ultimately show ?thesis using u ne by (auto simp: watched_def)
  qed
  show "q \<notin> watched es" if q: "prefix q (butlast (backup_path (entry_dest e)))"
  proof -
    have nu: "\<not> user_path q" using user_path_prefix [OF up [OF q]] by (cases "q = []") auto
    have "q \<noteq> backup_path (entry_dest e')" if "e' \<in> set es" for e'
    proof
      assume eq: "q = backup_path (entry_dest e')"
      with up [OF q] have "prefix (entry_dest e') (entry_dest e)" by (simp add: backup_path_def transaction_root_def)
      from free [OF that this] strict [OF q, of q] eq show False by simp
    qed
    moreover have "\<not> prefix journal_path (backup_path p)" "\<not> prefix (staged_path p') (backup_path p)" for p p'
      using names_differ by (auto simp: tx_path_defs)
    ultimately show ?thesis using nu u up [OF q] by (auto simp: watched_def)
  qed
  show "q \<notin> watched es" if "prefix q transaction_root"
  proof -
    have "length q \<le> 1" using prefix_length_le [OF that] by (simp add: transaction_root_def)
    moreover have "\<not> user_path q" using user_path_prefix [OF that] by (cases "q = []") auto
    ultimately show ?thesis using u by (auto simp: watched_def tx_path_defs)
  qed
qed

text \<open>Changes to one entry's own three paths.\<close>

definition touched :: "journal_entry \<Rightarrow> fs \<Rightarrow> fs \<Rightarrow> bool" where
  "touched e m m' \<longleftrightarrow> wf_fs m' \<and>
     (\<forall>p. p \<notin> {entry_dest e, staged_path (entry_dest e), backup_path (entry_dest e)} \<longrightarrow> look m' p = look m p)"

definition good_bundle :: "journal_entry list \<Rightarrow> bool" where
  "good_bundle es \<longleftrightarrow> good_entries es \<and> apart (entry_dest ` set es)"

lemma good_bundleD:
  assumes "good_bundle es"
  shows "good_entries es" "apart (entry_dest ` set es)" "e \<in> set es \<Longrightarrow> user_path (entry_dest e)"
    "e \<in> set es \<Longrightarrow> e' \<in> set es \<Longrightarrow> entry_dest e = entry_dest e' \<longleftrightarrow> e = e'"
    "e \<in> set es \<Longrightarrow> e' \<in> set es \<Longrightarrow> butlast (entry_dest e) \<noteq> entry_dest e'"
proof -
  show g: "good_entries es" "apart (entry_dest ` set es)" using assms by (simp_all add: good_bundle_def)
  show u: "user_path (entry_dest e)" if "e \<in> set es" for e using g(2) that by (auto simp: apart_def)
  show "entry_dest e = entry_dest e' \<longleftrightarrow> e = e'" if "e \<in> set es" "e' \<in> set es"
    using g(1) that by (auto simp: good_entries_def distinct_map inj_on_def)
  show "butlast (entry_dest e) \<noteq> entry_dest e'" if e: "e \<in> set es" "e' \<in> set es"
  proof
    assume b: "butlast (entry_dest e) = entry_dest e'"
    then have "prefix (entry_dest e') (entry_dest e)" using prefixeq_butlast by metis
    with g(2) e have "entry_dest e' = entry_dest e" by (auto simp: apart_def)
    with b u [OF e(1)] have "length (entry_dest e) - 1 = length (entry_dest e)" "entry_dest e \<noteq> []"
      by (metis length_butlast, metis user_path_ne)
    then show False by (cases "entry_dest e") auto
  qed
qed

lemma touched_parent:
  "touched e m m' \<Longrightarrow> good_bundle es \<Longrightarrow> e \<in> set es \<Longrightarrow> e' \<in> set es \<Longrightarrow>
   look m' (butlast (entry_dest e')) = look m (butlast (entry_dest e'))"
  using good_bundleD(5) [of es e' e] butlast_user [OF good_bundleD(3), of es e']
  by (auto simp: touched_def)

lemma touched_open:
  assumes "tx_open es orig m" "good_bundle es" "e \<in> set es" "touched e m m'" "entry_ok orig m' e"
  shows "tx_open es orig m'"
proof -
  note g = good_bundleD [OF assms(2)]
  have "entry_ok orig m' e'" if e': "e' \<in> set es" for e'
  proof (cases "e' = e")
    case False
    then have ne: "entry_dest e' \<noteq> entry_dest e" using g(4) [OF e' assms(3)] by simp
    have "entry_ok orig m e'" using assms(1) e' by (simp add: tx_open_def)
    moreover have "look m' p = look m p"
      if "p \<in> {entry_dest e', staged_path (entry_dest e'), backup_path (entry_dest e')}" for p
      using assms(4) that ne g(3) e' assms(3) by (auto simp: touched_def)
    ultimately show ?thesis
      using touched_parent [OF assms(4,2,3) e'] entry_ok_cong [of m' e' m orig] by simp
  qed (use assms(5) in simp)
  moreover have "file_in m' p = file_in m p" if "user_path p" "p \<notin> entry_dest ` set es" for p
  proof -
    have "p \<noteq> entry_dest e" using that(2) assms(3) by blast
    with assms(4) that(1) show ?thesis by (intro file_in_cong) (auto simp: touched_def)
  qed
  moreover have "look m' journal_path = look m journal_path" "wf_fs m'"
    using assms(4) g(3) [OF assms(3)] by (auto simp: touched_def)
  ultimately show ?thesis using assms(1) by (simp add: tx_open_def)
qed

section \<open>Rolling back\<close>

definition restored :: "(path \<Rightarrow> string option) \<Rightarrow> fs \<Rightarrow> journal_entry \<Rightarrow> bool" where
  "restored orig m e \<longleftrightarrow>
     file_in m (entry_dest e) = orig (entry_dest e) \<and>
     (had_original e \<longrightarrow> look m (backup_path (entry_dest e)) = None)"

lemma restored_touched:
  "restored orig m e' \<Longrightarrow> touched e m m' \<Longrightarrow> good_bundle es \<Longrightarrow> e \<in> set es \<Longrightarrow> e' \<in> set es \<Longrightarrow> e' \<noteq> e \<Longrightarrow>
   restored orig m' e'"
  using good_bundleD(3,4) [of es] by (auto simp: restored_def touched_def file_in_def)

lemma restored_framed:
  "restored orig m e \<Longrightarrow> framed es m m' \<Longrightarrow> e \<in> set es \<Longrightarrow> restored orig m' e"
  using framed_look [of es m m' e] by (auto simp: restored_def file_in_def)

lemma read_journal_sure:
  assumes "good_entries es" "\<And>m. P m \<Longrightarrow> look m journal_path = Some (File (journal_text es)) \<and> E m"
  shows "io_sure P read_journal (\<lambda>j m. P m \<and> j = \<lparr>jn_phase = marked_phase m, jn_entries = es\<rparr>) E"
  unfolding read_journal_def
proof (rule sure_bind [where R = "\<lambda>s m. P m \<and> s = journal_text es"])
  show "io_sure P (read_file journal_path) (\<lambda>s m. P m \<and> s = journal_text es) E"
    using assms(2) by (intro sure_read_file) auto
  show "io_sure (\<lambda>m. P m \<and> s = journal_text es)
      (case parse_journal s of Inl e \<Rightarrow> throw e
       | Inr es \<Rightarrow> bind_io (asks marked_phase) (\<lambda>ph. ret \<lparr>jn_phase = ph, jn_entries = es\<rparr>))
      (\<lambda>j m. P m \<and> j = \<lparr>jn_phase = marked_phase m, jn_entries = es\<rparr>) E" for s
  proof (rule sure_fact)
    assume "s = journal_text es"
    then show ?thesis
      by (simp only: parse_journal_text [OF assms(1)] sum.case)
         (intro sure_bind [where R = "\<lambda>ph m. P m \<and> ph = marked_phase m"] sure_asks sure_ret; simp)
  qed simp
qed

text \<open>Removing a destination that may go, and putting a backup back.\<close>

lemma remove_dest_touched:
  assumes "wf_fs m'" "look m' = (look m)(entry_dest e := None)"
  shows "touched e m m'"
  using assms by (simp add: touched_def)

lemma remove_dest_ok:
  assumes "entry_ok orig m e" "user_path (entry_dest e)" "look m' = (look m)(entry_dest e := None)"
    and "if had_original e then look m (backup_path (entry_dest e)) \<noteq> None else look m (staged_path (entry_dest e)) = None"
  shows "entry_ok orig m' e"
proof -
  have "butlast (entry_dest e) \<noteq> entry_dest e"
    using assms(2) by (metis append_butlast_last_id append_self_conv not_Cons_self2 user_path_ne)
  with assms show ?thesis by (auto simp: entry_ok_def Let_def file_in_def)
qed

lemma putback_ok:
  assumes "entry_ok orig m e" "user_path (entry_dest e)" "had_original e" "look m (backup_path (entry_dest e)) = Some (File s)"
    and "look m' = (look m)(backup_path (entry_dest e) := None, entry_dest e \<mapsto> File s)"
  shows "entry_ok orig m' e" "restored orig m' e"
proof -
  have "butlast (entry_dest e) \<noteq> entry_dest e" "butlast (entry_dest e) \<noteq> backup_path (entry_dest e)"
    using assms(2) butlast_user [OF assms(2)]
    by (metis append_butlast_last_id append_self_conv not_Cons_self2 user_path_ne, auto)
  with assms show "entry_ok orig m' e" "restored orig m' e"
    by (auto simp: entry_ok_def Let_def file_in_def restored_def)
qed

definition undone :: "journal_entry list \<Rightarrow> (path \<Rightarrow> string option) \<Rightarrow> journal_entry set \<Rightarrow> fs \<Rightarrow> bool" where
  "undone es orig D m \<longleftrightarrow> tx_open es orig m \<and> (\<forall>e\<in>D. restored orig m e)"

lemma undone_touched:
  assumes "undone es orig D m" "good_bundle es" "e \<in> set es" "touched e m m'" "entry_ok orig m' e"
    and "D \<subseteq> set es" "e \<notin> D"
  shows "undone es orig D m'"
  using assms touched_open [of es orig m e m'] restored_touched [of orig m _ e m' es]
  by (auto simp: undone_def)

lemma undone_framed:
  assumes "undone es orig D m" "good_bundle es" "framed es m m'" "D \<subseteq> set es"
  shows "undone es orig D m'"
  using assms framed_open [OF assms(3)] restored_framed [of orig m _ es m'] good_bundleD(2)
  by (auto simp: undone_def)

lemma undone_facts:
  "undone es orig D m \<Longrightarrow> wf_fs m" "undone es orig D m \<Longrightarrow> tx_open es orig m"
  "undone es orig D m \<Longrightarrow> e \<in> set es \<Longrightarrow> entry_ok orig m e"
  by (auto simp: undone_def tx_open_def)

lemma restore_entry_sure:
  assumes g: "good_bundle es" and e: "e \<in> set es" and D: "D \<subseteq> set es" "e \<notin> D"
  shows "io_sure (undone es orig D) (restore_entry e) (\<lambda>_. undone es orig (insert e D)) (tx_open es orig)"
proof -
  let ?d = "entry_dest e" and ?b = "backup_path (entry_dest e)" and ?s = "staged_path (entry_dest e)"
  note u = good_bundleD(3) [OF g e]
  note touch = undone_touched [OF _ g e _ _ D]
  have gone: "undone es orig D m' \<and> look m' ?b = look m ?b"
    if "undone es orig D m" "wf_fs m'" "look m' = (look m)(?d := None)"
      "if had_original e then look m ?b \<noteq> None else look m ?s = None" for m m'
    using touch [OF that(1) remove_dest_touched [OF that(2,3)]
        remove_dest_ok [OF undone_facts(3) [OF that(1) e] u that(3,4)]] that(3) u by simp
  note open_of = undone_facts(1,2)
  have ok: "look m ?d \<noteq> Some Dir \<and> (had_original e \<longrightarrow> look m (butlast ?d) = Some Dir \<and>
      (look m ?b \<noteq> None \<longrightarrow> file_in m ?b \<noteq> None))" if "undone es orig D m" for m
    using undone_facts(3) [OF that e] by (auto simp: entry_ok_def Let_def split: if_splits)
  show ?thesis
  proof (cases "had_original e")
    case True
    let ?B = "\<lambda>m. undone es orig D m \<and> look m ?b \<noteq> None"
    have remove: "io_sure ?B (remove_file_if_present ?d) (\<lambda>_. ?B) (tx_open es orig)"
      unfolding remove_file_if_present_def using gone True open_of ok by (intro sure_remove_present) auto
    have parent: "io_sure ?B (ensure_parent ?d) (\<lambda>_. ?B) (tx_open es orig)"
    proof -
      have "?B m'" if "?B m" "grown (butlast ?d) m m'" for m m'
      proof -
        have f: "framed es m m'" using grown_framed [OF that(2)] spared(1) [OF good_bundleD(2) [OF g] e] by blast
        with that(1) undone_framed [OF _ g f D(1)] framed_look(3) [OF f e] show ?thesis by auto
      qed
      then show ?thesis
        unfolding ensure_parent_def if_not_P [OF user_path_ne [OF u]]
        using open_of ok True by (intro sure_create_dir_all) blast+
    qed
    have rename: "io_sure ?B (rename ?b ?d) (\<lambda>_. undone es orig (insert e D)) (tx_open es orig)"
    proof (rule sure_rename)
      fix m m' s
      assume m: "?B m" "look m ?b = Some (File s)" "wf_fs m'" "look m' = (look m)(?b := None, ?d \<mapsto> File s)"
      have "touched e m m'" using m(3,4) by (simp add: touched_def)
      from touch [OF _ this] putback_ok [OF undone_facts(3) [OF _ e] u True m(2,4)] m(1)
      show "undone es orig (insert e D) m'" by (auto simp: undone_def)
    next
      fix m assume "?B m"
      with ok [of m] open_of True show "wf_fs m \<and> (\<exists>s. look m ?b = Some (File s)) \<and>
          look m (butlast ?d) = Some Dir \<and> look m ?d \<noteq> Some Dir \<and> tx_open es orig m"
        by (auto simp: file_in_def split: option.splits node.splits)
    qed (use u user_path_ne [OF u] in simp_all)
    have stay: "undone es orig (insert e D) m" if "undone es orig D m" "look m ?b = None" for m
      using that undone_facts(3) [OF that(1) e] True by (auto simp: undone_def restored_def entry_ok_def Let_def)
    show ?thesis
      unfolding restore_entry_def Let_def entry_dest_def [symmetric] if_P [OF True]
    proof (rule sure_bind [where R = "\<lambda>b m. undone es orig D m \<and> b = path_exists ?b m"])
      show "io_sure (\<lambda>m. undone es orig D m \<and> b = path_exists ?b m)
          (if b then seq (remove_file_if_present ?d) (seq (ensure_parent ?d) (rename ?b ?d)) else ret ())
          (\<lambda>_. undone es orig (insert e D)) (tx_open es orig)" for b
        by (cases b; simp only: if_True if_False)
           (use stay in \<open>auto intro!: sure_ret sure_pre [OF sure_seq [OF remove sure_seq [OF parent rename]]] simp: path_exists_def\<close>)
    qed (auto intro: sure_asks)
  next
    case False
    have remove: "io_sure (\<lambda>m. undone es orig D m \<and> look m ?s = None) (remove_file_if_present ?d)
        (\<lambda>_. undone es orig (insert e D)) (tx_open es orig)"
      unfolding remove_file_if_present_def
    proof (rule sure_remove_present)
      fix m m' assume m: "undone es orig D m \<and> look m ?s = None" "wf_fs m'" "look m' = (look m)(?d := None)"
      with gone [of m m'] False have "undone es orig D m'" by simp
      moreover have "orig ?d = None" using undone_facts(3) [OF _ e] m(1) False by (auto simp: entry_ok_def Let_def)
      ultimately show "undone es orig (insert e D) m'"
        using m(3) False by (auto simp: undone_def restored_def file_in_def)
    qed (use open_of ok in auto)
    have stay: "undone es orig (insert e D) m" if "undone es orig D m" "look m ?s \<noteq> None" for m
      using that undone_facts(3) [OF that(1) e] False by (auto simp: undone_def restored_def entry_ok_def Let_def)
    show ?thesis
      unfolding restore_entry_def Let_def entry_dest_def [symmetric] if_not_P [OF False]
    proof (rule sure_bind [where R = "\<lambda>s m. undone es orig D m \<and> s = path_exists ?s m"])
      show "io_sure (\<lambda>m. undone es orig D m \<and> s = path_exists ?s m)
          (if \<not> s then remove_file_if_present ?d else ret ())
          (\<lambda>_. undone es orig (insert e D)) (tx_open es orig)" for s
        by (cases s; simp only: if_True if_False not_False_eq_True not_True_eq_False)
           (use stay in \<open>auto intro!: sure_ret sure_pre [OF remove] simp: path_exists_def\<close>)
    qed (auto intro: sure_asks)
  qed
qed

text \<open>The directory goes last; whatever of it is left, nothing of the user's is in danger.\<close>

lemma undone_shrunk:
  assumes "undone es orig (set es) m" "good_bundle es" "shrunk transaction_root m m'"
  shows "tx_safe es orig m'"
proof -
  have o: "tx_open es orig m" using assms(1) by (simp add: undone_def)
  have same: "look m' p = look m p" if "user_path p" for p
    using assms(3) that user_path_prefix [of transaction_root p] by (auto simp: shrunk_def)
  have wf: "wf_fs m'" using assms(3) by (simp add: shrunk_def)
  have files: "file_in m' p = orig p" if "user_path p" for p
    using o assms(1) same [OF that] that by (auto simp: undone_def tx_open_def restored_def file_in_def)
  show ?thesis
  proof (cases "look m' journal_path = None")
    case True
    with wf files show ?thesis by (simp add: tx_safe_def tx_closed_def)
  next
    case False
    with assms(3) have j: "look m' journal_path = look m journal_path" by (auto simp: shrunk_def)
    have "entry_ok orig m' e" if e: "e \<in> set es" for e
    proof -
      have u: "user_path (entry_dest e)" using good_bundleD(3) [OF assms(2) e] .
      have le: "look m' p = look m p \<or> look m' p = None" for p using assms(3) by (auto simp: shrunk_def)
      have "entry_ok orig m e" "restored orig m e" using o assms(1) e by (auto simp: undone_def tx_open_def)
      moreover have "look m' (butlast (entry_dest e)) = look m (butlast (entry_dest e))"
        using butlast_user [OF u] same by auto
      ultimately show ?thesis
        using le [of "backup_path (entry_dest e)"] le [of "staged_path (entry_dest e)"] same [OF u] files [OF u]
        by (auto simp: entry_ok_def restored_def Let_def file_in_def)
    qed
    with j wf files o show ?thesis by (simp add: tx_safe_def tx_open_def)
  qed
qed

lemma undone_removed:
  assumes "undone es orig (set es) m" "wf_fs m'" "look m' = (\<lambda>q. if prefix transaction_root q then None else look m q)"
  shows "tx_closed orig m'"
proof -
  have "look m' p = look m p" if "user_path p" for p
    using assms(3) that user_path_prefix [of transaction_root p] by auto
  moreover have "look m' journal_path = None" using assms(3) by (simp add: journal_path_def)
  ultimately show ?thesis
    using assms(1,2) by (auto simp: undone_def tx_open_def tx_closed_def restored_def file_in_def)
qed

lemma rollback_sure:
  assumes "good_bundle es"
  shows "io_sure (tx_safe es orig) rollback (\<lambda>_. tx_closed orig) (tx_safe es orig)"
  unfolding rollback_def
proof (rule sure_bind [where R = "\<lambda>ex m. tx_safe es orig m \<and> ex = transaction_exists m"])
  have loop: "io_sure (tx_open es orig) (for_each restore_entry (rev es)) (\<lambda>_. undone es orig (set (rev es))) (tx_safe es orig)"
  proof (rule sure_pre [OF sure_for_each [where I = "\<lambda>xs. undone es orig (set xs)"]])
    fix "done" x rest assume r: "rev es = done @ x # rest"
    then have "set es = set (done @ x # rest)" "distinct (done @ x # rest)"
      using good_bundleD(1) [OF assms] by (metis set_rev, metis distinct_map distinct_rev good_entries_def)
    then have "io_sure (undone es orig (set done)) (restore_entry x) (\<lambda>_. undone es orig (insert x (set done))) (tx_open es orig)"
      using assms by (intro restore_entry_sure) auto
    then show "io_sure (undone es orig (set done)) (restore_entry x) (\<lambda>_. undone es orig (set (done @ [x]))) (tx_safe es orig)"
      by (rule sure_conseq) (auto simp: tx_safe_def)
  qed (simp add: undone_def)
  have here: "wf_fs m \<and> look m transaction_root = Some Dir" if "undone es orig D m" for D m
  proof -
    have "strict_prefix transaction_root journal_path" by (simp add: journal_path_def strict_prefix_def)
    with undone_facts(1,2) [OF that] wf_strict_prefix [of m journal_path transaction_root] show ?thesis
      by (auto simp: tx_open_def)
  qed
  have dir: "io_sure (undone es orig (set (rev es))) (remove_dir_all transaction_root) (\<lambda>_. tx_closed orig) (tx_safe es orig)"
    using undone_removed [of es orig] undone_shrunk [OF _ assms, of orig] here
    unfolding set_rev by (intro sure_remove_dir_all) simp_all
  have read: "io_sure (tx_open es orig) read_journal
      (\<lambda>j m. tx_open es orig m \<and> j = \<lparr>jn_phase = marked_phase m, jn_entries = es\<rparr>) (tx_safe es orig)"
    by (rule read_journal_sure [OF good_bundleD(1) [OF assms]]) (simp add: tx_open_def tx_safe_def)
  have body: "io_sure (tx_open es orig)
      (bind_io read_journal (\<lambda>j. seq (for_each restore_entry (rev (jn_entries j))) (remove_dir_all transaction_root)))
      (\<lambda>_. tx_closed orig) (tx_safe es orig)"
  proof (rule sure_bind [OF read])
    fix j show "io_sure (\<lambda>m. tx_open es orig m \<and> j = \<lparr>jn_phase = marked_phase m, jn_entries = es\<rparr>)
        (seq (for_each restore_entry (rev (jn_entries j))) (remove_dir_all transaction_root))
        (\<lambda>_. tx_closed orig) (tx_safe es orig)"
    proof (rule sure_fact)
      assume "jn_entries j = es"
      then show ?thesis by (simp only:) (rule sure_pre [OF sure_seq [OF loop dir]], simp)
    qed simp
  qed
  show "io_sure (\<lambda>m. tx_safe es orig m \<and> ex = transaction_exists m)
      (if \<not> ex then ret ()
       else bind_io read_journal (\<lambda>j. seq (for_each restore_entry (rev (jn_entries j))) (remove_dir_all transaction_root)))
      (\<lambda>_. tx_closed orig) (tx_safe es orig)" for ex
    by (cases ex; simp only: if_True if_False not_False_eq_True not_True_eq_False)
       (auto intro!: sure_ret sure_pre [OF body] simp: tx_safe_def tx_closed_def tx_open_def transaction_exists_def path_exists_def)
qed (auto intro: sure_asks)

text \<open>Rolling back is a recovery procedure for every bundle.\<close>

interpretation bundle_tx: recoverable rollback "\<lambda>m. good_bundle es \<and> tx_safe es orig m"
    "\<lambda>m. good_bundle es \<and> tx_closed orig m" for es orig
proof
  show "io_sure (\<lambda>m. good_bundle es \<and> tx_safe es orig m) rollback (\<lambda>_ m. good_bundle es \<and> tx_closed orig m)
      (\<lambda>m. good_bundle es \<and> tx_safe es orig m)"
  proof (rule sure_fact)
    assume "good_bundle es"
    with rollback_sure [OF this, of orig] show ?thesis by (auto elim: sure_conseq)
  qed simp
qed (simp add: tx_safe_def)

end
