(* ===== verification/Bundle_Install.thy ===== *)
theory Bundle_Install
  imports Bundle_Safety
begin

text \<open>
  The installation: preparing keeps the user's files untouched, activating moves one entry at a
  time through states a rollback can undo, and a normal return leaves the new generation in place.
\<close>

section \<open>What is installed\<close>

definition bf_dest :: "bundle_file \<Rightarrow> path" where
  "bf_dest f = dest_path (bf_path f)"

definition content_of :: "fs \<Rightarrow> bundle_file \<Rightarrow> string" where
  "content_of m f = (case bf_contents f of Bytes s \<Rightarrow> s | FromFile src \<Rightarrow> the (file_in m src))"

text \<open>A bundle for the volume \<open>m\<close>: checked relative paths outside the transaction directory, none below
  another, none an existing directory, sources outside the transaction directory.\<close>

definition good_files :: "fs \<Rightarrow> bundle_file list \<Rightarrow> bool" where
  "good_files m files \<longleftrightarrow>
     files \<noteq> [] \<and> distinct (map bf_dest files) \<and> apart (bf_dest ` set files)
     \<and> (\<forall>f\<in>set files. validate_relative_path (bf_path f) = Inr () \<and> look m (bf_dest f) \<noteq> Some Dir
          \<and> (\<forall>src. bf_contents f = FromFile src \<longrightarrow> user_path src))"

definition entry_for :: "fs \<Rightarrow> bundle_file \<Rightarrow> journal_entry" where
  "entry_for m f = \<lparr>had_original = path_exists (bf_dest f) m, relative_path = bf_path f\<rparr>"

definition new_content :: "fs \<Rightarrow> bundle_file list \<Rightarrow> path \<Rightarrow> string option" where
  "new_content m files = map_of (map (\<lambda>f. (bf_dest f, content_of m f)) files)"

text \<open>An operation outside the volume.\<close>

definition leaves_volume :: "('s, unit) io \<Rightarrow> bool" where
  "leaves_volume c \<longleftrightarrow> (\<forall>d. dk_fs (snd (c d)) = dk_fs d)"

lemma spec_leaves:
  assumes "leaves_volume c"
  shows "io_spec P c (\<lambda>_. P) P"
proof -
  have "dk_fs d' = dk_fs d" if "c d = (r, d')" for d d' r
    using assms that by (auto simp: leaves_volume_def dest: spec [of _ d])
  then show ?thesis by (auto simp: io_spec_def split: prod.splits outcome.splits)
qed

lemma spec_leaves_E: "leaves_volume c \<Longrightarrow> (\<And>m. P m \<Longrightarrow> E m) \<Longrightarrow> io_spec P c (\<lambda>_. P) E"
  by (rule spec_conseq [OF spec_leaves])

lemma entry_for_simps [simp]:
  "entry_dest (entry_for m f) = bf_dest f" "relative_path (entry_for m f) = bf_path f"
  "had_original (entry_for m f) = path_exists (bf_dest f) m"
  by (simp_all add: entry_for_def entry_dest_def bf_dest_def)

lemma good_files_bundle: "good_files m files \<Longrightarrow> good_bundle (map (entry_for m) files)"
  by (simp add: good_files_def good_bundle_def good_entries_def image_image comp_def)

section \<open>Preparing\<close>

definition staging :: "fs \<Rightarrow> bundle_file set \<Rightarrow> fs \<Rightarrow> bool" where
  "staging m0 D m \<longleftrightarrow>
     wf_fs m \<and> look m journal_path = None \<and> (\<forall>p. user_path p \<longrightarrow> look m p = look m0 p)
     \<and> (\<forall>p. p \<noteq> [] \<longrightarrow> look m (backup_path p) = None)
     \<and> (\<forall>f\<in>D. look m (staged_path (bf_dest f)) = Some (File (content_of m0 f)))"

lemma staging_closed: "staging m0 D m \<Longrightarrow> tx_closed (file_in m0) m"
  by (simp add: staging_def tx_closed_def file_in_def)

lemma staging_wf: "staging m0 D m \<Longrightarrow> wf_fs m"
  by (simp add: staging_def)

lemma staging_grown:
  assumes "staging m0 D m" "grown p m m'"
    and "\<And>q. prefix q p \<Longrightarrow> \<not> user_path q \<and> q \<noteq> journal_path \<and> (\<forall>r. r \<noteq> [] \<longrightarrow> q \<noteq> backup_path r)"
  shows "staging m0 D m'"
proof -
  have g: "look m' q = look m q \<or> (look m q = None \<and> look m' q = Some Dir \<and> prefix q p)" for q
    using assms(2) by (simp add: grown_def)
  have same: "look m' q = look m q" if "user_path q \<or> q = journal_path \<or> (\<exists>r. r \<noteq> [] \<and> q = backup_path r)" for q
    using g [of q] assms(3) [of q] that by blast
  have "look m' (staged_path (bf_dest f)) = look m (staged_path (bf_dest f))" if "f \<in> D" for f
    using g [of "staged_path (bf_dest f)"] assms(1) that by (auto simp: staging_def)
  with assms(1,2) same show ?thesis by (auto simp: staging_def grown_def)
qed

text \<open>The directories made while staging.\<close>

lemma staging_prefix:
  assumes "prefix q (butlast (staged_path d)) \<or> prefix q (transaction_root @ [STAGE_DIR])
     \<or> prefix q (transaction_root @ [BACKUP_DIR]) \<or> prefix q transaction_root"
  shows "\<not> user_path q \<and> q \<noteq> journal_path \<and> (\<forall>r. r \<noteq> [] \<longrightarrow> q \<noteq> backup_path r)"
proof -
  have "prefix q (staged_path d) \<or> prefix q (backup_path [])"
    using assms prefixeq_butlast [of "staged_path d"] prefix_order.trans
    by (auto simp: staged_path_def backup_path_def intro: prefix_prefix)
  moreover have "\<not> prefix journal_path (staged_path d)" "\<not> prefix journal_path (backup_path [])"
    "\<not> prefix (backup_path r) (staged_path d)" "r \<noteq> [] \<Longrightarrow> \<not> prefix (backup_path r) (backup_path [])" for r
    using names_differ by (auto simp: tx_path_defs)
  ultimately show ?thesis
    using user_path_prefix [of q "staged_path d"] user_path_prefix [of q "backup_path []"] by (cases "q = []") auto
qed

lemma staging_dirs:
  "staging m0 D m \<Longrightarrow> grown (butlast (staged_path d)) m m' \<Longrightarrow> staging m0 D m'"
  "staging m0 D m \<Longrightarrow> grown (transaction_root @ [STAGE_DIR]) m m' \<Longrightarrow> staging m0 D m'"
  "staging m0 D m \<Longrightarrow> grown (transaction_root @ [BACKUP_DIR]) m m' \<Longrightarrow> staging m0 D m'"
  "staging m0 D m \<Longrightarrow> grown transaction_root m m' \<Longrightarrow> staging m0 D m'"
  using staging_grown staging_prefix by blast+

lemma staging_new:
  assumes "staging m0 D m" "wf_fs m'" "look m' = (look m)(staged_path (bf_dest f) \<mapsto> File s)"
    and "bf_dest f \<notin> bf_dest ` D"
  shows "staging m0 D m'" and "s = content_of m0 f \<Longrightarrow> staging m0 (insert f D) m'"
proof -
  have "bf_dest g \<noteq> bf_dest f" if "g \<in> D" for g using assms(4) that by (auto simp: image_iff)
  with assms(1,2) show s: "staging m0 D m'"
    by (auto simp: staging_def assms(3))
  show "staging m0 (insert f D) m'" if "s = content_of m0 f"
    using s that by (simp add: staging_def assms(3))
qed

lemma stage_contents_spec:
  assumes "bf_dest f \<notin> bf_dest ` D" "\<forall>src. bf_contents f = FromFile src \<longrightarrow> user_path src"
  shows "io_spec (staging m0 D) (stage_contents (staged_path (bf_dest f)) (bf_contents f))
     (\<lambda>_. staging m0 (insert f D)) (tx_closed (file_in m0))"
proof -
  let ?p = "staged_path (bf_dest f)"
  have parent: "io_spec (staging m0 D) (ensure_parent ?p) (\<lambda>_. staging m0 D) (tx_closed (file_in m0))"
    unfolding ensure_parent_def if_not_P [OF path_simps(14)]
    using staging_dirs(1) staging_closed staging_wf by (intro spec_create_dir_all) blast+
  have sync: "io_spec (staging m0 (insert f D)) (sync_file ?p) (\<lambda>_. staging m0 (insert f D)) (tx_closed (file_in m0))"
    using staging_closed by (intro spec_sync_file) auto
  note new = staging_new [OF _ _ _ assms(1)]
  show ?thesis
  proof (cases "bf_contents f")
    case (Bytes s)
    have "io_spec (staging m0 D) (write_file ?p s) (\<lambda>_. staging m0 (insert f D)) (tx_closed (file_in m0))"
    proof (rule spec_write_file)
      fix m m' s'
      assume m: "staging m0 D m" "wf_fs m'" "look m' = (look m)(?p \<mapsto> File s')"
      show "tx_closed (file_in m0) m' \<and> (s' = s \<longrightarrow> staging m0 (insert f D) m')"
        using new(1) [OF m] new(2) [OF m] staging_closed Bytes by (auto simp: content_of_def)
    qed (use staging_closed staging_wf in auto)
    then show ?thesis
      unfolding Bytes stage_contents_def bundle_contents.case write_synced_def
      by (intro spec_seq [OF parent] spec_seq [OF _ sync])
  next
    case (FromFile src)
    have "io_spec (staging m0 D) (copy_file src ?p) (\<lambda>_. staging m0 (insert f D)) (tx_closed (file_in m0))"
    proof (rule spec_copy_file)
      fix m m' s s'
      assume m: "staging m0 D m" "wf_fs m'" and s: "look m src = Some (File s)"
        and m': "look m' = (look m)(?p \<mapsto> File s')"
      have "look m0 src = Some (File s)" using m(1) s assms(2) FromFile by (auto simp: staging_def)
      then show "tx_closed (file_in m0) m' \<and> (s' = s \<longrightarrow> staging m0 (insert f D) m')"
        using new(1) [OF m m'] new(2) [OF m m'] staging_closed FromFile by (auto simp: content_of_def file_in_def)
    qed (use staging_closed staging_wf in auto)
    then show ?thesis
      unfolding FromFile stage_contents_def bundle_contents.case
      by (intro spec_seq [OF parent] spec_seq [OF _ sync])
  qed
qed

lemma stage_files_spec:
  assumes "\<And>b. leaves_volume (hook b)"
    and "\<forall>f\<in>set fs. user_path (bf_dest f) \<and> (\<forall>src. bf_contents f = FromFile src \<longrightarrow> user_path src)"
    and "set seen = bf_dest ` D"
  shows "io_spec (staging m0 D) (stage_files hook i seen fs)
     (\<lambda>es m. staging m0 (D \<union> set fs) m \<and> es = map (entry_for m0) fs) (tx_closed (file_in m0))"
  using assms(2,3)
proof (induction fs arbitrary: i seen D)
  case Nil
  then show ?case by (auto intro: spec_ret)
next
  case (Cons f fs)
  let ?E = "tx_closed (file_in m0)" and ?D = "insert f D"
  have u: "user_path (bf_dest f)" using Cons.prems(1) by simp
  show ?case
  proof (cases "bf_dest f \<in> set seen")
    case True
    then show ?thesis by (simp add: bf_dest_def Let_def) (rule spec_throw, rule staging_closed)
  next
    case False
    have stage: "io_spec (staging m0 D) (stage_contents (staged_path (bf_dest f)) (bf_contents f)) (\<lambda>_. staging m0 ?D) ?E"
      using False Cons.prems by (intro stage_contents_spec) auto
    have ask: "io_spec (staging m0 ?D) (asks (path_exists (bf_dest f)))
        (\<lambda>had m. staging m0 ?D m \<and> had = path_exists (bf_dest f) m0) ?E"
      using u by (intro spec_asks) (auto simp: staging_def path_exists_def)
    have rest: "io_spec (\<lambda>m. staging m0 ?D m \<and> had = path_exists (bf_dest f) m0)
        (bind_io (stage_files hook (Suc i) (bf_dest f # seen) fs) (\<lambda>es. ret (\<lparr>had_original = had, relative_path = bf_path f\<rparr> # es)))
        (\<lambda>es m. staging m0 (?D \<union> set fs) m \<and> es = map (entry_for m0) (f # fs)) ?E" for had
    proof (rule spec_fact [where F = "had = path_exists (bf_dest f) m0"])
      assume had: "had = path_exists (bf_dest f) m0"
      have "io_spec (staging m0 ?D) (stage_files hook (Suc i) (bf_dest f # seen) fs)
          (\<lambda>es m. staging m0 (?D \<union> set fs) m \<and> es = map (entry_for m0) fs) ?E"
        using Cons.prems by (intro Cons.IH) auto
      from spec_pre [OF this, of "\<lambda>m. staging m0 ?D m \<and> had = path_exists (bf_dest f) m0"] show ?thesis
        by (rule spec_bind) (auto intro!: spec_ret simp: had entry_for_def)
    qed simp
    have hook: "io_spec (staging m0 D) (hook (StageFile i)) (\<lambda>_. staging m0 D) ?E"
      using assms(1) staging_closed by (intro spec_leaves_E)
    from spec_seq [OF hook spec_seq [OF stage spec_bind [OF ask rest]]] False
    show ?thesis by (simp add: bf_dest_def Let_def)
  qed
qed

section \<open>From the journal to the new generation\<close>

definition pending :: "(path \<Rightarrow> string option) \<Rightarrow> fs \<Rightarrow> journal_entry \<Rightarrow> bool" where
  "pending new m e \<longleftrightarrow>
     look m (backup_path (entry_dest e)) = None
     \<and> look m (staged_path (entry_dest e)) = Some (File (the (new (entry_dest e))))"

definition placed :: "(path \<Rightarrow> string option) \<Rightarrow> fs \<Rightarrow> journal_entry \<Rightarrow> bool" where
  "placed new m e \<longleftrightarrow> look m (entry_dest e) = Some (File (the (new (entry_dest e))))"

definition progress ::
  "journal_entry list \<Rightarrow> (path \<Rightarrow> string option) \<Rightarrow> (path \<Rightarrow> string option) \<Rightarrow> journal_entry set \<Rightarrow> fs \<Rightarrow> bool" where
  "progress es orig new D m \<longleftrightarrow>
     tx_open es orig m \<and> (\<forall>e\<in>set es - D. pending new m e) \<and> (\<forall>e\<in>D. placed new m e)"

lemma opened:
  assumes g: "good_files m0 files" and s: "staging m0 (set files) m"
    and m': "wf_fs m'" "look m' = (look m)(transaction_root @ [JOURNAL_TMP] := None,
      journal_path \<mapsto> File (journal_text (map (entry_for m0) files)))"
  shows "progress (map (entry_for m0) files) (file_in m0) (new_content m0 files) {} m'"
proof -
  have j: "transaction_root @ [JOURNAL_TMP] \<noteq> staged_path p" "transaction_root @ [JOURNAL_TMP] \<noteq> backup_path p" for p
    using names_differ by (auto simp: tx_path_defs)
  have same: "look m' p = look m p" if "p \<noteq> journal_path" "p \<noteq> transaction_root @ [JOURNAL_TMP]" for p
    using that m'(2) by simp
  have user: "look m' p = look m0 p" if "user_path p" for p
  proof -
    have "p \<noteq> transaction_root @ [JOURNAL_TMP]" using that by (rule user_path_tx)
    with that s same [of p] show ?thesis by (simp add: staging_def)
  qed
  have new: "new_content m0 files (bf_dest f) = Some (content_of m0 f)" if "f \<in> set files" for f
    using that g by (auto simp: new_content_def good_files_def map_of_eq_Some_iff comp_def)
  have "entry_ok (file_in m0) m' (entry_for m0 f) \<and> pending (new_content m0 files) m' (entry_for m0 f)"
    if f: "f \<in> set files" for f
  proof -
    have u: "user_path (bf_dest f)" and nd: "look m0 (bf_dest f) \<noteq> Some Dir"
      using g f by (auto simp: good_files_def apart_def)
    have b: "look m' (backup_path (bf_dest f)) = None"
      "look m' (staged_path (bf_dest f)) = Some (File (content_of m0 f))"
      using same [of "backup_path (bf_dest f)"] same [of "staged_path (bf_dest f)"] j [symmetric] s f user_path_ne [OF u]
      by (simp_all add: staging_def)
    have "look m' (butlast (bf_dest f)) = Some Dir" if "path_exists (bf_dest f) m0"
      using m'(1) user [OF u] that by (auto simp: wf_fs_def path_exists_def)
    then show ?thesis
      using b new [OF f] user [OF u] nd
      by (auto simp: entry_ok_def pending_def Let_def file_in_def path_exists_def split: node.splits)
  qed
  moreover have "file_in m' p = file_in m0 p" if "user_path p" for p using user [OF that] by (simp add: file_in_def)
  ultimately show ?thesis
    using m' by (auto simp: progress_def tx_open_def)
qed

lemma write_journal_spec:
  assumes g: "good_files m0 files"
  defines "es \<equiv> map (entry_for m0) files"
  shows "io_spec (staging m0 (set files)) (write_journal \<lparr>jn_phase = Prepared, jn_entries = es\<rparr>)
     (\<lambda>_. progress es (file_in m0) (new_content m0 files) {}) (tx_closed (file_in m0))"
proof -
  let ?S = "staging m0 (set files)" and ?E = "tx_closed (file_in m0)" and ?tmp = "transaction_root @ [JOURNAL_TMP]"
  let ?T = "\<lambda>m. ?S m \<and> look m ?tmp = Some (File (journal_text es))"
  have valid: "\<forall>e\<in>set es. utf8_valid (relative_path e)"
    using g by (auto simp: es_def good_files_def validate_OK)
  then have all: "takeWhile (\<lambda>e. utf8_valid (relative_path e)) es = es"
    by (simp add: takeWhile_eq_all_conv)
  have tmp: "?tmp \<noteq> journal_path" "?tmp \<noteq> staged_path p" "?tmp \<noteq> backup_path p" for p
    using names_differ by (auto simp: tx_path_defs)
  have put: "?S m'" if "?S m" "wf_fs m'" "look m' = (look m)(?tmp \<mapsto> n)" for m m' n
    using that(1,2) tmp tmp [symmetric] user_path_tx(1) [of _ "[JOURNAL_TMP]"] by (auto simp: staging_def that(3))
  have mk: "io_spec ?S (create_dir_all transaction_root) (\<lambda>_. ?S) ?E"
    using staging_dirs(4) staging_closed staging_wf by (intro spec_create_dir_all) blast+
  have wr: "io_spec ?S (write_file ?tmp (journal_text es)) (\<lambda>_. ?T) ?E"
  proof (rule spec_write_file)
    fix m m' s' assume m: "?S m" "wf_fs m'" "look m' = (look m)(?tmp \<mapsto> File s')"
    show "?E m' \<and> (s' = journal_text es \<longrightarrow> ?T m')"
      using put [OF m] staging_closed [OF put [OF m]] m(3) by simp
  qed (use staging_closed staging_wf in auto)
  have sy: "io_spec ?T (sync_file ?tmp) (\<lambda>_. ?T) ?E"
    using staging_closed by (intro spec_sync_file) auto
  have mv: "io_spec ?T (rename ?tmp journal_path) (\<lambda>_. progress es (file_in m0) (new_content m0 files) {}) ?E"
  proof (rule spec_rename)
    fix m m' s assume m: "?T m" "look m ?tmp = Some (File s)" "wf_fs m'" "look m' = (look m)(?tmp := None, journal_path \<mapsto> File s)"
    then show "progress es (file_in m0) (new_content m0 files) {} m'"
      using opened [OF g, of m m'] by (simp add: es_def)
  qed (use tmp staging_closed staging_wf in auto)
  have ask: "io_spec ?S (asks transaction_exists) (\<lambda>ex m. ?S m \<and> ex = False) ?E"
    by (rule spec_asks) (simp add: staging_def transaction_exists_def path_exists_def)
  show ?thesis
    unfolding write_journal_def journal.simps Let_def all
  proof (rule spec_bind [OF ask])
    fix ex show "io_spec (\<lambda>m. ?S m \<and> ex = False)
        (if Prepared \<noteq> Prepared \<or> ex then throw InvalidInput
         else seq (create_dir_all transaction_root) (seq (write_file ?tmp (journal_text es))
           (if length es < length es then throw InvalidInput else seq (sync_file ?tmp) (rename ?tmp journal_path))))
        (\<lambda>_. progress es (file_in m0) (new_content m0 files) {}) ?E"
    proof (rule spec_fact)
      assume "ex = False"
      then show ?thesis using spec_seq [OF mk spec_seq [OF wr spec_seq [OF sy mv]]] by (auto elim: spec_conseq)
    qed simp
  qed
qed

lemma prepare_spec:
  assumes "good_files m0 files" "\<And>b. leaves_volume (hook b)"
  shows "io_spec (staging m0 {}) (prepare hook files)
     (\<lambda>_. progress (map (entry_for m0) files) (file_in m0) (new_content m0 files) {}) (tx_closed (file_in m0))"
  unfolding prepare_def
proof (rule spec_bind)
  show "io_spec (staging m0 {}) (stage_files hook 0 [] files)
      (\<lambda>es m. staging m0 ({} \<union> set files) m \<and> es = map (entry_for m0) files) (tx_closed (file_in m0))"
    using assms by (intro stage_files_spec) (auto simp: good_files_def apart_def)
  fix es
  show "io_spec (\<lambda>m. staging m0 ({} \<union> set files) m \<and> es = map (entry_for m0) files)
      (seq (hook WritePreparedJournal) (write_journal \<lparr>jn_phase = Prepared, jn_entries = es\<rparr>))
      (\<lambda>_. progress (map (entry_for m0) files) (file_in m0) (new_content m0 files) {}) (tx_closed (file_in m0))"
  proof (rule spec_fact)
    assume es: "es = map (entry_for m0) files"
    have "io_spec (staging m0 (set files)) (hook WritePreparedJournal) (\<lambda>_. staging m0 (set files)) (tx_closed (file_in m0))"
      using assms(2) staging_closed by (intro spec_leaves_E)
    from spec_seq [OF this write_journal_spec [OF assms(1)]] show ?thesis
      unfolding es by (rule spec_pre) simp
  qed simp
qed

section \<open>Activating\<close>

lemma progress_facts:
  "progress es orig new D m \<Longrightarrow> tx_open es orig m" "progress es orig new D m \<Longrightarrow> wf_fs m"
  "progress es orig new D m \<Longrightarrow> e \<in> set es \<Longrightarrow> entry_ok orig m e"
  by (auto simp: progress_def tx_open_def)

lemma progress_framed:
  assumes "progress es orig new D m" "good_bundle es" "framed es m m'" "D \<subseteq> set es"
  shows "progress es orig new D m'"
  using assms framed_open [OF assms(3)] framed_look [OF assms(3)] good_bundleD(2)
  by (auto simp: progress_def pending_def placed_def)

text \<open>While entry \<open>e\<close> moves, the others stay pending or placed.\<close>

definition others ::
  "journal_entry list \<Rightarrow> (path \<Rightarrow> string option) \<Rightarrow> journal_entry set \<Rightarrow> journal_entry \<Rightarrow> fs \<Rightarrow> bool" where
  "others es new D e m \<longleftrightarrow> (\<forall>e'\<in>set es - insert e D. pending new m e') \<and> (\<forall>e'\<in>D. placed new m e')"

lemma others_touched:
  assumes "others es new D e m" "good_bundle es" "e \<in> set es" "D \<subseteq> set es" "e \<notin> D" "touched e m m'"
  shows "others es new D e m'"
proof -
  have same: "look m' p = look m p"
    if "e' \<in> set es" "e' \<noteq> e" "p \<in> {entry_dest e', staged_path (entry_dest e'), backup_path (entry_dest e')}" for e' p
    using assms(6) that good_bundleD(3,4) [OF assms(2)] assms(3) by (auto simp: touched_def)
  have "pending new m' e'" if "e' \<in> set es" "e' \<noteq> e" "pending new m e'" for e'
    using that same [OF that(1,2)] by (simp add: pending_def)
  moreover have "placed new m' e'" if "e' \<in> set es" "e' \<noteq> e" "placed new m e'" for e'
    using that same [OF that(1,2)] by (simp add: placed_def)
  ultimately show ?thesis using assms(1,4,5) unfolding others_def by blast
qed

lemma others_framed:
  assumes "others es new D e m" "framed es m m'" "D \<subseteq> set es"
  shows "others es new D e m'"
  using assms(1,3) framed_look [OF assms(2)] by (auto simp: others_def pending_def placed_def subset_iff)

text \<open>Between the two renames of \<open>e\<close>.\<close>

definition moving ::
  "journal_entry list \<Rightarrow> (path \<Rightarrow> string option) \<Rightarrow> (path \<Rightarrow> string option) \<Rightarrow> journal_entry set \<Rightarrow> journal_entry \<Rightarrow> fs \<Rightarrow> bool" where
  "moving es orig new D e m \<longleftrightarrow> tx_open es orig m \<and> others es new D e m
     \<and> look m (staged_path (entry_dest e)) = Some (File (the (new (entry_dest e))))
     \<and> (had_original e \<longrightarrow> look m (backup_path (entry_dest e)) \<noteq> None)"

lemma to_backup:
  assumes p: "progress es orig new D m" and g: "good_bundle es" "e \<in> set es" "D \<subseteq> set es" "e \<notin> D"
    and "had_original e" "look m (entry_dest e) = Some (File s)" "wf_fs m'"
    and m': "look m' = (look m)(entry_dest e := None, backup_path (entry_dest e) \<mapsto> File s)"
  shows "moving es orig new D e m'"
proof -
  let ?d = "entry_dest e"
  note u = good_bundleD(3) [OF g(1,2)]
  have t: "touched e m m'" using assms(8) by (simp add: touched_def m')
  have e: "entry_ok orig m e" "pending new m e" "others es new D e m"
    using p g by (auto simp: progress_def tx_open_def others_def)
  have "look m' (butlast ?d) = look m (butlast ?d)" by (rule touched_parent [OF t g(1,2,2)])
  then have "entry_ok orig m' e"
    using e(1,2) assms(6,7) u by (auto simp: entry_ok_def pending_def Let_def file_in_def m')
  then have "tx_open es orig m'" by (rule touched_open [OF progress_facts(1) [OF p] g(1,2) t])
  moreover have "look m' (staged_path ?d) = look m (staged_path ?d)" using u by (simp add: m')
  ultimately show ?thesis
    using others_touched [OF e(3) g t] e(2) by (auto simp: moving_def pending_def m')
qed

lemma to_dest:
  assumes mv: "moving es orig new D e m" and g: "good_bundle es" "e \<in> set es" "D \<subseteq> set es" "e \<notin> D"
    and "look m (staged_path (entry_dest e)) = Some (File s)" "wf_fs m'"
    and m': "look m' = (look m)(staged_path (entry_dest e) := None, entry_dest e \<mapsto> File s)"
  shows "progress es orig new (insert e D) m'"
proof -
  let ?d = "entry_dest e"
  note u = good_bundleD(3) [OF g(1,2)]
  have t: "touched e m m'" using assms(7) by (simp add: touched_def m')
  have e: "entry_ok orig m e" "others es new D e m" "tx_open es orig m"
    using mv g by (auto simp: moving_def tx_open_def)
  have "look m' (butlast ?d) = look m (butlast ?d)" by (rule touched_parent [OF t g(1,2,2)])
  then have "entry_ok orig m' e"
    using e(1) mv u by (auto simp: entry_ok_def moving_def Let_def file_in_def m')
  then have "tx_open es orig m'" by (rule touched_open [OF e(3) g(1,2) t])
  moreover have "placed new m' e" using mv assms(6) by (simp add: placed_def moving_def m')
  ultimately show ?thesis
    using others_touched [OF e(2) g t] unfolding progress_def others_def by blast
qed

lemma activate_entry_spec:
  assumes g: "good_bundle es" "e \<in> set es" "D \<subseteq> set es" "e \<notin> D" and hook: "\<And>b. leaves_volume (hook b)"
  shows "io_spec (progress es orig new D) (activate_entry hook (i, e)) (\<lambda>_. progress es orig new (insert e D)) (tx_open es orig)"
proof -
  let ?d = "entry_dest e" and ?P = "progress es orig new D" and ?M = "moving es orig new D e" and ?E = "tx_open es orig"
  note u = good_bundleD(3) [OF g(1,2)]
  have hP: "io_spec ?P (hook b) (\<lambda>_. ?P) ?E" for b
    using hook progress_facts(1) by (intro spec_leaves_E)
  have hM: "io_spec ?M (hook b) (\<lambda>_. ?M) ?E" for b
    using hook by (intro spec_leaves_E) (auto simp: moving_def)
  have pb: "io_spec ?P (ensure_parent (backup_path ?d)) (\<lambda>_. ?P) ?E"
    unfolding ensure_parent_def if_not_P [OF path_simps(15)]
  proof (rule spec_create_dir_all)
    fix m m' assume m: "?P m" "grown (butlast (backup_path ?d)) m m'"
    have "framed es m m'" using grown_framed [OF m(2)] spared(2) [OF good_bundleD(2) [OF g(1)] g(2)] by blast
    from progress_framed [OF m(1) g(1) this g(3)] show "?P m'" "?E m'" by (auto dest: progress_facts(1))
  qed (rule progress_facts(2))
  have pd: "io_spec ?M (ensure_parent ?d) (\<lambda>_. ?M) ?E"
    unfolding ensure_parent_def if_not_P [OF user_path_ne [OF u]]
  proof (rule spec_create_dir_all)
    fix m m' assume m: "?M m" "grown (butlast ?d) m m'"
    have f: "framed es m m'" using grown_framed [OF m(2)] spared(1) [OF good_bundleD(2) [OF g(1)] g(2)] by blast
    from framed_open [OF f] others_framed [OF _ f g(3)] framed_look [OF f g(2)] m(1) good_bundleD(2) [OF g(1)]
    show "?M m'" "?E m'" by (auto simp: moving_def)
  qed (auto simp: moving_def tx_open_def)
  have rb: "io_spec ?P (rename ?d (backup_path ?d)) (\<lambda>_. ?M) ?E" if "had_original e"
  proof (rule spec_rename)
    fix m m' s assume "?P m" "look m ?d = Some (File s)" "wf_fs m'" "look m' = (look m)(?d := None, backup_path ?d \<mapsto> File s)"
    then show "?M m'" using to_backup [OF _ g that] by blast
  next
    fix m assume "?P m"
    with progress_facts [OF this] g(2) show "wf_fs m \<and> look m ?d \<noteq> Some Dir \<and> ?E m" by (auto simp: entry_ok_def Let_def)
  qed (use u in simp)
  have rd: "io_spec ?M (rename (staged_path ?d) ?d) (\<lambda>_. progress es orig new (insert e D)) ?E"
  proof (rule spec_rename)
    fix m m' s assume "?M m" "look m (staged_path ?d) = Some (File s)" "wf_fs m'" "look m' = (look m)(staged_path ?d := None, ?d \<mapsto> File s)"
    then show "progress es orig new (insert e D) m'" using to_dest [OF _ g] by blast
  next
    fix m assume "?M m"
    then show "wf_fs m \<and> look m (staged_path ?d) \<noteq> Some Dir \<and> ?E m" by (auto simp: moving_def tx_open_def)
  qed (use u in simp)
  have skip: "io_spec ?P (ret ()) (\<lambda>_. ?M) ?E" if "\<not> had_original e"
    using that g by (intro spec_ret) (auto simp: progress_def moving_def others_def pending_def)
  have "io_spec ?P (if had_original e then seq (hook (BackupFile i)) (seq (ensure_parent (backup_path ?d)) (rename ?d (backup_path ?d)))
      else ret ()) (\<lambda>_. ?M) ?E"
    using spec_seq [OF hP spec_seq [OF pb rb]] by (cases "had_original e") (simp_all add: skip)
  from spec_seq [OF this spec_seq [OF hM spec_seq [OF pd rd]]] show ?thesis
    unfolding activate_entry_def Let_def prod.case entry_dest_def .
qed

lemma spared_marker: "transaction_root @ [x] \<notin> {journal_path} \<Longrightarrow> x \<notin> {STAGE_DIR, BACKUP_DIR} \<Longrightarrow> good_bundle es \<Longrightarrow>
  transaction_root @ [x] \<notin> watched es"
  using good_bundleD(3) [of es] user_path_tx(2) [of _ "[x]"]
  by (auto simp: watched_def staged_path_def backup_path_def)

lemma write_marker_spec:
  assumes g: "good_bundle es" and x: "x \<in> {FILES_ACTIVE_MARKER, FIRMWARE_WRITTEN_MARKER}"
  shows "io_spec (progress es orig new (set es)) (write_synced (transaction_root @ [x]) s)
     (\<lambda>_ m. progress es orig new (set es) m \<and> look m (transaction_root @ [x]) \<noteq> None) (tx_open es orig)"
proof -
  let ?P = "progress es orig new (set es)" and ?E = "tx_open es orig" and ?p = "transaction_root @ [x]"
  have w: "?p \<notin> watched es"
    using x names_differ by (intro spared_marker [OF _ _ g]) (auto simp: journal_path_def)
  have mk: "io_spec ?P (ensure_parent ?p) (\<lambda>_. ?P) ?E"
    unfolding ensure_parent_def
  proof (simp, rule spec_create_dir_all)
    fix m m' assume m: "?P m" "grown transaction_root m m'"
    have "framed es m m'" using grown_framed [OF m(2)] spared(3) [OF good_bundleD(2) [OF g]] g
      by (metis good_bundleD(1) good_entries_def last_in_set)
    from progress_framed [OF m(1) g this] show "?P m'" "?E m'" by (auto dest: progress_facts(1))
  qed (rule progress_facts(2))
  have wr: "io_spec ?P (write_file ?p s) (\<lambda>_ m. ?P m \<and> look m ?p \<noteq> None) ?E"
  proof (rule spec_write_file)
    fix m m' s' assume m: "?P m" "wf_fs m'" "look m' = (look m)(?p \<mapsto> File s')"
    have "framed es m m'" using m(2,3) w user_path_tx(1) [of _ "[x]"] by (auto simp: framed_def)
    from progress_framed [OF m(1) g this] m(3) show "?E m' \<and> (s' = s \<longrightarrow> ?P m' \<and> look m' ?p \<noteq> None)"
      by (auto dest: progress_facts(1))
  qed (use progress_facts in blast)
  have sy: "io_spec (\<lambda>m. ?P m \<and> look m ?p \<noteq> None) (sync_file ?p) (\<lambda>_ m. ?P m \<and> look m ?p \<noteq> None) ?E"
    using progress_facts(1) by (intro spec_sync_file) blast
  from spec_seq [OF mk spec_seq [OF wr sy]] show ?thesis by (simp add: write_synced_def)
qed

text \<open>Every file in place and the firmware marker written.\<close>

definition installed ::
  "journal_entry list \<Rightarrow> (path \<Rightarrow> string option) \<Rightarrow> (path \<Rightarrow> string option) \<Rightarrow> fs \<Rightarrow> bool" where
  "installed es orig new m \<longleftrightarrow>
     progress es orig new (set es) m \<and> look m (transaction_root @ [FIRMWARE_WRITTEN_MARKER]) \<noteq> None"

lemma operate_spec:
  assumes g: "good_bundle es"
    and c: "\<And>b. leaves_volume (hook b)" "leaves_volume fw" "leaves_volume sel"
  shows "io_spec (progress es orig new {}) (operate hook fw sel) (\<lambda>_. installed es orig new) (tx_open es orig)"
proof -
  let ?E = "tx_open es orig" and ?P = "progress es orig new (set es)" and ?I = "installed es orig new"
  have dist: "distinct es" using good_bundleD(1) [OF g] by (auto simp: good_entries_def distinct_map)
  have read: "io_spec (progress es orig new {}) read_journal
      (\<lambda>j m. progress es orig new {} m \<and> j = \<lparr>jn_phase = marked_phase m, jn_entries = es\<rparr>) ?E"
    using read_journal_sure [OF good_bundleD(1) [OF g], of "progress es orig new {}" ?E] progress_facts(1)
    by (auto simp: io_sure_def tx_open_def)
  have loop: "io_spec (progress es orig new {}) (for_each (activate_entry hook) (enumerate 0 es)) (\<lambda>_. ?P) ?E"
  proof -
    have "io_spec (progress es orig new (set (map snd done))) (activate_entry hook x)
        (\<lambda>_. progress es orig new (set (map snd (done @ [x])))) ?E"
      if e: "enumerate 0 es = done @ x # rest" for "done" x rest
    proof -
      have "es = map snd done @ snd x # map snd rest"
        using arg_cong [OF e, of "map snd"] by (simp add: map_snd_enumerate)
      moreover from this dist have "distinct (map snd done @ snd x # map snd rest)" by metis
      ultimately have "snd x \<in> set es" "set (map snd done) \<subseteq> set es" "snd x \<notin> set (map snd done)"
        by (simp, simp, auto)
      from activate_entry_spec [OF g this c(1), where orig = orig and new = new and i = "fst x"] show ?thesis
        by simp
    qed
    from spec_for_each [where xs = "enumerate 0 es" and I = "\<lambda>d. progress es orig new (set (map snd d))", OF this]
    show ?thesis by (simp add: map_snd_enumerate del: set_map)
  qed
  have hP: "io_spec ?P (hook b) (\<lambda>_. ?P) ?E" "io_spec ?P fw (\<lambda>_. ?P) ?E" for b
    using c progress_facts(1) by (blast intro: spec_leaves_E)+
  have hI: "io_spec ?I (hook b) (\<lambda>_. ?I) ?E" "io_spec ?I sel (\<lambda>_. ?I) ?E" for b
    using c progress_facts(1) unfolding installed_def by (blast intro: spec_leaves_E)+
  have w1: "io_spec ?P (write_phase FilesActive) (\<lambda>_. ?P) ?E"
    unfolding write_phase_def phase.case by (rule spec_conseq [OF write_marker_spec [OF g, of FILES_ACTIVE_MARKER orig new]]) simp_all
  have w2: "io_spec ?P (write_phase FirmwareWritten) (\<lambda>_. ?I) ?E"
    unfolding installed_def using write_marker_spec [OF g, of FIRMWARE_WRITTEN_MARKER] by (simp add: write_phase_def)
  note rest = spec_seq [OF loop spec_seq [OF hP(1) spec_seq [OF w1 spec_seq [OF hP(1) spec_seq [OF hP(2)
      spec_seq [OF hP(1) spec_seq [OF w2 spec_seq [OF hI]]]]]]]]
  show ?thesis
    unfolding operate_def
  proof (rule spec_bind [OF read])
    fix j show "io_spec (\<lambda>m. progress es orig new {} m \<and> j = \<lparr>jn_phase = marked_phase m, jn_entries = es\<rparr>)
       (seq (for_each (activate_entry hook) (enumerate 0 (jn_entries j)))
         (seq (hook WriteFilesActiveJournal) (seq (write_phase FilesActive) (seq (hook WriteFirmware) (seq fw
         (seq (hook WriteFirmwareJournal) (seq (write_phase FirmwareWritten) (seq (hook SelectBootPartition) sel))))))))
       (\<lambda>_. ?I) ?E"
    proof (rule spec_fact)
      assume "jn_entries j = es"
      then show ?thesis by (simp only:) (rule spec_pre [OF rest], simp)
    qed simp
  qed
qed

section \<open>The whole installation\<close>

lemma closed_shrunk:
  assumes "tx_closed orig m" "shrunk transaction_root m m'"
  shows "tx_closed orig m'"
proof -
  have "look m' p = look m p" if "user_path p" for p
    using assms(2) that user_path_prefix [of transaction_root p] by (auto simp: shrunk_def)
  moreover have "look m' journal_path = None" using assms by (metis shrunk_def tx_closed_def)
  ultimately show ?thesis using assms by (simp add: tx_closed_def shrunk_def file_in_def)
qed

lemma removed_shrunk:
  "wf_fs m' \<Longrightarrow> look m' = (\<lambda>q. if prefix p q then None else look m q) \<Longrightarrow> shrunk p m m'"
  by (simp add: shrunk_def)

lemma remove_tx_closed:
  "io_spec (tx_closed orig) (remove_dir_all transaction_root) (\<lambda>_. tx_closed orig) (tx_closed orig)"
proof (rule spec_remove_dir_all)
  show "tx_closed orig m \<Longrightarrow> wf_fs m" for m by (simp add: tx_closed_def)
  show "transaction_root \<noteq> []" by simp
  show "tx_closed orig m'" if "tx_closed orig m" "wf_fs m'"
    "look m' = (\<lambda>q. if prefix transaction_root q then None else look m q)" for m m'
    by (rule closed_shrunk [OF that(1) removed_shrunk [OF that(2,3)]])
  show "tx_closed orig m \<Longrightarrow> shrunk transaction_root m m' \<Longrightarrow> tx_closed orig m'" for m m'
    by (rule closed_shrunk)
qed

lemma clean_start:
  assumes "wf_fs m0" "look m0 journal_path = None" "wf_fs m'"
    and "look m' = (\<lambda>q. if prefix transaction_root q then None else look m0 q)"
  shows "staging m0 {} m'"
proof -
  have look: "look m' q = (if prefix transaction_root q then None else look m0 q)" for q
    by (simp only: assms(4))
  have "look m' p = look m0 p" if "user_path p" for p
    using user_path_prefix [of transaction_root p] that look [of p] by auto
  moreover have "look m' journal_path = None"
    using look [of journal_path] by (simp add: journal_path_def)
  moreover have "look m' (backup_path p) = None" for p
    using look [of "backup_path p"] by (simp add: backup_path_def)
  ultimately show ?thesis using assms(3) unfolding staging_def by blast
qed

lemma clear_spec:
  assumes "wf_fs m0" "look m0 journal_path = None"
  shows "io_spec (\<lambda>m. m = m0)
     (bind_io (asks (path_exists transaction_root)) (\<lambda>x. if x then remove_dir_all transaction_root else ret ()))
     (\<lambda>_. staging m0 {}) (tx_closed (file_in m0))"
proof (rule spec_bind)
  have closed: "tx_closed (file_in m0) m0" using assms by (simp add: tx_closed_def)
  show "io_spec (\<lambda>m. m = m0) (asks (path_exists transaction_root))
      (\<lambda>x m. m = m0 \<and> x = path_exists transaction_root m0) (tx_closed (file_in m0))"
    by (rule spec_asks) simp
  fix x
  show "io_spec (\<lambda>m. m = m0 \<and> x = path_exists transaction_root m0)
      (if x then remove_dir_all transaction_root else ret ()) (\<lambda>_. staging m0 {}) (tx_closed (file_in m0))"
  proof (cases x)
    case True
    then show ?thesis
      using clean_start [OF assms] closed_shrunk [OF closed] assms(1)
      by (auto intro!: spec_remove_dir_all simp: transaction_root_def)
  next
    case False
    have "look m0 q = None" if "\<not> path_exists transaction_root m0" "prefix transaction_root q" for q
    proof (rule ccontr)
      assume "look m0 q \<noteq> None"
      with that wf_strict_prefix [OF assms(1) this, of transaction_root] show False
        by (cases "q = transaction_root") (auto simp: path_exists_def strict_prefix_def)
    qed
    then have "look m0 = (\<lambda>q. if prefix transaction_root q then None else look m0 q)" if "\<not> path_exists transaction_root m0"
      using that by auto
    with False clean_start [OF assms assms(1)] show ?thesis by (auto intro!: spec_ret)
  qed
qed

lemma install_spec:
  assumes "wf_fs m0" "look m0 journal_path = None" "good_files m0 files"
    and c: "\<And>b. leaves_volume (hook b)" "leaves_volume fw" "leaves_volume sel"
  defines "es \<equiv> map (entry_for m0) files"
  shows "io_spec (\<lambda>m. m = m0) (install hook fw sel files)
     (\<lambda>_. installed es (file_in m0) (new_content m0 files)) (tx_safe es (file_in m0))"
proof -
  let ?o = "file_in m0" and ?E = "tx_safe es (file_in m0)" and ?S = "staging m0 {}"
  have g: "good_bundle es" using good_files_bundle [OF assms(3)] by (simp add: es_def)
  have sS: "?S m \<Longrightarrow> ?E m" for m using staging_closed by (auto simp: tx_safe_def)
  have ask: "io_spec (\<lambda>m. m = m0) (asks transaction_exists) (\<lambda>ex m. m = m0 \<and> ex = False) ?E"
    using assms(2) by (intro spec_asks) (simp add: transaction_exists_def path_exists_def)
  have clear: "io_spec (\<lambda>m. m = m0)
     (bind_io (asks (path_exists transaction_root)) (\<lambda>x. if x then remove_dir_all transaction_root else ret ()))
     (\<lambda>_. ?S) ?E"
    by (rule spec_conseq [OF clear_spec [OF assms(1,2)]]) (simp_all add: tx_safe_def)
  have mk: "io_spec ?S (create_dir_all (transaction_root @ [STAGE_DIR])) (\<lambda>_. ?S) ?E"
    "io_spec ?S (create_dir_all (transaction_root @ [BACKUP_DIR])) (\<lambda>_. ?S) ?E"
    using staging_dirs(2,3) sS staging_wf by (blast intro: spec_create_dir_all)+
  have prep: "io_spec ?S (handle (prepare hook files)
        (\<lambda>e. seq (handle (remove_dir_all transaction_root) (\<lambda>_. ret ())) (throw e)))
      (\<lambda>_. progress es ?o (new_content m0 files) {}) ?E"
  proof (rule spec_handle)
    show "io_spec ?S (prepare hook files) (\<lambda>_. progress es ?o (new_content m0 files) {}) (tx_closed ?o)"
      using prepare_spec [OF assms(3) c(1)] by (simp add: es_def)
    have "io_spec (tx_closed ?o) (handle (remove_dir_all transaction_root) (\<lambda>_. ret ())) (\<lambda>_. tx_closed ?o) (tx_closed ?o)"
      by (rule spec_handle [OF remove_tx_closed spec_ret])
    then have "io_spec (tx_closed ?o) (handle (remove_dir_all transaction_root) (\<lambda>_. ret ())) (\<lambda>_. ?E) ?E"
      by (rule spec_conseq) (simp_all add: tx_safe_def)
    then show "io_spec (tx_closed ?o) (seq (handle (remove_dir_all transaction_root) (\<lambda>_. ret ())) (throw e))
        (\<lambda>_. progress es ?o (new_content m0 files) {}) ?E" for e
      by (rule spec_seq) (rule spec_throw)
  qed (simp add: tx_safe_def)
  have op: "io_spec (progress es ?o (new_content m0 files) {})
      (handle (operate hook fw sel) (\<lambda>e. seq (handle rollback (\<lambda>_. throw Other)) (throw e)))
      (\<lambda>_. installed es ?o (new_content m0 files)) ?E"
  proof (rule spec_handle [OF operate_spec [OF g c]])
    have rb: "io_spec ?E rollback (\<lambda>_. ?E) ?E"
      by (rule spec_conseq [OF conjunct1 [OF rollback_sure [OF g, of ?o, unfolded io_sure_def]]]) (simp_all add: tx_safe_def)
    have "io_spec ?E (handle rollback (\<lambda>_. throw Other)) (\<lambda>_. ?E) ?E"
      by (rule spec_handle [OF rb spec_throw])
    then have "io_spec ?E (seq (handle rollback (\<lambda>_. throw Other)) (throw e)) (\<lambda>_. installed es ?o (new_content m0 files)) ?E" for e
      by (rule spec_seq) (rule spec_throw)
    then show "io_spec (tx_open es ?o) (seq (handle rollback (\<lambda>_. throw Other)) (throw e))
        (\<lambda>_. installed es ?o (new_content m0 files)) ?E" for e
      by (rule spec_pre) (simp add: tx_safe_def)
  qed (simp add: tx_safe_def)
  show ?thesis
    unfolding install_def
  proof (rule spec_bind [OF ask])
    fix ex show "io_spec (\<lambda>m. m = m0 \<and> ex = False)
       (if ex then throw AlreadyExists
       else
         seq (bind_io (asks (path_exists transaction_root)) (\<lambda>x.
                if x then remove_dir_all transaction_root else ret ()))
         (seq (create_dir_all (transaction_root @ [STAGE_DIR]))
         (seq (create_dir_all (transaction_root @ [BACKUP_DIR]))
         (seq (handle (prepare hook files)
                (\<lambda>e. seq (handle (remove_dir_all transaction_root) (\<lambda>_. ret ())) (throw e)))
              (handle (operate hook fw sel)
                (\<lambda>e. seq (handle rollback (\<lambda>_. throw Other)) (throw e)))))))
       (\<lambda>_. installed es ?o (new_content m0 files)) ?E"
    proof (rule spec_fact)
      assume "ex = False"
      then show ?thesis
        by (simp only: if_False)
           (rule spec_pre [OF spec_seq [OF clear spec_seq [OF mk(1) spec_seq [OF mk(2) spec_seq [OF prep op]]]]], simp)
    qed simp
  qed
qed

lemma installed_safe: "installed es orig new m \<Longrightarrow> tx_safe es orig m"
  by (simp add: installed_def tx_safe_def progress_def)

end
