(* ===== verification/Bundle_Recovery.thy ===== *)
theory Bundle_Recovery
  imports Bundle_Install
begin

text \<open>
  The properties of bundle installations: the journal, crash safety, what a completed installation
  leaves and how it is committed, and the two gaps the proofs exposed (an interrupted commit and an
  empty bundle).
\<close>

section \<open>Decisions at boot\<close>

definition start :: "fs \<Rightarrow> disk" where
  "start m = \<lparr>dk_fs = m, dk_fates = []\<rparr>"

lemma prim_start: "prim act torn (start m) =
   (case act m of Inl e \<Rightarrow> (Err e, start m) | Inr (x, m') \<Rightarrow> (Val x, start m'))"
  by (simp add: prim_def start_def split: sum.split)

lemma read_journal_run:
  assumes "good_entries es" "look m journal_path = Some (File (journal_text es))"
  shows "read_journal (start m) = (Val \<lparr>jn_phase = marked_phase m, jn_entries = es\<rparr>, start m)"
  using assms
  by (simp add: read_journal_def bind_io_def read_file_def prim_start parse_journal_text asks_def ret_def) (simp add: start_def)

lemma recovery_action_run:
  assumes "good_entries es" "tx_open es orig m"
  shows "recovery_action selected valid (start m) =
    (Val (if marked_phase m = FirmwareWritten \<and> selected \<and> valid then Finalize else Rollback), start m)"
proof -
  have j: "look m journal_path = Some (File (journal_text es))" using assms(2) by (simp add: tx_open_def)
  have "asks transaction_exists (start m) = (Val True, start m)"
    using j by (simp add: asks_def start_def transaction_exists_def path_exists_def)
  then show ?thesis
    using read_journal_run [OF assms(1) j] by (simp add: recovery_action_def bind_io_def ret_def)
qed

lemma marked_written: "look m (transaction_root @ [FIRMWARE_WRITTEN_MARKER]) \<noteq> None \<Longrightarrow> marked_phase m = FirmwareWritten"
  by (simp add: marked_phase_def path_exists_def)

lemma open_root: "tx_open es orig m \<Longrightarrow> look m transaction_root = Some Dir"
proof -
  assume o: "tx_open es orig m"
  have "strict_prefix transaction_root journal_path" by (simp add: journal_path_def strict_prefix_def)
  with o wf_strict_prefix [of m journal_path transaction_root] show ?thesis by (auto simp: tx_open_def)
qed

lemma finalize_run:
  assumes "tx_open es orig m"
  shows "finalize (start m) = (Val (), start (del_tree transaction_root m))"
proof -
  have "asks (path_exists transaction_root) (start m) = (Val True, start m)"
    using open_root [OF assms] by (simp add: asks_def start_def path_exists_def)
  then show ?thesis
    using open_root [OF assms] by (simp add: finalize_def bind_io_def remove_dir_all_def prim_start)
qed

lemma installed_contents:
  assumes "installed (map (entry_for m0) files) (file_in m0) (new_content m0 files) m" "good_files m0 files" "user_path p"
  shows "file_in m p = (case new_content m0 files p of Some s \<Rightarrow> Some s | None \<Rightarrow> file_in m0 p)"
proof (cases "p \<in> bf_dest ` set files")
  case True
  then obtain f where f: "f \<in> set files" "p = bf_dest f" by blast
  then have "new_content m0 files p = Some (content_of m0 f)"
    using assms(2) by (auto simp: new_content_def good_files_def map_of_eq_Some_iff comp_def)
  moreover have "placed (new_content m0 files) m (entry_for m0 f)"
    using assms(1) f(1) by (simp add: installed_def progress_def)
  ultimately show ?thesis using f(2) by (simp add: placed_def file_in_def)
next
  case False
  then have "new_content m0 files p = None" by (auto simp: new_content_def map_of_eq_None_iff)
  moreover have "file_in m p = file_in m0 p"
    using assms(1,3) False by (auto simp: installed_def progress_def tx_open_def image_image)
  ultimately show ?thesis by simp
qed

text \<open>Reading a journal only accepts what may be written.\<close>

lemma parse_entries_sound:
  "parse_entries seen ls = Inr es \<Longrightarrow>
   (\<forall>e\<in>set es. validate_relative_path (relative_path e) = Inr () \<and> entry_dest e \<notin> set seen) \<and> distinct (map entry_dest es)"
proof (induction seen ls arbitrary: es rule: parse_entries.induct)
  case (2 seen l ls)
  from "2.prems" obtain ex p es' where l: "split_once TAB l = Some (ex, p)" "validate_relative_path p = Inr ()"
      "dest_path p \<notin> set seen" "parse_entries (dest_path p # seen) ls = Inr es'"
      "es = \<lparr>had_original = (ex = ''1''), relative_path = p\<rparr> # es'" "ex = ''0'' \<or> ex = ''1''"
    by (auto split: option.splits sum.splits if_splits)
  have "(\<forall>e\<in>set es'. validate_relative_path (relative_path e) = Inr () \<and> entry_dest e \<notin> set (dest_path p # seen)) \<and>
      distinct (map entry_dest es')"
    by (rule "2.IH" [OF l(1) refl l(2,3) _ l(4)]) (use l(6) in auto)
  moreover have "entry_dest \<lparr>had_original = (ex = ''1''), relative_path = p\<rparr> = dest_path p"
    by (simp add: entry_dest_def)
  ultimately show ?case using l(2,3,5) by auto
qed simp

lemma parse_journal_sound: "parse_journal s = Inr es \<Longrightarrow> good_entries es"
  using parse_entries_sound [of "[]"]
  by (fastforce simp: parse_journal_def good_entries_def split: if_splits list.splits option.splits sum.splits)

section \<open>A concrete volume\<close>

definition vol0 :: fs where
  "vol0 = [([''a''], File ''old''), ([''d''], Dir), ([''d'', ''x''], File ''other'')]"

definition files0 :: "bundle_file list" where
  "files0 = [\<lparr>bf_path = ''a'', bf_contents = Bytes ''new''\<rparr>, \<lparr>bf_path = ''d/b'', bf_contents = FromFile [''d'', ''x'']\<rparr>]"

abbreviation quiet :: "bundle_file list \<Rightarrow> (unit, unit) io" where
  "quiet \<equiv> install (\<lambda>_. ret ()) (ret ()) (ret ())"

lemma look_vol0: "look vol0 q = (if q = [] \<or> q = [''d''] then Some Dir else if q = [''a''] then Some (File ''old'')
   else if q = [''d'', ''x''] then Some (File ''other'') else None)"
  by (auto simp: look_def vol0_def)

lemma wf_vol0: "wf_fs vol0" "look vol0 journal_path = None"
  by (auto simp: wf_fs_def look_vol0 tx_path_defs JOURNAL_FILE_def split: if_splits)

lemma dest0: "dest_path ''a'' = [''a'']" "dest_path ''d/b'' = [''d'', ''b'']"
  "validate_relative_path ''a'' = Inr ()" "validate_relative_path ''d/b'' = Inr ()"
  by code_simp+

lemma good_files0: "good_files vol0 files0"
  by (auto simp: good_files_def files0_def bf_dest_def dest0 apart_def user_path_def TRANSACTION_DIR_def look_vol0)

lemma leaves_ret [simp]: "leaves_volume (ret x)"
  by (simp add: leaves_volume_def ret_def)

section \<open>Properties\<close>

text \<open>The journal: entries with distinct, checked destinations are read back from the text that is
  written for them, and whatever text is found, the entries read from it have distinct destinations
  that are non-empty, relative and without parent or root components.\<close>

theorem bundle_journal_roundtrip:
  "(good_entries es \<longrightarrow> parse_journal (journal_text es) = Inr es) \<and>
   (parse_journal s = Inr es' \<longrightarrow> distinct (map entry_dest es') \<and>
      (\<forall>e\<in>set es'. relative_path e \<noteq> [] \<and> list_all is_normal (path_components (relative_path e))))"
  using parse_journal_text parse_journal_sound [of s es'] by (auto simp: good_entries_def validate_OK)

theorem bundle_journal_roundtrip_witness:
  "parse_journal (journal_text [\<lparr>had_original = True, relative_path = ''a''\<rparr>, \<lparr>had_original = False, relative_path = ''d/b''\<rparr>]) =
     Inr [\<lparr>had_original = True, relative_path = ''a''\<rparr>, \<lparr>had_original = False, relative_path = ''d/b''\<rparr>]"
  using bundle_journal_roundtrip [of "[\<lparr>had_original = True, relative_path = ''a''\<rparr>, \<lparr>had_original = False, relative_path = ''d/b''\<rparr>]" "[]" "[]"]
  by (simp add: good_entries_def entry_dest_def dest0)



text \<open>C3. Commit: when an installation returns normally, every file of the bundle has its new contents
  and every other user file its old ones; at boot the transaction is committed exactly if the new
  firmware is selected and valid, and committing removes the transaction and nothing else.\<close>

theorem bundle_install_commits:
  assumes "wf_fs m0" "look m0 journal_path = None" "good_files m0 files"
    and "\<And>b. leaves_volume (hook b)" "leaves_volume write_firmware" "leaves_volume select"
    and "install hook write_firmware select files \<lparr>dk_fs = m0, dk_fates = fates\<rparr> = (Val (), d)"
  shows "(\<forall>p. user_path p \<longrightarrow>
       file_in (dk_fs d) p = (case new_content m0 files p of Some s \<Rightarrow> Some s | None \<Rightarrow> file_in m0 p))
    \<and> fst (recovery_action selected valid (start (dk_fs d))) = Val (if selected \<and> valid then Finalize else Rollback)
    \<and> (\<exists>d'. finalize (start (dk_fs d)) = (Val (), d') \<and> \<not> transaction_exists (dk_fs d') \<and>
         (\<forall>p. user_path p \<longrightarrow> look (dk_fs d') p = look (dk_fs d) p))"
proof -
  let ?es = "map (entry_for m0) files"
  have i: "installed ?es (file_in m0) (new_content m0 files) (dk_fs d)"
    by (rule io_spec_run [OF install_spec [OF assms(1-6)] _ assms(7)]) simp
  then have o: "tx_open ?es (file_in m0) (dk_fs d)" and
    w: "look (dk_fs d) (transaction_root @ [FIRMWARE_WRITTEN_MARKER]) \<noteq> None"
    by (auto simp: installed_def progress_def)
  have g: "good_entries ?es" using good_bundleD(1) [OF good_files_bundle [OF assms(3)]] .
  have look: "look (del_tree transaction_root (dk_fs d)) q = (if prefix transaction_root q then None else look (dk_fs d) q)" for q
    by (simp add: look_del_tree)
  have "\<not> transaction_exists (del_tree transaction_root (dk_fs d))"
    using look [of journal_path] by (simp add: transaction_exists_def path_exists_def journal_path_def)
  moreover have "look (del_tree transaction_root (dk_fs d)) p = look (dk_fs d) p" if "user_path p" for p
    using look [of p] that user_path_prefix [of transaction_root p] by auto
  ultimately have "\<exists>d'. finalize (start (dk_fs d)) = (Val (), d') \<and> \<not> transaction_exists (dk_fs d') \<and>
         (\<forall>p. user_path p \<longrightarrow> look (dk_fs d') p = look (dk_fs d) p)"
    using finalize_run [OF o] by (simp add: start_def)
  then show ?thesis
    using installed_contents [OF i assms(3)] recovery_action_run [OF g o, of selected valid] marked_written [OF w] by simp
qed

lemma quiet_run: "fst (quiet files0 (start vol0)) = Val ()"
  by code_simp

theorem bundle_install_commits_witness:
  "file_in (dk_fs (snd (quiet files0 (start vol0)))) [''a''] = Some ''new'' \<and>
   file_in (dk_fs (snd (quiet files0 (start vol0)))) [''d'', ''b''] = Some ''other'' \<and>
   fst (recovery_action True True (start (dk_fs (snd (quiet files0 (start vol0)))))) = Val Finalize"
proof -
  obtain d where d: "quiet files0 (start vol0) = (Val (), d)"
    using quiet_run by (metis prod.collapse)
  have "new_content vol0 files0 [''a''] = Some ''new''" "new_content vol0 files0 [''d'', ''b''] = Some ''other''"
    by (simp_all add: new_content_def files0_def bf_dest_def dest0 content_of_def file_in_def look_vol0)
  moreover have "user_path [''a'']" "user_path [''d'', ''b'']" by (simp_all add: user_path_def TRANSACTION_DIR_def)
  ultimately show ?thesis
    using bundle_install_commits [OF wf_vol0 good_files0 leaves_ret leaves_ret leaves_ret d [unfolded start_def], of True True]
    by (simp add: d)
qed

text \<open>An interrupted commit undoes the installation: if power is lost while \<open>finalize\<close> removes the
  transaction directory, after the \<open>firmware-written\<close> marker and before the journal, then the next
  boot of the confirmed, selected and valid firmware decides to roll back, and the rollback takes the
  user's files back to the old generation.\<close>

theorem bundle_interrupted_commit_rolls_back:
  assumes "good_bundle es" "tx_open es orig m"
    and "look m (transaction_root @ [FIRMWARE_WRITTEN_MARKER]) = Some (File x)"
    and "m' = tree_after finalize [PowerLoss [] [transaction_root @ [FIRMWARE_WRITTEN_MARKER]]] m"
  shows "fst (recovery_action True True (start m)) = Val Finalize
    \<and> fst (recovery_action True True (start m')) = Val Rollback
    \<and> (\<exists>d. rollback (start m') = (Val (), d) \<and> (\<forall>p. user_path p \<longrightarrow> file_in (dk_fs d) p = orig p))"
proof -
  let ?fw = "transaction_root @ [FIRMWARE_WRITTEN_MARKER]"
  note g = good_bundleD(1) [OF assms(1)]
  have wf: "wf_fs m" using assms(2) by (simp add: tx_open_def)
  have "leaf ?fw m" using wf_leaf [OF wf] assms(3) by simp
  then have "m' = del ?fw m"
    using open_root [OF assms(2)]
    by (simp add: assms(4) tree_after_def finalize_def bind_io_def asks_def path_exists_def remove_dir_all_def
        prim_def remove_some_def)
  with del_file [OF wf assms(3)] have m': "wf_fs m'" "look m' = (look m)(?fw := None)" by auto
  have "?fw \<notin> watched es"
    using names_differ by (intro spared_marker [OF _ _ assms(1)]) (auto simp: journal_path_def)
  then have "framed es m m'"
    using m' user_path_tx(1) [of _ "[FIRMWARE_WRITTEN_MARKER]"] by (auto simp: framed_def)
  then have o: "tx_open es orig m'" by (rule framed_open [OF _ assms(2) good_bundleD(2) [OF assms(1)]])
  have "marked_phase m = FirmwareWritten" using assms(3) by (intro marked_written) simp
  moreover have "marked_phase m' \<noteq> FirmwareWritten" by (simp add: marked_phase_def path_exists_def m'(2))
  moreover have "\<exists>d. rollback (start m') = (Val (), d) \<and> (\<forall>p. user_path p \<longrightarrow> file_in (dk_fs d) p = orig p)"
    using bundle_tx.recovers_eventually [of es orig m' "[]"] assms(1) o by (auto simp: start_def tx_safe_def tx_closed_def)
  ultimately show ?thesis
    using recovery_action_run [OF g assms(2)] recovery_action_run [OF g o] by simp
qed

theorem bundle_interrupted_commit_rolls_back_witness:
  "let m = dk_fs (snd (quiet files0 (start vol0)));
       m' = tree_after finalize [PowerLoss [] [transaction_root @ [FIRMWARE_WRITTEN_MARKER]]] m
   in file_in m [''a''] = Some ''new'' \<and> fst (recovery_action True True (start m)) = Val Finalize \<and>
      (\<exists>d. rollback (start m') = (Val (), d) \<and> file_in (dk_fs d) [''a''] = Some ''old'')"
proof -
  let ?es = "map (entry_for vol0) files0"
  obtain d where d: "quiet files0 (start vol0) = (Val (), d)"
    using quiet_run by (metis prod.collapse)
  have "installed ?es (file_in vol0) (new_content vol0 files0) (dk_fs d)"
    by (rule io_spec_run [OF install_spec [OF wf_vol0 good_files0 leaves_ret leaves_ret leaves_ret] _ d]) (simp add: start_def)
  then have o: "tx_open ?es (file_in vol0) (dk_fs d)" by (auto simp: installed_def progress_def)
  have "look (dk_fs (snd (quiet files0 (start vol0)))) (transaction_root @ [FIRMWARE_WRITTEN_MARKER]) = Some (File ''firmware_written'')"
    "file_in (dk_fs (snd (quiet files0 (start vol0)))) [''a''] = Some ''new''"
    by code_simp+
  with bundle_interrupted_commit_rolls_back [OF good_files_bundle [OF good_files0] o _ refl] d show ?thesis
    by (fastforce simp: user_path_def TRANSACTION_DIR_def file_in_def look_vol0)
qed

text \<open>An empty bundle wedges the volume: its installation fails and leaves a journal without entries,
  which no later boot can read, so that the transaction can neither be rolled back nor committed and
  every further installation is refused.\<close>

theorem bundle_empty_wedges:
  "case quiet [] (start []) of (r, d) \<Rightarrow>
     r = Err Other \<and> transaction_exists (dk_fs d) \<and>
     fst (rollback (start (dk_fs d))) = Err InvalidData \<and>
     fst (recovery_action True True (start (dk_fs d))) = Err InvalidData \<and>
     fst (quiet files0 (start (dk_fs d))) = Err AlreadyExists"
  by code_simp

end
