(* ===== verification/Recovery_Auth.thy ===== *)
theory Recovery_Auth
  imports Rust_Str
begin

text \<open>
  The provisioning session of the Recovery OS (\<open>recovery/src/recovery_auth.rs\<close>): a token with an
  expiry time and strictly increasing nonces.
\<close>

datatype auth_failure = Unauthorized | Replay | Expired

record recovery_session =
  rs_token :: string
  rs_expires_at_ms :: u64
  rs_last_nonce :: u64
  rs_active :: bool

definition session_new :: "string \<Rightarrow> u64 \<Rightarrow> u64 \<Rightarrow> recovery_session" where
  "session_new token now_ms ttl_ms =
     \<lparr>rs_token = token, rs_expires_at_ms = sat_add now_ms ttl_ms, rs_last_nonce = 0, rs_active = True\<rparr>"

text \<open>Both lengths and every byte of the expected string go into the difference.\<close>

definition supplied_byte :: "string \<Rightarrow> nat \<Rightarrow> u8" where
  "supplied_byte s i = (if i < length s then of_char (s ! i) else 0)"

definition constant_time_eq :: "string \<Rightarrow> string \<Rightarrow> bool" where
  "constant_time_eq expected supplied =
     (fold (\<lambda>(i, b) difference. difference OR ucast ((of_char b :: u8) XOR supplied_byte supplied i))
        (enumerate 0 expected)
        ((of_nat (length expected) :: usize) XOR of_nat (length supplied)) = 0)"

definition authorize ::
  "recovery_session \<Rightarrow> string option \<Rightarrow> string option \<Rightarrow> u64 \<Rightarrow> (auth_failure + unit) \<times> recovery_session" where
  "authorize s supplied_token supplied_nonce now_ms =
     (if \<not> rs_active s \<or> rs_expires_at_ms s \<le> now_ms
      then (Inl Expired, s\<lparr>rs_active := False, rs_token := []\<rparr>)
      else case supplied_token of
        None \<Rightarrow> (Inl Unauthorized, s)
      | Some token \<Rightarrow>
          if \<not> constant_time_eq (rs_token s) token then (Inl Unauthorized, s)
          else case Option.bind supplied_nonce (parse_uint 10 U64_MAX) of
            None \<Rightarrow> (Inl Unauthorized, s)
          | Some v \<Rightarrow>
              (let nonce = (of_nat v :: u64) in
               if \<not> 0 < nonce then (Inl Unauthorized, s)
               else if nonce \<le> rs_last_nonce s then (Inl Replay, s)
               else (Inr (), s\<lparr>rs_last_nonce := nonce\<rparr>)))"

definition expire :: "recovery_session \<Rightarrow> recovery_session" where
  "expire s = s\<lparr>rs_active := False, rs_token := []\<rparr>"

definition next_nonce :: "recovery_session \<Rightarrow> u64" where
  "next_nonce s = sat_add (rs_last_nonce s) 1"

section \<open>Comparing in constant time\<close>






section \<open>Runs of a session\<close>

datatype auth_op = Authorize "string option" "string option" u64 | Expire

fun auth_step :: "auth_op \<Rightarrow> recovery_session \<Rightarrow> recovery_session" where
  "auth_step (Authorize t n now) s = snd (authorize s t n now)"
| "auth_step Expire s = expire s"

text \<open>The nonces of the requests that were let through, in order.\<close>

fun auth_log :: "recovery_session \<Rightarrow> auth_op list \<Rightarrow> u64 list" where
  "auth_log s [] = []"
| "auth_log s (e # es) =
     (case e of
        Authorize t n now \<Rightarrow> (case authorize s t n now of (Inr _, s') \<Rightarrow> [rs_last_nonce s'] | _ \<Rightarrow> [])
      | Expire \<Rightarrow> [])
     @ auth_log (auth_step e s) es"

text \<open>A session that is over stays over; its token is gone.\<close>

definition session_over :: "recovery_session \<Rightarrow> bool" where
  "session_over s \<longleftrightarrow> \<not> rs_active s \<and> rs_token s = []"

interpretation auth_machine: machine auth_step session_over
proof
  fix s e assume "session_over s"
  then show "session_over (auth_step e s)"
    by (cases e) (auto simp: session_over_def authorize_def expire_def)
qed

lemma over_log: "session_over s \<Longrightarrow> auth_log s es = []"
proof (induction es arbitrary: s)
  case (Cons e es)
  then show ?case
    using auth_machine.inv_step [OF Cons.prems, of e]
    by (auto simp: session_over_def authorize_def split: auth_op.split)
qed simp



section \<open>Properties\<close>


definition session0 :: recovery_session where
  "session0 = session_new ''secret'' 1000 600000"



text \<open>Expiry is final: after a request at or past the expiry time, or an explicit \<open>expire\<close>, no later
  request is authorised, whatever the clock says, and the token is erased.\<close>

theorem auth_expiry_final:
  assumes "rs_expires_at_ms s \<le> now"
  shows "auth_log (snd (authorize s token nonce now)) es = [] \<and> rs_token (snd (authorize s token nonce now)) = []
    \<and> auth_log (expire s) es = []"
proof -
  have "session_over (snd (authorize s token nonce now))" "session_over (expire s)"
    using assms by (simp_all add: session_over_def authorize_def expire_def)
  then show ?thesis using over_log by (simp add: session_over_def)
qed

theorem auth_expiry_final_witness:
  "auth_log session0 [Authorize None None 700000, Authorize (Some ''secret'') (Some ''7'') 2000] = []"
proof -
  have e: "rs_expires_at_ms session0 \<le> 700000" by (simp add: session0_def session_new_def sat_add_def)
  then have "fst (authorize session0 None None 700000) = Inl Expired" by (simp add: authorize_def)
  with auth_expiry_final [OF e, of None None "[Authorize (Some ''secret'') (Some ''7'') 2000]"] show ?thesis
    by (auto split: prod.split)
qed

end
