(* ===== verification/Anti_Rollback.thy ===== *)
theory Anti_Rollback
  imports Rust_Str
begin

text \<open>
  The monotonic firmware version of the Recovery OS (\<open>recovery/src/anti_rollback.rs\<close>). The
  non-volatile store and the boot selection are the caller's closures: \<open>load\<close>, \<open>store\<close> and
  \<open>activate\<close> act on a device state and are parameters here.
\<close>

datatype rollback_error =
    StateUnavailable | ZeroVersion | NotNewer | CommitFailed | ReadbackMismatch | ActivateFailed

type_synonym 's loader = "'s \<Rightarrow> (unit + u32 option) \<times> 's"
type_synonym 's storer = "u32 \<Rightarrow> 's \<Rightarrow> (unit + unit) \<times> 's"
type_synonym 's activator = "'s \<Rightarrow> (unit + unit) \<times> 's"

definition current_version :: "'s loader \<Rightarrow> 's \<Rightarrow> (rollback_error + u32) \<times> 's" where
  "current_version load s =
     (case load s of
        (Inl _, s') \<Rightarrow> (Inl StateUnavailable, s')
      | (Inr v, s') \<Rightarrow> (Inr (case v of None \<Rightarrow> 0 | Some x \<Rightarrow> x), s'))"

definition require_newer :: "u32 \<Rightarrow> 's loader \<Rightarrow> 's \<Rightarrow> (rollback_error + u32) \<times> 's" where
  "require_newer candidate load s =
     (if candidate = 0 then (Inl ZeroVersion, s)
      else case current_version load s of
        (Inl e, s') \<Rightarrow> (Inl e, s')
      | (Inr current, s') \<Rightarrow> if candidate \<le> current then (Inl NotNewer, s') else (Inr current, s'))"

definition advance_before_activation ::
  "u32 \<Rightarrow> 's loader \<Rightarrow> 's storer \<Rightarrow> 's activator \<Rightarrow> 's \<Rightarrow> (rollback_error + unit) \<times> 's" where
  "advance_before_activation candidate load store activate s =
     (case require_newer candidate load s of
        (Inl e, s1) \<Rightarrow> (Inl e, s1)
      | (Inr _, s1) \<Rightarrow>
          (case store candidate s1 of
             (Inl _, s2) \<Rightarrow> (Inl CommitFailed, s2)
           | (Inr _, s2) \<Rightarrow>
               (case current_version load s2 of
                  (Inl e, s3) \<Rightarrow> (Inl e, s3)
                | (Inr persisted, s3) \<Rightarrow>
                    if persisted \<noteq> candidate then (Inl ReadbackMismatch, s3)
                    else (case activate s3 of
                            (Inl _, s4) \<Rightarrow> (Inl ActivateFailed, s4)
                          | (Inr _, s4) \<Rightarrow> (Inr (), s4)))))"

section \<open>A store that keeps what it was given\<close>

text \<open>
  What the policy relies on of NVS: reading changes nothing and yields the stored value or an error,
  a write that reports success stored the value, one that fails left the old value or stored the
  new one, and selecting a boot partition does not touch the value.
\<close>

locale version_store =
  fixes load :: "'s loader" and store :: "'s storer" and activate :: "'s activator"
    and floor :: "'s \<Rightarrow> u32"
  assumes load_floor: "load s = (r, s') \<Longrightarrow> floor s' = floor s"
    and load_value: "load s = (Inr v, s') \<Longrightarrow> (case v of None \<Rightarrow> 0 | Some x \<Rightarrow> x) = floor s"
    and store_floor: "store c s = (q, s') \<Longrightarrow> floor s' = c \<or> floor s' = floor s"
    and activate_floor: "activate s = (q, s') \<Longrightarrow> floor s' = floor s"
begin

lemma current_floor: "current_version load s = (r, s') \<Longrightarrow> floor s' = floor s"
  using load_floor by (auto simp: current_version_def split: prod.splits sum.splits)

lemma current_value: "current_version load s = (Inr v, s') \<Longrightarrow> v = floor s"
  using load_value by (auto simp: current_version_def split: prod.splits sum.splits)

lemma newer_floor: "require_newer c load s = (r, s') \<Longrightarrow> floor s' = floor s"
  using current_floor by (auto simp: require_newer_def split: prod.splits sum.splits if_splits)

lemma newer_value: "require_newer c load s = (Inr v, s') \<Longrightarrow> floor s < c"
  using current_value by (fastforce simp: require_newer_def not_le split: prod.splits sum.splits if_splits)

text \<open>Whatever happens, the floor never goes down, and success means it is the new version, above the old floor.\<close>

lemma advance_monotone:
  assumes "advance_before_activation c load store activate s = (r, s')"
  shows "floor s \<le> floor s' \<and> (r = Inr () \<longrightarrow> floor s < c \<and> floor s' = c)"
proof (cases "require_newer c load s")
  case (Pair q s1)
  show ?thesis
  proof (cases q)
    case (Inl e)
    with Pair assms newer_floor [OF Pair] show ?thesis by (auto simp: advance_before_activation_def)
  next
    case (Inr v)
    note n = newer_value [OF Pair [unfolded Inr]] newer_floor [OF Pair]
    obtain q2 s2 where st: "store c s1 = (q2, s2)" by fastforce
    have f2: "floor s \<le> floor s2" using store_floor [OF st] n by auto
    obtain q3 s3 where cu: "current_version load s2 = (q3, s3)" by fastforce
    obtain q4 s4 where ac: "activate s3 = (q4, s4)" by fastforce
    show ?thesis
      using assms Pair Inr st cu ac f2 n current_floor [OF cu] current_value [of s2 _ s3] activate_floor [OF ac]
      by (auto simp: advance_before_activation_def split: sum.splits if_splits)
  qed
qed

text \<open>Activation is reached only with the candidate already persisted.\<close>

lemma activates_persisted:
  assumes "advance_before_activation c load store activate s = (r, s')" "r = Inr () \<or> r = Inl ActivateFailed"
  shows "floor s < c \<and> floor s' = c"
proof (cases "require_newer c load s")
  case (Pair q s1)
  then obtain v where q: "q = Inr v" using assms by (cases q) (auto simp: advance_before_activation_def
      require_newer_def current_version_def split: if_splits prod.splits sum.splits)
  obtain q2 s2 where st: "store c s1 = (q2, s2)" by fastforce
  obtain q3 s3 where cu: "current_version load s2 = (q3, s3)" by fastforce
  obtain q4 s4 where ac: "activate s3 = (q4, s4)" by fastforce
  have "q3 \<noteq> Inl e" if "e \<noteq> StateUnavailable" for e
    using cu that by (auto simp: current_version_def split: prod.splits sum.splits)
  with assms Pair q st cu ac newer_value [OF Pair [unfolded q]] current_floor [OF cu] current_value [of s2 _ s3] activate_floor [OF ac]
  show ?thesis
    by (auto simp: advance_before_activation_def split: sum.splits if_splits)
qed

end

text \<open>A concrete device: the stored version, whether the store works, and the versions activated.\<close>

record nvs =
  nvs_value :: "u32 option"
  nvs_write_ok :: bool
  nvs_booted :: "u32 list"

definition nvs_load :: "nvs loader" where "nvs_load s = (Inr (nvs_value s), s)"

definition nvs_store :: "nvs storer" where
  "nvs_store v s = (if nvs_write_ok s then (Inr (), s\<lparr>nvs_value := Some v\<rparr>) else (Inl (), s))"

definition nvs_floor :: "nvs \<Rightarrow> u32" where "nvs_floor s = (case nvs_value s of None \<Rightarrow> 0 | Some x \<Rightarrow> x)"

definition nvs_boot :: "nvs activator" where
  "nvs_boot s = (Inr (), s\<lparr>nvs_booted := nvs_booted s @ [nvs_floor s]\<rparr>)"

interpretation nvs_store: version_store nvs_load nvs_store nvs_boot nvs_floor
  by unfold_locales (auto simp: nvs_load_def nvs_store_def nvs_boot_def nvs_floor_def split: if_splits)

text \<open>The versions activated by a series of attempts, each from the state the last one left.\<close>

fun activated :: "'s loader \<Rightarrow> 's storer \<Rightarrow> 's activator \<Rightarrow> u32 list \<Rightarrow> 's \<Rightarrow> u32 list" where
  "activated load store activate [] s = []"
| "activated load store activate (c # cs) s =
     (case advance_before_activation c load store activate s of
        (Inr _, s') \<Rightarrow> c # activated load store activate cs s'
      | (Inl _, s') \<Rightarrow> activated load store activate cs s')"

section \<open>Properties\<close>

text \<open>Order of effects, for every store: the firmware is activated only after the first read gave a
  version below the candidate, the write of the candidate reported success and the second read
  returned the candidate; otherwise the attempt fails without running \<open>activate\<close>.\<close>

theorem rollback_commit_before_activation:
  "(\<exists>v s1 s2 s3. load s = (Inr v, s1) \<and> (case v of None \<Rightarrow> 0 | Some x \<Rightarrow> x) < c \<and> store c s1 = (Inr (), s2)
      \<and> load s2 = (Inr (Some c), s3) \<and> snd (advance_before_activation c load store activate s) = snd (activate s3))
   \<or> (\<exists>e. fst (advance_before_activation c load store activate s) = Inl e \<and>
        (\<lambda>other. advance_before_activation c load store other s) =
        (\<lambda>_. advance_before_activation c load store activate s))"
proof (cases "require_newer c load s")
  case (Pair q s1)
  show ?thesis
  proof (cases q)
    case (Inl e)
    with Pair show ?thesis by (simp add: advance_before_activation_def)
  next
    case (Inr v)
    then have c: "c \<noteq> 0" and l: "\<exists>v. load s = (Inr v, s1) \<and> (case v of None \<Rightarrow> 0 | Some x \<Rightarrow> x) < c"
      using Pair by (auto simp: require_newer_def current_version_def not_le split: if_splits prod.splits sum.splits)
    obtain q2 s2 where st: "store c s1 = (q2, s2)" by fastforce
    obtain q3 s3 where cu: "load s2 = (q3, s3)" by fastforce
    have ne: "(case w of None \<Rightarrow> 0 | Some x \<Rightarrow> x) = c \<longleftrightarrow> w = Some c" for w
      using c by (cases w) auto
    show ?thesis
    proof (cases "q2 = Inr () \<and> q3 = Inr (Some c)")
      case True
      with l st cu Pair Inr show ?thesis
        by (intro disjI1) (auto simp: advance_before_activation_def current_version_def split: prod.split sum.split)
    next
      case False
      with st cu Pair Inr ne show ?thesis
        by (intro disjI2) (cases q2; cases q3; simp add: advance_before_activation_def current_version_def)
    qed
  qed
qed

text \<open>C7. No downgrade: on a device whose store behaves as NVS documents, the versions activated over any
  series of attempts are strictly increasing and above the floor at the start, whatever fails on the
  way; an attempt that fails never lowers the floor.\<close>

theorem rollback_never_downgrades:
  assumes "version_store load store activate floor"
  shows "sorted_wrt (<) (floor s # activated load store activate cs s) \<and>
    floor s \<le> floor (snd (advance_before_activation c load store activate s))"
proof -
  note mono = version_store.advance_monotone [OF assms]
  have "sorted_wrt (<) (floor s # activated load store activate cs s)"
  proof (induction cs arbitrary: s)
    case (Cons c cs)
    obtain r s' where r: "advance_before_activation c load store activate s = (r, s')" by fastforce
    with mono [OF r] Cons.IH [of s'] show ?case
      by (cases r) (auto intro: le_less_trans less_trans)
  qed simp
  with mono [of c s] show ?thesis by (metis prod.collapse)
qed

theorem rollback_never_downgrades_witness:
  "sorted_wrt (<) (nvs_floor \<lparr>nvs_value = Some 2, nvs_write_ok = True, nvs_booted = []\<rparr> #
     activated nvs_load nvs_store nvs_boot [3, 2, 5, 4] \<lparr>nvs_value = Some 2, nvs_write_ok = True, nvs_booted = []\<rparr>) \<and>
   activated nvs_load nvs_store nvs_boot [3, 2, 5, 4] \<lparr>nvs_value = Some 2, nvs_write_ok = True, nvs_booted = []\<rparr> = [3, 5]"
proof -
  have "activated nvs_load nvs_store nvs_boot [3, 2, 5, 4] \<lparr>nvs_value = Some 2, nvs_write_ok = True, nvs_booted = []\<rparr> = [3, 5]"
    by (simp add: advance_before_activation_def require_newer_def current_version_def nvs_load_def nvs_store_def nvs_boot_def)
  with rollback_never_downgrades [OF nvs_store.version_store_axioms,
      of "\<lparr>nvs_value = Some 2, nvs_write_ok = True, nvs_booted = []\<rparr>" "[3, 2, 5, 4]" 0]
  show ?thesis by argo
qed

end
