(* ===== verification/Bounded_Io.thy ===== *)
theory Bounded_Io
  imports Rust_Str
begin

text \<open>
  Size limits on HTTP bodies in the Recovery OS (\<open>recovery/src/bounded_io.rs\<close>). The reader and the
  writer of \<open>copy_limited\<close> are type parameters of the source: here \<open>read\<close> and \<open>write_all\<close> act on a
  reader and a writer state. One \<open>read\<close> delivers the bytes it put into the 4096 byte buffer.
\<close>

datatype body_error =
    BodyExceedsLimit usize | TransferEncoded | InvalidContentLength | LengthMismatch | StreamError nat

record body_limit =
  declared_length :: "usize option"
  max_size :: usize
  received :: usize

definition is_some_and :: "('a \<Rightarrow> bool) \<Rightarrow> 'a option \<Rightarrow> bool" where
  "is_some_and P v = (case v of None \<Rightarrow> False | Some x \<Rightarrow> P x)"

definition limit_new :: "usize option \<Rightarrow> usize \<Rightarrow> body_error + body_limit" where
  "limit_new declared m =
     (if is_some_and (\<lambda>l. m < l) declared then Inl (BodyExceedsLimit m)
      else Inr \<lparr>declared_length = declared, max_size = m, received = 0\<rparr>)"

definition observe :: "usize \<Rightarrow> body_limit \<Rightarrow> body_error + body_limit" where
  "observe count b =
     (case checked_add (received b) count of
        None \<Rightarrow> Inl (BodyExceedsLimit (max_size b))
      | Some n \<Rightarrow>
          if max_size b < n \<or> is_some_and (\<lambda>l. l < n) (declared_length b)
          then Inl (BodyExceedsLimit (max_size b)) else Inr (b\<lparr>received := n\<rparr>))"

definition limit_finish :: "body_limit \<Rightarrow> body_error + usize" where
  "limit_finish b =
     (if is_some_and (\<lambda>l. received b \<noteq> l) (declared_length b) then Inl LengthMismatch
      else Inr (received b))"

definition validate_framing ::
  "string option \<Rightarrow> string option \<Rightarrow> usize \<Rightarrow> body_error + usize option" where
  "validate_framing content_length transfer_encoding m =
     (if is_some_and (\<lambda>v. trim v \<noteq> []) transfer_encoding then Inl TransferEncoded
      else case content_length of
        None \<Rightarrow> Inr None
      | Some v \<Rightarrow>
          (case parse_uint 10 USIZE_MAX (trim v) of
             None \<Rightarrow> Inl InvalidContentLength
           | Some n \<Rightarrow>
               (let declared = (of_nat n :: usize) in
                if m < declared then Inl (BodyExceedsLimit m) else Inr (Some declared))))"

type_synonym 'r reader = "'r \<Rightarrow> (nat + string) \<times> 'r"
type_synonym 'w writer = "string \<Rightarrow> 'w \<Rightarrow> (nat + unit) \<times> 'w"

lemma observe_Inr:
  "observe count b = Inr b' \<longleftrightarrow>
     unat (received b) + unat count \<le> unat (max_size b) \<and>
     (\<forall>l. declared_length b = Some l \<longrightarrow> unat (received b) + unat count \<le> unat l) \<and>
     b' = b\<lparr>received := received b + count\<rparr>"
proof (cases "checked_add (received b) count")
  case None
  then have "2 ^ 32 \<le> unat (received b) + unat count" by (simp add: checked_add_None)
  with None unsigned_less [of "max_size b", where 'a=nat] show ?thesis by (simp add: observe_def)
next
  case (Some n)
  then have "unat n = unat (received b) + unat count" "n = received b + count"
    using checked_add_Some [OF Some] by (auto simp: checked_add_def split: if_splits)
  with Some show ?thesis
    by (auto simp: observe_def is_some_and_def word_less_nat_alt not_less split: option.splits)
qed

text \<open>The loop ends whatever the reader does: every round that goes on has added at least one byte.\<close>

function copy_loop ::
  "'r reader \<Rightarrow> 'w writer \<Rightarrow> body_limit \<Rightarrow> 'r \<Rightarrow> 'w \<Rightarrow> (body_error + body_limit) \<times> 'w" where
  "copy_loop read write_all limit r w =
     (case read r of
        (Inl e, _) \<Rightarrow> (Inl (StreamError e), w)
      | (Inr chunk, r') \<Rightarrow>
          (let count = of_nat (length chunk) in
           if count = 0 then (Inr limit, w)
           else case observe count limit of
             Inl e \<Rightarrow> (Inl e, w)
           | Inr limit' \<Rightarrow>
               (case write_all chunk w of
                  (Inl e, w') \<Rightarrow> (Inl (StreamError e), w')
                | (Inr _, w') \<Rightarrow> copy_loop read write_all limit' r' w')))"
  by pat_completeness auto
termination
proof (relation "measure (\<lambda>(read, write_all, limit, r, w). unat (max_size limit) - unat (received limit))", simp)
  fix limit :: body_limit and chunk :: string and r' :: 'r and limit' :: body_limit
    and read :: "'r reader" and r :: 'r and write_all :: "'w writer" and w w' :: 'w and c :: usize
  assume c: "c = of_nat (length chunk)" "c \<noteq> 0" "observe c limit = Inr limit'"
  then have "unat (received limit) + unat c \<le> unat (max_size limit)" "limit' = limit\<lparr>received := received limit + c\<rparr>"
    by (simp_all add: observe_Inr)
  moreover have "0 < unat c" using c(2) by (simp add: unat_gt_0)
  moreover have "unat (received limit + c) = unat (received limit) + unat c"
    using calculation(1) unsigned_less [of "max_size limit", where 'a=nat]
    by (intro unat_add_nowrap) simp
  ultimately show "((read, write_all, limit', r', w'), (read, write_all, limit, r, w)) \<in>
      measure (\<lambda>(read, write_all, limit, r, w). unat (max_size limit) - unat (received limit))"
    by simp
qed

declare copy_loop.simps [simp del]

definition copy_limited ::
  "'r reader \<Rightarrow> 'w writer \<Rightarrow> usize option \<Rightarrow> usize \<Rightarrow> 'r \<Rightarrow> 'w \<Rightarrow> (body_error + usize) \<times> 'w" where
  "copy_limited read write_all declared m r w =
     (case limit_new declared m of
        Inl e \<Rightarrow> (Inl e, w)
      | Inr limit \<Rightarrow>
          (case copy_loop read write_all limit r w of
             (Inl e, w') \<Rightarrow> (Inl e, w')
           | (Inr limit', w') \<Rightarrow> (limit_finish limit', w')))"

text \<open>\<open>impl Write for Vec\<close>: appends, and never fails.\<close>

definition vec_write :: "string writer" where
  "vec_write bytes v = (Inr (), v @ bytes)"

definition read_to_vec_limited :: "'r reader \<Rightarrow> usize option \<Rightarrow> usize \<Rightarrow> 'r \<Rightarrow> body_error + string" where
  "read_to_vec_limited read declared m r =
     (case copy_limited read vec_write declared m r [] of
        (Inl e, _) \<Rightarrow> Inl e
      | (Inr _, output) \<Rightarrow> Inr output)"

section \<open>What a reader delivers and a writer holds\<close>

inductive delivers :: "'r reader \<Rightarrow> 'r \<Rightarrow> string \<Rightarrow> bool" for read where
  at_eof: "read r = (Inr [], r') \<Longrightarrow> delivers read r []"
| more: "read r = (Inr c, r') \<Longrightarrow> c \<noteq> [] \<Longrightarrow> delivers read r' bs \<Longrightarrow> delivers read r (c @ bs)"

inductive_simps delivers_simps: "delivers read r bs"

text \<open>The contract of \<open>Read::read\<close>: no more bytes than the buffer holds.\<close>

definition fills_buffer :: "'r reader \<Rightarrow> bool" where
  "fills_buffer read \<longleftrightarrow> (\<forall>r c r'. read r = (Inr c, r') \<longrightarrow> length c \<le> 4096)"

text \<open>Room for so many more bytes, and the limit once they are counted.\<close>

definition room :: "body_limit \<Rightarrow> nat \<Rightarrow> bool" where
  "room b n \<longleftrightarrow> unat (received b) + n \<le> unat (max_size b) \<and>
     (\<forall>l. declared_length b = Some l \<longrightarrow> unat (received b) + n \<le> unat l)"

definition counted :: "nat \<Rightarrow> body_limit \<Rightarrow> body_limit" where
  "counted n b = b\<lparr>received := received b + of_nat n\<rparr>"

lemma unat_received: "room b n \<Longrightarrow> unat (received b + of_nat n) = unat (received b) + n"
proof -
  assume "room b n"
  then have "unat (received b) + n < 2 ^ 32"
    using unsigned_less [of "max_size b", where 'a=nat] by (simp add: room_def)
  then show ?thesis by (simp add: unat_word_ariths unsigned_of_nat take_bit_nat_eq_self)
qed

lemma counted_simps [simp]:
  "max_size (counted n b) = max_size b" "declared_length (counted n b) = declared_length b"
  "counted n (counted m b) = counted (m + n) b" "counted 0 b = b"
  by (simp_all add: counted_def ac_simps)

lemma received_counted: "room b n \<Longrightarrow> unat (received (counted n b)) = unat (received b) + n"
  using unat_received by (simp add: counted_def)

lemma room_counted: "room b n \<Longrightarrow> room (counted n b) m \<longleftrightarrow> room b (n + m)"
  using received_counted [of b n] by (simp add: room_def add.assoc)

lemma room_mono: "room b (n + m) \<Longrightarrow> room b n"
  by (auto simp: room_def)

lemma observe_room: "n \<le> 4096 \<Longrightarrow> observe (of_nat n) b = (if room b n then Inr (counted n b) else Inl (BodyExceedsLimit (max_size b)))"
proof -
  assume "n \<le> 4096"
  then have "unat (of_nat n :: usize) = n" by (simp add: unsigned_of_nat take_bit_nat_eq_self)
  then show ?thesis
    using observe_Inr [of "of_nat n" b] observe_def [of "of_nat n" b]
    by (auto simp: room_def counted_def split: option.splits if_splits)
qed

lemma of_nat_length_0: "length c \<le> 4096 \<Longrightarrow> (of_nat (length c) :: usize) = 0 \<longleftrightarrow> c = []"
  using dvd_imp_le [of "2 ^ 32" "length c"] by (auto simp: word_of_nat_eq_0_iff)

text \<open>One round of the loop, with the reader's contract.\<close>

lemma copy_loop_round:
  assumes "fills_buffer read"
  shows "copy_loop read write_all b r w =
    (case read r of
       (Inl e, _) \<Rightarrow> (Inl (StreamError e), w)
     | (Inr c, r') \<Rightarrow>
         if c = [] then (Inr b, w)
         else if \<not> room b (length c) then (Inl (BodyExceedsLimit (max_size b)), w)
         else (case write_all c w of
                 (Inl e, w') \<Rightarrow> (Inl (StreamError e), w')
               | (Inr _, w') \<Rightarrow> copy_loop read write_all (counted (length c) b) r' w'))"
proof (cases "read r")
  case (Pair q r')
  show ?thesis
  proof (cases q)
    case (Inr c)
    with Pair assms have "length c \<le> 4096" by (auto simp: fills_buffer_def)
    with Pair Inr show ?thesis
      by (subst copy_loop.simps) (simp add: Let_def of_nat_length_0 observe_room)
  qed (simp add: Pair copy_loop.simps)
qed

text \<open>What a writer promises: it appends a prefix of the bytes, all of them when it reports success.\<close>

locale body_sink =
  fixes write_all :: "'w writer" and contents :: "'w \<Rightarrow> string"
  assumes write_grows: "write_all c w = (res, w') \<Longrightarrow> \<exists>k. contents w' = contents w @ take k c"
    and write_whole: "write_all c w = (Inr u, w') \<Longrightarrow> contents w' = contents w @ c"
begin

lemma copy_loop_bounded:
  assumes "fills_buffer read"
  shows "room b 0 \<Longrightarrow> copy_loop read write_all b r w = (res, w') \<Longrightarrow>
    \<exists>bs. contents w' = contents w @ bs \<and> room b (length bs) \<and>
      (\<forall>b'. res = Inr b' \<longrightarrow> delivers read r bs \<and> b' = counted (length bs) b)"
proof (induction "unat (max_size b) - unat (received b)" arbitrary: b r w rule: less_induct)
  case less
  show ?case
  proof (cases "\<exists>c r' w1. read r = (Inr c, r') \<and> c \<noteq> [] \<and> room b (length c) \<and> write_all c w = (Inr (), w1)")
    case True
    then obtain c r' w1 where c: "read r = (Inr c, r')" "c \<noteq> []" "room b (length c)" "write_all c w = (Inr (), w1)"
      by blast
    then have rest: "copy_loop read write_all (counted (length c) b) r' w1 = (res, w')"
      using less.prems(2) copy_loop_round [OF assms, of write_all b r w] by simp
    have "room (counted (length c) b) 0" using c(3) by (simp add: room_counted)
    moreover have "unat (max_size (counted (length c) b)) - unat (received (counted (length c) b)) <
        unat (max_size b) - unat (received b)"
      using length_greater_0_conv [THEN iffD2, OF c(2)] c(3) received_counted [OF c(3)]
      by (simp only: room_def counted_simps) linarith
    ultimately obtain bs where bs: "contents w' = contents w1 @ bs" "room (counted (length c) b) (length bs)"
        "\<forall>b'. res = Inr b' \<longrightarrow> delivers read r' bs \<and> b' = counted (length bs) (counted (length c) b)"
      using less.hyps [OF _ _ rest] by blast
    with c write_whole [OF c(4)] show ?thesis
      by (intro exI [of _ "c @ bs"]) (auto simp: room_counted intro: delivers.more)
  next
    case False
    then have "(\<exists>e. res = Inl e \<and> (w' = w \<or> (\<exists>c x. write_all c w = (x, w') \<and> room b (length c))))
        \<or> (res = Inr b \<and> w' = w \<and> (\<exists>r'. read r = (Inr [], r')))"
      using less.prems(2) unfolding copy_loop_round [OF assms, of write_all b r w]
      by (auto split: prod.splits sum.splits if_splits)
    then show ?thesis
    proof (elim disjE exE conjE)
      fix e c x assume e: "res = Inl e" "write_all c w = (x, w')" "room b (length c)"
      from write_grows [OF e(2)] obtain k where "contents w' = contents w @ take k c" by blast
      moreover have "room b (length (take k c))" using e(3) by (auto simp: room_def)
      ultimately show ?thesis using e(1) by blast
    qed (use less.prems(1) in \<open>auto intro: delivers.at_eof exI [of _ "[]"]\<close>)
  qed
qed

end

text \<open>A writer that never fails takes every body that fits.\<close>

locale sure_sink = body_sink write_all contents
  for write_all :: "'w writer" and contents :: "'w \<Rightarrow> string" +
  assumes write_sure: "\<exists>w'. write_all c w = (Inr (), w')"
begin

lemma copy_loop_complete:
  assumes "fills_buffer read"
  shows "delivers read r bs \<Longrightarrow> room b (length bs) \<Longrightarrow>
    \<exists>w'. copy_loop read write_all b r w = (Inr (counted (length bs) b), w') \<and> contents w' = contents w @ bs"
proof (induction arbitrary: b w rule: delivers.induct)
  case (at_eof r r')
  then show ?case by (simp add: copy_loop_round [OF assms])
next
  case (more r c r' bs)
  obtain w1 where w: "write_all c w = (Inr (), w1)" using write_sure by blast
  from more.prems room_mono [of b "length c" "length bs"] have c: "room b (length c)" by simp
  then have "room (counted (length c) b) (length bs)" using more.prems by (simp add: room_counted)
  from more.IH [OF this] obtain w' where w': "copy_loop read write_all (counted (length c) b) r' w1 =
      (Inr (counted (length bs) (counted (length c) b)), w')" "contents w' = contents w1 @ bs" by blast
  with more.hyps w c write_whole [OF w] show ?case by (simp add: copy_loop_round [OF assms, of write_all b r w])
qed

end

interpretation vec: sure_sink vec_write "\<lambda>v. v"
  by unfold_locales (auto simp: vec_write_def, metis order_refl take_all)


section \<open>Properties\<close>

lemma limit_new_Inr:
  "limit_new d m = Inr b \<longleftrightarrow> b = \<lparr>declared_length = d, max_size = m, received = 0\<rparr> \<and> (\<forall>l. d = Some l \<longrightarrow> l \<le> m)"
  by (auto simp: limit_new_def is_some_and_def split: option.splits)

lemma limit_finish_counted:
  assumes "room \<lparr>declared_length = d, max_size = m, received = 0\<rparr> n"
  shows "limit_finish (counted n \<lparr>declared_length = d, max_size = m, received = 0\<rparr>) =
    (if \<forall>l. d = Some l \<longrightarrow> unat l = n then Inr (of_nat n) else Inl LengthMismatch)"
  using received_counted [OF assms]
  by (auto simp: limit_finish_def is_some_and_def counted_def word_unat_eq_iff split: option.splits)

lemma fresh_room:
  "room \<lparr>declared_length = d, max_size = m, received = 0\<rparr> n \<longleftrightarrow> n \<le> unat m \<and> (\<forall>l. d = Some l \<longrightarrow> n \<le> unat l)"
  by (simp add: room_def)

lemma read_to_vec_iff:
  assumes "fills_buffer read"
  shows "read_to_vec_limited read d m r = Inr out \<longleftrightarrow>
    delivers read r out \<and> length out \<le> unat m \<and> (\<forall>l. d = Some l \<longrightarrow> unat l = length out)"
proof -
  let ?b = "\<lparr>declared_length = d, max_size = m, received = 0\<rparr>"
  show ?thesis
  proof
    assume "read_to_vec_limited read d m r = Inr out"
    then obtain b' n where b: "copy_loop read vec_write ?b r [] = (Inr b', out)" "limit_finish b' = Inr n"
      by (auto simp: read_to_vec_limited_def copy_limited_def limit_new_Inr split: prod.splits sum.splits)
    from vec.copy_loop_bounded [OF assms _ b(1)] have "room ?b (length out)" "delivers read r out"
        "b' = counted (length out) ?b"
      by (auto simp: fresh_room)
    with b(2) show "delivers read r out \<and> length out \<le> unat m \<and> (\<forall>l. d = Some l \<longrightarrow> unat l = length out)"
      by (auto simp: limit_finish_counted fresh_room split: if_splits)
  next
    assume r: "delivers read r out \<and> length out \<le> unat m \<and> (\<forall>l. d = Some l \<longrightarrow> unat l = length out)"
    then have room: "room ?b (length out)" by (auto simp: fresh_room)
    have new: "limit_new d m = Inr ?b" using r by (auto simp: limit_new_Inr word_le_nat_alt)
    from vec.copy_loop_complete [OF assms _ room] r
    have "copy_loop read vec_write ?b r [] = (Inr (counted (length out) ?b), out)" by fastforce
    with r new show "read_to_vec_limited read d m r = Inr out"
      by (simp add: read_to_vec_limited_def copy_limited_def limit_finish_counted [OF room])
  qed
qed

text \<open>A reader over a list of chunks, for the witnesses.\<close>

fun chunk_read :: "string list reader" where
  "chunk_read [] = (Inr [], [])"
| "chunk_read (c # cs) = (Inr (take 4096 c), cs)"

lemma chunk_read_fills: "fills_buffer chunk_read"
  unfolding fills_buffer_def
proof (intro allI impI)
  fix r c r' assume "chunk_read r = (Inr c, r')"
  then show "length c \<le> 4096" by (cases r) auto
qed

text \<open>A body is accepted exactly when it is whole: with the framing of a request accepted, reading
  the body succeeds with the bytes the connection delivers up to its end, if these are within the
  limit and as many as declared, and fails otherwise; what was declared is the decimal number of the
  header.\<close>

theorem body_exact:
  assumes "fills_buffer read" "validate_framing content_length transfer_encoding m = Inr declared"
  shows "(read_to_vec_limited read declared m r = Inr out \<longleftrightarrow>
      delivers read r out \<and> length out \<le> unat m \<and> (\<forall>n. declared = Some n \<longrightarrow> unat n = length out))
    \<and> (content_length = None \<longleftrightarrow> declared = None)
    \<and> (\<forall>v. content_length = Some v \<longrightarrow> map_option unat declared = parse_uint 10 USIZE_MAX (trim v))"
proof -
  have "n \<le> USIZE_MAX \<Longrightarrow> unat (of_nat n :: usize) = n" for n
    by (simp add: unsigned_of_nat take_bit_nat_eq_self int_max_defs)
  moreover have "parse_uint 10 USIZE_MAX v = Some n \<Longrightarrow> n \<le> USIZE_MAX" for v n
    by (auto simp: parse_uint_def Let_def split: option.splits if_splits)
  ultimately show ?thesis
    using read_to_vec_iff [OF assms(1)] assms(2)
    by (auto simp: validate_framing_def Let_def split: if_splits option.splits)
qed

theorem body_exact_witness:
  "read_to_vec_limited chunk_read None 6 [''abc'', ''de''] = Inr ''abcde'' \<and>
   read_to_vec_limited chunk_read None 4 [''abc'', ''de''] \<noteq> Inr ''abcde''"
proof -
  have f: "validate_framing None None m = Inr None" for m by (simp add: validate_framing_def is_some_and_def)
  have "delivers chunk_read [] []" by (rule at_eof) simp
  then have "delivers chunk_read [''de''] (''de'' @ [])" by (rule more [rotated 2]) simp_all
  then have "delivers chunk_read [''abc'', ''de''] (''abc'' @ ''de'' @ [])" by (rule more [rotated 2]) simp_all
  then show ?thesis
    using body_exact [OF chunk_read_fills f [of 6], of "[''abc'', ''de'']" "''abcde''"]
      body_exact [OF chunk_read_fills f [of 4], of "[''abc'', ''de'']" "''abcde''"] by simp
qed

text \<open>C21. No overrun: whatever the reader delivers, whatever was declared, and also when the copy fails
  half way or the writer fails, a copy ends and has put at most the permitted number of bytes into
  the writer, and no more than declared.\<close>

theorem body_bounded:
  assumes "fills_buffer read" "body_sink write_all contents"
  shows "\<exists>bs. contents (snd (copy_limited read write_all declared m r w)) = contents w @ bs \<and>
    length bs \<le> unat m \<and> (\<forall>n. declared = Some n \<longrightarrow> length bs \<le> unat n)"
proof (cases "limit_new declared m")
  case (Inr b)
  then have b: "b = \<lparr>declared_length = declared, max_size = m, received = 0\<rparr>" by (simp add: limit_new_Inr)
  obtain res w' where c: "copy_loop read write_all b r w = (res, w')" by fastforce
  have "room b 0" by (simp add: b fresh_room)
  from body_sink.copy_loop_bounded [OF assms(2,1) this c] obtain bs where
    "contents w' = contents w @ bs" "room b (length bs)" by blast
  moreover have "snd (copy_limited read write_all declared m r w) = w'"
    by (cases res) (simp_all add: copy_limited_def Inr c)
  ultimately show ?thesis by (auto simp: b fresh_room)
qed (simp add: copy_limited_def)

theorem body_bounded_witness:
  "\<exists>bs. snd (copy_limited chunk_read vec_write None 4 [''abc'', ''de'', ''fgh''] ''>'') = ''>'' @ bs \<and> length bs \<le> 4"
  using body_bounded [OF chunk_read_fills vec.body_sink_axioms, of None 4 "[''abc'', ''de'', ''fgh'']" "''>''"]
  by simp

end
