(* ===== verification/Catalog_Path.thy ===== *)
theory Catalog_Path
  imports Rust_Path
begin

text \<open>
  Catalog identifiers and the files they name (\<open>recovery/src/catalog_path.rs\<close>).
\<close>

datatype catalog_error =
    BadIdLength | BadIdStart | BadIdEnd | BadIdGrammar | RootNotNormalized | EscapesRoot

definition MAX_CATALOG_ID_LENGTH :: nat where "MAX_CATALOG_ID_LENGTH = 63"

definition catalog_end_char :: "char \<Rightarrow> bool" where
  "catalog_end_char c \<longleftrightarrow> is_lower c \<or> is_digit c"

definition catalog_char :: "char \<Rightarrow> bool" where
  "catalog_char c \<longleftrightarrow> is_lower c \<or> is_digit c \<or> c = CHR ''-'' \<or> c = CHR ''.''"

definition validate_catalog_id :: "string \<Rightarrow> catalog_error + unit" where
  "validate_catalog_id s =
     (if s = [] \<or> MAX_CATALOG_ID_LENGTH < length s then Inl BadIdLength
      else if \<not> catalog_end_char (hd s) then Inl BadIdStart
      else if \<not> catalog_end_char (last s) then Inl BadIdEnd
      else if \<not> list_all catalog_char s \<or> str_contains s ''..'' then Inl BadIdGrammar
      else Inr ())"

definition catalog_destination :: "string \<Rightarrow> string \<Rightarrow> string \<Rightarrow> catalog_error + string" where
  "catalog_destination root cid sfx =
     and_then (validate_catalog_id cid) (\<lambda>_.
       if \<not> is_absolute root \<or> ParentDir \<in> set (path_components root) then Inl RootNotNormalized
       else
         (let destination = path_join root (cid @ sfx) in
          if parent_components destination \<noteq> Some (path_components root)
            \<or> ParentDir \<in> set (path_components destination) then Inl EscapesRoot
          else Inr destination))"

section \<open>Where a destination lies\<close>

lemma catalog_char_not_slash: "catalog_char c \<Longrightarrow> c \<noteq> CHR ''/''"
  by (auto simp: catalog_char_def char_class_defs)

lemma valid_id_simps:
  assumes "validate_catalog_id cid = Inr ()"
  shows "cid \<noteq> []" "CHR ''/'' \<notin> set cid" "hd cid \<noteq> CHR ''.''" "\<not> is_absolute (cid @ t)"
    "length cid \<le> 63" "last cid \<noteq> CHR ''.''" "\<not> sublist ''..'' cid"
proof -
  have v: "cid \<noteq> []" "length cid \<le> 63" "catalog_end_char (hd cid)" "catalog_end_char (last cid)"
      "list_all catalog_char cid" "\<not> str_contains cid ''..''"
    using assms by (auto simp: validate_catalog_id_def MAX_CATALOG_ID_LENGTH_def split: if_splits)
  from v(1,2,5) catalog_char_not_slash
  show "cid \<noteq> []" "length cid \<le> 63" and slash: "CHR ''/'' \<notin> set cid" by (auto simp: list_all_iff)
  from v(3,4) show "hd cid \<noteq> CHR ''.''" "last cid \<noteq> CHR ''.''" by (auto simp: catalog_end_char_def char_class_defs)
  from v(1) slash show "\<not> is_absolute (cid @ t)" by (cases cid) (auto simp: is_absolute_def)
  from v(6) show "\<not> sublist ''..'' cid" by (simp add: str_contains_def find_sub_None)
qed

lemma split_on_head: "\<exists>ps. split_on d s = takeWhile (\<lambda>c. c \<noteq> d) s # ps"
  by (induction s) auto

lemma id_components:
  assumes "validate_catalog_id cid = Inr ()"
  shows "\<exists>cs. tail_components (split_on CHR ''/'' (cid @ sfx)) =
    Normal (cid @ takeWhile (\<lambda>c. c \<noteq> CHR ''/'') sfx) # cs"
proof -
  note v = valid_id_simps [OF assms]
  let ?x = "cid @ takeWhile (\<lambda>c. c \<noteq> CHR ''/'') sfx"
  have "takeWhile (\<lambda>c. c \<noteq> CHR ''/'') (cid @ sfx) = ?x"
    by (rule takeWhile_append2) (use v(2) in auto)
  then obtain ps where ps: "split_on CHR ''/'' (cid @ sfx) = ?x # ps"
    using split_on_head [of "CHR ''/''" "cid @ sfx"] by auto
  have "part_component ?x = [Normal ?x]"
    using v(1,3) by (cases cid) (auto simp: part_component_def)
  with ps show ?thesis by (simp add: tail_components_def)
qed

lemma catalog_destination_Inr:
  assumes "catalog_destination root cid sfx = Inr dest"
  shows "validate_catalog_id cid = Inr ()" "is_absolute root" "ParentDir \<notin> set (path_components root)"
    "dest = path_join root (cid @ sfx)"
    "path_components dest = path_components root @ [Normal (cid @ takeWhile (\<lambda>c. c \<noteq> CHR ''/'') sfx)]"
proof -
  from assms show v: "validate_catalog_id cid = Inr ()" and a: "is_absolute root"
    and "ParentDir \<notin> set (path_components root)" and d: "dest = path_join root (cid @ sfx)"
    by (auto simp: catalog_destination_def Let_def split: if_splits)
  from assms have p: "parent_components dest = Some (path_components root)"
    by (auto simp: catalog_destination_def Let_def split: if_splits)
  from id_components [OF v] obtain cs where cs: "tail_components (split_on CHR ''/'' (cid @ sfx)) =
      Normal (cid @ takeWhile (\<lambda>c. c \<noteq> CHR ''/'') sfx) # cs" by blast
  then have "path_components dest = path_components root @ Normal (cid @ takeWhile (\<lambda>c. c \<noteq> CHR ''/'') sfx) # cs"
    using join_components [OF a valid_id_simps(4) [OF v]] d by simp
  with p show "path_components dest = path_components root @ [Normal (cid @ takeWhile (\<lambda>c. c \<noteq> CHR ''/'') sfx)]"
    by (cases cs rule: rev_cases) (auto simp: parent_components_def Let_def butlast_append split: if_splits)
qed

section \<open>Properties\<close>

text \<open>C20. A destination never leaves its root: for a suffix of one component, a destination is built
  exactly for a valid identifier under an absolute root without parent steps; its components are those
  of the root and one more, the identifier with the suffix. With any suffix at all, what is built lies
  directly in the root under a name that starts with the identifier.\<close>

theorem catalog_destination_confined:
  "(CHR ''/'' \<notin> set sfx \<longrightarrow>
      (catalog_destination root cid sfx = Inr dest \<longleftrightarrow>
         validate_catalog_id cid = Inr () \<and> is_absolute root \<and> ParentDir \<notin> set (path_components root) \<and>
         dest = path_join root (cid @ sfx)))
   \<and> (catalog_destination root cid sfx = Inr dest \<longrightarrow>
        (\<exists>x. path_components dest = path_components root @ [Normal (cid @ x)] \<and>
             (CHR ''/'' \<notin> set sfx \<longrightarrow> x = sfx)))"
proof (intro conjI impI)
  assume slash: "CHR ''/'' \<notin> set sfx"
  show "catalog_destination root cid sfx = Inr dest \<longleftrightarrow>
         validate_catalog_id cid = Inr () \<and> is_absolute root \<and> ParentDir \<notin> set (path_components root) \<and>
         dest = path_join root (cid @ sfx)"
  proof
    assume r: "validate_catalog_id cid = Inr () \<and> is_absolute root \<and> ParentDir \<notin> set (path_components root) \<and>
         dest = path_join root (cid @ sfx)"
    then have v: "validate_catalog_id cid = Inr ()" by simp
    from slash valid_id_simps(2) [OF v] have "split_on CHR ''/'' (cid @ sfx) = [cid @ sfx]"
      by (simp add: split_on_none)
    moreover have "part_component (cid @ sfx) = [Normal (cid @ sfx)]"
      using valid_id_simps(1,3) [OF v] by (cases cid) (auto simp: part_component_def)
    ultimately have "path_components dest = path_components root @ [Normal (cid @ sfx)]"
      using r join_components [of root "cid @ sfx"] valid_id_simps(4) [OF v] by (simp add: tail_components_def)
    with r show "catalog_destination root cid sfx = Inr dest"
      by (simp add: catalog_destination_def parent_components_def Let_def)
  qed (use catalog_destination_Inr in blast)
next
  assume "catalog_destination root cid sfx = Inr dest"
  from catalog_destination_Inr(5) [OF this]
  show "\<exists>x. path_components dest = path_components root @ [Normal (cid @ x)] \<and>
     (CHR ''/'' \<notin> set sfx \<longrightarrow> x = sfx)"
    by (intro exI conjI, assumption) (auto simp: takeWhile_eq_all_conv)
qed

theorem catalog_destination_confined_witness:
  "catalog_destination ''/sdcard/drivers'' ''com.thistle.drv.radio-sx1262'' ''.drv.elf'' =
     Inr ''/sdcard/drivers/com.thistle.drv.radio-sx1262.drv.elf'' \<and>
   catalog_destination ''/sdcard/drivers'' ''..'' ''.drv.elf'' = Inl BadIdStart \<and>
   catalog_destination ''/sdcard/drivers'' ''a'' ''/../../x'' = Inl EscapesRoot"
proof -
  have "CHR ''/'' \<notin> set ''.drv.elf''" by simp
  moreover have "validate_catalog_id ''com.thistle.drv.radio-sx1262'' = Inr ()" by code_simp
  moreover have "is_absolute ''/sdcard/drivers''" "ParentDir \<notin> set (path_components ''/sdcard/drivers'')" by code_simp+
  moreover have "path_join ''/sdcard/drivers'' ''com.thistle.drv.radio-sx1262.drv.elf'' =
    ''/sdcard/drivers/com.thistle.drv.radio-sx1262.drv.elf''" by code_simp
  moreover have "catalog_destination ''/sdcard/drivers'' ''..'' ''.drv.elf'' = Inl BadIdStart"
    "catalog_destination ''/sdcard/drivers'' ''a'' ''/../../x'' = Inl EscapesRoot" by code_simp+
  ultimately show ?thesis
    using catalog_destination_confined [of "''.drv.elf''" "''/sdcard/drivers''" "''com.thistle.drv.radio-sx1262''"
        "''/sdcard/drivers/com.thistle.drv.radio-sx1262.drv.elf''"] by simp
qed

end
