(* ===== verification/Artifact_Manifest.thy ===== *)
theory Artifact_Manifest
  imports Rust_Str "HOL-Library.List_Lexorder" "HOL-Library.Char_ord"
begin

text \<open>
  The signed description of an installable artifact (\<open>recovery/src/artifact_manifest.rs\<close>): its
  canonical text, the parser, and what a device accepts. Boards are compared as byte strings, which is
  the order of \<open>List_Lexorder\<close> on \<open>Char_ord\<close>.
\<close>

section \<open>Data\<close>

definition MANIFEST_HEADER :: string where "MANIFEST_HEADER = ''THISTLE-ARTIFACT-MANIFEST-V1''"

datatype artifact_error =
    NotLfTerminated | BadHeader | UnsupportedType string | MissingField string
  | BadSecurityVersion | BadSize | NotCanonical
  | BadIdentifier string string | BadVersion string | ZeroSecurityVersion | UnsupportedArch string
  | NoBoards | BoardsNotSorted | WrongDestination string string | BadSha256 | ZeroSize | BadUrl
  | ArchMismatch string string | SecurityVersionTooLow u32 u32 | NotForBoard string | BoardIdentityMismatch

datatype artifact_type = Firmware | Board | Driver | WindowManager

fun artifact_type_str :: "artifact_type \<Rightarrow> string" where
  "artifact_type_str Firmware = ''firmware''"
| "artifact_type_str Board = ''board''"
| "artifact_type_str Driver = ''driver''"
| "artifact_type_str WindowManager = ''wm''"

definition artifact_type_parse :: "string \<Rightarrow> artifact_error + artifact_type" where
  "artifact_type_parse v =
     (if v = ''firmware'' then Inr Firmware
      else if v = ''board'' then Inr Board
      else if v = ''driver'' then Inr Driver
      else if v = ''wm'' then Inr WindowManager
      else Inl (UnsupportedType v))"

record artifact_manifest =
  am_type :: artifact_type
  am_id :: string
  am_version :: string
  am_security_version :: u32
  am_arch :: string
  am_boards :: "string list"
  am_destination :: string
  am_sha256 :: string
  am_size :: usize
  am_url :: string

section \<open>Field rules\<close>

definition expected_destination :: "artifact_type \<Rightarrow> string \<Rightarrow> string" where
  "expected_destination t i =
     (case t of
        Firmware \<Rightarrow> ''ota_1''
      | Board \<Rightarrow> ''config/boards/'' @ i @ ''.json''
      | Driver \<Rightarrow> ''drivers/'' @ i @ ''.drv.elf''
      | WindowManager \<Rightarrow> ''wm/'' @ i @ ''.wm.elf'')"

definition field :: "string \<Rightarrow> string \<Rightarrow> artifact_error + string" where
  "field line name =
     (case Option.bind (strip_prefix name line) (strip_prefix ''='') of
        None \<Rightarrow> Inl (MissingField name)
      | Some v \<Rightarrow> if v = [] then Inl (MissingField name) else Inr v)"

definition identifier_char :: "char \<Rightarrow> bool" where
  "identifier_char c \<longleftrightarrow> is_alnum c \<or> c = CHR ''-'' \<or> c = CHR ''_'' \<or> c = CHR ''.''"

definition validate_identifier :: "string \<Rightarrow> string \<Rightarrow> artifact_error + unit" where
  "validate_identifier v label =
     ensure (\<not> (v = [] \<or> 64 < length v \<or> starts_with ''.'' v \<or> \<not> list_all identifier_char v))
       (BadIdentifier label v)"

definition validate_version :: "string \<Rightarrow> artifact_error + unit" where
  "validate_version v =
     (let normalized = (case strip_prefix ''v'' v of None \<Rightarrow> v | Some r \<Rightarrow> r);
          parts = split_on CHR ''.'' normalized in
      ensure (\<not> (length parts \<noteq> 3 \<or> list_ex (\<lambda>p. p = [] \<or> \<not> list_all is_digit p) parts)) (BadVersion v))"

fun validate_boards :: "string option \<Rightarrow> string list \<Rightarrow> artifact_error + unit" where
  "validate_boards previous [] = Inr ()"
| "validate_boards previous (b # bs) =
     and_then (validate_identifier b ''compatible board'') (\<lambda>_.
     and_then (ensure (\<not> (\<exists>v\<in>set_option previous. b \<le> v)) BoardsNotSorted) (\<lambda>_.
     validate_boards (Some b) bs))"

definition validate_shape :: "artifact_manifest \<Rightarrow> artifact_error + unit" where
  "validate_shape m =
     and_then (validate_identifier (am_id m) ''id'') (\<lambda>_.
     and_then (validate_version (am_version m)) (\<lambda>_.
     and_then (ensure (am_security_version m \<noteq> 0) ZeroSecurityVersion) (\<lambda>_.
     and_then (ensure (am_arch m \<in> {''esp32'', ''esp32s2'', ''esp32s3'', ''esp32c3'', ''esp32c6''})
        (UnsupportedArch (am_arch m))) (\<lambda>_.
     and_then (ensure (am_boards m \<noteq> []) NoBoards) (\<lambda>_.
     and_then (validate_boards None (am_boards m)) (\<lambda>_.
     and_then (ensure (am_destination m = expected_destination (am_type m) (am_id m))
        (WrongDestination (am_destination m) (expected_destination (am_type m) (am_id m)))) (\<lambda>_.
     and_then (ensure (\<not> (length (am_sha256 m) \<noteq> 64 \<or>
        \<not> list_all (\<lambda>c. is_hexdigit c \<and> \<not> is_upper c) (am_sha256 m))) BadSha256) (\<lambda>_.
     and_then (ensure (am_size m \<noteq> 0) ZeroSize) (\<lambda>_.
     ensure (\<not> (\<not> starts_with ''https://'' (am_url m) \<or> list_ex (\<lambda>c. code c \<le> 32) (am_url m))) BadUrl)))))))))"

section \<open>The canonical text\<close>

definition canonical_lines :: "artifact_manifest \<Rightarrow> string list" where
  "canonical_lines m =
     [MANIFEST_HEADER,
      ''type='' @ artifact_type_str (am_type m),
      ''id='' @ am_id m,
      ''version='' @ am_version m,
      ''security_version='' @ show_nat (unat (am_security_version m)),
      ''arch='' @ am_arch m,
      ''compatible_boards='' @ join '','' (am_boards m),
      ''destination='' @ am_destination m,
      ''sha256='' @ am_sha256 m,
      ''size='' @ show_nat (unat (am_size m)),
      ''url='' @ am_url m]"

definition canonical_bytes :: "artifact_manifest \<Rightarrow> string" where
  "canonical_bytes m = unlines (canonical_lines m)"

definition artifact_parse :: "string \<Rightarrow> artifact_error + artifact_manifest" where
  "artifact_parse canonical =
     (if \<not> ends_with [LF] canonical \<or> CR \<in> set canonical then Inl NotLfTerminated
      else
        (let ls = split_on LF (butlast canonical) in
         if length ls \<noteq> 11 \<or> ls ! 0 \<noteq> MANIFEST_HEADER then Inl BadHeader
         else
           and_then (and_then (field (ls ! 1) ''type'') artifact_type_parse) (\<lambda>t.
           and_then (field (ls ! 2) ''id'') (\<lambda>i.
           and_then (field (ls ! 3) ''version'') (\<lambda>v.
           and_then (and_then (field (ls ! 4) ''security_version'')
             (\<lambda>x. ok_or BadSecurityVersion (parse_uint 10 U32_MAX x))) (\<lambda>sv.
           and_then (field (ls ! 5) ''arch'') (\<lambda>arch.
           and_then (field (ls ! 6) ''compatible_boards'') (\<lambda>bs.
           and_then (field (ls ! 7) ''destination'') (\<lambda>dest.
           and_then (field (ls ! 8) ''sha256'') (\<lambda>sha.
           and_then (and_then (field (ls ! 9) ''size'')
             (\<lambda>x. ok_or BadSize (parse_uint 10 USIZE_MAX x))) (\<lambda>sz.
           and_then (field (ls ! 10) ''url'') (\<lambda>url.
             (let m = \<lparr>am_type = t, am_id = i, am_version = v, am_security_version = of_nat sv,
                       am_arch = arch, am_boards = split_on CHR '','' bs, am_destination = dest,
                       am_sha256 = sha, am_size = of_nat sz, am_url = url\<rparr> in
              and_then (validate_shape m) (\<lambda>_.
                if canonical_bytes m \<noteq> canonical then Inl NotCanonical else Inr m))))))))))))))"

definition validate_for_device :: "artifact_manifest \<Rightarrow> string \<Rightarrow> string \<Rightarrow> u32 \<Rightarrow> artifact_error + unit" where
  "validate_for_device m chip board minimum =
     and_then (validate_shape m) (\<lambda>_.
     and_then (ensure (am_arch m = chip) (ArchMismatch (am_arch m) chip)) (\<lambda>_.
     and_then (ensure (\<not> am_security_version m < minimum)
        (SecurityVersionTooLow (am_security_version m) minimum)) (\<lambda>_.
     and_then (ensure (list_ex (\<lambda>c. c = board) (am_boards m)) (NotForBoard board)) (\<lambda>_.
     ensure (\<not> (am_type m = Board \<and> am_id m \<noteq> board)) BoardIdentityMismatch))))"

section \<open>Printing and parsing\<close>

lemma validate_identifier_Inr:
  "validate_identifier v l = Inr () \<longleftrightarrow> v \<noteq> [] \<and> length v \<le> 64 \<and> hd v \<noteq> CHR ''.'' \<and> list_all identifier_char v"
  by (cases v) (auto simp: validate_identifier_def starts_with_iff)

lemma identifier_char_plain: "identifier_char c \<Longrightarrow> c \<noteq> CHR '','' \<and> c \<noteq> LF \<and> c \<noteq> CR \<and> c \<noteq> CHR ''/'' \<and> 32 < code c"
  by (auto simp: identifier_char_def char_class_defs char_defs)

lemma digit_plain: "is_digit c \<Longrightarrow> c \<noteq> LF \<and> c \<noteq> CR"
  by (auto simp: char_class_defs char_defs)

lemma validate_boards_Inr:
  "validate_boards p bs = Inr () \<longleftrightarrow>
     (\<forall>b\<in>set bs. validate_identifier b ''compatible board'' = Inr ()) \<and> sorted_wrt (<) bs \<and>
     (\<forall>v b. p = Some v \<longrightarrow> bs \<noteq> [] \<longrightarrow> v < hd bs)"
proof (induction bs arbitrary: p)
  case (Cons b bs)
  have "sorted_wrt (<) (b # bs) \<longleftrightarrow> sorted_wrt (<) bs \<and> (bs \<noteq> [] \<longrightarrow> b < hd bs)"
    by (cases bs) (auto intro: less_trans)
  then show ?case by (cases p) (auto simp: Cons.IH not_le)
qed simp

lemma validate_version_plain:
  assumes "validate_version v = Inr ()"
  shows "v \<noteq> [] \<and> (\<forall>c\<in>set v. c = CHR ''v'' \<or> c = CHR ''.'' \<or> is_digit c)"
proof -
  let ?n = "case strip_prefix ''v'' v of None \<Rightarrow> v | Some r \<Rightarrow> r"
  have v: "v = ?n \<or> v = CHR ''v'' # ?n" by (auto split: option.split simp del: strip_prefix.simps)
  have parts: "length (split_on CHR ''.'' ?n) = 3" "\<forall>p\<in>set (split_on CHR ''.'' ?n). list_all is_digit p"
    using assms by (auto simp: validate_version_def Let_def list_ex_iff simp del: strip_prefix.simps)
  from join_split_on [of "CHR ''.''" ?n] set_join [of _ "[CHR ''.'']" "split_on CHR ''.'' ?n"] parts(2)
  have "\<forall>c\<in>set ?n. c = CHR ''.'' \<or> is_digit c" by (auto simp: list_all_iff simp del: strip_prefix.simps)
  moreover have "?n \<noteq> []" using parts(1) by (auto simp del: strip_prefix.simps)
  ultimately show ?thesis using v by (metis list.discI set_ConsD)
qed

text \<open>What the shape gives for every field: it is not empty and has no line breaks.\<close>

definition plain :: "string \<Rightarrow> bool" where
  "plain s \<longleftrightarrow> LF \<notin> set s \<and> CR \<notin> set s"

lemma identifier_plain:
  "validate_identifier v l = Inr () \<Longrightarrow> v \<noteq> [] \<and> plain v \<and> CHR '','' \<notin> set v \<and> CHR ''/'' \<notin> set v"
  using identifier_char_plain by (auto simp: validate_identifier_Inr list_all_iff plain_def)

lemma version_plain:
  assumes "validate_version v = Inr ()"
  shows "v \<noteq> [] \<and> plain v"
proof -
  have "c \<noteq> LF \<and> c \<noteq> CR" if "c \<in> set v" for c
  proof -
    from validate_version_plain [OF assms] that have "c = CHR ''v'' \<or> c = CHR ''.'' \<or> is_digit c" by blast
    then show ?thesis by (elim disjE) (simp_all add: digit_plain, simp_all add: char_defs)
  qed
  with validate_version_plain [OF assms] show ?thesis by (auto simp: plain_def)
qed

lemma shape_facts:
  assumes "validate_shape m = Inr ()"
  shows "am_id m \<noteq> []" "plain (am_id m)" "am_version m \<noteq> []" "plain (am_version m)"
    "am_arch m \<noteq> []" "plain (am_arch m)" "am_boards m \<noteq> []"
    "\<forall>b\<in>set (am_boards m). b \<noteq> [] \<and> plain b \<and> CHR '','' \<notin> set b"
    "am_destination m = expected_destination (am_type m) (am_id m)"
    "am_sha256 m \<noteq> []" "plain (am_sha256 m)" "am_url m \<noteq> []" "plain (am_url m)"
proof -
  note [simp] = validate_shape_def
  from assms have i: "validate_identifier (am_id m) ''id'' = Inr ()"
    and bs: "validate_boards None (am_boards m) = Inr ()" and v: "validate_version (am_version m) = Inr ()"
    and sha: "length (am_sha256 m) = 64" "list_all (\<lambda>c. is_hexdigit c \<and> \<not> is_upper c) (am_sha256 m)"
    and url: "starts_with ''https://'' (am_url m)" "\<not> list_ex (\<lambda>c. code c \<le> 32) (am_url m)"
    and arch: "am_arch m \<in> {''esp32'', ''esp32s2'', ''esp32s3'', ''esp32c3'', ''esp32c6''}"
    by simp_all
  show "am_boards m \<noteq> []" "am_destination m = expected_destination (am_type m) (am_id m)" using assms by simp_all
  show "am_id m \<noteq> []" "plain (am_id m)"
    using i identifier_char_plain by (auto simp: validate_identifier_Inr list_all_iff plain_def)
  show "\<forall>b\<in>set (am_boards m). b \<noteq> [] \<and> plain b \<and> CHR '','' \<notin> set b"
    using conjunct1 [OF validate_boards_Inr [THEN iffD1, OF bs]] identifier_plain by metis
  show "am_version m \<noteq> []" "plain (am_version m)"
    using version_plain [OF v] by simp_all
  show "am_arch m \<noteq> []" "plain (am_arch m)" using arch by (auto simp: plain_def char_defs)
  show "am_sha256 m \<noteq> []" "plain (am_sha256 m)"
    using sha by (auto simp: list_all_iff plain_def char_class_defs char_defs)
  show "am_url m \<noteq> []" "plain (am_url m)"
    using url by (auto simp: list_ex_iff plain_def char_defs starts_with_iff)
qed

lemma plain_append [simp]: "plain (a @ b) \<longleftrightarrow> plain a \<and> plain b"
  by (auto simp: plain_def)

lemma plain_show_nat [simp]: "plain (show_nat n)"
  using show_nat_digits digit_plain by (auto simp: plain_def)

lemma plain_join: "\<forall>b\<in>set bs. plain b \<Longrightarrow> plain (join '','' bs)"
  using set_join [of _ "'',''" bs] by (auto simp: plain_def char_defs)

lemma plain_literals [simp]:
  "plain MANIFEST_HEADER" "plain (artifact_type_str t)"
  by (simp add: plain_def MANIFEST_HEADER_def char_defs) (cases t; simp add: plain_def char_defs)

lemma plain_destination: "plain i \<Longrightarrow> plain (expected_destination t i)"
  by (cases t) (auto simp: expected_destination_def plain_def char_defs)

lemma canonical_lines_plain:
  assumes "validate_shape m = Inr ()"
  shows "\<forall>l\<in>set (canonical_lines m). plain l"
proof -
  note f = shape_facts [OF assms]
  have "plain (join '','' (am_boards m))" using f(8) by (intro plain_join) blast
  moreover have "plain (am_destination m)" using f(2,9) plain_destination by simp
  moreover have "plain ''type=''" "plain ''id=''" "plain ''version=''" "plain ''security_version=''"
    "plain ''arch=''" "plain ''compatible_boards=''" "plain ''destination=''" "plain ''sha256=''"
    "plain ''size=''" "plain ''url=''"
    by (simp_all add: plain_def char_defs)
  ultimately show ?thesis using f by (simp add: canonical_lines_def del: append_Cons)
qed

lemma unlines_join: "ls \<noteq> [] \<Longrightarrow> unlines ls = join [LF] ls @ [LF]"
  by (induction "[LF]" ls rule: join.induct) (auto simp: unlines_def)

lemma canonical_split:
  assumes "validate_shape m = Inr ()"
  shows "split_on LF (butlast (canonical_bytes m)) = canonical_lines m"
    "ends_with [LF] (canonical_bytes m)" "CR \<notin> set (canonical_bytes m)"
proof -
  have ne: "canonical_lines m \<noteq> []" by (simp add: canonical_lines_def)
  note p = canonical_lines_plain [OF assms]
  show "split_on LF (butlast (canonical_bytes m)) = canonical_lines m"
    using split_on_join [OF ne, of LF] p by (simp add: canonical_bytes_def unlines_join [OF ne] plain_def)
  show "ends_with [LF] (canonical_bytes m)"
    by (simp add: canonical_bytes_def unlines_join [OF ne] ends_with_iff)
  show "CR \<notin> set (canonical_bytes m)"
    using p by (auto simp: canonical_bytes_def unlines_def plain_def char_defs)
qed

lemma field_append: "v \<noteq> [] \<Longrightarrow> field (name @ CHR ''='' # v) name = Inr v"
  by (simp add: field_def strip_prefix_Some del: strip_prefix.simps) simp

lemma artifact_type_parse_str: "artifact_type_parse (artifact_type_str t) = Inr t"
  by (cases t) (simp_all add: artifact_type_parse_def)

lemma artifact_type_str_ne: "artifact_type_str t \<noteq> []"
  by (cases t) simp_all

lemma artifact_parse_canonical_bytes:
  assumes "validate_shape m = Inr ()"
  shows "artifact_parse (canonical_bytes m) = Inr m"
proof -
  note f = shape_facts [OF assms]
  note c = canonical_split [OF assms]
  have i: "unat (am_security_version m) \<le> U32_MAX" "unat (am_size m) \<le> USIZE_MAX"
    using unsigned_less [of "am_security_version m", where 'a=nat] unsigned_less [of "am_size m", where 'a=nat]
    by (simp_all add: int_max_defs)
  have boards: "split_on CHR '','' (join '','' (am_boards m)) = am_boards m"
    using f(7,8) by (intro split_on_join) auto
  have ne: "join '','' (am_boards m) \<noteq> []" "am_destination m \<noteq> []"
    using f(7,8,9) by (cases "am_boards m" rule: remdups_adj.cases; simp) (cases "am_type m"; simp add: expected_destination_def f(9))
  note fields = field_append [of _ "''type''", simplified] field_append [of _ "''id''", simplified]
    field_append [of _ "''version''", simplified] field_append [of _ "''security_version''", simplified]
    field_append [of _ "''arch''", simplified] field_append [of _ "''compatible_boards''", simplified]
    field_append [of _ "''destination''", simplified] field_append [of _ "''sha256''", simplified]
    field_append [of _ "''size''", simplified] field_append [of _ "''url''", simplified]
  have eta: "\<lparr>am_type = am_type m, am_id = am_id m, am_version = am_version m, am_security_version = am_security_version m,
      am_arch = am_arch m, am_boards = am_boards m, am_destination = am_destination m, am_sha256 = am_sha256 m,
      am_size = am_size m, am_url = am_url m\<rparr> = m"
    by (cases m) simp
  show ?thesis
    by (simp add: artifact_parse_def c(1,2,3)) (simp add: canonical_lines_def Let_def fields f(1-8,10-13) ne boards
        artifact_type_str_ne artifact_type_parse_str parse_uint_show_nat i eta assms)
qed

lemma artifact_parse_sound: "artifact_parse s = Inr m \<Longrightarrow> validate_shape m = Inr () \<and> canonical_bytes m = s"
  by (auto simp: artifact_parse_def Let_def split: if_splits)

definition parsed :: "string \<Rightarrow> artifact_manifest option" where
  "parsed s = (case artifact_parse s of Inl _ \<Rightarrow> None | Inr m \<Rightarrow> Some m)"

interpretation artifact: canonical_codec canonical_bytes parsed "\<lambda>m. validate_shape m = Inr ()"
  by unfold_locales
    (auto simp: parsed_def artifact_parse_canonical_bytes dest: artifact_parse_sound split: sum.splits)

section \<open>Properties\<close>

text \<open>C5. The canonical text: the parser accepts exactly the texts that are the canonical bytes of a
  manifest of valid shape, and gives that manifest, so that distinct valid manifests have distinct
  signed bytes.\<close>

theorem artifact_parse_iff:
  "(artifact_parse s = Inr m \<longleftrightarrow> validate_shape m = Inr () \<and> s = canonical_bytes m) \<and>
   (validate_shape m = Inr () \<longrightarrow> validate_shape m' = Inr () \<longrightarrow> canonical_bytes m = canonical_bytes m' \<longrightarrow> m = m')"
proof -
  have "artifact_parse s = Inr m \<longleftrightarrow> parsed s = Some m" by (auto simp: parsed_def split: sum.split)
  then show ?thesis using artifact.dec_iff artifact.enc_inj by blast
qed

definition sample_manifest :: artifact_manifest where
  "sample_manifest = \<lparr>am_type = Board, am_id = ''tdeck'', am_version = ''v0.5.1'', am_security_version = 12,
     am_arch = ''esp32s3'', am_boards = [''tdeck'', ''tdeck-pro''], am_destination = ''config/boards/tdeck.json'',
     am_sha256 = replicate 64 CHR ''a'', am_size = 1024, am_url = ''https://x.example/t''\<rparr>"

lemma sample_shape: "validate_shape sample_manifest = Inr ()"
proof -
  have "validate_identifier ''tdeck'' l = Inr ()" "validate_identifier ''tdeck-pro'' l = Inr ()" for l
    by (simp_all add: validate_identifier_Inr identifier_char_def char_class_defs)
  moreover have "validate_version ''v0.5.1'' = Inr ()" by code_simp
  moreover have "''tdeck'' < ''tdeck-pro''" by simp
  ultimately show ?thesis
    by (simp add: validate_shape_def sample_manifest_def expected_destination_def char_class_defs starts_with_def
        list_all_iff)
qed

theorem artifact_parse_iff_witness: "artifact_parse (canonical_bytes sample_manifest) = Inr sample_manifest"
  using artifact_parse_iff [of "canonical_bytes sample_manifest" sample_manifest sample_manifest] sample_shape by simp

text \<open>The device's policy: a manifest is accepted exactly if its shape is valid, it is for the chip
  and lists the board, its security version is not below the minimum, and a board artifact names the
  board itself; a higher minimum never accepts more.\<close>

theorem artifact_device_policy:
  "(validate_for_device m chip board minimum = Inr () \<longleftrightarrow>
      validate_shape m = Inr () \<and> am_arch m = chip \<and> minimum \<le> am_security_version m \<and>
      board \<in> set (am_boards m) \<and> (am_type m = Board \<longrightarrow> am_id m = board))
   \<and> (validate_for_device m chip board minimum = Inr () \<longrightarrow> lower \<le> minimum \<longrightarrow>
       validate_for_device m chip board lower = Inr ())"
  by (auto simp: validate_for_device_def not_less list_ex_iff)

theorem artifact_device_policy_witness:
  "validate_for_device sample_manifest ''esp32s3'' ''tdeck'' 12 = Inr () \<and>
   validate_for_device sample_manifest ''esp32s3'' ''tdeck-pro'' 12 \<noteq> Inr ()"
  using artifact_device_policy [of sample_manifest "''esp32s3''" "''tdeck''" 12 12]
    artifact_device_policy [of sample_manifest "''esp32s3''" "''tdeck-pro''" 12 12] sample_shape
  by (simp add: sample_manifest_def)

end
