(* ===== verification/Base64.thy ===== *)
theory Base64
  imports Rust_Str
begin

text \<open>
  The Base64 coder of the message queue (\<open>kernel_rs/src/msg_queue.rs\<close>): three bytes become four
  characters of the standard alphabet. The 24 bits of a group are computed on naturals, as no value
  leaves the range of the source's \<open>u32\<close>.
\<close>

definition B64_CHARS :: string where
  "B64_CHARS = ''ABCDEFGHIJKLMNOPQRSTUVWXYZabcdefghijklmnopqrstuvwxyz0123456789+/''"

definition triple :: "nat \<Rightarrow> nat \<Rightarrow> nat \<Rightarrow> nat" where
  "triple b0 b1 b2 = push_bit 16 b0 OR push_bit 8 b1 OR b2"

definition sextet :: "nat \<Rightarrow> nat \<Rightarrow> char" where
  "sextet t k = B64_CHARS ! (drop_bit k t AND 0x3F)"

fun base64_encode :: "string \<Rightarrow> string" where
  "base64_encode [] = []"
| "base64_encode [x] =
     (let t = triple (code x) 0 0 in [sextet t 18, sextet t 12, CHR ''='', CHR ''=''])"
| "base64_encode [x, y] =
     (let t = triple (code x) (code y) 0 in [sextet t 18, sextet t 12, sextet t 6, CHR ''=''])"
| "base64_encode (x # y # z # r) =
     (let t = triple (code x) (code y) (code z)
      in [sextet t 18, sextet t 12, sextet t 6, sextet t 0] @ base64_encode r)"

definition base64_decode_char :: "char \<Rightarrow> nat option" where
  "base64_decode_char c =
     (if is_upper c then Some (code c - 65)
      else if is_lower c then Some (code c - 97 + 26)
      else if is_digit c then Some (code c - 48 + 52)
      else if c = CHR ''+'' then Some 62
      else if c = CHR ''/'' then Some 63
      else None)"

definition joined :: "nat \<Rightarrow> nat \<Rightarrow> nat \<Rightarrow> nat \<Rightarrow> nat" where
  "joined a b c d = push_bit 18 a OR push_bit 12 b OR push_bit 6 c OR d"

text \<open>\<open>as u8\<close> of a shifted group: \<open>char_of\<close> keeps the low eight bits.\<close>

definition octet :: "nat \<Rightarrow> nat \<Rightarrow> char" where
  "octet t k = char_of (drop_bit k t)"

fun decode_groups :: "string \<Rightarrow> string option" where
  "decode_groups [] = Some []"
| "decode_groups [p] =
     (case base64_decode_char p of None \<Rightarrow> None | Some a \<Rightarrow> Some [octet (joined a 0 0 0) 16])"
| "decode_groups [p, q] =
     (case (base64_decode_char p, base64_decode_char q) of
        (Some a, Some b) \<Rightarrow> Some [octet (joined a b 0 0) 16]
      | _ \<Rightarrow> None)"
| "decode_groups [p, q, r] =
     (case (base64_decode_char p, base64_decode_char q, base64_decode_char r) of
        (Some a, Some b, Some c) \<Rightarrow> (let t = joined a b c 0 in Some [octet t 16, octet t 8])
      | _ \<Rightarrow> None)"
| "decode_groups (p # q # r # s # rest) =
     (case (base64_decode_char p, base64_decode_char q, base64_decode_char r, base64_decode_char s) of
        (Some a, Some b, Some c, Some d) \<Rightarrow>
          (let t = joined a b c d
           in map_option (\<lambda>out. [octet t 16, octet t 8, octet t 0] @ out) (decode_groups rest))
      | _ \<Rightarrow> None)"

definition base64_decode :: "string \<Rightarrow> string option" where
  "base64_decode s = decode_groups (trim_end_matches CHR ''='' s)"

section \<open>Round trip\<close>

lemma decode_alphabet_map: "map base64_decode_char B64_CHARS = map Some [0..<64]"
  by (simp add: B64_CHARS_def base64_decode_char_def char_class_defs upt_conv_Cons)

lemma decode_alphabet: "i < 64 \<Longrightarrow> base64_decode_char (B64_CHARS ! i) = Some i"
proof -
  assume i: "i < 64"
  have "length B64_CHARS = 64" by (simp add: B64_CHARS_def)
  with i have "base64_decode_char (B64_CHARS ! i) = map base64_decode_char B64_CHARS ! i" by (simp del: nth_Cons)
  with i show ?thesis by (simp add: decode_alphabet_map)
qed

lemma sextet_less: "drop_bit k t AND 0x3F < (64 :: nat)"
  using take_bit_nat_less_exp [of 6 "drop_bit k t"] by (simp add: take_bit_eq_mask mask_eq_exp_minus_1)

lemma decode_sextet [simp]: "base64_decode_char (sextet t k) = Some (drop_bit k t AND 0x3F)"
  by (simp add: sextet_def decode_alphabet sextet_less)

lemma sextet_no_pad: "sextet t k \<noteq> CHR ''=''"
proof
  assume "sextet t k = CHR ''=''"
  moreover have "base64_decode_char CHR ''='' = None" by code_simp
  ultimately show False using decode_sextet [of t k] by simp
qed

lemma and_0x3F: "n AND 0x3F = take_bit 6 (n :: nat)"
  by (simp add: take_bit_eq_mask mask_eq_exp_minus_1)

lemma small_bits: "a < 2 ^ 8 \<Longrightarrow> bit a n \<Longrightarrow> n < 8" for a :: nat
  by (metis bit_take_bit_iff take_bit_nat_eq_self)

lemma code_bits: "bit (code c) n \<Longrightarrow> n < 8"
  by (rule small_bits) simp_all

lemma octetI: "(\<And>n. n < 8 \<Longrightarrow> bit t (k + n) \<longleftrightarrow> bit (code c) n) \<Longrightarrow> octet t k = c"
proof -
  assume "\<And>n. n < 8 \<Longrightarrow> bit t (k + n) \<longleftrightarrow> bit (code c) n"
  then have "take_bit 8 (drop_bit k t) = take_bit 8 (code c)"
    by (intro bit_eqI) (auto simp: bit_simps)
  then have "char_of (take_bit 8 (drop_bit k t)) = (char_of (take_bit 8 (code c)) :: char)" by simp
  then show ?thesis by (simp add: octet_def char_of_take_bit_eq)
qed

lemma triple_bits:
  "bit (triple (code x) (code y) (code z)) n \<longleftrightarrow>
     (if n < 8 then bit (code z) n else if n < 16 then bit (code y) (n - 8) else bit (code x) (n - 16))"
  using code_bits [of x "n - 16"] code_bits [of y "n - 8"] code_bits [of z n]
  by (auto simp: triple_def bit_simps not_less)

lemma joined_bits:
  "n < 24 \<Longrightarrow> bit (joined (drop_bit 18 t AND 0x3F) (drop_bit 12 t AND 0x3F) (drop_bit 6 t AND 0x3F) (drop_bit 0 t AND 0x3F)) n \<longleftrightarrow> bit t n"
  "12 \<le> n \<Longrightarrow> n < 24 \<Longrightarrow> bit (joined (drop_bit 18 t AND 0x3F) (drop_bit 12 t AND 0x3F) 0 0) n \<longleftrightarrow> bit t n"
  "6 \<le> n \<Longrightarrow> n < 24 \<Longrightarrow> bit (joined (drop_bit 18 t AND 0x3F) (drop_bit 12 t AND 0x3F) (drop_bit 6 t AND 0x3F) 0) n \<longleftrightarrow> bit t n"
  by (cases "n < 6"; cases "n < 12"; cases "n < 18"; auto simp: joined_def and_0x3F bit_simps not_less)+

lemma octet_joined:
  "octet (joined (drop_bit 18 t AND 0x3F) (drop_bit 12 t AND 0x3F) (drop_bit 6 t AND 0x3F) (drop_bit 0 t AND 0x3F)) 16 = octet t 16"
  "octet (joined (drop_bit 18 t AND 0x3F) (drop_bit 12 t AND 0x3F) (drop_bit 6 t AND 0x3F) (drop_bit 0 t AND 0x3F)) 8 = octet t 8"
  "octet (joined (drop_bit 18 t AND 0x3F) (drop_bit 12 t AND 0x3F) (drop_bit 6 t AND 0x3F) (drop_bit 0 t AND 0x3F)) 0 = octet t 0"
  "octet (joined (drop_bit 18 t AND 0x3F) (drop_bit 12 t AND 0x3F) (drop_bit 6 t AND 0x3F) 0) 16 = octet t 16"
  "octet (joined (drop_bit 18 t AND 0x3F) (drop_bit 12 t AND 0x3F) (drop_bit 6 t AND 0x3F) 0) 8 = octet t 8"
  "octet (joined (drop_bit 18 t AND 0x3F) (drop_bit 12 t AND 0x3F) 0 0) 16 = octet t 16"
proof -
  have eq: "octet u k = octet t k" if "\<And>n. n < 8 \<Longrightarrow> bit u (k + n) \<longleftrightarrow> bit t (k + n)" for u k
  proof -
    have "take_bit 8 (drop_bit k u) = take_bit 8 (drop_bit k t)"
      using that by (intro bit_eqI) (auto simp: bit_simps)
    then have "char_of (take_bit 8 (drop_bit k u)) = (char_of (take_bit 8 (drop_bit k t)) :: char)" by simp
    then show ?thesis by (simp add: octet_def char_of_take_bit_eq)
  qed
  show "octet (joined (drop_bit 18 t AND 0x3F) (drop_bit 12 t AND 0x3F) (drop_bit 6 t AND 0x3F) (drop_bit 0 t AND 0x3F)) 16 = octet t 16"
    "octet (joined (drop_bit 18 t AND 0x3F) (drop_bit 12 t AND 0x3F) (drop_bit 6 t AND 0x3F) (drop_bit 0 t AND 0x3F)) 8 = octet t 8"
    "octet (joined (drop_bit 18 t AND 0x3F) (drop_bit 12 t AND 0x3F) (drop_bit 6 t AND 0x3F) (drop_bit 0 t AND 0x3F)) 0 = octet t 0"
    by (rule eq, rule joined_bits, linarith)+
  show "octet (joined (drop_bit 18 t AND 0x3F) (drop_bit 12 t AND 0x3F) (drop_bit 6 t AND 0x3F) 0) 16 = octet t 16"
    "octet (joined (drop_bit 18 t AND 0x3F) (drop_bit 12 t AND 0x3F) (drop_bit 6 t AND 0x3F) 0) 8 = octet t 8"
    "octet (joined (drop_bit 18 t AND 0x3F) (drop_bit 12 t AND 0x3F) 0 0) 16 = octet t 16"
    by (rule eq, rule joined_bits, linarith, linarith)+
qed

lemma octet_triple:
  "octet (triple (code x) (code y) (code z)) 16 = x"
  "octet (triple (code x) (code y) (code z)) 8 = y"
  "octet (triple (code x) (code y) (code z)) 0 = z"
  "octet (triple (code x) (code y) 0) 16 = x" "octet (triple (code x) (code y) 0) 8 = y"
  "octet (triple (code x) 0 0) 16 = x"
  using triple_bits [of x y z] triple_bits [of x y NUL] triple_bits [of x NUL NUL]
  by (auto intro!: octetI simp: NUL_def)

text \<open>The encoded text without its padding.\<close>

fun unpadded :: "string \<Rightarrow> string" where
  "unpadded [] = []"
| "unpadded [x] = (let t = triple (code x) 0 0 in [sextet t 18, sextet t 12])"
| "unpadded [x, y] = (let t = triple (code x) (code y) 0 in [sextet t 18, sextet t 12, sextet t 6])"
| "unpadded (x # y # z # r) =
     (let t = triple (code x) (code y) (code z)
      in [sextet t 18, sextet t 12, sextet t 6, sextet t 0] @ unpadded r)"

lemma encode_padding: "\<exists>k. base64_encode s = unpadded s @ replicate k CHR ''=''"
proof (induction s rule: base64_encode.induct)
  case 1
  then show ?case by simp
next
  case (2 x)
  then show ?case by (intro exI [of _ 2]) (simp add: numeral_2_eq_2 Let_def)
next
  case (3 x y)
  then show ?case by (intro exI [of _ 1]) (simp add: Let_def)
next
  case (4 x y z r)
  then show ?case by (simp add: Let_def)
qed

lemma unpadded_no_pad: "CHR ''='' \<notin> set (unpadded s)"
  by (induction s rule: unpadded.induct) (auto simp: Let_def sextet_no_pad sextet_no_pad [THEN not_sym])

lemma decode_unpadded: "decode_groups (unpadded s) = Some s"
  by (induction s rule: unpadded.induct) (simp_all add: Let_def octet_joined octet_joined [simplified] octet_triple)

lemma decode_encode: "base64_decode (base64_encode s) = Some s"
proof -
  obtain k where k: "base64_encode s = unpadded s @ replicate k CHR ''=''" using encode_padding by blast
  have "unpadded s = [] \<or> last (unpadded s) \<noteq> CHR ''=''"
    using unpadded_no_pad [of s] last_in_set by metis
  then show ?thesis
    by (simp add: base64_decode_def k trim_end_matches_replicate decode_unpadded)
qed

interpretation b64: codec base64_encode base64_decode "\<lambda>_. True"
  by unfold_locales (rule decode_encode)

text \<open>The text is made of the alphabet and the padding, in groups of four.\<close>

definition b64_text_char :: "char \<Rightarrow> bool" where
  "b64_text_char c \<longleftrightarrow> is_alnum c \<or> c = CHR ''+'' \<or> c = CHR ''/'' \<or> c = CHR ''=''"

lemma sextet_text: "b64_text_char (sextet t k)"
  using decode_sextet [of t k]
  by (auto simp: base64_decode_char_def b64_text_char_def is_alnum_def split: if_splits)

lemma encode_text: "list_all b64_text_char (base64_encode s)"
  by (induction s rule: base64_encode.induct) (simp_all add: Let_def sextet_text, simp_all add: b64_text_char_def)

lemma b64_text_char_plain: "b64_text_char c \<Longrightarrow> c \<noteq> DQ \<and> c \<noteq> BSL \<and> c \<noteq> LF \<and> c \<noteq> CR \<and> c \<noteq> TAB \<and> c \<noteq> CHR ''{'' \<and> c \<noteq> CHR ''}''"
  by (auto simp: b64_text_char_def char_class_defs char_defs)

lemma encode_length: "length (base64_encode s) = (length s + 2) div 3 * 4"
  by (induction s rule: base64_encode.induct) (simp_all add: Let_def, presburger)

section \<open>Properties\<close>

text \<open>Every byte string is read back from its Base64 text; the text has four characters for every
  group of up to three bytes, all of them letters, digits, plus, slash or padding, so that no quote or
  backslash occurs in it.\<close>

theorem base64_roundtrip:
  "base64_decode (base64_encode s) = Some s \<and> length (base64_encode s) = (length s + 2) div 3 * 4 \<and>
   list_all b64_text_char (base64_encode s) \<and> DQ \<notin> set (base64_encode s) \<and> BSL \<notin> set (base64_encode s)"
proof -
  have "\<not> b64_text_char DQ" "\<not> b64_text_char BSL" by code_simp+
  then show ?thesis using encode_text [of s] by (auto simp: decode_encode encode_length list_all_iff)
qed

end
