(* ===== verification/Json_Lite.thy ===== *)
theory Json_Lite
  imports Rust_Str
begin

text \<open>
  The JSON helpers of the kernel, which search the text for a quoted key instead of parsing it: the
  copies in \<open>kernel_rs/src/msg_queue.rs\<close> and \<open>contact_manager.rs\<close>, whose strings may hold escaped
  quotes, and those of \<open>manifest.rs\<close>, whose strings end at the first quote. What a search finds is
  stated on the pieces of the text between its quotes.
\<close>

section \<open>Finding a key\<close>

definition quoted :: "string \<Rightarrow> string" where
  "quoted key = DQ # key @ [DQ]"

text \<open>The text after the first occurrence of a pattern.\<close>

definition after_pattern :: "string \<Rightarrow> string \<Rightarrow> string option" where
  "after_pattern p s = map_option (\<lambda>i. drop (i + length p) s) (find_sub p s)"

text \<open>The value that follows the key: white space, a colon and white space are skipped.\<close>

definition json_value :: "string \<Rightarrow> string \<Rightarrow> string option" where
  "json_value json key =
     Option.bind (after_pattern (quoted key) json) (\<lambda>after_key.
       map_option trim_start (strip_prefix '':'' (trim_start after_key)))"

section \<open>Helpers of the message queue and the contact manager\<close>

definition escape_char :: "char \<Rightarrow> string" where
  "escape_char c =
     (if c = DQ then [BSL, DQ] else if c = BSL then [BSL, BSL] else if c = LF then BSL # ''n''
      else if c = CR then BSL # ''r'' else if c = TAB then BSL # ''t'' else [c])"

definition json_escape :: "string \<Rightarrow> string" where
  "json_escape s = concat (map escape_char s)"

text \<open>The length of a string value: up to a quote without a backslash just before it.\<close>

fun string_end :: "char \<Rightarrow> string \<Rightarrow> nat option" where
  "string_end prev [] = None"
| "string_end prev (c # cs) = (if c = DQ \<and> prev \<noteq> BSL then Some 0 else map_option Suc (string_end c cs))"

definition json_get_string :: "string \<Rightarrow> string \<Rightarrow> string option" where
  "json_get_string json key =
     Option.bind (json_value json key) (\<lambda>v.
       if \<not> starts_with [DQ] v then None
       else map_option (\<lambda>n. take n (tl v)) (string_end NUL (tl v)))"

definition int_char :: "char \<Rightarrow> bool" where
  "int_char c \<longleftrightarrow> is_digit c \<or> c = CHR ''-''"

definition json_get_int :: "string \<Rightarrow> string \<Rightarrow> int option" where
  "json_get_int json key = Option.bind (json_value json key) (\<lambda>v. parse_int 64 (takeWhile int_char v))"

definition json_get_bool :: "string \<Rightarrow> string \<Rightarrow> bool option" where
  "json_get_bool json key =
     Option.bind (json_value json key) (\<lambda>v.
       if starts_with ''true'' v then Some True else if starts_with ''false'' v then Some False else None)"

text \<open>The objects of an array: braces are counted outside strings.\<close>

fun scan_objects :: "string \<Rightarrow> nat \<Rightarrow> int \<Rightarrow> bool \<Rightarrow> bool \<Rightarrow> nat option \<Rightarrow> string \<Rightarrow> string list" where
  "scan_objects inner i depth in_string escape start [] = []"
| "scan_objects inner i depth in_string escape start (c # cs) =
     (if escape then scan_objects inner (Suc i) depth in_string False start cs
      else if c = BSL \<and> in_string then scan_objects inner (Suc i) depth in_string True start cs
      else if c = DQ then scan_objects inner (Suc i) depth (\<not> in_string) escape start cs
      else if in_string then scan_objects inner (Suc i) depth in_string escape start cs
      else if c = CHR ''{'' then
        scan_objects inner (Suc i) (depth + 1) in_string escape (if depth = 0 then Some i else start) cs
      else if c = CHR ''}'' then
        (case start of
           Some st \<Rightarrow>
             if depth - 1 = 0
             then take (Suc i - st) (drop st inner) # scan_objects inner (Suc i) (depth - 1) in_string escape None cs
             else scan_objects inner (Suc i) (depth - 1) in_string escape start cs
         | None \<Rightarrow> scan_objects inner (Suc i) (depth - 1) in_string escape start cs)
      else scan_objects inner (Suc i) depth in_string escape start cs)"

definition json_split_array :: "string \<Rightarrow> string list" where
  "json_split_array json =
     (let trimmed = trim json in
      if \<not> starts_with ''['' trimmed \<or> \<not> ends_with '']'' trimmed then []
      else (let inner = butlast (tl trimmed) in scan_objects inner 0 0 False False None inner))"

section \<open>Searching by the pieces between quotes\<close>

fun seg_after :: "string \<Rightarrow> string list \<Rightarrow> string option" where
  "seg_after key [] = None"
| "seg_after key (x # xs) = (if x = key \<and> xs \<noteq> [] then Some (join [DQ] xs) else seg_after key xs)"

lemma after_pattern_Nil: "after_pattern (quoted key) [] = None"
  by (simp add: after_pattern_def quoted_def)

lemma after_pattern_skip: "c \<noteq> DQ \<Longrightarrow> after_pattern (quoted key) (c # s) = after_pattern (quoted key) s"
  by (cases "find_sub (quoted key) s") (simp_all add: after_pattern_def quoted_def starts_with_def)

lemma after_pattern_quote:
  "after_pattern (quoted key) (DQ # s) =
     (case strip_prefix (key @ [DQ]) s of Some r \<Rightarrow> Some r | None \<Rightarrow> after_pattern (quoted key) s)"
proof (cases "strip_prefix (key @ [DQ]) s")
  case None
  then show ?thesis
    by (cases "find_sub (quoted key) s") (simp_all add: after_pattern_def quoted_def starts_with_def)
next
  case (Some r)
  then have s: "s = (key @ [DQ]) @ r" by simp
  have "starts_with (quoted key) (DQ # s)" by (simp add: starts_with_def quoted_def Some)
  then have "find_sub (quoted key) (DQ # s) = Some 0" by simp
  then have "after_pattern (quoted key) (DQ # s) = Some (drop (length (quoted key)) (DQ # s))"
    by (simp only: after_pattern_def option.map add_0)
  moreover have "drop (length (quoted key)) (DQ # s) = r" by (simp add: s quoted_def)
  ultimately show ?thesis by (simp only: Some option.case)
qed

lemma strip_quoted:
  assumes "DQ \<notin> set key" "DQ \<notin> set x"
  shows "strip_prefix (key @ [DQ]) (x @ DQ # r) = (if x = key then Some r else None)"
    "strip_prefix (key @ [DQ]) x = None"
proof -
  have "r' = r \<and> x = key" if "x @ DQ # r = key @ DQ # r'" for r'
  proof -
    from that have "split_once DQ (x @ DQ # r) = split_once DQ (key @ DQ # r')" by (rule arg_cong)
    then show ?thesis
      unfolding split_once_append [OF assms(1)] split_once_append [OF assms(2)] by simp
  qed
  then have "strip_prefix (key @ [DQ]) (x @ DQ # r) = Some r' \<Longrightarrow> r' = r \<and> x = key" for r' by simp
  moreover have "strip_prefix (key @ [DQ]) (key @ DQ # r) = Some r" by simp
  ultimately show "strip_prefix (key @ [DQ]) (x @ DQ # r) = (if x = key then Some r else None)"
    by (metis not_None_eq)
  show "strip_prefix (key @ [DQ]) x = None"
    using assms(2) by (cases "strip_prefix (key @ [DQ]) x") auto
qed

lemma after_pattern_plain: "DQ \<notin> set a \<Longrightarrow> after_pattern (quoted key) (a @ s) = after_pattern (quoted key) s"
  by (induction a) (auto simp: after_pattern_skip)

lemma after_pattern_join:
  assumes "DQ \<notin> set key"
  shows "\<forall>x\<in>set segs. DQ \<notin> set x \<Longrightarrow> segs \<noteq> [] \<Longrightarrow>
    after_pattern (quoted key) (DQ # join [DQ] segs) = seg_after key segs"
proof (induction segs)
  case (Cons x xs)
  show ?case
  proof (cases xs)
    case Nil
    with Cons.prems show ?thesis
      using after_pattern_plain [of x key "[]"]
      by (simp add: after_pattern_quote strip_quoted [OF assms] after_pattern_Nil)
  next
    case (Cons y ys)
    then have j: "join [DQ] (x # xs) = x @ DQ # join [DQ] xs" by simp
    show ?thesis
      using Cons.IH Cons.prems Cons after_pattern_plain [of x key "DQ # join [DQ] xs"]
      unfolding j seg_after.simps after_pattern_quote [of key "x @ DQ # join [DQ] xs"]
      by (simp add: strip_quoted [OF assms] del: join.simps)
  qed
qed simp

text \<open>The value of a key is found after the first piece that is the key.\<close>

lemma after_pattern_segs:
  assumes "DQ \<notin> set key"
  shows "after_pattern (quoted key) s = seg_after key (tl (split_on DQ s))"
proof -
  obtain x xs where x: "split_on DQ s = x # xs" by (cases "split_on DQ s") auto
  then have s: "s = join [DQ] (x # xs)" using join_split_on [of DQ s] by simp
  have dq: "\<forall>y\<in>set (x # xs). DQ \<notin> set y" using split_on_parts [of _ DQ s] x by auto
  show ?thesis
  proof (cases xs)
    case Nil
    with s dq show ?thesis using after_pattern_plain [of x key "[]"] by (simp add: x after_pattern_Nil split_on_none)
  next
    case (Cons y ys)
    then have "s = x @ DQ # join [DQ] xs" using s by simp
    then have "after_pattern (quoted key) s = seg_after key xs"
      using after_pattern_join [OF assms, of xs] after_pattern_plain [of x key "DQ # join [DQ] xs"] dq Cons
      by (simp del: join.simps)
    then show ?thesis by (simp add: x)
  qed
qed

section \<open>Values\<close>

lemma trim_start_plain: "not_ws_byte c \<Longrightarrow> trim_start (c # s) = c # s"
  by (rule trim_start_id)

lemma json_value_colon:
  assumes "after_pattern (quoted key) json = Some (CHR '':'' # c # r)" "not_ws_byte c"
  shows "json_value json key = Some (c # r)"
proof -
  have "not_ws_byte CHR '':''" by (simp add: not_ws_byte_def)
  with assms show ?thesis by (simp add: json_value_def trim_start_id)
qed

lemma string_end_plain: "DQ \<notin> set s \<Longrightarrow> BSL \<notin> set s \<Longrightarrow> prev \<noteq> BSL \<Longrightarrow> string_end prev (s @ DQ # r) = Some (length s)"
  by (induction s arbitrary: prev) auto

lemma json_get_string_plain:
  assumes "after_pattern (quoted key) json = Some (CHR '':'' # DQ # s @ DQ # r)" "DQ \<notin> set s" "BSL \<notin> set s"
  shows "json_get_string json key = Some s"
proof -
  have "not_ws_byte DQ" by (simp add: not_ws_byte_def DQ_def)
  from json_value_colon [OF assms(1) this] have "json_value json key = Some (DQ # s @ DQ # r)" .
  moreover have "NUL \<noteq> BSL" by (simp add: char_defs)
  ultimately show ?thesis using assms(2,3) by (simp add: json_get_string_def starts_with_def string_end_plain)
qed

lemma show_nat_plain: "c \<in> set (show_nat n) \<Longrightarrow> not_ws_byte c \<and> int_char c \<and> c \<noteq> DQ \<and> c \<noteq> BSL \<and> c \<noteq> CHR ''{'' \<and> c \<noteq> CHR ''}''"
  using show_nat_digits [of c n] by (auto simp: not_ws_byte_def int_char_def is_digit_def char_defs)

lemma json_get_int_show_nat:
  assumes "after_pattern (quoted key) json = Some (CHR '':'' # show_nat n @ r)" "r = [] \<or> \<not> int_char (hd r)" "n < 2 ^ 63"
  shows "json_get_int json key = Some (int n)"
proof -
  obtain c cs where c: "show_nat n = c # cs" using show_nat_head by blast
  then have "not_ws_byte c" using show_nat_plain [of c n] by simp
  with assms(1) have "json_value json key = Some (show_nat n @ r)"
    using json_value_colon [of key json c "cs @ r"] by (simp add: c)
  moreover have "takeWhile int_char (show_nat n @ r) = show_nat n"
    using assms(2) show_nat_plain [of _ n] by (cases r) (auto simp: takeWhile_append takeWhile_eq_all_conv)
  ultimately show ?thesis using assms(3) by (simp add: json_get_int_def parse_int_show_nat)
qed

end
