(* ===== verification/Msg_Queue.thy ===== *)
theory Msg_Queue
  imports Base64 Json_Lite
begin

text \<open>
  The store-and-forward queue of outbound messages (\<open>kernel_rs/src/msg_queue.rs\<close>). Time stamps and
  counters are words, since the release build wraps on overflow. The file system is an input of
  \<open>load_from_disk\<close> (what reading the file gave) and an output of \<open>save_to_disk\<close> (what is written). The
  mutex around the singleton is never poisoned, as no operation panics while it holds the lock.
\<close>

section \<open>Constants and data\<close>

definition MAX_QUEUE_SIZE :: nat where "MAX_QUEUE_SIZE = 64"
definition DEFAULT_MAX_RETRIES :: u32 where "DEFAULT_MAX_RETRIES = 10"
definition DEFAULT_TTL_MS :: u64 where "DEFAULT_TTL_MS = 3600000"
definition BASE_RETRY_MS :: u64 where "BASE_RETRY_MS = 5000"
definition MAX_RETRY_MS :: u64 where "MAX_RETRY_MS = 300000"
definition BACKOFF_MULTIPLIER :: u64 where "BACKOFF_MULTIPLIER = 2"

datatype msg_priority = PrioNormal | PrioHigh | PrioUrgent

fun priority_u8 :: "msg_priority \<Rightarrow> u8" where
  "priority_u8 PrioNormal = 0"
| "priority_u8 PrioHigh = 1"
| "priority_u8 PrioUrgent = 2"

definition priority_from_u8 :: "u8 \<Rightarrow> msg_priority option" where
  "priority_from_u8 v =
     (if v = 0 then Some PrioNormal else if v = 1 then Some PrioHigh else if v = 2 then Some PrioUrgent else None)"

datatype msg_status = Pending | Retrying | Sent | Expired | Failed | Cancelled

fun status_u8 :: "msg_status \<Rightarrow> u8" where
  "status_u8 Pending = 0"
| "status_u8 Retrying = 1"
| "status_u8 Sent = 2"
| "status_u8 Expired = 3"
| "status_u8 Failed = 4"
| "status_u8 Cancelled = 5"

definition status_from_u8 :: "u8 \<Rightarrow> msg_status option" where
  "status_from_u8 v =
     (if v = 0 then Some Pending else if v = 1 then Some Retrying else if v = 2 then Some Sent
      else if v = 3 then Some Expired else if v = 4 then Some Failed else if v = 5 then Some Cancelled else None)"

record queued_message =
  qm_id :: u32
  qm_transport :: u8
  qm_dest :: string
  qm_dest_len :: nat
  qm_payload :: string
  qm_payload_len :: nat
  qm_priority :: msg_priority
  qm_created_at :: u64
  qm_next_retry_at :: u64
  qm_retry_count :: u32
  qm_max_retries :: u32
  qm_ttl_ms :: u64
  qm_status :: msg_status

definition queued_message_new :: "u32 \<Rightarrow> u8 \<Rightarrow> queued_message" where
  "queued_message_new i t =
     \<lparr>qm_id = i, qm_transport = t, qm_dest = replicate 32 NUL, qm_dest_len = 0,
      qm_payload = replicate 256 NUL, qm_payload_len = 0, qm_priority = PrioNormal, qm_created_at = 0,
      qm_next_retry_at = 0, qm_retry_count = 0, qm_max_retries = DEFAULT_MAX_RETRIES,
      qm_ttl_ms = DEFAULT_TTL_MS, qm_status = Pending\<rparr>"

definition is_active :: "queued_message \<Rightarrow> bool" where
  "is_active m \<longleftrightarrow> qm_status m = Pending \<or> qm_status m = Retrying"

definition is_ready :: "queued_message \<Rightarrow> u64 \<Rightarrow> bool" where
  "is_ready m now_ms \<longleftrightarrow> is_active m \<and> qm_next_retry_at m \<le> now_ms"

text \<open>\<open>arr[..len].copy_from_slice(bytes)\<close> with as many bytes as asked for.\<close>

definition copy_into :: "string \<Rightarrow> string \<Rightarrow> string" where
  "copy_into bytes arr = bytes @ drop (length bytes) arr"

section \<open>One message as JSON\<close>

definition queued_message_to_json :: "queued_message \<Rightarrow> string" where
  "queued_message_to_json m =
     (let payload_b64 = base64_encode (take (qm_payload_len m) (qm_payload m));
          dest_str = (if 0 < qm_dest_len m then base64_encode (take (qm_dest_len m) (qm_dest m)) else []) in
      ''{'' @ quoted ''id'' @ '':'' @ show_nat (unat (qm_id m)) @
      '','' @ quoted ''transport'' @ '':'' @ show_nat (unat (qm_transport m)) @
      '','' @ quoted ''dest'' @ '':'' @ quoted (json_escape dest_str) @
      '','' @ quoted ''payload'' @ '':'' @ quoted (json_escape payload_b64) @
      '','' @ quoted ''priority'' @ '':'' @ show_nat (unat (priority_u8 (qm_priority m))) @
      '','' @ quoted ''created_at'' @ '':'' @ show_nat (unat (qm_created_at m)) @
      '','' @ quoted ''next_retry_at'' @ '':'' @ show_nat (unat (qm_next_retry_at m)) @
      '','' @ quoted ''retry_count'' @ '':'' @ show_nat (unat (qm_retry_count m)) @
      '','' @ quoted ''max_retries'' @ '':'' @ show_nat (unat (qm_max_retries m)) @
      '','' @ quoted ''ttl_ms'' @ '':'' @ show_nat (unat (qm_ttl_ms m)) @
      '','' @ quoted ''status'' @ '':'' @ show_nat (unat (status_u8 (qm_status m))) @ ''}'')"

text \<open>The bytes of a Base64 field, when it is there, not empty and well formed.\<close>

definition decoded_field :: "string \<Rightarrow> string \<Rightarrow> string option" where
  "decoded_field json key =
     Option.bind (json_get_string json key) (\<lambda>v. if v = [] then None else base64_decode v)"

definition queued_message_from_json :: "string \<Rightarrow> queued_message option" where
  "queued_message_from_json json =
     Option.bind (json_get_int json ''id'') (\<lambda>i.
     Option.bind (json_get_int json ''transport'') (\<lambda>t.
       (let m = (queued_message_new (word_of_int i) (word_of_int t))
              \<lparr>qm_priority := unwrap_or PrioNormal (priority_from_u8 (word_of_int (unwrap_or 0 (json_get_int json ''priority'')))),
               qm_created_at := word_of_int (unwrap_or 0 (json_get_int json ''created_at'')),
               qm_next_retry_at := word_of_int (unwrap_or 0 (json_get_int json ''next_retry_at'')),
               qm_retry_count := word_of_int (unwrap_or 0 (json_get_int json ''retry_count'')),
               qm_max_retries := word_of_int (unwrap_or (uint DEFAULT_MAX_RETRIES) (json_get_int json ''max_retries'')),
               qm_ttl_ms := word_of_int (unwrap_or (uint DEFAULT_TTL_MS) (json_get_int json ''ttl_ms'')),
               qm_status := unwrap_or Pending (status_from_u8 (word_of_int (unwrap_or 0 (json_get_int json ''status''))))\<rparr>;
            m1 = (case decoded_field json ''dest'' of
                    None \<Rightarrow> m
                  | Some d \<Rightarrow> (let len = min (length d) 32 in
                      m\<lparr>qm_dest := copy_into (take len d) (qm_dest m), qm_dest_len := len\<rparr>))
        in Some (case decoded_field json ''payload'' of
                   None \<Rightarrow> m1
                 | Some d \<Rightarrow> (let len = min (length d) 256 in
                     m1\<lparr>qm_payload := copy_into (take len d) (qm_payload m1), qm_payload_len := len\<rparr>)))))"

section \<open>The queue\<close>

record msg_queue =
  mq_messages :: "queued_message list"
  mq_next_id :: u32
  mq_initialized :: bool
  mq_default_max_retries :: u32
  mq_default_ttl_ms :: u64

definition msg_queue_new :: msg_queue where
  "msg_queue_new = \<lparr>mq_messages = [], mq_next_id = 1, mq_initialized = False,
     mq_default_max_retries = DEFAULT_MAX_RETRIES, mq_default_ttl_ms = DEFAULT_TTL_MS\<rparr>"

text \<open>The load loop: \<open>file\<close> is what \<open>read_to_string\<close> gave.\<close>

definition load_entry :: "string \<Rightarrow> msg_queue \<Rightarrow> msg_queue" where
  "load_entry entry q =
     (case queued_message_from_json entry of
        None \<Rightarrow> q
      | Some m \<Rightarrow> q\<lparr>mq_next_id := (if mq_next_id q \<le> qm_id m then qm_id m + 1 else mq_next_id q),
                   mq_messages := mq_messages q @ [m]\<rparr>)"

definition load_from_disk :: "string option \<Rightarrow> msg_queue \<Rightarrow> msg_queue" where
  "load_from_disk file q =
     (case file of None \<Rightarrow> q | Some json \<Rightarrow> fold load_entry (json_split_array json) q)"

definition msg_queue_init :: "string option \<Rightarrow> msg_queue \<Rightarrow> int \<times> msg_queue" where
  "msg_queue_init file q =
     (if mq_initialized q then (ESP_OK, q)
      else (ESP_OK, (load_from_disk file q)\<lparr>mq_initialized := True\<rparr>))"

definition queue_json :: "queued_message list \<Rightarrow> string" where
  "queue_json ms = ''['' @ [LF] @ join ('','' @ [LF]) (map (\<lambda>m. ''  '' @ queued_message_to_json m) ms) @ [LF] @ '']''"

text \<open>The code returned and the text written, if any; \<open>write_ok\<close> is the outcome of \<open>fs::write\<close>.\<close>

definition save_to_disk :: "bool \<Rightarrow> msg_queue \<Rightarrow> int \<times> string option" where
  "save_to_disk write_ok q =
     (if \<not> mq_initialized q then (ESP_ERR_INVALID_STATE, None)
      else if write_ok then (ESP_OK, Some (queue_json (mq_messages q)))
      else (ESP_ERR_INVALID_STATE, None))"

definition active_count :: "msg_queue \<Rightarrow> nat" where
  "active_count q = length (filter is_active (mq_messages q))"

definition as_i32 :: "nat \<Rightarrow> int" where
  "as_i32 n = sint (of_nat n :: u32)"

definition enqueue :: "u8 \<Rightarrow> string \<Rightarrow> string \<Rightarrow> msg_priority \<Rightarrow> u64 \<Rightarrow> msg_queue \<Rightarrow> int \<times> msg_queue" where
  "enqueue transport dest payload priority now_ms q =
     (if 3 < transport then (ESP_ERR_INVALID_ARG, q)
      else if payload = [] \<or> 256 < length payload then (ESP_ERR_INVALID_ARG, q)
      else if 32 < length dest then (ESP_ERR_INVALID_ARG, q)
      else if MAX_QUEUE_SIZE \<le> active_count q then (ESP_ERR_NO_MEM, q)
      else
        (let i = mq_next_id q; fresh = queued_message_new i transport;
             dest_len = min (length dest) 32; payload_len = min (length payload) 256;
             m = fresh\<lparr>qm_dest := copy_into (take dest_len dest) (qm_dest fresh), qm_dest_len := dest_len,
                   qm_payload := copy_into (take payload_len payload) (qm_payload fresh),
                   qm_payload_len := payload_len, qm_priority := priority, qm_created_at := now_ms,
                   qm_next_retry_at := now_ms, qm_max_retries := mq_default_max_retries q,
                   qm_ttl_ms := mq_default_ttl_ms q, qm_status := Pending\<rparr>
         in (sint i, q\<lparr>mq_next_id := i + 1, mq_messages := mq_messages q @ [m]\<rparr>)))"

abbreviation has_id :: "u32 \<Rightarrow> queued_message \<Rightarrow> bool" where
  "has_id i m \<equiv> qm_id m = i"

definition cancel_message :: "queued_message \<Rightarrow> queued_message" where
  "cancel_message m = (if is_active m then m\<lparr>qm_status := Cancelled\<rparr> else m)"

definition cancel :: "u32 \<Rightarrow> msg_queue \<Rightarrow> int \<times> msg_queue" where
  "cancel i q =
     (case update_first (has_id i) cancel_message (mq_messages q) of
        None \<Rightarrow> (ESP_ERR_NOT_FOUND, q)
      | Some ms \<Rightarrow> (ESP_OK, q\<lparr>mq_messages := ms\<rparr>))"

definition cancel_all :: "msg_queue \<Rightarrow> int \<times> msg_queue" where
  "cancel_all q = (ESP_OK, q\<lparr>mq_messages := map cancel_message (mq_messages q)\<rparr>)"

text \<open>One round of the tick loop: the message afterwards, and whether it counts as ready.\<close>

definition tick_message :: "u64 \<Rightarrow> queued_message \<Rightarrow> queued_message \<times> bool" where
  "tick_message now_ms m =
     (if \<not> is_active m then (m, False)
      else if 0 < qm_ttl_ms m \<and> qm_created_at m + qm_ttl_ms m \<le> now_ms then (m\<lparr>qm_status := Expired\<rparr>, False)
      else if 0 < qm_max_retries m \<and> qm_max_retries m \<le> qm_retry_count m then (m\<lparr>qm_status := Failed\<rparr>, False)
      else (m, qm_next_retry_at m \<le> now_ms))"

definition queue_tick :: "u64 \<Rightarrow> msg_queue \<Rightarrow> int \<times> msg_queue" where
  "queue_tick now_ms q =
     (as_i32 (length (filter (snd \<circ> tick_message now_ms) (mq_messages q))),
      q\<lparr>mq_messages := map (fst \<circ> tick_message now_ms) (mq_messages q)\<rparr>)"

record msg_info =
  mi_id :: u32
  mi_transport :: u8
  mi_dest :: string
  mi_dest_len :: u8
  mi_payload_len :: u16
  mi_priority :: u8
  mi_retry_count :: u32
  mi_max_retries :: u32
  mi_status :: u8
  mi_ttl_ms :: u64

definition msg_to_c_info :: "queued_message \<Rightarrow> msg_info" where
  "msg_to_c_info m =
     \<lparr>mi_id = qm_id m, mi_transport = qm_transport m, mi_dest = qm_dest m, mi_dest_len = of_nat (qm_dest_len m),
      mi_payload_len = of_nat (qm_payload_len m), mi_priority = priority_u8 (qm_priority m),
      mi_retry_count = qm_retry_count m, mi_max_retries = qm_max_retries m,
      mi_status = status_u8 (qm_status m), mi_ttl_ms = qm_ttl_ms m\<rparr>"

text \<open>\<open>sort_by\<close> is stable, as is \<open>sort_key\<close>; \<open>out_len\<close> is the length of the caller's buffer.\<close>

definition by_priority :: "queued_message list \<Rightarrow> queued_message list" where
  "by_priority = sort_key (\<lambda>m. 2 - unat (priority_u8 (qm_priority m)))"

definition get_ready :: "nat \<Rightarrow> u64 \<Rightarrow> msg_queue \<Rightarrow> int \<times> msg_info list" where
  "get_ready out_len now_ms q =
     (let ready = by_priority (filter (\<lambda>m. is_ready m now_ms) (mq_messages q));
          count = min (length ready) out_len
      in (as_i32 count, map msg_to_c_info (take count ready)))"

definition get_payload :: "u32 \<Rightarrow> nat \<Rightarrow> msg_queue \<Rightarrow> int \<times> string" where
  "get_payload i out_len q =
     (case find (has_id i) (mq_messages q) of
        None \<Rightarrow> (ESP_ERR_NOT_FOUND, [])
      | Some m \<Rightarrow> (let len = min (qm_payload_len m) out_len in (as_i32 len, take len (qm_payload m))))"

definition mark_sent :: "u32 \<Rightarrow> msg_queue \<Rightarrow> int \<times> msg_queue" where
  "mark_sent i q =
     (case update_first (has_id i) (\<lambda>m. m\<lparr>qm_status := Sent\<rparr>) (mq_messages q) of
        None \<Rightarrow> (ESP_ERR_NOT_FOUND, q)
      | Some ms \<Rightarrow> (ESP_OK, q\<lparr>mq_messages := ms\<rparr>))"

fun backoff_loop :: "nat \<Rightarrow> u64 \<Rightarrow> u64" where
  "backoff_loop 0 delay = min delay MAX_RETRY_MS"
| "backoff_loop (Suc n) delay =
     (let delay' = sat_mul delay BACKOFF_MULTIPLIER in
      if MAX_RETRY_MS \<le> delay' then MAX_RETRY_MS else backoff_loop n delay')"

definition calculate_backoff :: "u32 \<Rightarrow> u64" where
  "calculate_backoff retry_count = backoff_loop (unat retry_count) BASE_RETRY_MS"

definition fail_message :: "u64 \<Rightarrow> queued_message \<Rightarrow> queued_message" where
  "fail_message now_ms m =
     (let n = qm_retry_count m + 1 in
      m\<lparr>qm_retry_count := n, qm_status := Retrying,
        qm_next_retry_at := sat_add now_ms (calculate_backoff n)\<rparr>)"

definition mark_failed :: "u32 \<Rightarrow> u64 \<Rightarrow> msg_queue \<Rightarrow> int \<times> msg_queue" where
  "mark_failed i now_ms q =
     (case find (has_id i) (mq_messages q) of
        None \<Rightarrow> (ESP_ERR_NOT_FOUND, q)
      | Some m \<Rightarrow>
          if \<not> is_active m then (ESP_ERR_INVALID_STATE, q)
          else (case update_first (has_id i) (fail_message now_ms) (mq_messages q) of
                  None \<Rightarrow> (ESP_ERR_NOT_FOUND, q)
                | Some ms \<Rightarrow> (ESP_OK, q\<lparr>mq_messages := ms\<rparr>)))"

definition get_count :: "msg_queue \<Rightarrow> int" where
  "get_count q = as_i32 (active_count q)"

definition get_info :: "u32 \<Rightarrow> msg_queue \<Rightarrow> msg_info option" where
  "get_info i q = map_option msg_to_c_info (find (has_id i) (mq_messages q))"

record queue_stats =
  st_total_queued :: u32
  st_pending :: u32
  st_retrying :: u32
  st_sent :: u32
  st_expired :: u32
  st_failed :: u32
  st_total_retries :: u32

definition count_message :: "queued_message \<Rightarrow> queue_stats \<Rightarrow> queue_stats" where
  "count_message m s =
     (let s' = (case qm_status m of
         Pending \<Rightarrow> s\<lparr>st_pending := st_pending s + 1\<rparr>
       | Retrying \<Rightarrow> s\<lparr>st_retrying := st_retrying s + 1\<rparr>
       | Sent \<Rightarrow> s\<lparr>st_sent := st_sent s + 1\<rparr>
       | Expired \<Rightarrow> s\<lparr>st_expired := st_expired s + 1\<rparr>
       | Failed \<Rightarrow> s\<lparr>st_failed := st_failed s + 1\<rparr>
       | Cancelled \<Rightarrow> s)
      in s'\<lparr>st_total_retries := st_total_retries s' + qm_retry_count m\<rparr>)"

definition get_stats :: "msg_queue \<Rightarrow> queue_stats" where
  "get_stats q =
     fold count_message (mq_messages q)
       \<lparr>st_total_queued = of_nat (length (mq_messages q)), st_pending = 0, st_retrying = 0, st_sent = 0,
        st_expired = 0, st_failed = 0, st_total_retries = 0\<rparr>"

definition set_defaults :: "u32 \<Rightarrow> u64 \<Rightarrow> msg_queue \<Rightarrow> int \<times> msg_queue" where
  "set_defaults max_retries ttl_ms q =
     (ESP_OK, q\<lparr>mq_default_max_retries := max_retries, mq_default_ttl_ms := ttl_ms\<rparr>)"

definition purge_completed :: "msg_queue \<Rightarrow> int \<times> msg_queue" where
  "purge_completed q =
     (let kept = filter is_active (mq_messages q)
      in (as_i32 (length (mq_messages q) - length kept), q\<lparr>mq_messages := kept\<rparr>))"

section \<open>Entry points\<close>

text \<open>The functions C calls. A null pointer is \<open>None\<close>; lengths are what the caller passes.\<close>

definition rs_msg_queue_enqueue ::
  "u8 \<Rightarrow> string option \<Rightarrow> string option \<Rightarrow> u8 \<Rightarrow> msg_queue \<Rightarrow> int \<times> msg_queue" where
  "rs_msg_queue_enqueue transport dest payload priority q =
     (case payload of
        None \<Rightarrow> (ESP_ERR_INVALID_ARG, q)
      | Some p \<Rightarrow>
          if p = [] then (ESP_ERR_INVALID_ARG, q)
          else (case priority_from_u8 priority of
                  None \<Rightarrow> (ESP_ERR_INVALID_ARG, q)
                | Some prio \<Rightarrow> enqueue transport (unwrap_or [] dest) p prio 0 q))"

definition rs_msg_queue_get_ready :: "u32 option \<Rightarrow> msg_queue \<Rightarrow> int \<times> msg_info list" where
  "rs_msg_queue_get_ready out q =
     (case out of
        None \<Rightarrow> (ESP_ERR_INVALID_ARG, [])
      | Some n \<Rightarrow> if n = 0 then (0, []) else get_ready (unat n) (- 1) q)"

definition rs_msg_queue_get_payload :: "u32 \<Rightarrow> u16 option \<Rightarrow> msg_queue \<Rightarrow> int \<times> string" where
  "rs_msg_queue_get_payload i out q =
     (case out of
        None \<Rightarrow> (ESP_ERR_INVALID_ARG, [])
      | Some n \<Rightarrow> if n = 0 then (ESP_ERR_INVALID_ARG, []) else get_payload i (unat n) q)"

definition rs_msg_queue_mark_failed :: "u32 \<Rightarrow> msg_queue \<Rightarrow> int \<times> msg_queue" where
  "rs_msg_queue_mark_failed i q = mark_failed i 0 q"

definition rs_msg_queue_get_info :: "u32 \<Rightarrow> bool \<Rightarrow> msg_queue \<Rightarrow> int \<times> msg_info option" where
  "rs_msg_queue_get_info i out_null q =
     (if out_null then (ESP_ERR_INVALID_ARG, None)
      else case get_info i q of
        None \<Rightarrow> (ESP_ERR_NOT_FOUND, None)
      | Some info \<Rightarrow> (ESP_OK, Some info))"

definition rs_msg_queue_get_stats :: "bool \<Rightarrow> msg_queue \<Rightarrow> int \<times> queue_stats option" where
  "rs_msg_queue_get_stats out_null q =
     (if out_null then (ESP_ERR_INVALID_ARG, None) else (ESP_OK, Some (get_stats q)))"

end
