(* ===== verification/Msg_Delivery.thy ===== *)
theory Msg_Delivery
  imports Msg_Queue "HOL-Library.Multiset"
begin

text \<open>
  What the message queue guarantees: the retry delays, the order of delivery, the life of a message,
  the bound on active messages, that a message whose attempts fail is given up, and where the C entry
  points fall short of it.
\<close>

section \<open>Operations as steps\<close>

datatype mq_op =
    OpInit "string option" | OpEnqueue u8 string string msg_priority u64 | OpCancel u32 | OpCancelAll
  | OpTick u64 | OpMarkSent u32 | OpMarkFailed u32 u64 | OpSetDefaults u32 u64 | OpPurge

fun mq_step :: "mq_op \<Rightarrow> msg_queue \<Rightarrow> msg_queue" where
  "mq_step (OpInit f) q = snd (msg_queue_init f q)"
| "mq_step (OpEnqueue t d p pr now) q = snd (enqueue t d p pr now q)"
| "mq_step (OpCancel i) q = snd (cancel i q)"
| "mq_step OpCancelAll q = snd (cancel_all q)"
| "mq_step (OpTick now) q = snd (queue_tick now q)"
| "mq_step (OpMarkSent i) q = snd (mark_sent i q)"
| "mq_step (OpMarkFailed i now) q = snd (mark_failed i now q)"
| "mq_step (OpSetDefaults r t) q = snd (set_defaults r t q)"
| "mq_step OpPurge q = snd (purge_completed q)"

text \<open>How the status of a message may change.\<close>

inductive status_step :: "msg_status \<Rightarrow> msg_status \<Rightarrow> bool" where
  stay: "status_step s s"
| retry: "s = Pending \<or> s = Retrying \<Longrightarrow> status_step s Retrying"
| give_up: "s = Pending \<or> s = Retrying \<Longrightarrow> t = Expired \<or> t = Failed \<or> t = Cancelled \<Longrightarrow> status_step s t"
| sent: "status_step s Sent"

inductive_simps status_step_iff: "status_step s t"

text \<open>What no operation changes in a message, and how the rest may change.\<close>

definition message_step :: "queued_message \<Rightarrow> queued_message \<Rightarrow> bool" where
  "message_step m m' \<longleftrightarrow>
     m' = m\<lparr>qm_status := qm_status m', qm_retry_count := qm_retry_count m', qm_next_retry_at := qm_next_retry_at m'\<rparr> \<and>
     status_step (qm_status m) (qm_status m') \<and>
     (\<not> is_active m \<longrightarrow> m' = m \<or> m' = m\<lparr>qm_status := Sent\<rparr>)"

lemma message_step_refl [simp]: "message_step m m"
  by (simp add: message_step_def stay)

lemma message_step_cancel [simp]: "message_step m (cancel_message m)"
  by (auto simp: message_step_def cancel_message_def is_active_def intro: stay give_up)

lemma message_step_tick [simp]: "message_step m (fst (tick_message now m))"
  by (auto simp: message_step_def tick_message_def is_active_def intro: stay give_up)

lemma message_step_sent [simp]: "message_step m (m\<lparr>qm_status := Sent\<rparr>)"
  by (auto simp: message_step_def intro: sent)

lemma message_step_fail: "is_active m \<Longrightarrow> message_step m (fail_message now m)"
  by (auto simp: message_step_def fail_message_def is_active_def Let_def intro: retry)

lemma update_first_list_all2:
  "update_first P f xs = Some ys \<Longrightarrow> (\<And>x. R x x) \<Longrightarrow> (\<And>x. find P xs = Some x \<Longrightarrow> R x (f x)) \<Longrightarrow> list_all2 R xs ys"
proof (induction xs arbitrary: ys)
  case (Cons x xs)
  then show ?case by (cases "P x") (auto simp: list.rel_refl)
qed simp

lemma list_all2_map_step: "(\<And>m. message_step m (f m)) \<Longrightarrow> list_all2 message_step ms (map f ms)"
  by (simp add: list_all2_conv_all_nth)

lemma list_all2_message_refl: "list_all2 message_step ms ms"
  by (simp add: list_all2_conv_all_nth)

section \<open>Retry delays\<close>

lemma backoff_loop_eq: "unat (backoff_loop n d) = min (unat d * 2 ^ n) 300000"
proof (induction n arbitrary: d)
  case 0
  then show ?case by (simp add: MAX_RETRY_MS_def min_def word_le_nat_alt)
next
  case (Suc n)
  have d: "unat (sat_mul d 2) = min (unat d * 2) (2 ^ 64 - 1)" by (simp add: unat_sat_mul)
  show ?case
  proof (cases "300000 \<le> unat d * 2")
    case True
    then have "300000 \<le> unat d * 2 * 2 ^ n" by (metis le_trans mult_le_mono2 mult.right_neutral one_le_numeral one_le_power)
    with True d show ?thesis
      by (simp add: BACKOFF_MULTIPLIER_def MAX_RETRY_MS_def word_le_nat_alt min_def mult.assoc)
  next
    case False
    then have "unat (sat_mul d 2) = unat d * 2" using d by simp
    with False Suc.IH [of "sat_mul d 2"] show ?thesis
      by (simp add: BACKOFF_MULTIPLIER_def MAX_RETRY_MS_def word_le_nat_alt mult.assoc)
  qed
qed

lemma calculate_backoff_eq: "unat (calculate_backoff r) = min (5000 * 2 ^ unat r) 300000"
  by (simp add: calculate_backoff_def backoff_loop_eq BASE_RETRY_MS_def)

text \<open>The delay before a retry is five seconds doubled with every failed attempt and never more than
  five minutes: the loop with saturating products equals the closed form, and a failed attempt
  schedules the message that much later, or at the end of time when the sum does not fit.\<close>

theorem msgq_backoff:
  "unat (calculate_backoff r) = min (5000 * 2 ^ unat r) 300000 \<and>
   (qm_retry_count m < - 1 \<longrightarrow>
      unat (qm_next_retry_at (fail_message now m)) =
        min (unat now + min (5000 * 2 ^ Suc (unat (qm_retry_count m))) 300000) (2 ^ 64 - 1))"
proof -
  have "unat (qm_retry_count m + 1) = Suc (unat (qm_retry_count m))" if "qm_retry_count m < - 1"
    using that unatSuc [of "qm_retry_count m"] by (metis add.commute add_diff_cancel_left' diff_0 less_irrefl)
  then show ?thesis by (auto simp: fail_message_def Let_def calculate_backoff_eq unat_sat_add)
qed

definition sample_message :: queued_message where
  "sample_message = (queued_message_new 1 0)\<lparr>qm_retry_count := 3\<rparr>"

theorem msgq_backoff_witness: "unat (qm_next_retry_at (fail_message 1000 sample_message)) = 81000"
  using msgq_backoff [of 0 sample_message 1000] by (simp add: sample_message_def queued_message_new_def)

section \<open>Order of delivery\<close>

text \<open>Delivery order: the messages handed out are the first ones, as many as the buffer holds, of all
  messages that are active and due, arranged so that no message stands behind one of lower priority
  and messages of one priority stay in the order they were queued.\<close>

theorem msgq_ready_order:
  "\<exists>ready. snd (get_ready n now q) = map msg_to_c_info (take n ready) \<and>
     mset ready = mset (filter (\<lambda>m. is_active m \<and> qm_next_retry_at m \<le> now) (mq_messages q)) \<and>
     sorted_wrt (\<lambda>a b. unat (priority_u8 (qm_priority b)) \<le> unat (priority_u8 (qm_priority a))) ready \<and>
     (\<forall>p. filter (\<lambda>m. qm_priority m = p) ready =
          filter (\<lambda>m. is_active m \<and> qm_next_retry_at m \<le> now \<and> qm_priority m = p) (mq_messages q))"
proof -
  let ?due = "filter (\<lambda>m. is_ready m now) (mq_messages q)"
  let ?key = "\<lambda>m. 2 - unat (priority_u8 (qm_priority m))"
  have key: "?key a \<le> ?key b \<longleftrightarrow> unat (priority_u8 (qm_priority b)) \<le> unat (priority_u8 (qm_priority a))" for a b
    by (cases "qm_priority a"; cases "qm_priority b") simp_all
  have inj: "(\<lambda>m. qm_priority m = p) = (\<lambda>m. ?key m = 2 - unat (priority_u8 p))" for p
  proof
    fix m show "(qm_priority m = p) = (?key m = 2 - unat (priority_u8 p))"
      by (cases p; cases "qm_priority m") simp_all
  qed
  have "sorted (map ?key (by_priority ?due))" by (simp add: by_priority_def)
  then have "sorted_wrt (\<lambda>a b. unat (priority_u8 (qm_priority b)) \<le> unat (priority_u8 (qm_priority a))) (by_priority ?due)"
    by (simp add: sorted_map key)
  moreover have "filter (\<lambda>m. qm_priority m = p) (by_priority ?due) = filter (\<lambda>m. qm_priority m = p) ?due" for p
    unfolding inj by_priority_def by (rule sort_key_stable)
  moreover have "snd (get_ready n now q) = map msg_to_c_info (take n (by_priority ?due))"
    by (simp add: get_ready_def Let_def take_map min_def)
  ultimately show ?thesis
    by (intro exI [of _ "by_priority ?due"]) (simp add: by_priority_def is_ready_def conj_assoc)
qed

section \<open>The life of a message\<close>

lemma enqueue_cases:
  "(\<exists>c. enqueue t d p pr now q = (c, q)) \<or>
   (\<exists>m. enqueue t d p pr now q = (sint (mq_next_id q), q\<lparr>mq_next_id := mq_next_id q + 1, mq_messages := mq_messages q @ [m]\<rparr>)
      \<and> qm_id m = mq_next_id q \<and> is_active m \<and> active_count q < MAX_QUEUE_SIZE)"
  by (auto simp: enqueue_def Let_def queued_message_new_def is_active_def not_le)

lemma update_first_messages:
  assumes "\<And>x. find P ms = Some x \<Longrightarrow> message_step x (f x)" "update_first P f ms = Some ms'"
  shows "list_all2 message_step ms ms'"
  by (rule update_first_list_all2 [OF assms(2)]) (simp_all add: assms(1))

lemma step_messages:
  assumes "mq_initialized q" "op \<noteq> OpPurge" "\<And>t d p pr now. op \<noteq> OpEnqueue t d p pr now"
  shows "list_all2 message_step (mq_messages q) (mq_messages (mq_step op q))"
proof (cases op)
  case (OpMarkFailed i now)
  with update_first_messages [of "has_id i" "mq_messages q" "fail_message now"] list_all2_message_refl show ?thesis
    by (auto simp: mark_failed_def message_step_fail split: option.split)
next
  case (OpCancel i)
  with update_first_messages [of "has_id i" "mq_messages q" cancel_message] list_all2_message_refl show ?thesis
    by (auto simp: cancel_def split: option.split)
next
  case (OpMarkSent i)
  with update_first_messages [of "has_id i" "mq_messages q" "\<lambda>m. m\<lparr>qm_status := Sent\<rparr>"] list_all2_message_refl
  show ?thesis by (auto simp: mark_sent_def split: option.split)
qed (use assms list_all2_message_refl in \<open>simp_all add: msg_queue_init_def cancel_all_def queue_tick_def set_defaults_def
      list_all2_map_step\<close>)

lemma step_initialized: "mq_initialized q \<Longrightarrow> mq_initialized (mq_step op q)"
  using enqueue_cases by (cases op) (auto simp: msg_queue_init_def cancel_def cancel_all_def queue_tick_def
      mark_sent_def mark_failed_def set_defaults_def purge_completed_def Let_def enqueue_def split: option.split)

lemma step_purge: "mq_messages (mq_step OpPurge q) = filter is_active (mq_messages q)"
  by (simp add: purge_completed_def Let_def)

text \<open>C26. The life of a message: every operation but purging keeps all messages in place, changing only
  the status, the attempts and the next attempt of a message, along the permitted transitions, adds at
  most one message at the end, and leaves a finished message alone unless it is reported sent; purging
  removes exactly the finished ones.\<close>

theorem msgq_lifecycle:
  assumes "mq_initialized q"
  shows "(op \<noteq> OpPurge \<longrightarrow>
      (\<exists>ms new. mq_messages (mq_step op q) = ms @ new \<and> length new \<le> 1 \<and> list_all2 message_step (mq_messages q) ms))
    \<and> mq_messages (mq_step OpPurge q) = filter is_active (mq_messages q)
    \<and> mq_initialized (mq_step op q)"
proof -
  have "\<exists>ms new. mq_messages (mq_step op q) = ms @ new \<and> length new \<le> 1 \<and> list_all2 message_step (mq_messages q) ms"
    if "op \<noteq> OpPurge"
  proof (cases "\<exists>t d p pr now. op = OpEnqueue t d p pr now")
    case True
    then obtain t d p pr now where op: "op = OpEnqueue t d p pr now" by blast
    from enqueue_cases [of t d p pr now q]
    have "\<exists>new. mq_messages (mq_step op q) = mq_messages q @ new \<and> length new \<le> 1"
    proof (elim disjE exE conjE)
      fix c assume "enqueue t d p pr now q = (c, q)"
      then show ?thesis by (intro exI [of _ "[]"]) (simp add: op)
    next
      fix m assume "enqueue t d p pr now q =
        (sint (mq_next_id q), q\<lparr>mq_next_id := mq_next_id q + 1, mq_messages := mq_messages q @ [m]\<rparr>)"
      then show ?thesis by (intro exI [of _ "[m]"]) (simp add: op)
    qed
    with list_all2_message_refl show ?thesis by blast
  next
    case False
    then have "list_all2 message_step (mq_messages q) (mq_messages (mq_step op q))"
      using step_messages [OF assms that] by blast
    then show ?thesis by (intro exI [of _ "mq_messages (mq_step op q)"] exI [of _ "[]"]) simp
  qed
  then show ?thesis using step_purge step_initialized [OF assms] by blast
qed

definition queue_a :: msg_queue where
  "queue_a = snd (enqueue 0 [] ''hi'' PrioHigh 1000 (snd (msg_queue_init None msg_queue_new)))"

theorem msgq_lifecycle_witness:
  "\<exists>ms new. mq_messages (mq_step (OpCancel 1) queue_a) = ms @ new \<and> list_all2 message_step (mq_messages queue_a) ms"
proof -
  have "mq_initialized queue_a"
    by (simp add: queue_a_def enqueue_def msg_queue_init_def msg_queue_new_def load_from_disk_def active_count_def Let_def)
  from msgq_lifecycle [OF this, of "OpCancel 1"] show ?thesis by blast
qed

section \<open>Bounds\<close>

text \<open>The arrays of a message are full width, the lengths within them, and what lies behind is zero.\<close>

definition message_ok :: "queued_message \<Rightarrow> bool" where
  "message_ok m \<longleftrightarrow>
     qm_dest_len m \<le> 32 \<and> qm_dest m = take (qm_dest_len m) (qm_dest m) @ replicate (32 - qm_dest_len m) NUL \<and>
     length (qm_dest m) = 32 \<and>
     0 < qm_payload_len m \<and> qm_payload_len m \<le> 256 \<and>
     qm_payload m = take (qm_payload_len m) (qm_payload m) @ replicate (256 - qm_payload_len m) NUL \<and>
     length (qm_payload m) = 256"

definition mq_inv :: "msg_queue \<Rightarrow> bool" where
  "mq_inv q \<longleftrightarrow> mq_initialized q \<and> active_count q \<le> MAX_QUEUE_SIZE \<and> (\<forall>m\<in>set (mq_messages q). message_ok m)"

lemma message_step_fields:
  "message_step m m' \<Longrightarrow> qm_dest m' = qm_dest m \<and> qm_dest_len m' = qm_dest_len m \<and> qm_payload m' = qm_payload m \<and>
     qm_payload_len m' = qm_payload_len m \<and> qm_id m' = qm_id m"
  by (cases m; cases m') (simp add: message_step_def)

lemma message_step_ok: "message_step m m' \<Longrightarrow> message_ok m \<Longrightarrow> message_ok m'"
  by (drule message_step_fields) (simp add: message_ok_def)

lemma message_step_active: "message_step m m' \<Longrightarrow> is_active m' \<Longrightarrow> is_active m"
  by (auto simp: message_step_def is_active_def status_step_iff)

lemma list_all2_step_count:
  "list_all2 message_step ms ms' \<Longrightarrow> length (filter is_active ms') \<le> length (filter is_active ms)"
  by (induction rule: list_all2_induct) (auto dest: message_step_active)

lemma list_all2_step_ok:
  "list_all2 message_step ms ms' \<Longrightarrow> \<forall>m\<in>set ms. message_ok m \<Longrightarrow> \<forall>m\<in>set ms'. message_ok m"
  by (induction rule: list_all2_induct) (auto dest: message_step_ok)

lemma enqueue_inv:
  assumes "mq_inv q"
  shows "mq_inv (snd (enqueue t d p pr now q))"
proof (cases "snd (enqueue t d p pr now q) = q")
  case False
  then have ok: "\<not> 3 < t" "p \<noteq> []" "length p \<le> 256" "length d \<le> 32" "active_count q < MAX_QUEUE_SIZE"
    by (auto simp: enqueue_def split: if_splits)
  with assms show ?thesis
    by (auto simp: mq_inv_def enqueue_def Let_def active_count_def message_ok_def copy_into_def queued_message_new_def
        min_def not_le)
qed (use assms in simp)

interpretation mq_machine: bounded_machine mq_step mq_inv active_count 64
proof
  fix q op assume inv: "mq_inv q"
  then have i: "mq_initialized q" by (simp add: mq_inv_def)
  show "mq_inv (mq_step op q)"
  proof (cases "\<exists>t d p pr now. op = OpEnqueue t d p pr now")
    case True
    then show ?thesis using enqueue_inv [OF inv] by auto
  next
    case False
    show ?thesis
    proof (cases "op = OpPurge")
      case True
      then show ?thesis
        using inv step_initialized [OF i, of op] by (auto simp: mq_inv_def active_count_def step_purge simp del: mq_step.simps)
    next
      case purge: False
      then have l: "list_all2 message_step (mq_messages q) (mq_messages (mq_step op q))"
        using step_messages [OF i] False by blast
      show ?thesis
        using inv list_all2_step_count [OF l] list_all2_step_ok [OF l] step_initialized [OF i, of op]
        by (auto simp: mq_inv_def active_count_def)
    qed
  qed
next
  fix q assume "mq_inv q"
  then show "active_count q \<le> 64" by (simp add: mq_inv_def MAX_QUEUE_SIZE_def)
qed

lemma refill: "mq_inv q \<Longrightarrow> length (mq_messages (fold mq_step [OpCancelAll, OpEnqueue 0 [] ''x'' PrioNormal 0] q)) = Suc (length (mq_messages q))"
proof -
  have "filter is_active (map cancel_message ms) = []" for ms
    by (auto simp: filter_empty_conv cancel_message_def is_active_def)
  then show ?thesis by (simp add: cancel_all_def enqueue_def active_count_def MAX_QUEUE_SIZE_def Let_def)
qed

text \<open>Bounds: in every run from a sound queue at most 64 messages are active and all messages fit
  their arrays, with zeros behind the stored bytes; the number of messages kept, finished ones
  included, is not bounded, since only purging removes any.\<close>

theorem msgq_bounds:
  assumes "mq_inv q"
  shows "active_count (fold mq_step ops q) \<le> 64 \<and> (\<forall>m\<in>set (mq_messages (fold mq_step ops q)). message_ok m) \<and>
    (\<exists>ops'. n \<le> length (mq_messages (fold mq_step ops' q)))"
proof -
  have "\<exists>ops'. length (mq_messages (fold mq_step ops' q)) = length (mq_messages q) + n"
  proof (induction n)
    case 0
    show ?case by (rule exI [of _ "[]"]) simp
  next
    case (Suc n)
    then obtain os where os: "length (mq_messages (fold mq_step os q)) = length (mq_messages q) + n" by blast
    have "mq_inv (fold mq_step os q)" by (rule mq_machine.run_inv [OF assms])
    from refill [OF this] os show ?case
      by (intro exI [of _ "os @ [OpCancelAll, OpEnqueue 0 [] ''x'' PrioNormal 0]"]) simp
  qed
  then obtain os where "n \<le> length (mq_messages (fold mq_step os q))" by (metis le_add2)
  then show ?thesis
    using mq_machine.run_bound [OF assms] mq_machine.run_inv [OF assms] by (auto simp: mq_inv_def)
qed

lemma queue_a_inv: "mq_inv queue_a"
proof -
  have "mq_inv (snd (msg_queue_init None msg_queue_new))"
    by (simp add: mq_inv_def msg_queue_init_def msg_queue_new_def load_from_disk_def active_count_def)
  then show ?thesis unfolding queue_a_def by (rule enqueue_inv)
qed

theorem msgq_bounds_witness: "active_count (fold mq_step [OpTick 5000, OpMarkFailed 1 5000] queue_a) \<le> 64"
  using msgq_bounds [OF queue_a_inv, of "[OpTick 5000, OpMarkFailed 1 5000]" 0] by blast

section \<open>Giving up\<close>

text \<open>Rounds of a sender all of whose attempts for one message fail: the queue ticks, and if the message
  is due the attempt is reported failed.\<close>

fun delivery_rounds :: "u32 \<Rightarrow> u64 list \<Rightarrow> msg_queue \<Rightarrow> msg_queue" where
  "delivery_rounds i [] q = q"
| "delivery_rounds i (t # ts) q =
     (let q1 = snd (queue_tick t q) in
      delivery_rounds i ts
        (case find (has_id i) (mq_messages q1) of
           None \<Rightarrow> q1
         | Some m \<Rightarrow> if is_ready m t then snd (mark_failed i t q1) else q1))"

definition round :: "u64 \<Rightarrow> queued_message \<Rightarrow> queued_message" where
  "round t m = (let m1 = fst (tick_message t m) in if is_ready m1 t then fail_message t m1 else m1)"

lemma find_map_same: "(\<And>x. P (f x) \<longleftrightarrow> P x) \<Longrightarrow> find P (map f xs) = map_option f (find P xs)"
  by (induction xs) auto

lemma find_update_first:
  "update_first P f xs = Some ys \<Longrightarrow> (\<And>x. P (f x) \<longleftrightarrow> P x) \<Longrightarrow> find P ys = map_option f (find P xs)"
  by (induction xs arbitrary: ys) (auto split: if_splits)

lemma tick_message_id: "qm_id (fst (tick_message t m)) = qm_id m"
  by (simp add: tick_message_def)

lemma find_tick: "find (has_id i) (mq_messages (snd (queue_tick t q))) = map_option (fst \<circ> tick_message t) (find (has_id i) (mq_messages q))"
  by (simp add: queue_tick_def find_map_same tick_message_id)

lemma find_mark_failed:
  assumes "find (has_id i) (mq_messages q) = Some m" "is_active m"
  shows "mark_failed i t q = (ESP_OK, snd (mark_failed i t q))"
    "find (has_id i) (mq_messages (snd (mark_failed i t q))) = Some (fail_message t m)"
proof -
  have "update_first (has_id i) (fail_message t) (mq_messages q) \<noteq> None"
    using assms(1) by (auto simp: update_first_None find_Some_iff)
  then obtain ms where ms: "update_first (has_id i) (fail_message t) (mq_messages q) = Some ms" by blast
  with assms show "mark_failed i t q = (ESP_OK, snd (mark_failed i t q))" by (simp add: mark_failed_def)
  from find_update_first [OF ms] assms ms show "find (has_id i) (mq_messages (snd (mark_failed i t q))) = Some (fail_message t m)"
    by (simp add: mark_failed_def fail_message_def Let_def)
qed

lemma find_rounds:
  "find (has_id i) (mq_messages q) = Some m \<Longrightarrow>
   find (has_id i) (mq_messages (delivery_rounds i ts q)) = Some (fold round ts m)"
proof (induction ts arbitrary: q m)
  case (Cons t ts)
  let ?q1 = "snd (queue_tick t q)" and ?m1 = "fst (tick_message t m)"
  have f: "find (has_id i) (mq_messages ?q1) = Some ?m1" using Cons.prems by (simp add: find_tick)
  show ?case
  proof (cases "is_ready ?m1 t")
    case True
    then have "find (has_id i) (mq_messages (snd (mark_failed i t ?q1))) = Some (fail_message t ?m1)"
      using find_mark_failed(2) [OF f] by (simp add: is_ready_def)
    with Cons.IH f True show ?thesis by (simp add: round_def Let_def)
  next
    case False
    with Cons.IH f show ?thesis by (simp add: round_def Let_def)
  qed
qed simp

lemma round_inactive: "\<not> is_active m \<Longrightarrow> fold round ts m = m"
proof (induction ts)
  case (Cons t ts)
  moreover from this have "round t m = m" by (simp add: round_def tick_message_def is_ready_def Let_def)
  ultimately show ?case by simp
qed simp

lemma delay_bound: "unat (sat_add t (calculate_backoff n)) \<le> unat t + 300000"
  unfolding unat_sat_add calculate_backoff_eq by linarith

lemma tick_message_ready:
  "snd (tick_message t m) \<Longrightarrow> fst (tick_message t m) = m \<and> \<not> (0 < qm_max_retries m \<and> qm_max_retries m \<le> qm_retry_count m)"
  unfolding tick_message_def
  by (cases "is_active m"; cases "0 < qm_ttl_ms m \<and> qm_created_at m + qm_ttl_ms m \<le> t";
      cases "0 < qm_max_retries m \<and> qm_max_retries m \<le> qm_retry_count m")
    (simp_all only: if_True if_False simp_thms fst_conv snd_conv)

lemma finished_inactive: "\<not> is_active (m\<lparr>qm_status := Expired\<rparr>)" "\<not> is_active (m\<lparr>qm_status := Failed\<rparr>)"
  by (simp_all add: is_active_def)

lemma tick_message_not_ready:
  "\<not> snd (tick_message t m) \<Longrightarrow> qm_next_retry_at m \<le> t \<Longrightarrow> \<not> is_active (fst (tick_message t m))"
  unfolding tick_message_def
  by (cases "is_active m"; cases "0 < qm_ttl_ms m \<and> qm_created_at m + qm_ttl_ms m \<le> t";
      cases "0 < qm_max_retries m \<and> qm_max_retries m \<le> qm_retry_count m")
    (simp_all only: if_True if_False simp_thms fst_conv snd_conv finished_inactive)

lemma round_cases:
  assumes "is_active m" "0 < qm_max_retries m" "qm_next_retry_at m \<le> t"
  shows "\<not> is_active (round t m) \<or>
    (qm_retry_count m < qm_max_retries m \<and> is_active (round t m) \<and> qm_max_retries (round t m) = qm_max_retries m \<and>
     unat (qm_retry_count (round t m)) = Suc (unat (qm_retry_count m)) \<and>
     unat (qm_next_retry_at (round t m)) \<le> unat t + 300000)"
proof -
  have inc: "unat (qm_retry_count m + 1) = Suc (unat (qm_retry_count m))" if "qm_retry_count m < qm_max_retries m"
    using that unat_add_nowrap [of "qm_retry_count m" 1] unsigned_less [of "qm_max_retries m", where 'a=nat]
    by (simp add: word_less_nat_alt)
  show ?thesis
  proof (cases "snd (tick_message t m)")
    case True
    then have "fst (tick_message t m) = m" "qm_retry_count m < qm_max_retries m"
      using tick_message_ready [OF True] assms(2) by (simp_all only: not_le simp_thms)
    moreover have "is_ready m t" using assms by (simp add: is_ready_def)
    ultimately have r: "round t m = fail_message t m" by (simp add: round_def)
    have "is_active (fail_message t m)" "qm_max_retries (fail_message t m) = qm_max_retries m"
      "qm_retry_count (fail_message t m) = qm_retry_count m + 1"
      "qm_next_retry_at (fail_message t m) = sat_add t (calculate_backoff (qm_retry_count m + 1))"
      by (simp_all add: fail_message_def is_active_def Let_def)
    with inc [OF \<open>qm_retry_count m < qm_max_retries m\<close>] \<open>qm_retry_count m < qm_max_retries m\<close> delay_bound
    show ?thesis unfolding r by metis
  next
    case False
    from tick_message_not_ready [OF this assms(3)] have "\<not> is_active (fst (tick_message t m))" .
    then show ?thesis by (simp add: round_def Let_def is_ready_def)
  qed
qed

lemma rounds_end:
  "is_active m \<Longrightarrow> 0 < qm_max_retries m \<Longrightarrow> ts \<noteq> [] \<Longrightarrow> qm_next_retry_at m \<le> hd ts \<Longrightarrow>
   successively (\<lambda>a b. unat a + 300000 \<le> unat b) ts \<Longrightarrow>
   unat (qm_max_retries m) - unat (qm_retry_count m) < length ts \<Longrightarrow> \<not> is_active (fold round ts m)"
proof (induction ts arbitrary: m)
  case (Cons t ts)
  then consider "\<not> is_active (round t m)"
    | "qm_retry_count m < qm_max_retries m \<and> is_active (round t m) \<and> qm_max_retries (round t m) = qm_max_retries m \<and>
       unat (qm_retry_count (round t m)) = Suc (unat (qm_retry_count m)) \<and>
       unat (qm_next_retry_at (round t m)) \<le> unat t + 300000"
    using round_cases [of m t] by auto
  then show ?case
  proof cases
    case 1
    then show ?thesis by (simp add: round_inactive)
  next
    case 2
    note 2 = 2 Cons.prems
    from 2 have lt: "unat (qm_retry_count m) < unat (qm_max_retries m)" by (simp add: word_less_nat_alt)
    with 2 have ne: "ts \<noteq> []" by (auto simp: less_Suc_eq_le)
    with 2 have "unat t + 300000 \<le> unat (hd ts)" by (cases ts) simp_all
    with 2 have "qm_next_retry_at (round t m) \<le> hd ts" by (simp add: word_le_nat_alt)
    moreover have "successively (\<lambda>a b. unat a + 300000 \<le> unat b) ts" using 2 ne by (cases ts) simp_all
    ultimately have "\<not> is_active (fold round ts (round t m))"
      using 2 ne lt by (intro Cons.IH) auto
    then show ?thesis by simp
  qed
qed simp

text \<open>Giving up: a message all of whose attempts fail is finished after one round more than the
  attempts it has left, when the rounds are at least the longest delay apart.\<close>

theorem msgq_gives_up:
  assumes "find (has_id i) (mq_messages q) = Some m" "is_active m" "0 < qm_max_retries m" "ts \<noteq> []"
    and "qm_next_retry_at m \<le> hd ts" "successively (\<lambda>a b. unat a + 300000 \<le> unat b) ts"
    and "unat (qm_max_retries m) - unat (qm_retry_count m) < length ts"
  shows "\<exists>m'. find (has_id i) (mq_messages (delivery_rounds i ts q)) = Some m' \<and> \<not> is_active m'"
  using find_rounds [OF assms(1), of ts] rounds_end [OF assms(2-7)] by simp

definition queue_b :: msg_queue where
  "queue_b = snd (enqueue 0 [] ''hi'' PrioHigh 0 (snd (set_defaults 2 0 (snd (msg_queue_init None msg_queue_new)))))"

theorem msgq_gives_up_witness:
  "\<exists>m'. find (has_id 1) (mq_messages (delivery_rounds 1 [0, 300000, 600000] queue_b)) = Some m' \<and> \<not> is_active m'"
proof -
  obtain m where m: "find (has_id 1) (mq_messages queue_b) = Some m" "is_active m" "qm_max_retries m = 2"
      "qm_retry_count m = 0" "qm_next_retry_at m = 0"
    by (simp add: queue_b_def enqueue_def set_defaults_def msg_queue_init_def msg_queue_new_def load_from_disk_def
        active_count_def MAX_QUEUE_SIZE_def Let_def queued_message_new_def is_active_def)
  show ?thesis
    by (rule msgq_gives_up [OF m(1,2)]) (simp_all add: m)
qed

section \<open>The C entry points\<close>

text \<open>The clock of the C entry points: a message queued through them is stamped with time zero, so
  that once the uptime has reached its time to live the next tick expires it before any attempt; and a
  failed attempt reported through them is due again at once, whatever the delay computed for it.\<close>

theorem msgq_ffi_clock:
  assumes "rs_msg_queue_enqueue t d p pr q = (c, q')" "q' \<noteq> q" "0 < mq_default_ttl_ms q" "mq_default_ttl_ms q \<le> now"
    and "find (has_id i) (mq_messages q) = Some m" "is_active m"
  shows "qm_status (last (mq_messages (snd (queue_tick now q')))) = Expired \<and>
    (\<exists>m'. find (has_id i) (mq_messages (snd (rs_msg_queue_mark_failed i q))) = Some m' \<and>
       unat (qm_next_retry_at m') = min (5000 * 2 ^ unat (qm_retry_count m + 1)) 300000 \<and>
       is_ready m' (- 1) \<and>
       snd (rs_msg_queue_get_ready (Some (- 1)) q) = snd (get_ready (2 ^ 32 - 1) (- 1) q))"
proof
  obtain pl prio where "enqueue t (unwrap_or [] d) pl prio 0 q = (c, q')"
    using assms(1,2) by (auto simp: rs_msg_queue_enqueue_def split: option.splits if_splits)
  then obtain fresh where "q' = q\<lparr>mq_next_id := mq_next_id q + 1, mq_messages := mq_messages q @ [fresh]\<rparr>"
      "is_active fresh" "qm_created_at fresh = 0" "qm_ttl_ms fresh = mq_default_ttl_ms q"
    using assms(2) by (auto simp: enqueue_def Let_def is_active_def queued_message_new_def split: if_splits)
  then show "qm_status (last (mq_messages (snd (queue_tick now q')))) = Expired"
    using assms(3,4) by (simp add: queue_tick_def tick_message_def)
  have "find (has_id i) (mq_messages (snd (rs_msg_queue_mark_failed i q))) = Some (fail_message 0 m)"
    using find_mark_failed(2) [OF assms(5,6)] by (simp add: rs_msg_queue_mark_failed_def)
  moreover have "unat (qm_next_retry_at (fail_message 0 m)) = min (5000 * 2 ^ unat (qm_retry_count m + 1)) 300000"
    by (simp add: fail_message_def Let_def unat_sat_add calculate_backoff_eq min_def)
  moreover have "is_ready (fail_message 0 m) (- 1)" by (simp add: is_ready_def fail_message_def is_active_def Let_def)
  moreover have "unat (- 1 :: u32) = 2 ^ 32 - 1" by (simp add: unat_max_word)
  ultimately show "\<exists>m'. find (has_id i) (mq_messages (snd (rs_msg_queue_mark_failed i q))) = Some m' \<and>
       unat (qm_next_retry_at m') = min (5000 * 2 ^ unat (qm_retry_count m + 1)) 300000 \<and>
       is_ready m' (- 1) \<and>
       snd (rs_msg_queue_get_ready (Some (- 1)) q) = snd (get_ready (2 ^ 32 - 1) (- 1) q)"
    by (simp add: rs_msg_queue_get_ready_def)
qed

lemma queue_a_facts: "mq_default_ttl_ms queue_a = 3600000" "active_count queue_a = 1" "mq_next_id queue_a = 2"
  "\<exists>m. find (has_id 1) (mq_messages queue_a) = Some m \<and> is_active m"
  by (simp_all add: queue_a_def enqueue_def msg_queue_init_def msg_queue_new_def load_from_disk_def
      active_count_def MAX_QUEUE_SIZE_def Let_def queued_message_new_def is_active_def DEFAULT_TTL_MS_def)

theorem msgq_ffi_clock_witness:
  "qm_status (last (mq_messages (snd (queue_tick 7200000 (snd (rs_msg_queue_enqueue 0 None (Some ''sos'') 2 queue_a)))))) = Expired"
proof -
  obtain m where m: "find (has_id 1) (mq_messages queue_a) = Some m" "is_active m" using queue_a_facts(4) by blast
  obtain c q' where q': "rs_msg_queue_enqueue 0 None (Some ''sos'') 2 queue_a = (c, q')" by fastforce
  then have "mq_next_id q' = 3"
    using queue_a_facts by (auto simp: rs_msg_queue_enqueue_def priority_from_u8_def enqueue_def unwrap_or_def
        MAX_QUEUE_SIZE_def Let_def)
  then have "q' \<noteq> queue_a" using queue_a_facts(3) by auto
  with msgq_ffi_clock [OF q' _ _ _ m, of 7200000] q' queue_a_facts(1) show ?thesis by simp
qed

text \<open>Codes and identifiers overlap: the message with identifier 257 is queued and announced with the
  very value that says the queue is full, and no other identifier below two to the 31 is mistaken for that code.\<close>

theorem msgq_id_collision:
  assumes "t \<le> 3" "payload \<noteq> []" "length payload \<le> 256" "length dest \<le> 32" "unat (mq_next_id q) < 2 ^ 31"
  shows "(fst (enqueue t dest payload prio now q) = ESP_ERR_NO_MEM \<longleftrightarrow>
      MAX_QUEUE_SIZE \<le> active_count q \<or> mq_next_id q = 257) \<and>
    (active_count q < MAX_QUEUE_SIZE \<longrightarrow>
      length (mq_messages (snd (enqueue t dest payload prio now q))) = Suc (length (mq_messages q)))"
proof -
  have "sint (mq_next_id q) = 257 \<longleftrightarrow> mq_next_id q = 257"
    using signed_word_eqI [of "mq_next_id q" 257] by auto
  then show ?thesis using assms by (auto simp: enqueue_def Let_def not_le not_less)
qed

theorem msgq_id_collision_witness:
  "fst (enqueue 0 [] ''x'' PrioNormal 0 (msg_queue_new\<lparr>mq_next_id := 257\<rparr>)) = ESP_ERR_NO_MEM \<and>
   length (mq_messages (snd (enqueue 0 [] ''x'' PrioNormal 0 (msg_queue_new\<lparr>mq_next_id := 257\<rparr>)))) = 1"
  using msgq_id_collision [of 0 "''x''" "[]" "msg_queue_new\<lparr>mq_next_id := 257\<rparr>" PrioNormal 0]
  by (simp add: msg_queue_new_def active_count_def MAX_QUEUE_SIZE_def)

end
