(* ===== verification/Json_Text.thy ===== *)
theory Json_Text
  imports Json_Lite
begin

text \<open>
  JSON as the components write it, and what the searching helpers of \<open>Json_Lite\<close> and \<open>Manifest\<close> find in it:
  objects of fields on one line, and arrays of objects. The search for a key passes over a text that is
  quiet for it; the splitting of an array passes over a text that is steady.
\<close>

section \<open>Items\<close>

text \<open>The items of an array as they are printed.\<close>

definition print_items :: "string list \<Rightarrow> string" where
  "print_items xs = join '','' (map quoted xs)"

lemma print_items_simps:
  "print_items [] = []" "print_items [x] = quoted x" "print_items (x # y # xs) = quoted x @ '','' @ print_items (y # xs)"
  by (simp_all add: print_items_def)

lemma set_print_items: "c \<in> set (print_items xs) \<Longrightarrow> c = DQ \<or> c = CHR '','' \<or> (\<exists>x\<in>set xs. c \<in> set x)"
  by (induction xs rule: induct_list012) (auto simp: print_items_simps quoted_def)

section \<open>Searching past printed fields\<close>

text \<open>Keys are made of lower-case letters and underscores, so punctuation is never taken for one.\<close>

definition key_text :: "string \<Rightarrow> bool" where
  "key_text k \<longleftrightarrow> list_all (\<lambda>c. is_lower c \<or> c = CHR ''_'') k"

definition quiet :: "string \<Rightarrow> string \<Rightarrow> bool" where
  "quiet key a \<longleftrightarrow> (\<forall>s. after_pattern (quoted key) (a @ DQ # s) = after_pattern (quoted key) (DQ # s))"

lemma key_no_quote: "key_text k \<Longrightarrow> DQ \<notin> set k"
  by (auto simp: key_text_def list_all_iff is_lower_def DQ_def)

lemma key_not: "key_text k \<Longrightarrow> c \<in> set p \<Longrightarrow> \<not> is_lower c \<Longrightarrow> c \<noteq> CHR ''_'' \<Longrightarrow> p \<noteq> k"
  by (auto simp: key_text_def list_all_iff)

lemma after_pattern_piece:
  assumes "DQ \<notin> set key" "DQ \<notin> set x"
  shows "after_pattern (quoted key) (DQ # x @ DQ # s) = (if x = key then Some s else after_pattern (quoted key) (DQ # s))"
  using strip_quoted(1) [OF assms, of s] after_pattern_plain [OF assms(2), of key "DQ # s"]
  by (simp add: after_pattern_quote)

lemma quiet_plain: "DQ \<notin> set a \<Longrightarrow> quiet key a"
  by (simp add: quiet_def after_pattern_plain)

lemma quiet_append: "quiet key a \<Longrightarrow> quiet key (DQ # b) \<Longrightarrow> quiet key (a @ DQ # b)"
  by (simp add: quiet_def)

lemma quiet_string:
  assumes "key_text key" "DQ \<notin> set x" "x \<noteq> key" "DQ \<notin> set p" "p \<noteq> key"
  shows "quiet key (DQ # x @ DQ # p)"
  using assms after_pattern_piece [OF key_no_quote [OF assms(1)]] by (simp add: quiet_def)

text \<open>An escaped text: a quote comes after a backslash, so no piece between two quotes is a key.\<close>

fun str_safe :: "char \<Rightarrow> string \<Rightarrow> bool" where
  "str_safe prev [] \<longleftrightarrow> prev \<noteq> BSL"
| "str_safe prev (c # cs) \<longleftrightarrow> (c = DQ \<longrightarrow> prev = BSL) \<and> str_safe c cs"

lemma str_safe_escape_char:
  "c \<noteq> BSL \<Longrightarrow> prev \<noteq> BSL \<Longrightarrow> (\<And>q. q \<noteq> BSL \<Longrightarrow> str_safe q t) \<Longrightarrow> str_safe prev (escape_char c @ t)"
  by (simp add: escape_char_def char_defs)

lemma str_safe_escape: "BSL \<notin> set s \<Longrightarrow> prev \<noteq> BSL \<Longrightarrow> str_safe prev (json_escape s)"
proof (induction s arbitrary: prev)
  case (Cons c s)
  then show ?case using str_safe_escape_char [of c prev "json_escape s"] by (auto simp: json_escape_def)
qed (simp add: json_escape_def)

lemma str_safe_cut:
  assumes "str_safe prev (a @ DQ # s)" "DQ \<notin> set a"
  shows "str_safe DQ s" "a = [] \<Longrightarrow> prev = BSL" "a \<noteq> [] \<Longrightarrow> last a = BSL"
  using assms by (induction a arbitrary: prev) auto

lemma quiet_safe:
  assumes "key_text key" "DQ \<notin> set p" "p \<noteq> key"
  shows "str_safe prev s \<Longrightarrow> prev \<noteq> BSL \<Longrightarrow> last (split_on DQ s) \<noteq> key \<Longrightarrow> quiet key (DQ # s @ DQ # p)"
proof (induction "length s" arbitrary: s prev rule: less_induct)
  case less
  show ?case
  proof (cases "split_once DQ s")
    case None
    then have "DQ \<notin> set s" by (metis split_list split_once_append split_list_first option.distinct(1))
    then show ?thesis using less.prems(3) assms by (intro quiet_string) (simp_all add: split_on_none)
  next
    case (Some x)
    then obtain a s' where s: "s = a @ DQ # s'" "DQ \<notin> set a" by (cases x) (auto simp: split_once_Some)
    note cut = str_safe_cut [OF less.prems(1) [unfolded s(1)] s(2)]
    have "a \<noteq> []" using cut(2) less.prems(2) by blast
    then have "a \<noteq> key" using cut(3) key_not [OF assms(1), of BSL a] last_in_set by (fastforce simp: is_lower_def BSL_def)
    moreover have "DQ \<noteq> BSL" by (simp add: char_defs)
    then have "quiet key (DQ # s' @ DQ # p)"
      using less.hyps [OF _ cut(1)] less.prems(3) s by (simp add: split_on_append)
    ultimately show ?thesis
      using after_pattern_piece [OF key_no_quote [OF assms(1)] s(2)] by (simp add: quiet_def s(1))
  qed
qed

text \<open>A text that is quiet does not hold the key.\<close>

lemma quiet_None:
  assumes "quiet key a"
  shows "after_pattern (quoted key) a = None"
proof -
  have "after_pattern (quoted key) [DQ] = None" by (simp add: after_pattern_def quoted_def starts_with_def)
  then have "after_pattern (quoted key) (a @ [DQ]) = None" using assms by (simp add: quiet_def)
  then have "\<not> sublist (quoted key) (a @ [DQ])" by (simp add: after_pattern_def find_sub_None)
  then have "\<not> sublist (quoted key) a" using sublist_appendI sublist_order.order.trans by fastforce
  then show ?thesis by (simp add: after_pattern_def find_sub_None)
qed

section \<open>Printed objects\<close>

datatype field_value = JStr string | JEsc string | JRaw string | JStrs "string list" | JObj string

fun print_value :: "field_value \<Rightarrow> string" where
  "print_value (JStr s) = quoted s"
| "print_value (JEsc s) = quoted (json_escape s)"
| "print_value (JRaw r) = r"
| "print_value (JStrs xs) = CHR ''['' # print_items xs @ '']''"
| "print_value (JObj s) = CHR ''{'' # s @ ''}''"

fun value_texts :: "field_value \<Rightarrow> string list" where
  "value_texts (JStr s) = [s]"
| "value_texts (JEsc s) = [last (split_on DQ (json_escape s))]"
| "value_texts (JRaw r) = []"
| "value_texts (JStrs xs) = xs"
| "value_texts (JObj s) = []"

fun value_ok :: "field_value \<Rightarrow> bool" where
  "value_ok (JStr s) \<longleftrightarrow> DQ \<notin> set s"
| "value_ok (JEsc s) \<longleftrightarrow> BSL \<notin> set s"
| "value_ok (JRaw r) \<longleftrightarrow> DQ \<notin> set r \<and> r \<noteq> [] \<and> not_ws_byte (hd r)"
| "value_ok (JStrs xs) \<longleftrightarrow> (\<forall>x\<in>set xs. DQ \<notin> set x)"
| "value_ok (JObj s) \<longleftrightarrow> True"

lemma show_nat_value: "value_ok (JRaw (show_nat n))"
proof -
  obtain c cs where "show_nat n = c # cs" "is_digit c" using show_nat_head by blast
  moreover have "DQ \<notin> set (show_nat n)" using show_nat_digits [of DQ n] by (auto simp: is_digit_def DQ_def)
  ultimately show ?thesis by (auto simp: not_ws_byte_def is_digit_def)
qed

text \<open>Nested objects come last, so the search never passes one.\<close>

definition flat :: "field_value \<Rightarrow> bool" where
  "flat v \<longleftrightarrow> (case v of JObj _ \<Rightarrow> False | _ \<Rightarrow> True)"

definition print_field :: "string \<times> field_value \<Rightarrow> string" where
  "print_field f = quoted (fst f) @ '':'' @ print_value (snd f)"

definition print_fields :: "(string \<times> field_value) list \<Rightarrow> string" where
  "print_fields fs = join '','' (map print_field fs)"

lemma print_fields_simps:
  "print_fields [] = []" "print_fields [f] = print_field f"
  "print_fields (f # g # fs) = print_field f @ '','' @ print_fields (g # fs)"
  by (simp_all add: print_fields_def)

lemma quiet_items:
  assumes "key_text key" "\<forall>x\<in>set xs. DQ \<notin> set x \<and> x \<noteq> key" "DQ \<notin> set p" "p \<noteq> []" "\<not> is_lower (hd p)" "hd p \<noteq> CHR ''_''" "xs \<noteq> []"
  shows "quiet key (print_items xs @ p)"
  using assms(2,7)
proof (induction xs rule: induct_list012)
  case (2 x)
  have "p \<noteq> key" using key_not [OF assms(1), of "hd p" p] assms(4-6) by simp
  with 2 assms(1,3) show ?case using quiet_string [of key x p] by (simp add: print_items_simps quoted_def)
next
  case (3 x y xs)
  have "quiet key (DQ # x @ DQ # '','')"
    using 3(3) assms(1) key_not [OF assms(1), of "CHR '',''" "'',''"] by (intro quiet_string) (auto simp: is_lower_def DQ_def)
  moreover obtain b where "print_items (y # xs) @ p = DQ # b"
    by (cases xs) (simp_all add: print_items_simps quoted_def)
  ultimately show ?case using 3 quiet_append [of key "DQ # x @ DQ # '',''" b] by (simp add: print_items_simps quoted_def)
qed simp

lemma quiet_field:
  assumes k: "key_text key" "DQ \<notin> set (fst f)" "fst f \<noteq> key" and v: "value_ok (snd f)" "flat (snd f)" "key \<notin> set (value_texts (snd f))"
    and p: "DQ \<notin> set p" "p \<noteq> []" "\<not> is_lower (hd p)" "hd p \<noteq> CHR ''_''"
  shows "quiet key (print_field f @ p)"
proof -
  have pk: "p \<noteq> key" using key_not [OF k(1), of "hd p" p] p(2-4) by simp
  have colon: "quiet key (DQ # fst f @ DQ # CHR '':'' # r)" if "DQ \<notin> set r" for r
    using k that key_not [OF k(1), of "CHR '':''" "CHR '':'' # r"] by (intro quiet_string) (auto simp: is_lower_def DQ_def)
  show ?thesis
  proof (cases "snd f")
    case (JStr s)
    then have "quiet key (DQ # s @ DQ # p)" using k(1) v p(1) pk by (intro quiet_string) auto
    with JStr show ?thesis using quiet_append [OF colon [of "[]"]] by (simp add: print_field_def quoted_def)
  next
    case (JEsc s)
    moreover have "NUL \<noteq> BSL" by (simp add: char_defs)
    ultimately have "quiet key (DQ # json_escape s @ DQ # p)"
      using v str_safe_escape [of s NUL] by (intro quiet_safe [OF k(1) p(1) pk]) auto
    with JEsc show ?thesis using quiet_append [OF colon [of "[]"]] by (simp add: print_field_def quoted_def)
  next
    case (JRaw r)
    with v(1) p(1) show ?thesis using colon [of "r @ p"] by (simp add: print_field_def quoted_def)
  next
    case (JStrs xs)
    show ?thesis
    proof (cases xs)
      case Nil
      with JStrs p(1) show ?thesis using colon [of "''[]'' @ p"] by (simp add: print_field_def quoted_def print_items_simps DQ_def)
    next
      case (Cons x ys)
      have "quiet key (print_items xs @ CHR '']'' # p)"
        using JStrs v p(1) Cons by (intro quiet_items [OF k(1)]) (auto simp: is_lower_def DQ_def)
      moreover obtain b where "print_items xs @ CHR '']'' # p = DQ # b"
        using Cons by (cases ys) (simp_all add: print_items_simps quoted_def)
      ultimately show ?thesis
        using JStrs quiet_append [OF colon [of "''[''"], of b] by (simp add: print_field_def quoted_def DQ_def)
    qed
  qed (use v(2) in \<open>simp add: flat_def\<close>)
qed

definition passes :: "string \<Rightarrow> string \<times> field_value \<Rightarrow> bool" where
  "passes key f \<longleftrightarrow> DQ \<notin> set (fst f) \<and> fst f \<noteq> key \<and> value_ok (snd f) \<and> flat (snd f) \<and> key \<notin> set (value_texts (snd f))"

lemma print_fields_head: "\<exists>b. print_fields (f # fs) = DQ # b"
  by (cases fs) (simp_all add: print_fields_simps print_field_def quoted_def)

lemma quiet_first:
  assumes "key_text key" "passes key f" "fs \<noteq> []"
  shows "after_pattern (quoted key) (print_fields (f # fs) @ p) = after_pattern (quoted key) (print_fields fs @ p)"
proof -
  obtain b where b: "print_fields fs = DQ # b" using print_fields_head [of "hd fs" "tl fs"] assms(3) by auto
  have "quiet key (print_field f @ '','')"
    using assms(2) by (intro quiet_field [OF assms(1)]) (auto simp: passes_def is_lower_def DQ_def)
  moreover have "print_fields (f # fs) = print_field f @ '','' @ print_fields fs"
    using assms(3) by (cases fs) (simp_all add: print_fields_simps)
  ultimately show ?thesis using b by (simp add: quiet_def)
qed

text \<open>A key no field holds is not found.\<close>

lemma find_absent:
  assumes "key_text key" "list_all (passes key) fs" "DQ \<notin> set pre" "DQ \<notin> set post" "post = [] \<or> hd post = CHR ''}''"
  shows "json_value (pre @ print_fields fs @ post) key = None"
proof -
  let ?p = "if post = [] then '','' else post"
  have p: "DQ \<notin> set ?p" "?p \<noteq> []" "\<not> is_lower (hd ?p)" "hd ?p \<noteq> CHR ''_''" using assms(4,5) by (auto simp: is_lower_def DQ_def)
  have "after_pattern (quoted key) (print_fields fs @ ?p) = None"
    using assms(2)
  proof (induction fs)
    case Nil
    then show ?case using after_pattern_plain [OF p(1), of key "[]"] by (simp add: print_fields_simps after_pattern_Nil)
  next
    case (Cons f fs)
    show ?case
    proof (cases "fs = []")
      case True
      have "quiet key (print_field f @ ?p)" using Cons.prems p by (intro quiet_field [OF assms(1)]) (auto simp: passes_def)
      with True quiet_None show ?thesis by (simp add: print_fields_simps)
    next
      case False
      with Cons quiet_first [OF assms(1)] show ?thesis by simp
    qed
  qed
  then have "\<not> sublist (quoted key) (print_fields fs @ ?p)" by (simp add: after_pattern_def find_sub_None)
  then have "\<not> sublist (quoted key) (print_fields fs @ post)"
    using sublist_append_rightI [of "print_fields fs" "'',''"] by (cases "post = []") (auto dest: sublist_order.order.trans)
  then have "after_pattern (quoted key) (print_fields fs @ post) = None" by (simp add: after_pattern_def find_sub_None)
  then show ?thesis using after_pattern_plain [OF assms(3)] by (simp add: json_value_def)
qed

text \<open>The value of a key that no earlier field holds; after it comes a comma or the end of the object.\<close>

definition value_end :: "string \<Rightarrow> bool" where
  "value_end rest \<longleftrightarrow> rest = [] \<or> hd rest = CHR '','' \<or> hd rest = CHR ''}''"

lemma print_value_head: "value_ok v \<Longrightarrow> print_value v \<noteq> [] \<and> not_ws_byte (hd (print_value v))"
  by (cases v) (simp_all add: quoted_def not_ws_byte_def DQ_def)

lemma find_field:
  assumes "key_text key" "list_all (passes key) as" "value_ok v" "DQ \<notin> set pre" "post = [] \<or> hd post = CHR ''}''"
  shows "\<exists>rest. value_end rest \<and>
    json_value (pre @ print_fields (as @ (key, v) # bs) @ post) key = Some (print_value v @ rest)"
proof -
  define rest where "rest = (case bs of [] \<Rightarrow> post | _ \<Rightarrow> CHR '','' # print_fields bs @ post)"
  have rest: "value_end rest" and tail: "print_fields ((key, v) # bs) @ post = quoted key @ CHR '':'' # print_value v @ rest"
    using assms(5) by (cases bs; auto simp: rest_def value_end_def print_fields_simps print_field_def)+
  have "after_pattern (quoted key) (print_fields (as @ (key, v) # bs) @ post) =
      after_pattern (quoted key) (print_fields ((key, v) # bs) @ post)"
    using assms(2) by (induction as) (simp_all add: quiet_first [OF assms(1)])
  also have "\<dots> = Some (CHR '':'' # print_value v @ rest)"
    using after_pattern_piece [of key key] key_no_quote [OF assms(1)] by (simp add: tail quoted_def)
  finally have "after_pattern (quoted key) (pre @ print_fields (as @ (key, v) # bs) @ post) = Some (CHR '':'' # print_value v @ rest)"
    using after_pattern_plain [OF assms(4)] by simp
  moreover obtain c r where "print_value v @ rest = c # r" "not_ws_byte c"
    using print_value_head [OF assms(3)] by (metis append_Cons list.collapse)
  ultimately have "json_value (pre @ print_fields (as @ (key, v) # bs) @ post) key = Some (print_value v @ rest)"
    using json_value_colon [of key _ c r] by simp
  with rest show ?thesis by blast
qed

text \<open>An object whose keys are among \<open>K\<close> and whose texts are not; the fields \<open>hs\<close> may be nested.\<close>

definition plain_object :: "string set \<Rightarrow> (string \<times> field_value) list \<Rightarrow> (string \<times> field_value) list \<Rightarrow> bool" where
  "plain_object K gs hs \<longleftrightarrow> (\<forall>k\<in>K. key_text k) \<and> set (map fst (gs @ hs)) \<subseteq> K \<and> distinct (map fst (gs @ hs)) \<and> length hs \<le> 1 \<and>
     (\<forall>f\<in>set gs. value_ok (snd f) \<and> flat (snd f) \<and> K \<inter> set (value_texts (snd f)) = {})"

lemma plain_passes:
  assumes "plain_object K gs hs" "key \<in> K" "f \<in> set gs" "fst f \<noteq> key"
  shows "passes key f"
  using assms key_no_quote by (auto simp: plain_object_def passes_def)

lemma lookup_field:
  assumes obj: "plain_object K gs hs" and v: "(key, v) \<in> set (gs @ hs)" "value_ok v" and p: "DQ \<notin> set pre" "post = [] \<or> hd post = CHR ''}''"
  shows "\<exists>rest. value_end rest \<and> json_value (pre @ print_fields (gs @ hs) @ post) key = Some (print_value v @ rest)"
proof -
  obtain as bs where split: "gs @ hs = as @ (key, v) # bs" using split_list [OF v(1)] by blast
  have "key \<in> fst ` set (gs @ hs)" using v(1) by (rule image_eqI [rotated]) simp
  moreover have "fst ` set (gs @ hs) \<subseteq> K" "\<forall>k\<in>K. key_text k" using obj unfolding plain_object_def by (simp_all only: set_map) blast+
  ultimately have K: "key \<in> K" "key_text key" by blast+
  have "set as \<subseteq> set gs"
  proof -
    have "length hs \<le> 1" using obj unfolding plain_object_def by blast
    then have "length as \<le> length gs" using arg_cong [OF split, of length] by simp
    then have "as = take (length as) gs" using split by (metis append_eq_append_conv_if append_take_drop_id)
    then show ?thesis by (metis set_take_subset)
  qed
  moreover have "fst f \<noteq> key" if "f \<in> set as" for f
    using obj that unfolding plain_object_def split by force
  ultimately have "list_all (passes key) as" using plain_passes [OF obj K(1)] by (auto simp: list_all_iff)
  then show ?thesis using find_field [OF K(2) _ v(2) p, of as bs] by (simp add: split)
qed

lemma lookup_absent:
  assumes "plain_object K gs []" "key \<in> K" "key \<notin> fst ` set gs" "DQ \<notin> set pre" "DQ \<notin> set post" "post = [] \<or> hd post = CHR ''}''"
  shows "json_value (pre @ print_fields gs @ post) key = None"
proof -
  have "list_all (passes key) gs" using plain_passes [OF assms(1,2)] assms(3) by (auto simp: list_all_iff)
  moreover have "key_text key" using assms(1,2) by (simp add: plain_object_def)
  ultimately show ?thesis by (intro find_absent [OF _ _ assms(4-6)])
qed


section \<open>Reading values\<close>

lemma take_digits:
  assumes "value_end rest" "\<And>c. is_digit c \<Longrightarrow> P c" "\<not> P CHR '',''" "\<not> P CHR ''}''"
  shows "takeWhile P (show_nat n @ rest) = show_nat n"
proof -
  have "\<forall>c\<in>set (show_nat n). P c" using assms(2) show_nat_digits by blast
  then show ?thesis using assms(1,3,4) by (cases rest) (auto simp: value_end_def takeWhile_append takeWhile_eq_all_conv)
qed

lemma json_string_printed:
  assumes "json_value json key = Some (print_value (JStr s) @ rest)" "DQ \<notin> set s" "BSL \<notin> set s"
  shows "json_get_string json key = Some s"
proof -
  have "NUL \<noteq> BSL" by (simp add: char_defs)
  with assms show ?thesis by (simp add: json_get_string_def quoted_def starts_with_def string_end_plain)
qed

lemma string_end_safe: "str_safe prev s \<Longrightarrow> string_end prev (s @ DQ # r) = Some (length s)"
  by (induction s arbitrary: prev) auto

text \<open>An escaped text is read back as it was written, with its escapes.\<close>

lemma json_escaped_printed:
  assumes "json_value json key = Some (print_value (JEsc s) @ rest)" "BSL \<notin> set s"
  shows "json_get_string json key = Some (json_escape s)"
proof -
  have "NUL \<noteq> BSL" by (simp add: char_defs)
  with assms str_safe_escape [of s NUL] show ?thesis
    by (simp add: json_get_string_def quoted_def starts_with_def string_end_safe)
qed

lemma json_bool_printed:
  "json_value json key = Some (print_value (JRaw (if b then ''true'' else ''false'')) @ rest) \<Longrightarrow> json_get_bool json key = Some b"
  by (cases b) (simp_all add: json_get_bool_def starts_with_def)

lemma json_int_printed:
  assumes "json_value json key = Some (print_value (JRaw (show_nat n)) @ rest)" "value_end rest" "n < 2 ^ 63"
  shows "json_get_int json key = Some (int n)"
proof -
  have "takeWhile int_char (show_nat n @ rest) = show_nat n"
    by (rule take_digits [OF assms(2)]) (auto simp: int_char_def is_digit_def)
  with assms(1,3) show ?thesis by (simp add: json_get_int_def parse_int_show_nat)
qed

section \<open>Arrays of objects\<close>

definition quiet_char :: "char \<Rightarrow> bool" where
  "quiet_char c \<longleftrightarrow> c \<noteq> BSL \<and> c \<noteq> CHR ''{'' \<and> c \<noteq> CHR ''}''"

lemma scan_gap:
  "\<forall>c\<in>set g. quiet_char c \<and> c \<noteq> DQ \<Longrightarrow>
   scan_objects inner i d False False st (g @ rest) = scan_objects inner (i + length g) d False False st rest"
  by (induction g arbitrary: i) (simp_all add: quiet_char_def)

lemma scan_body:
  "\<forall>c\<in>set b. quiet_char c \<Longrightarrow>
   scan_objects inner i d ins False st (b @ rest) =
     scan_objects inner (i + length b) d (ins \<noteq> odd (count_list b DQ)) False st rest"
  by (induction b arbitrary: i ins) (auto simp: quiet_char_def)

text \<open>Texts the scan passes without opening or closing anything.\<close>

definition steady :: "string \<Rightarrow> bool" where
  "steady a \<longleftrightarrow> (\<forall>inner i d st rest.
     scan_objects inner i d False False st (a @ rest) = scan_objects inner (i + length a) d False False st rest)"

lemma steady_gap: "\<forall>c\<in>set g. quiet_char c \<and> c \<noteq> DQ \<Longrightarrow> steady g"
  unfolding steady_def by (intro allI scan_gap)

lemma steady_body: "\<forall>c\<in>set b. quiet_char c \<Longrightarrow> even (count_list b DQ) \<Longrightarrow> steady b"
  by (simp add: steady_def scan_body)

lemma steady_append: "steady a \<Longrightarrow> steady b \<Longrightarrow> steady (a @ b)"
  by (simp add: steady_def add.assoc)

lemma scan_string:
  "DQ \<notin> set s \<Longrightarrow> BSL \<notin> set s \<Longrightarrow>
   scan_objects inner i d True False st (s @ DQ # rest) = scan_objects inner (i + length s + 1) d False False st rest"
proof (induction s arbitrary: i)
  case Nil
  have "DQ \<noteq> BSL" by (simp add: char_defs)
  then show ?case by simp
qed auto

lemma steady_quoted: "DQ \<notin> set s \<Longrightarrow> BSL \<notin> set s \<Longrightarrow> steady (quoted s)"
  by (simp add: steady_def quoted_def scan_string)

lemma scan_escape_char:
  "scan_objects inner i d True False st (escape_char c @ t) = scan_objects inner (i + length (escape_char c)) d True False st t"
  by (simp add: escape_char_def char_defs)

lemma scan_escaped:
  "scan_objects inner i d True False st (json_escape s @ DQ # rest) =
     scan_objects inner (i + length (json_escape s) + 1) d False False st rest"
proof (induction s arbitrary: i)
  case Nil
  have "DQ \<noteq> BSL" by (simp add: char_defs)
  then show ?case by (simp add: json_escape_def)
next
  case (Cons c s)
  then show ?case using scan_escape_char [of inner i d st c "json_escape s @ DQ # rest"] by (simp add: json_escape_def add.assoc)
qed

lemma steady_escaped: "steady (quoted (json_escape s))"
  by (simp add: steady_def quoted_def scan_escaped)

lemma scan_object:
  assumes "steady b" "drop i inner = (CHR ''{'' # b @ ''}'') @ rest"
  shows "scan_objects inner i 0 False False None ((CHR ''{'' # b @ ''}'') @ rest) =
    (CHR ''{'' # b @ ''}'') # scan_objects inner (i + length b + 2) 0 False False None rest"
proof -
  have "CHR ''{'' \<noteq> DQ" "CHR ''{'' \<noteq> BSL" "CHR ''}'' \<noteq> DQ" by (simp_all add: char_defs)
  with assms show ?thesis by (simp add: steady_def)
qed

text \<open>The array as it is saved: one object per line.\<close>

definition print_array :: "string list \<Rightarrow> string" where
  "print_array objs = ''['' @ [LF] @ join ('','' @ [LF]) (map (\<lambda>x. ''  '' @ x) objs) @ [LF] @ '']''"

lemma steady_gaps: "steady ([LF] @ ''  '')" "steady ('','' @ [LF] @ ''  '')" "steady [LF]"
  by (rule steady_gap; auto simp: quiet_char_def char_defs)+

text \<open>What follows the first object of the array.\<close>

fun array_rest :: "string list \<Rightarrow> string" where
  "array_rest [] = [LF]"
| "array_rest (x # xs) = ('','' @ [LF] @ ''  '') @ x @ array_rest xs"

definition closed_object :: "string \<Rightarrow> bool" where
  "closed_object x \<longleftrightarrow> (\<exists>b. steady b \<and> x = CHR ''{'' # b @ ''}'')"

lemma scan_closed:
  assumes "closed_object x" "drop i inner = x @ rest"
  shows "scan_objects inner i 0 False False None (x @ rest) = x # scan_objects inner (i + length x) 0 False False None rest"
  using assms scan_object by (auto simp: closed_object_def)

lemma scan_rest:
  "list_all closed_object xs \<Longrightarrow> drop i inner = array_rest xs \<Longrightarrow> scan_objects inner i 0 False False None (array_rest xs) = xs"
proof (induction xs arbitrary: i)
  case Nil
  then show ?case using steady_gaps(3) [unfolded steady_def, rule_format, of inner i 0 None "[]"] by simp
next
  case (Cons x xs)
  let ?g = "'','' @ [LF] @ ''  ''"
  have "drop (i + length ?g) inner = drop (length ?g) (drop i inner)" by (simp only: drop_drop add.commute)
  with Cons.prems have d: "drop (i + length ?g) inner = x @ array_rest xs" by simp
  have "drop (i + length ?g + length x) inner = drop (length x) (drop (i + length ?g) inner)"
    by (simp only: drop_drop add.commute)
  with d have d': "drop (i + length ?g + length x) inner = array_rest xs" by simp
  have "scan_objects inner i 0 False False None (array_rest (x # xs)) =
      scan_objects inner (i + length ?g) 0 False False None (x @ array_rest xs)"
    using steady_gaps(2) [unfolded steady_def, rule_format, of inner i 0 None "x @ array_rest xs"]
    by (simp only: array_rest.simps append_assoc)
  also have "\<dots> = x # scan_objects inner (i + length ?g + length x) 0 False False None (array_rest xs)"
    by (rule scan_closed [OF _ d]) (use Cons.prems(1) in simp)
  finally show ?case using Cons.IH [OF _ d'] Cons.prems(1) by simp
qed

lemma array_inner: "join ('','' @ [LF]) (map (\<lambda>x. ''  '' @ x) (x # xs)) @ [LF] = ''  '' @ x @ array_rest xs"
  by (induction xs arbitrary: x) simp_all

lemma scan_all:
  assumes "inner = [LF] @ join ('','' @ [LF]) (map (\<lambda>x. ''  '' @ x) xs) @ [LF]" "list_all closed_object xs"
  shows "scan_objects inner 0 0 False False None inner = xs"
proof (cases xs)
  case Nil
  with assms(1) steady_gaps(3) [unfolded steady_def, rule_format, of inner 0 0 None "[LF]"]
    steady_gaps(3) [unfolded steady_def, rule_format, of inner 1 0 None "[]"]
  show ?thesis by simp
next
  case (Cons x xs')
  let ?g = "[LF] @ ''  ''"
  have inner: "inner = ?g @ x @ array_rest xs'" using assms(1) array_inner [of x xs'] Cons by simp
  have d: "drop (0 + length ?g) inner = x @ array_rest xs'" by (simp add: inner)
  have d': "drop (0 + length ?g + length x) inner = array_rest xs'" by (simp add: inner)
  have "scan_objects inner 0 0 False False None inner = scan_objects inner 0 0 False False None (?g @ x @ array_rest xs')"
    using inner by (rule arg_cong)
  also have "\<dots> = scan_objects inner (0 + length ?g) 0 False False None (x @ array_rest xs')"
    using steady_gaps(1) unfolding steady_def by blast
  also have "\<dots> = x # scan_objects inner (0 + length ?g + length x) 0 False False None (array_rest xs')"
    by (rule scan_closed [OF _ d]) (use assms(2) Cons in simp)
  finally show ?thesis using scan_rest [OF _ d'] assms(2) Cons by simp
qed

text \<open>An array of objects is split into them.\<close>

lemma split_array_printed:
  assumes "\<And>x. x \<in> set xs \<Longrightarrow> \<exists>b. steady b \<and> x = CHR ''{'' # b @ ''}''"
  shows "json_split_array (print_array xs) = xs"
proof -
  have closed: "list_all closed_object xs" using assms by (simp add: list_all_iff closed_object_def)
  let ?inner = "[LF] @ join ('','' @ [LF]) (map (\<lambda>x. ''  '' @ x) xs) @ [LF]"
  have q: "print_array xs = CHR ''['' # ?inner @ '']''" by (simp add: print_array_def)
  have "not_ws_byte CHR ''[''" "not_ws_byte CHR '']''" by (simp_all add: not_ws_byte_def)
  then have "trim (print_array xs) = print_array xs"
    using trim_end_id [of "CHR '']''" "CHR ''['' # ?inner"] by (simp add: trim_def q trim_start_id)
  moreover have "starts_with ''['' (print_array xs)" "ends_with '']'' (print_array xs)"
    by (simp add: q starts_with_def) (simp add: q ends_with_iff)
  moreover have "butlast (tl (print_array xs)) = ?inner" by (simp add: q butlast_append)
  ultimately show ?thesis using scan_all [OF refl closed] by (simp only: json_split_array_def Let_def simp_thms if_False)
qed

text \<open>A printed object is closed when its texts have no quotes and backslashes.\<close>

fun value_steady :: "field_value \<Rightarrow> bool" where
  "value_steady (JStr s) \<longleftrightarrow> DQ \<notin> set s \<and> BSL \<notin> set s"
| "value_steady (JEsc s) \<longleftrightarrow> True"
| "value_steady (JRaw r) \<longleftrightarrow> (\<forall>c\<in>set r. quiet_char c \<and> c \<noteq> DQ)"
| "value_steady _ \<longleftrightarrow> False"

lemma steady_value: "value_steady v \<Longrightarrow> steady (print_value v)"
  by (cases v) (simp_all add: steady_quoted steady_escaped steady_gap)

lemma steady_field: "DQ \<notin> set k \<Longrightarrow> BSL \<notin> set k \<Longrightarrow> value_steady v \<Longrightarrow> steady (print_field (k, v))"
  unfolding print_field_def fst_conv snd_conv
  by (intro steady_append steady_quoted steady_value steady_gap) (auto simp: quiet_char_def char_defs)

lemma steady_fields: "list_all (\<lambda>(k, v). DQ \<notin> set k \<and> BSL \<notin> set k \<and> value_steady v) fs \<Longrightarrow> steady (print_fields fs)"
proof (induction fs rule: induct_list012)
  case 1
  show ?case by (simp add: print_fields_simps steady_def)
next
  case (2 f)
  then show ?case by (cases f) (simp add: print_fields_simps steady_field)
next
  case (3 f g fs)
  have "steady '',''" by (rule steady_gap) (auto simp: quiet_char_def char_defs)
  moreover have "steady (print_field f)" using 3(3) by (cases f) (simp add: steady_field)
  moreover have "steady (print_fields (g # fs))" using 3 by simp
  ultimately show ?case unfolding print_fields_simps by (intro steady_append)
qed

end
