(* ===== verification/Msg_Persist.thy ===== *)
theory Msg_Persist
  imports Msg_Delivery Json_Text
begin

text \<open>
  Saving the message queue and loading it again: the JSON of a message cut at its quotes, the scan for
  the objects of the array, and what comes back.
\<close>

section \<open>Keys among the pieces of a text\<close>







section \<open>One message\<close>

definition dest_text :: "queued_message \<Rightarrow> string" where
  "dest_text m = (if 0 < qm_dest_len m then base64_encode (take (qm_dest_len m) (qm_dest m)) else [])"

definition payload_text :: "queued_message \<Rightarrow> string" where
  "payload_text m = base64_encode (take (qm_payload_len m) (qm_payload m))"












text \<open>A message that is saved faithfully: sound, with times a signed 64-bit number holds, and no text that
  is itself the key \<open>priority\<close>.\<close>

definition storable :: "queued_message \<Rightarrow> bool" where
  "storable m \<longleftrightarrow> message_ok m \<and> unat (qm_created_at m) < 2 ^ 63 \<and> unat (qm_next_retry_at m) < 2 ^ 63 \<and>
     unat (qm_ttl_ms m) < 2 ^ 63 \<and> dest_text m \<noteq> ''priority'' \<and> payload_text m \<noteq> ''priority''"















lemma priority_codes [simp]: "priority_from_u8 (priority_u8 p) = Some p"
  by (cases p) (simp_all add: priority_from_u8_def)






section \<open>The array\<close>










section \<open>Properties\<close>



end
