(* ===== verification/Burn_Timer.thy ===== *)
theory Burn_Timer
  imports Thistle_Prelude
begin

text \<open>
  The burn timers that delete messages after a time (\<open>kernel_rs/src/burn_timer.rs\<close>): a table of 64
  slots, the policies of four conversations, and the queue of expired timers the caller drains. Sums
  of time stamps wrap, as in the release build.
\<close>

definition MAX_BURN_ENTRIES :: nat where "MAX_BURN_ENTRIES = 64"
definition MAX_CONVERSATIONS :: nat where "MAX_CONVERSATIONS = 4"
definition MAX_MESSAGE_INDEX :: u8 where "MAX_MESSAGE_INDEX = 49"
definition MAX_EXPIRED_QUEUE :: nat where "MAX_EXPIRED_QUEUE = 64"

lemmas burn_limits = MAX_BURN_ENTRIES_def MAX_CONVERSATIONS_def MAX_MESSAGE_INDEX_def MAX_EXPIRED_QUEUE_def

record burn_entry =
  be_conversation :: u8
  be_message :: u8
  be_created_at :: u64
  be_burn_after :: u64
  be_active :: bool

record burn_policy =
  bp_enabled :: bool
  bp_burn_after :: u64

definition burn_policy_new :: burn_policy where
  "burn_policy_new = \<lparr>bp_enabled = False, bp_burn_after = 0\<rparr>"

type_synonym burn_key = "u8 \<times> u8"

record burn_timer =
  bt_entries :: "burn_entry option list option"
  bt_entry_count :: nat
  bt_policies :: "burn_policy list"
  bt_expired :: "burn_key option list"
  bt_expired_count :: nat
  bt_tick_count :: u64
  bt_total_burned :: u32
  bt_initialized :: bool

definition burn_timer_new :: burn_timer where
  "burn_timer_new = \<lparr>bt_entries = None, bt_entry_count = 0,
     bt_policies = replicate MAX_CONVERSATIONS burn_policy_new,
     bt_expired = replicate MAX_EXPIRED_QUEUE None, bt_expired_count = 0,
     bt_tick_count = 0, bt_total_burned = 0, bt_initialized = False\<rparr>"

definition ensure_entries :: "burn_timer \<Rightarrow> burn_entry option list" where
  "ensure_entries s = (case bt_entries s of None \<Rightarrow> replicate MAX_BURN_ENTRIES None | Some es \<Rightarrow> es)"

definition burn_init :: "burn_timer \<Rightarrow> int \<times> burn_timer" where
  "burn_init s = (ESP_OK, burn_timer_new\<lparr>bt_initialized := True\<rparr>)"

definition validate_conv_id :: "u8 \<Rightarrow> bool" where
  "validate_conv_id c \<longleftrightarrow> unat c < MAX_CONVERSATIONS"

definition validate_msg_idx :: "u8 \<Rightarrow> bool" where
  "validate_msg_idx m \<longleftrightarrow> m \<le> MAX_MESSAGE_INDEX"

definition slot_for :: "burn_key \<Rightarrow> burn_entry option \<Rightarrow> bool" where
  "slot_for k x =
     (case x of None \<Rightarrow> False | Some e \<Rightarrow> be_active e \<and> be_conversation e = fst k \<and> be_message e = snd k)"

definition slot_free :: "burn_entry option \<Rightarrow> bool" where
  "slot_free x = (case x of None \<Rightarrow> True | Some e \<Rightarrow> \<not> be_active e)"

definition find_entry :: "u8 \<Rightarrow> u8 \<Rightarrow> burn_timer \<Rightarrow> nat option" where
  "find_entry c m s = (case bt_entries s of None \<Rightarrow> None | Some es \<Rightarrow> find_index (slot_for (c, m)) es)"

definition find_free_slot :: "burn_timer \<Rightarrow> nat option" where
  "find_free_slot s = (case bt_entries s of None \<Rightarrow> Some 0 | Some es \<Rightarrow> find_index slot_free es)"

text \<open>\<open>self.ensure_entries()[i] = v\<close>.\<close>

definition put_slot :: "nat \<Rightarrow> burn_entry option \<Rightarrow> burn_timer \<Rightarrow> burn_timer" where
  "put_slot i v s = s\<lparr>bt_entries := Some ((ensure_entries s)[i := v])\<rparr>"

definition drop_entry :: "nat \<Rightarrow> burn_timer \<Rightarrow> burn_timer" where
  "drop_entry i s = (put_slot i None s)\<lparr>bt_entry_count := bt_entry_count s - 1\<rparr>"

definition set_timer :: "u8 \<Rightarrow> u8 \<Rightarrow> u64 \<Rightarrow> burn_timer \<Rightarrow> int \<times> burn_timer" where
  "set_timer c m burn_after_ms s =
     (if \<not> bt_initialized s then (ESP_ERR_INVALID_STATE, s)
      else if \<not> validate_conv_id c \<or> \<not> validate_msg_idx m then (ESP_ERR_INVALID_ARG, s)
      else
        (let s1 = (case find_entry c m s of Some i \<Rightarrow> drop_entry i s | None \<Rightarrow> s) in
         case find_free_slot s1 of
           None \<Rightarrow> (ESP_ERR_NO_MEM, s1)
         | Some slot \<Rightarrow>
             (ESP_OK,
              (put_slot slot (Some \<lparr>be_conversation = c, be_message = m, be_created_at = bt_tick_count s1,
                 be_burn_after = burn_after_ms, be_active = True\<rparr>) s1)
              \<lparr>bt_entry_count := bt_entry_count s1 + 1\<rparr>)))"

definition cancel_timer :: "u8 \<Rightarrow> u8 \<Rightarrow> burn_timer \<Rightarrow> int \<times> burn_timer" where
  "cancel_timer c m s =
     (if \<not> bt_initialized s then (ESP_ERR_INVALID_STATE, s)
      else if \<not> validate_conv_id c \<or> \<not> validate_msg_idx m then (ESP_ERR_INVALID_ARG, s)
      else case find_entry c m s of
        Some i \<Rightarrow> (ESP_OK, drop_entry i s)
      | None \<Rightarrow> (ESP_ERR_NOT_FOUND, s))"

text \<open>The loops over the slots: each slot is replaced, and the rest of the state threaded through.\<close>

fun over_slots :: "('x \<Rightarrow> 's \<Rightarrow> 'x \<times> 's) \<Rightarrow> 'x list \<Rightarrow> 's \<Rightarrow> 'x list \<times> 's" where
  "over_slots f [] s = ([], s)"
| "over_slots f (x # xs) s =
     (let (x', s1) = f x s; (xs', s2) = over_slots f xs s1 in (x' # xs', s2))"

definition clear_slot :: "u8 \<Rightarrow> burn_entry option \<Rightarrow> nat \<Rightarrow> burn_entry option \<times> nat" where
  "clear_slot c x entry_count =
     (case x of
        Some e \<Rightarrow> if be_active e \<and> be_conversation e = c then (None, entry_count - 1) else (x, entry_count)
      | None \<Rightarrow> (x, entry_count))"

definition cancel_conversation :: "u8 \<Rightarrow> burn_timer \<Rightarrow> int \<times> burn_timer" where
  "cancel_conversation c s =
     (if \<not> bt_initialized s then (ESP_ERR_INVALID_STATE, s)
      else if \<not> validate_conv_id c then (ESP_ERR_INVALID_ARG, s)
      else case bt_entries s of
        None \<Rightarrow> (ESP_OK, s)
      | Some es \<Rightarrow>
          (let (es', n) = over_slots (clear_slot c) es (bt_entry_count s)
           in (ESP_OK, s\<lparr>bt_entries := Some es', bt_entry_count := n\<rparr>)))"

definition set_policy :: "u8 \<Rightarrow> bool \<Rightarrow> u64 \<Rightarrow> burn_timer \<Rightarrow> int \<times> burn_timer" where
  "set_policy c enabled ms s =
     (if \<not> bt_initialized s then (ESP_ERR_INVALID_STATE, s)
      else if \<not> validate_conv_id c then (ESP_ERR_INVALID_ARG, s)
      else (ESP_OK, s\<lparr>bt_policies := (bt_policies s)[unat c := \<lparr>bp_enabled = enabled, bp_burn_after = ms\<rparr>]\<rparr>))"

definition get_policy :: "u8 \<Rightarrow> burn_timer \<Rightarrow> int + bool \<times> u64" where
  "get_policy c s =
     (if \<not> bt_initialized s then Inl ESP_ERR_INVALID_STATE
      else if \<not> validate_conv_id c then Inl ESP_ERR_INVALID_ARG
      else (let p = bt_policies s ! unat c in Inr (bp_enabled p, bp_burn_after p)))"

text \<open>What the tick changes besides the slots, with the count it returns.\<close>

record tick_acc =
  ta_expired :: "burn_key option list"
  ta_expired_count :: nat
  ta_total_burned :: u32
  ta_entry_count :: nat
  ta_newly :: nat

definition deadline :: "burn_entry \<Rightarrow> u64" where
  "deadline e = be_created_at e + be_burn_after e"

definition tick_slot :: "u64 \<Rightarrow> burn_entry option \<Rightarrow> tick_acc \<Rightarrow> burn_entry option \<times> tick_acc" where
  "tick_slot now_ms x a =
     (case x of
        None \<Rightarrow> (x, a)
      | Some e \<Rightarrow>
          if be_active e \<and> deadline e \<le> now_ms then
            (None,
             (if ta_expired_count a < MAX_EXPIRED_QUEUE
              then a\<lparr>ta_expired := (ta_expired a)[ta_expired_count a := Some (be_conversation e, be_message e)],
                    ta_expired_count := ta_expired_count a + 1\<rparr>
              else a)
             \<lparr>ta_total_burned := ta_total_burned a + 1, ta_entry_count := ta_entry_count a - 1,
              ta_newly := ta_newly a + 1\<rparr>)
          else (x, a))"

definition burn_tick :: "u64 \<Rightarrow> burn_timer \<Rightarrow> int \<times> burn_timer" where
  "burn_tick now_ms s =
     (if \<not> bt_initialized s then (ESP_ERR_INVALID_STATE, s)
      else
        (let s1 = s\<lparr>bt_tick_count := now_ms\<rparr> in
         case bt_entries s1 of
           None \<Rightarrow> (0, s1)
         | Some es \<Rightarrow>
             (let (es', a) = over_slots (tick_slot now_ms) es
                    \<lparr>ta_expired = bt_expired s1, ta_expired_count = bt_expired_count s1,
                     ta_total_burned = bt_total_burned s1, ta_entry_count = bt_entry_count s1, ta_newly = 0\<rparr>
              in (int (ta_newly a),
                  s1\<lparr>bt_entries := Some es', bt_expired := ta_expired a, bt_expired_count := ta_expired_count a,
                     bt_total_burned := ta_total_burned a, bt_entry_count := ta_entry_count a\<rparr>))))"

text \<open>\<open>out\<close> is the caller's buffer, returned as it is left.\<close>

definition get_expired :: "burn_key list \<Rightarrow> burn_timer \<Rightarrow> int \<times> burn_key list \<times> burn_timer" where
  "get_expired out s =
     (if \<not> bt_initialized s then (ESP_ERR_INVALID_STATE, out, s)
      else
        (let count = min (bt_expired_count s) (length out);
             out' = map (\<lambda>i. case bt_expired s ! i of Some e \<Rightarrow> e | None \<Rightarrow> out ! i) [0..<count] @ drop count out;
             remaining = bt_expired_count s - count
         in (int count, out',
             if count < bt_expired_count s
             then s\<lparr>bt_expired := take remaining (drop count (bt_expired s))
                      @ replicate (MAX_EXPIRED_QUEUE - remaining) None,
                    bt_expired_count := remaining\<rparr>
             else s\<lparr>bt_expired := replicate MAX_EXPIRED_QUEUE None, bt_expired_count := 0\<rparr>)))"

definition remaining_time :: "u8 \<Rightarrow> u8 \<Rightarrow> burn_timer \<Rightarrow> int" where
  "remaining_time c m s =
     (if \<not> bt_initialized s then - 1
      else if \<not> validate_conv_id c \<or> \<not> validate_msg_idx m then - 1
      else case find_entry c m s of
        None \<Rightarrow> - 1
      | Some i \<Rightarrow>
          (case ensure_entries s ! i of
             None \<Rightarrow> - 1
           | Some e \<Rightarrow> if deadline e \<le> bt_tick_count s then 0 else sint (deadline e - bt_tick_count s)))"

definition burn_active_count :: "burn_timer \<Rightarrow> int" where
  "burn_active_count s = (if \<not> bt_initialized s then ESP_ERR_INVALID_STATE else int (bt_entry_count s))"

definition clear_all :: "burn_timer \<Rightarrow> int \<times> burn_timer" where
  "clear_all s =
     (if \<not> bt_initialized s then (ESP_ERR_INVALID_STATE, s)
      else (ESP_OK, s\<lparr>bt_entries := None, bt_entry_count := 0,
              bt_policies := replicate MAX_CONVERSATIONS burn_policy_new,
              bt_expired := replicate MAX_EXPIRED_QUEUE None, bt_expired_count := 0\<rparr>))"

section \<open>Entry points\<close>

definition rs_burn_timer_get_policy :: "u8 \<Rightarrow> bool \<Rightarrow> burn_timer \<Rightarrow> int \<times> (bool \<times> u64) option" where
  "rs_burn_timer_get_policy c null_out s =
     (if null_out then (ESP_ERR_INVALID_ARG, None)
      else case get_policy c s of Inl e \<Rightarrow> (e, None) | Inr p \<Rightarrow> (ESP_OK, Some p))"

definition rs_burn_timer_get_expired :: "burn_key list option \<Rightarrow> burn_timer \<Rightarrow> int \<times> burn_key list \<times> burn_timer" where
  "rs_burn_timer_get_expired out s =
     (case out of
        None \<Rightarrow> (ESP_ERR_INVALID_ARG, [], s)
      | Some buf \<Rightarrow> if buf = [] then (0, [], s) else get_expired buf s)"

definition rs_burn_timer_get_stats :: "bool \<Rightarrow> burn_timer \<Rightarrow> int \<times> (nat \<times> u32 \<times> u64) option" where
  "rs_burn_timer_get_stats null_out s =
     (if null_out then (ESP_ERR_INVALID_ARG, None)
      else if \<not> bt_initialized s then (ESP_ERR_INVALID_STATE, None)
      else (ESP_OK, Some (bt_entry_count s, bt_total_burned s, bt_tick_count s)))"

end
