(* ===== verification/Burn_Safety.thy ===== *)
theory Burn_Safety
  imports Burn_Timer
begin

text \<open>
  The burn timers as a finite map from messages to the time they were set and their delay: every
  operation of the slot table is one on the map, expired timers are reported in the order of their
  slots, and where reports get lost.
\<close>

section \<open>The table as a map\<close>

definition entry_key :: "burn_entry \<Rightarrow> burn_key" where
  "entry_key e = (be_conversation e, be_message e)"

definition entry_value :: "burn_entry \<Rightarrow> u64 \<times> u64" where
  "entry_value e = (be_created_at e, be_burn_after e)"

definition table :: "burn_entry option list \<Rightarrow> (burn_key \<times> u64 \<times> u64) list" where
  "table xs = map (\<lambda>e. (entry_key e, entry_value e)) (somes xs)"

definition timers :: "burn_timer \<Rightarrow> burn_key \<Rightarrow> (u64 \<times> u64) option" where
  "timers s = map_of (table (ensure_entries s))"

definition slots_ok :: "burn_entry option list \<Rightarrow> bool" where
  "slots_ok xs \<longleftrightarrow> length xs = MAX_BURN_ENTRIES \<and> (\<forall>e\<in>set (somes xs). be_active e) \<and> distinct (map fst (table xs))"

text \<open>The queue of expired timers holds \<open>ks\<close>.\<close>

definition queue_holds :: "burn_key list \<Rightarrow> burn_key option list \<Rightarrow> nat \<Rightarrow> bool" where
  "queue_holds ks q n \<longleftrightarrow>
     q = map Some ks @ replicate (MAX_EXPIRED_QUEUE - length ks) None \<and> n = length ks \<and> length ks \<le> MAX_EXPIRED_QUEUE"

definition pending :: "burn_timer \<Rightarrow> burn_key list" where
  "pending s = somes (bt_expired s)"

definition burn_inv :: "burn_timer \<Rightarrow> bool" where
  "burn_inv s \<longleftrightarrow> bt_initialized s \<and> slots_ok (ensure_entries s) \<and>
     bt_entry_count s = length (somes (ensure_entries s)) \<and> length (bt_policies s) = MAX_CONVERSATIONS \<and>
     queue_holds (pending s) (bt_expired s) (bt_expired_count s)"

lemma find_entry_slots: "find_entry c m s = find_index (slot_for (c, m)) (ensure_entries s)"
proof -
  have "find_index (slot_for (c, m)) (replicate n None) = None" for n
    by (simp add: find_index_None slot_for_def)
  then show ?thesis by (simp add: find_entry_def ensure_entries_def split: option.split)
qed

lemma find_free_slots: "find_free_slot s = find_index slot_free (ensure_entries s)"
  by (simp add: find_free_slot_def ensure_entries_def MAX_BURN_ENTRIES_def numeral_eq_Suc slot_free_def split: option.split)

lemma slot_for_iff: "slots_ok xs \<Longrightarrow> x \<in> set xs \<Longrightarrow> slot_for k x \<longleftrightarrow> (\<exists>e. x = Some e \<and> entry_key e = k)"
  by (cases x) (auto simp: slot_for_def slots_ok_def set_somes entry_key_def)

lemma slot_free_iff: "slots_ok xs \<Longrightarrow> x \<in> set xs \<Longrightarrow> slot_free x \<longleftrightarrow> x = None"
  by (cases x) (auto simp: slot_free_def slots_ok_def set_somes)

lemma table_append [simp]: "table (xs @ ys) = table xs @ table ys" "table [] = []" "table (None # xs) = table xs"
  "table (Some e # xs) = (entry_key e, entry_value e) # table xs"
  by (simp_all add: table_def)

lemma table_keys: "k \<in> set (map fst (table xs)) \<longleftrightarrow> (\<exists>e. Some e \<in> set xs \<and> entry_key e = k)"
  by (auto simp: table_def set_somes)

lemma map_of_miss: "k \<notin> set (map fst xs) \<Longrightarrow> map_of xs k = None"
  by (simp add: map_of_eq_None_iff)

text \<open>Emptying the slot of a key and filling a free slot.\<close>

lemma empty_slot:
  assumes "slots_ok xs" "find_index (slot_for k) xs = Some i"
  shows "slots_ok (xs[i := None])" "map_of (table (xs[i := None])) = (map_of (table xs))(k := None)"
    "Suc (length (somes (xs[i := None]))) = length (somes xs)" "map_of (table xs) k \<noteq> None"
    "None \<in> set (xs[i := None])"
proof -
  note cut = find_index_cut [OF assms(2)]
  have "xs ! i \<in> set xs" using find_index_Some [OF assms(2)] by simp
  then obtain e where e: "xs ! i = Some e" "entry_key e = k" using cut(2) slot_for_iff [OF assms(1)] by blast
  have t: "table xs = table (take i xs) @ (k, entry_value e) # table (drop (Suc i) xs)"
    using arg_cong [OF cut(1), of table] e by simp
  have d: "k \<notin> set (map fst (table (take i xs)))" "k \<notin> set (map fst (table (drop (Suc i) xs)))"
    using assms(1) t by (auto simp: slots_ok_def)
  show "map_of (table (xs[i := None])) = (map_of (table xs))(k := None)"
    using map_of_miss [OF d(1)] map_of_miss [OF d(2)] unfolding cut(3) t by (auto simp: map_add_def split: option.split)
  show "map_of (table xs) k \<noteq> None" unfolding t by (simp add: map_add_Some_iff)
  have s: "somes xs = somes (take i xs) @ e # somes (drop (Suc i) xs)"
    using arg_cong [OF cut(1), of somes] e by simp
  then show "Suc (length (somes (xs[i := None]))) = length (somes xs)" unfolding cut(3) by simp
  show "slots_ok (xs[i := None])" using assms(1) s t unfolding cut(3) by (auto simp: slots_ok_def)
  show "None \<in> set (xs[i := None])" unfolding cut(3) by simp
qed

lemma fill_slot:
  assumes "slots_ok xs" "find_index slot_free xs = Some i" "map_of (table xs) k = None"
    and "entry_key e = k" "be_active e"
  shows "slots_ok (xs[i := Some e])" "map_of (table (xs[i := Some e])) = (map_of (table xs))(k \<mapsto> entry_value e)"
    "length (somes (xs[i := Some e])) = Suc (length (somes xs))"
proof -
  note cut = find_index_cut [OF assms(2)]
  have "xs ! i \<in> set xs" using find_index_Some [OF assms(2)] by simp
  then have n: "xs ! i = None" using cut(2) slot_free_iff [OF assms(1)] by blast
  have t: "table xs = table (take i xs) @ table (drop (Suc i) xs)" "somes xs = somes (take i xs) @ somes (drop (Suc i) xs)"
    using arg_cong [OF cut(1), of table] arg_cong [OF cut(1), of somes] n by simp_all
  have d: "k \<notin> set (map fst (table (take i xs)))" "k \<notin> set (map fst (table (drop (Suc i) xs)))"
    using assms(3) unfolding t(1) by (auto simp: map_of_eq_None_iff image_iff)
  show "map_of (table (xs[i := Some e])) = (map_of (table xs))(k \<mapsto> entry_value e)"
    using map_of_miss [OF d(1)] assms(4) unfolding cut(3) t by (auto simp: map_add_def split: option.split)
  show "length (somes (xs[i := Some e])) = Suc (length (somes xs))" unfolding cut(3) t by simp
  have t': "table (xs[i := Some e]) = table (take i xs) @ (k, entry_value e) # table (drop (Suc i) xs)"
    "somes (xs[i := Some e]) = somes (take i xs) @ e # somes (drop (Suc i) xs)"
    using assms(4) unfolding cut(3) by simp_all
  have "distinct (map fst (table (take i xs)) @ map fst (table (drop (Suc i) xs)))"
    "\<forall>e\<in>set (somes (take i xs)) \<union> set (somes (drop (Suc i) xs)). be_active e" "length xs = MAX_BURN_ENTRIES"
    using assms(1) unfolding slots_ok_def t by simp_all
  with d assms(5) show "slots_ok (xs[i := Some e])" unfolding slots_ok_def t' by (auto simp only: length_list_update
      map_append list.map fst_conv distinct_append distinct.simps set_append list.set Un_iff insert_iff Int_iff)
qed

lemma entry_missing:
  assumes "slots_ok xs" "find_index (slot_for k) xs = None"
  shows "map_of (table xs) k = None"
proof (rule map_of_miss)
  show "k \<notin> set (map fst (table xs))"
    using assms(2) slot_for_iff [OF assms(1)] unfolding table_keys find_index_None by (metis in_set_conv_nth)
qed

lemma free_missing: "slots_ok xs \<Longrightarrow> find_index slot_free xs = None \<longleftrightarrow> length (somes xs) = MAX_BURN_ENTRIES"
  using somes_full [of xs] slot_free_iff [of xs] unfolding find_index_None slots_ok_def by (metis in_set_conv_nth)

text \<open>Emptying all slots whose entry does not satisfy a condition.\<close>

definition keep_slots :: "(burn_entry \<Rightarrow> bool) \<Rightarrow> burn_entry option list \<Rightarrow> burn_entry option list" where
  "keep_slots P = map (\<lambda>x. case x of None \<Rightarrow> None | Some e \<Rightarrow> if P e then Some e else None)"

lemma somes_keep: "somes (keep_slots P xs) = filter P (somes xs)"
  by (induction xs rule: somes.induct) (auto simp: keep_slots_def)

lemma keep_slots_ok: "slots_ok xs \<Longrightarrow> slots_ok (keep_slots P xs)"
proof -
  assume ok: "slots_ok xs"
  then have "distinct (map entry_key (somes xs))" by (simp add: slots_ok_def table_def comp_def)
  then have "distinct (map entry_key (filter P (somes xs)))" by (rule distinct_map_filter)
  with ok show ?thesis by (simp add: slots_ok_def somes_keep table_def comp_def) (simp add: keep_slots_def)
qed

lemma map_of_filter_distinct:
  "distinct (map fst t) \<Longrightarrow> map_of (filter (\<lambda>(k, v). Q k v) t) k =
     (case map_of t k of None \<Rightarrow> None | Some v \<Rightarrow> if Q k v then Some v else None)"
proof (induction t)
  case (Cons a t)
  then show ?case by (cases a) (auto simp: map_of_eq_None_iff split: option.split dest: map_of_SomeD)
qed simp

lemma table_keep:
  assumes "slots_ok xs" "\<And>e. e \<in> set (somes xs) \<Longrightarrow> P e \<longleftrightarrow> Q (entry_key e) (entry_value e)"
  shows "map_of (table (keep_slots P xs)) k =
     (case map_of (table xs) k of None \<Rightarrow> None | Some v \<Rightarrow> if Q k v then Some v else None)"
proof -
  have "table (keep_slots P xs) = filter (\<lambda>(k, v). Q k v) (table xs)"
    using assms(2) by (simp add: table_def somes_keep filter_map comp_def cong: filter_cong)
  then show ?thesis using map_of_filter_distinct [of "table xs" Q k] assms(1) by (simp add: slots_ok_def)
qed

lemma clear_slots:
  "over_slots (clear_slot c) xs n =
     (keep_slots (\<lambda>e. \<not> (be_active e \<and> be_conversation e = c)) xs,
      n - length (filter (\<lambda>e. be_active e \<and> be_conversation e = c) (somes xs)))"
  by (induction xs arbitrary: n rule: somes.induct) (auto simp: keep_slots_def clear_slot_def)

definition due :: "u64 \<Rightarrow> burn_entry \<Rightarrow> bool" where
  "due now_ms e \<longleftrightarrow> be_active e \<and> deadline e \<le> now_ms"

definition push_expired :: "burn_entry \<Rightarrow> tick_acc \<Rightarrow> tick_acc" where
  "push_expired e a =
     (if ta_expired_count a < MAX_EXPIRED_QUEUE
      then a\<lparr>ta_expired := (ta_expired a)[ta_expired_count a := Some (entry_key e)], ta_expired_count := ta_expired_count a + 1\<rparr>
      else a)
     \<lparr>ta_total_burned := ta_total_burned a + 1, ta_entry_count := ta_entry_count a - 1, ta_newly := ta_newly a + 1\<rparr>"

lemma tick_slots:
  "over_slots (tick_slot now_ms) xs a =
     (keep_slots (\<lambda>e. \<not> due now_ms e) xs, fold push_expired (filter (due now_ms) (somes xs)) a)"
proof (induction xs arbitrary: a rule: somes.induct)
  case (3 x xs)
  show ?case
  proof (cases "due now_ms x")
    case True
    then have "tick_slot now_ms (Some x) a = (None, push_expired x a)"
      by (simp only: tick_slot_def option.case due_def simp_thms if_True push_expired_def entry_key_def)
    with True 3 show ?thesis by (simp add: keep_slots_def)
  next
    case False
    then have "tick_slot now_ms (Some x) a = (Some x, a)"
      by (simp only: tick_slot_def option.case due_def simp_thms if_False)
    with False 3 show ?thesis by (simp add: keep_slots_def)
  qed
qed (simp_all add: keep_slots_def tick_slot_def)

lemma push_counts:
  "ta_newly (fold push_expired es a) = ta_newly a + length es"
  "ta_entry_count (fold push_expired es a) = ta_entry_count a - length es"
  "ta_total_burned (fold push_expired es a) = ta_total_burned a + of_nat (length es)"
  by (induction es arbitrary: a) (simp_all add: push_expired_def algebra_simps)

lemma queue_push:
  assumes "queue_holds ks (ta_expired a) (ta_expired_count a)"
  shows "queue_holds (take MAX_EXPIRED_QUEUE (ks @ [entry_key e])) (ta_expired (push_expired e a)) (ta_expired_count (push_expired e a))"
proof (cases "length ks < MAX_EXPIRED_QUEUE")
  case True
  then obtain n where n: "MAX_EXPIRED_QUEUE - length ks = Suc n" by (metis Suc_diff_Suc)
  then have "(map Some ks @ replicate (MAX_EXPIRED_QUEUE - length ks) None)[length ks := Some (entry_key e)] =
      map Some (ks @ [entry_key e]) @ replicate (MAX_EXPIRED_QUEUE - Suc (length ks)) None"
    by (simp add: list_update_append)
  with True assms show ?thesis by (simp add: queue_holds_def push_expired_def)
next
  case False
  with assms show ?thesis by (simp add: queue_holds_def push_expired_def)
qed

lemma queue_pushes:
  "queue_holds ks (ta_expired a) (ta_expired_count a) \<Longrightarrow>
   queue_holds (take MAX_EXPIRED_QUEUE (ks @ map entry_key es)) (ta_expired (fold push_expired es a))
     (ta_expired_count (fold push_expired es a))"
proof (induction es arbitrary: ks a)
  case Nil
  then show ?case by (simp add: queue_holds_def)
next
  case (Cons e es)
  have "take MAX_EXPIRED_QUEUE (take MAX_EXPIRED_QUEUE (ks @ [entry_key e]) @ map entry_key es) =
      take MAX_EXPIRED_QUEUE (ks @ entry_key e # map entry_key es)"
    by (cases "length ks < MAX_EXPIRED_QUEUE") (auto simp: take_Cons')
  with Cons.IH [OF queue_push [OF Cons.prems, of e]] show ?case by simp
qed

lemma queue_holds_somes: "queue_holds ks q n \<Longrightarrow> somes q = ks"
proof -
  assume "queue_holds ks q n"
  moreover have "somes (map Some ks) = ks" by (induction ks) auto
  ultimately show ?thesis by (simp add: queue_holds_def)
qed

section \<open>The operations on the map\<close>

lemma drop_entry_slots:
  "ensure_entries (drop_entry i s) = (ensure_entries s)[i := None]"
  "bt_entry_count (drop_entry i s) = bt_entry_count s - 1"
  "bt_tick_count (drop_entry i s) = bt_tick_count s" "bt_initialized (drop_entry i s) = bt_initialized s"
  "bt_policies (drop_entry i s) = bt_policies s" "bt_expired (drop_entry i s) = bt_expired s"
  "bt_expired_count (drop_entry i s) = bt_expired_count s"
  by (simp_all add: drop_entry_def put_slot_def ensure_entries_def)

lemma drop_entry_inv:
  assumes "burn_inv s" "find_entry c m s = Some i"
  shows "burn_inv (drop_entry i s)" "timers (drop_entry i s) = (timers s)((c, m) := None)"
    "timers s (c, m) \<noteq> None" "find_index slot_free (ensure_entries (drop_entry i s)) \<noteq> None"
proof -
  have f: "find_index (slot_for (c, m)) (ensure_entries s) = Some i" and ok: "slots_ok (ensure_entries s)"
    using assms by (simp_all add: find_entry_slots burn_inv_def)
  note e = empty_slot [OF ok f]
  show "burn_inv (drop_entry i s)" using assms(1) e(1,3) by (simp add: burn_inv_def drop_entry_slots pending_def)
  show "timers (drop_entry i s) = (timers s)((c, m) := None)" "timers s (c, m) \<noteq> None"
    using e(2,4) by (simp_all add: timers_def drop_entry_slots)
  have "length (somes (ensure_entries (drop_entry i s))) \<noteq> MAX_BURN_ENTRIES"
    using somes_full [of "(ensure_entries s)[i := None]"] e(1,5) by (simp add: drop_entry_slots slots_ok_def)
  then show "find_index slot_free (ensure_entries (drop_entry i s)) \<noteq> None"
    using free_missing [OF e(1)] by (simp add: drop_entry_slots)
qed

lemma card_timers: "burn_inv s \<Longrightarrow> card (dom (timers s)) = bt_entry_count s"
proof -
  assume "burn_inv s"
  then have "distinct (map fst (table (ensure_entries s)))" "bt_entry_count s = length (table (ensure_entries s))"
    by (simp_all add: burn_inv_def slots_ok_def table_def)
  then show ?thesis by (metis timers_def dom_map_of_conv_image_fst distinct_card length_map set_map)
qed

lemma set_timer_spec:
  assumes "burn_inv s" "validate_conv_id c" "validate_msg_idx m" "set_timer c m d s = (r, s')"
  shows "burn_inv s' \<and>
    (if timers s (c, m) \<noteq> None \<or> card (dom (timers s)) < MAX_BURN_ENTRIES
     then r = ESP_OK \<and> timers s' = (timers s)((c, m) \<mapsto> (bt_tick_count s, d))
     else r = ESP_ERR_NO_MEM \<and> s' = s)"
proof -
  define s1 where "s1 = (case find_entry c m s of Some i \<Rightarrow> drop_entry i s | None \<Rightarrow> s)"
  have s1: "burn_inv s1 \<and> timers s1 = (timers s)((c, m) := None) \<and> bt_tick_count s1 = bt_tick_count s \<and>
      (timers s (c, m) \<noteq> None \<longrightarrow> find_index slot_free (ensure_entries s1) \<noteq> None) \<and> (timers s (c, m) = None \<longrightarrow> s1 = s)"
  proof (cases "find_entry c m s")
    case None
    with assms(1) entry_missing [of "ensure_entries s" "(c, m)"] show ?thesis
      by (simp add: s1_def find_entry_slots timers_def burn_inv_def fun_upd_idem)
  next
    case (Some i)
    with drop_entry_inv [OF assms(1) Some] show ?thesis by (auto simp: s1_def drop_entry_slots)
  qed
  then have ok: "slots_ok (ensure_entries s1)" by (simp add: burn_inv_def)
  let ?e = "\<lparr>be_conversation = c, be_message = m, be_created_at = bt_tick_count s, be_burn_after = d, be_active = True\<rparr>"
  have st: "set_timer c m d s = (case find_free_slot s1 of None \<Rightarrow> (ESP_ERR_NO_MEM, s1)
      | Some slot \<Rightarrow> (ESP_OK, (put_slot slot (Some ?e) s1)\<lparr>bt_entry_count := bt_entry_count s1 + 1\<rparr>))"
    using assms(1-3) s1 by (simp add: set_timer_def burn_inv_def Let_def flip: s1_def split: option.split)
  show ?thesis
  proof (cases "find_index slot_free (ensure_entries s1)")
    case None
    with s1 have t: "timers s (c, m) = None" by metis
    with s1 have t: "timers s (c, m) = None" "s1 = s" by simp_all
    moreover have "length (somes (ensure_entries s)) = MAX_BURN_ENTRIES"
      using free_missing [OF ok] None t by simp
    ultimately show ?thesis
      using assms(1,4) None card_timers [OF assms(1)] st t by (simp add: find_free_slots) (simp add: burn_inv_def)
  next
    case (Some i)
    have miss: "map_of (table (ensure_entries s1)) (c, m) = None" using s1 by (simp add: timers_def)
    note f = fill_slot [OF ok Some miss, of ?e]
    have s': "r = ESP_OK \<and> s' = (put_slot i (Some ?e) s1)\<lparr>bt_entry_count := bt_entry_count s1 + 1\<rparr>"
      using assms(4) Some st by (simp add: find_free_slots)
    have slots: "ensure_entries s' = (ensure_entries s1)[i := Some ?e]"
      using s' by (simp add: put_slot_def ensure_entries_def)
    have "burn_inv s'" using s1 s' f(1,3) slots
      by (simp add: burn_inv_def put_slot_def pending_def entry_key_def)
    moreover have "timers s' = (timers s)((c, m) \<mapsto> (bt_tick_count s, d))"
      using f(2) s1 slots by (simp add: timers_def entry_key_def entry_value_def)
    moreover have "timers s (c, m) \<noteq> None \<or> card (dom (timers s)) < MAX_BURN_ENTRIES"
    proof (cases "timers s (c, m) = None")
      case True
      with s1 have "s1 = s" by simp
      with Some free_missing [of "ensure_entries s"] ok have "length (somes (ensure_entries s)) \<noteq> MAX_BURN_ENTRIES" by simp
      moreover have "length (somes (ensure_entries s)) \<le> MAX_BURN_ENTRIES"
        using length_somes [of "ensure_entries s"] ok \<open>s1 = s\<close> by (simp add: slots_ok_def)
      ultimately show ?thesis using card_timers [OF assms(1)] assms(1) by (simp add: burn_inv_def)
    qed simp
    ultimately show ?thesis using s' by simp
  qed
qed

lemma cancel_timer_spec:
  assumes "burn_inv s" "validate_conv_id c" "validate_msg_idx m" "cancel_timer c m s = (r, s')"
  shows "burn_inv s' \<and> timers s' = (timers s)((c, m) := None) \<and>
    r = (if timers s (c, m) = None then ESP_ERR_NOT_FOUND else ESP_OK)"
proof (cases "find_entry c m s")
  case None
  with assms entry_missing [of "ensure_entries s" "(c, m)"] show ?thesis
    by (auto simp: cancel_timer_def find_entry_slots timers_def burn_inv_def fun_upd_idem)
next
  case (Some i)
  with assms drop_entry_inv [OF assms(1) Some] show ?thesis by (auto simp: cancel_timer_def burn_inv_def)
qed

lemma entries_somes: "bt_entries s = None \<Longrightarrow> somes (ensure_entries s) = []"
  by (simp add: ensure_entries_def)

lemma cancel_conversation_spec:
  assumes "burn_inv s" "validate_conv_id c"
  shows "burn_inv (snd (cancel_conversation c s)) \<and> fst (cancel_conversation c s) = ESP_OK \<and>
    timers (snd (cancel_conversation c s)) = (\<lambda>k. if fst k = c then None else timers s k)"
proof (cases "bt_entries s")
  case None
  then have "table (ensure_entries s) = []" by (simp add: table_def entries_somes)
  with None assms show ?thesis by (auto simp: cancel_conversation_def burn_inv_def timers_def)
next
  case (Some es)
  then have es: "ensure_entries s = es" by (simp add: ensure_entries_def)
  let ?P = "\<lambda>e. be_active e \<and> be_conversation e = c"
  define s' where "s' = snd (cancel_conversation c s)"
  have s': "s' = s\<lparr>bt_entries := Some (keep_slots (\<lambda>e. \<not> ?P e) es),
      bt_entry_count := bt_entry_count s - length (filter ?P (somes es))\<rparr>" "fst (cancel_conversation c s) = ESP_OK"
    using assms Some by (simp_all add: s'_def cancel_conversation_def burn_inv_def clear_slots)
  then have slots: "ensure_entries s' = keep_slots (\<lambda>e. \<not> ?P e) es" by (simp add: ensure_entries_def)
  have ok: "slots_ok es" "bt_entry_count s = length (somes es)" using assms(1) es by (simp_all add: burn_inv_def)
  have "length (somes es) - length (filter ?P (somes es)) = length (filter (\<lambda>e. \<not> ?P e) (somes es))"
    using sum_length_filter_compl [of ?P "somes es"] by simp
  moreover have "bt_initialized s' = bt_initialized s" "bt_policies s' = bt_policies s" "bt_expired s' = bt_expired s"
    "bt_expired_count s' = bt_expired_count s" "bt_entry_count s' = bt_entry_count s - length (filter ?P (somes es))"
    by (simp_all add: s'(1))
  ultimately have "burn_inv s'"
    using assms(1) ok keep_slots_ok [OF ok(1)] by (simp add: burn_inv_def slots somes_keep pending_def)
  moreover have "(\<not> ?P e) = (fst (entry_key e) \<noteq> c)" if "e \<in> set (somes es)" for e
    using ok(1) that by (simp add: slots_ok_def entry_key_def)
  then have "timers s' k = (if fst k = c then None else timers s k)" for k
    using table_keep [OF ok(1), of "\<lambda>e. \<not> ?P e" "\<lambda>k v. fst k \<noteq> c" k] es
    by (auto simp: timers_def slots split: option.split)
  ultimately show ?thesis using s' by (auto simp flip: s'_def)
qed

text \<open>The entries a tick burns, in slot order.\<close>

definition due_keys :: "u64 \<Rightarrow> burn_timer \<Rightarrow> burn_key list" where
  "due_keys now_ms s = map entry_key (filter (due now_ms) (somes (ensure_entries s)))"

lemma burn_tick_spec:
  assumes "burn_inv s" "burn_tick now_ms s = (r, s')"
  shows "burn_inv s' \<and> r = int (length (due_keys now_ms s)) \<and> bt_tick_count s' = now_ms \<and>
    timers s' = (\<lambda>k. case timers s k of None \<Rightarrow> None | Some (t, d) \<Rightarrow> if t + d \<le> now_ms then None else Some (t, d)) \<and>
    pending s' = take MAX_EXPIRED_QUEUE (pending s @ due_keys now_ms s)"
proof -
  have ok: "slots_ok (ensure_entries s)" and n: "bt_entry_count s = length (somes (ensure_entries s))"
    and q: "queue_holds (pending s) (bt_expired s) (bt_expired_count s)" and i: "bt_initialized s"
    using assms(1) by (simp_all add: burn_inv_def)
  show ?thesis
  proof (cases "bt_entries s")
    case None
    then have "table (ensure_entries s) = []" by (simp add: table_def entries_somes)
    moreover have "pending s = take MAX_EXPIRED_QUEUE (pending s)" using q by (simp add: queue_holds_def)
    moreover have "r = 0" "s' = s\<lparr>bt_tick_count := now_ms\<rparr>" using assms(2) None i by (simp_all add: burn_tick_def)
    ultimately show ?thesis
      using assms(1) None by (simp add: due_keys_def entries_somes burn_inv_def timers_def ensure_entries_def pending_def)
  next
    case (Some es)
    then have es: "ensure_entries s = es" by (simp add: ensure_entries_def)
    define a where "a = fold push_expired (filter (due now_ms) (somes es))
      \<lparr>ta_expired = bt_expired s, ta_expired_count = bt_expired_count s, ta_total_burned = bt_total_burned s,
       ta_entry_count = bt_entry_count s, ta_newly = 0\<rparr>"
    have r: "r = int (ta_newly a)" and s': "s' = s\<lparr>bt_tick_count := now_ms, bt_entries := Some (keep_slots (\<lambda>e. \<not> due now_ms e) es),
        bt_expired := ta_expired a, bt_expired_count := ta_expired_count a, bt_total_burned := ta_total_burned a,
        bt_entry_count := ta_entry_count a\<rparr>"
      using assms(2) i Some by (simp_all add: burn_tick_def Let_def tick_slots a_def)
    then have slots: "ensure_entries s' = keep_slots (\<lambda>e. \<not> due now_ms e) es" by (simp add: ensure_entries_def)
    have counts: "ta_newly a = length (filter (due now_ms) (somes es))"
      "ta_entry_count a = length (somes es) - length (filter (due now_ms) (somes es))"
      using n by (simp_all add: a_def push_counts es)
    have queue: "queue_holds (take MAX_EXPIRED_QUEUE (pending s @ due_keys now_ms s)) (ta_expired a) (ta_expired_count a)"
      unfolding a_def due_keys_def es by (rule queue_pushes) (simp add: q)
    have fields: "bt_initialized s'" "bt_policies s' = bt_policies s" "bt_expired s' = ta_expired a"
      "bt_expired_count s' = ta_expired_count a" "bt_entry_count s' = ta_entry_count a" "bt_tick_count s' = now_ms"
      using i by (simp_all add: s')
    have pend: "pending s' = take MAX_EXPIRED_QUEUE (pending s @ due_keys now_ms s)"
      using queue_holds_somes [OF queue] by (simp add: pending_def fields)
    have "length (somes es) - length (filter (due now_ms) (somes es)) = length (filter (\<lambda>e. \<not> due now_ms e) (somes es))"
      using sum_length_filter_compl [of "due now_ms" "somes es"] by simp
    then have inv: "burn_inv s'"
      using assms(1) queue keep_slots_ok [of es] ok es
      unfolding burn_inv_def slots somes_keep fields counts pend by (simp add: fields(1))
    have "(\<not> due now_ms e) = (\<not> fst (entry_value e) + snd (entry_value e) \<le> now_ms)" if "e \<in> set (somes es)" for e
      using ok es that by (simp add: slots_ok_def due_def deadline_def entry_value_def)
    from table_keep [of es "\<lambda>e. \<not> due now_ms e" "\<lambda>k v. \<not> fst v + snd v \<le> now_ms", OF _ this] ok es
    have "timers s' k = (case timers s k of None \<Rightarrow> None | Some v \<Rightarrow> if \<not> fst v + snd v \<le> now_ms then Some v else None)" for k
      by (simp add: timers_def slots)
    then have "timers s' = (\<lambda>k. case timers s k of None \<Rightarrow> None | Some (t, d) \<Rightarrow> if t + d \<le> now_ms then None else Some (t, d))"
      by (intro ext) (auto split: option.split)
    with inv r counts pend fields show ?thesis by (simp add: due_keys_def es)
  qed
qed

lemma due_keys_iff:
  assumes "burn_inv s"
  shows "set (due_keys now_ms s) = {k. \<exists>t d. timers s k = Some (t, d) \<and> t + d \<le> now_ms}" "distinct (due_keys now_ms s)"
proof -
  have ok: "slots_ok (ensure_entries s)" using assms by (simp add: burn_inv_def)
  then have d: "distinct (map entry_key (somes (ensure_entries s)))" by (simp add: slots_ok_def table_def comp_def)
  then show "distinct (due_keys now_ms s)" unfolding due_keys_def by (rule distinct_map_filter)
  have t: "timers s k = Some v \<longleftrightarrow> (\<exists>e\<in>set (somes (ensure_entries s)). entry_key e = k \<and> entry_value e = v)" for k v
    using ok by (auto simp: timers_def slots_ok_def map_of_eq_Some_iff table_def)
  have "k \<in> set (due_keys now_ms s) \<longleftrightarrow>
      (\<exists>e\<in>set (somes (ensure_entries s)). entry_key e = k \<and> fst (entry_value e) + snd (entry_value e) \<le> now_ms)" for k
    using ok by (auto simp: due_keys_def due_def deadline_def slots_ok_def entry_value_def)
  then have "k \<in> set (due_keys now_ms s) \<longleftrightarrow> (\<exists>v. timers s k = Some v \<and> fst v + snd v \<le> now_ms)" for k
    unfolding t by blast
  then show "set (due_keys now_ms s) = {k. \<exists>t d. timers s k = Some (t, d) \<and> t + d \<le> now_ms}" by auto
qed

lemma get_expired_spec:
  assumes "burn_inv s" "get_expired out s = (r, out', s')"
  shows "burn_inv s' \<and> r = int (min (length (pending s)) (length out)) \<and>
    out' = take (length out) (pending s) @ drop (length (pending s)) out \<and>
    pending s' = drop (length out) (pending s) \<and> timers s' = timers s"
proof -
  let ?n = "min (length (pending s)) (length out)"
  have q: "bt_expired s = map Some (pending s) @ replicate (MAX_EXPIRED_QUEUE - length (pending s)) None"
    "bt_expired_count s = length (pending s)" "length (pending s) \<le> MAX_EXPIRED_QUEUE" and i: "bt_initialized s"
    using assms(1) by (simp_all add: burn_inv_def queue_holds_def)
  have "map (\<lambda>i. case bt_expired s ! i of Some e \<Rightarrow> e | None \<Rightarrow> out ! i) [0..<?n] = take (length out) (pending s)"
    by (rule nth_equalityI) (simp_all add: q(1) nth_append)
  moreover have "drop ?n out = drop (length (pending s)) out" by (cases "length (pending s) \<le> length out") simp_all
  ultimately have r: "r = int ?n" "out' = take (length out) (pending s) @ drop (length (pending s)) out"
    using assms(2) i q(2) by (simp_all add: get_expired_def Let_def)
  let ?ks = "drop (length out) (pending s)"
  have "queue_holds ?ks (bt_expired s') (bt_expired_count s') \<and> timers s' = timers s \<and> ensure_entries s' = ensure_entries s \<and>
      bt_entry_count s' = bt_entry_count s \<and> bt_policies s' = bt_policies s \<and> bt_initialized s'"
  proof (cases "length out < length (pending s)")
    case True
    then have "s' = s\<lparr>bt_expired := take (length ?ks) (drop (length out) (bt_expired s))
        @ replicate (MAX_EXPIRED_QUEUE - length ?ks) None, bt_expired_count := length ?ks\<rparr>"
      using assms(2) i q(2) by (simp add: get_expired_def Let_def)
    moreover have "take (length ?ks) (drop (length out) (bt_expired s)) = map Some ?ks"
      using True by (simp add: q(1) drop_map)
    ultimately show ?thesis using q(3) i by (simp add: queue_holds_def timers_def ensure_entries_def)
  next
    case False
    then have "s' = s\<lparr>bt_expired := replicate MAX_EXPIRED_QUEUE None, bt_expired_count := 0\<rparr>"
      using assms(2) i q(2) by (simp add: get_expired_def Let_def)
    with False i show ?thesis by (simp add: queue_holds_def timers_def ensure_entries_def)
  qed
  with r queue_holds_somes [of ?ks "bt_expired s'"] assms(1) show ?thesis by (auto simp: burn_inv_def pending_def)
qed

section \<open>Runs\<close>

datatype burn_op =
    BSet u8 u8 u64 | BCancel u8 u8 | BCancelConversation u8 | BSetPolicy u8 bool u64 | BTick u64
  | BGetExpired "burn_key list" | BClearAll | BInit

fun burn_step :: "burn_op \<Rightarrow> burn_timer \<Rightarrow> burn_timer" where
  "burn_step (BSet c m d) s = snd (set_timer c m d s)"
| "burn_step (BCancel c m) s = snd (cancel_timer c m s)"
| "burn_step (BCancelConversation c) s = snd (cancel_conversation c s)"
| "burn_step (BSetPolicy c e d) s = snd (set_policy c e d s)"
| "burn_step (BTick now) s = snd (burn_tick now s)"
| "burn_step (BGetExpired out) s = snd (snd (get_expired out s))"
| "burn_step BClearAll s = snd (clear_all s)"
| "burn_step BInit s = snd (burn_init s)"

lemma fresh_inv: "burn_inv (snd (burn_init s))"
  by (simp add: burn_inv_def burn_init_def burn_timer_new_def ensure_entries_def slots_ok_def table_def pending_def
      queue_holds_def)

lemma clear_all_spec: "burn_inv s \<Longrightarrow> burn_inv (snd (clear_all s)) \<and> timers (snd (clear_all s)) = Map.empty \<and> pending (snd (clear_all s)) = []"
  by (simp add: burn_inv_def clear_all_def ensure_entries_def slots_ok_def table_def pending_def queue_holds_def timers_def)

lemma burn_invalid_arg:
  assumes "\<not> (validate_conv_id c \<and> validate_msg_idx m)"
  shows "snd (set_timer c m d s) = s" "snd (cancel_timer c m s) = s"
  using assms by (simp_all only: set_timer_def cancel_timer_def de_Morgan_conj if_True if_cancel snd_conv if_distrib [of snd])

lemma burn_inv_step: "burn_inv s \<Longrightarrow> burn_inv (burn_step op s)"
proof (cases op)
  case (BSet c m d)
  moreover assume "burn_inv s"
  moreover obtain r s' where "set_timer c m d s = (r, s')" by fastforce
  ultimately show ?thesis
    using set_timer_spec [of s c m d r s'] burn_invalid_arg(1) [of c m d s]
    by (cases "validate_conv_id c \<and> validate_msg_idx m") (simp_all split: if_splits)
next
  case (BCancel c m)
  moreover assume "burn_inv s"
  moreover obtain r s' where "cancel_timer c m s = (r, s')" by fastforce
  ultimately show ?thesis
    using cancel_timer_spec [of s c m r s'] burn_invalid_arg(2) [of c m s]
    by (cases "validate_conv_id c \<and> validate_msg_idx m") (simp_all split: if_splits)
next
  case (BCancelConversation c)
  moreover assume "burn_inv s"
  ultimately show ?thesis
    using cancel_conversation_spec [of s c] by (cases "validate_conv_id c") (simp_all add: cancel_conversation_def)
next
  case (BSetPolicy c e d)
  moreover assume "burn_inv s"
  ultimately show ?thesis by (auto simp: set_policy_def burn_inv_def ensure_entries_def pending_def)
next
  case (BTick now)
  moreover assume "burn_inv s"
  ultimately show ?thesis using burn_tick_spec [of s now] by (cases "burn_tick now s") auto
next
  case (BGetExpired out)
  moreover assume "burn_inv s"
  ultimately show ?thesis using get_expired_spec [of s out] by (cases "get_expired out s") auto
qed (simp_all add: clear_all_spec fresh_inv)

lemma burn_inv_count: "burn_inv s \<Longrightarrow> bt_entry_count s \<le> 64"
  using length_somes [of "ensure_entries s"] by (simp add: burn_inv_def slots_ok_def MAX_BURN_ENTRIES_def)

interpretation burn_machine: bounded_machine burn_step burn_inv bt_entry_count 64
  by unfold_locales (simp_all add: burn_inv_step burn_inv_count)

section \<open>Properties\<close>

definition burn_run :: "burn_op list \<Rightarrow> burn_timer" where
  "burn_run ops = fold burn_step ops (snd (burn_init burn_timer_new))"

text \<open>C27. The table is a map from messages to timers: in every run from initialisation at most 64 timers
  are active and the counter is their number; setting a timer replaces or adds exactly that message's,
  and is refused exactly when 64 other timers are active; cancelling removes one message's or one
  conversation's timers.\<close>

theorem burn_refines_map:
  assumes "s = fold burn_step ops (snd (burn_init s0))" "validate_conv_id c" "validate_msg_idx m"
  shows "card (dom (timers s)) \<le> 64 \<and> bt_entry_count s = card (dom (timers s)) \<and>
    (case set_timer c m d s of (r, s') \<Rightarrow>
       if timers s (c, m) \<noteq> None \<or> card (dom (timers s)) < 64
       then r = ESP_OK \<and> timers s' = (timers s)((c, m) \<mapsto> (bt_tick_count s, d)) else r = ESP_ERR_NO_MEM \<and> s' = s) \<and>
    (case cancel_timer c m s of (r, s') \<Rightarrow>
       r = (if timers s (c, m) = None then ESP_ERR_NOT_FOUND else ESP_OK) \<and> timers s' = (timers s)((c, m) := None)) \<and>
    timers (snd (cancel_conversation c s)) = (\<lambda>k. if fst k = c then None else timers s k)"
proof -
  have inv: "burn_inv s" unfolding assms(1) by (rule burn_machine.run_inv [OF fresh_inv])
  obtain r s' where set: "set_timer c m d s = (r, s')" by fastforce
  obtain r2 s2 where cancel: "cancel_timer c m s = (r2, s2)" by fastforce
  show ?thesis
    using card_timers [OF inv] burn_inv_count [OF inv] set_timer_spec [OF inv assms(2,3) set]
      cancel_timer_spec [OF inv assms(2,3) cancel] cancel_conversation_spec [OF inv assms(2)]
    by (simp add: set cancel MAX_BURN_ENTRIES_def)
qed

theorem burn_refines_map_witness:
  "fst (set_timer 1 2 500 (burn_run [BSet 1 2 100, BSet 0 3 200])) = ESP_OK"
proof -
  have "timers (burn_run [BSet 1 2 100, BSet 0 3 200]) (1, 2) \<noteq> None" "validate_conv_id 1" "validate_msg_idx 2" by code_simp+
  with burn_refines_map [where c=1 and m=2 and d=500 and s="burn_run [BSet 1 2 100, BSet 0 3 200]", OF burn_run_def]
  show ?thesis by (auto split: prod.splits)
qed

text \<open>C28. Expiry: a tick removes exactly the timers whose set time plus delay, as a 64-bit sum, has been reached, returns how
  many, and queues their messages behind those still waiting, as far as the 64 places go; draining
  hands out the oldest ones and keeps the rest in order. A message whose report does not fit is
  forgotten.\<close>

theorem burn_expiry_reported:
  assumes "s = fold burn_step ops (snd (burn_init s0))" "burn_tick now s = (r, s')"
  shows "\<exists>ks. set ks = {k. \<exists>t d. timers s k = Some (t, d) \<and> t + d \<le> now} \<and> distinct ks \<and> r = int (length ks) \<and>
    (\<forall>k. timers s' k = (if k \<in> set ks then None else timers s k)) \<and>
    pending s' = take 64 (pending s @ ks) \<and>
    (\<forall>out. case get_expired out s' of (n, out', s'') \<Rightarrow>
       n = int (min (length (pending s')) (length out)) \<and> take (nat n) out' @ pending s'' = pending s' \<and> timers s'' = timers s')"
proof (intro exI conjI allI)
  have inv: "burn_inv s" unfolding assms(1) by (rule burn_machine.run_inv [OF fresh_inv])
  note t = burn_tick_spec [OF inv assms(2)]
  show d: "set (due_keys now s) = {k. \<exists>t d. timers s k = Some (t, d) \<and> t + d \<le> now}" "distinct (due_keys now s)"
    by (rule due_keys_iff [OF inv])+
  show "r = int (length (due_keys now s))" "pending s' = take 64 (pending s @ due_keys now s)"
    using t by (simp_all add: MAX_EXPIRED_QUEUE_def)
  show "timers s' k = (if k \<in> set (due_keys now s) then None else timers s k)" for k
    using t unfolding d(1) by (auto split: option.split)
  have inv': "burn_inv s'" using t by simp
  fix out :: "burn_key list"
  obtain n out' s'' where g: "get_expired out s' = (n, out', s'')" by (cases "get_expired out s'") auto
  from get_expired_spec [OF inv' g] show "case get_expired out s' of (n, out', s'') \<Rightarrow>
      n = int (min (length (pending s')) (length out)) \<and> take (nat n) out' @ pending s'' = pending s' \<and> timers s'' = timers s'"
    by (simp add: g min_def)
qed

theorem burn_expiry_reported_witness:
  "pending (snd (burn_tick 150 (burn_run [BSet 1 2 100, BSet 0 3 200]))) = [(1, 2)]"
proof -
  let ?s = "burn_run [BSet 1 2 100, BSet 0 3 200]"
  obtain r s' where b: "burn_tick 150 ?s = (r, s')" by fastforce
  have "table (ensure_entries ?s) = [((1, 2), 0, 100), ((0, 3), 0, 200)]" and p: "pending ?s = []" by code_simp+
  then have due: "{k. \<exists>t d. timers ?s k = Some (t, d) \<and> t + d \<le> 150} = {(1, 2)}"
    by (auto simp: timers_def split: if_splits)
  from burn_expiry_reported [OF burn_run_def b] obtain ks where "set ks = {(1, 2)}" "distinct ks" "pending s' = take 64 ks"
    by (auto simp: due p)
  then show ?thesis by (cases ks; cases "tl ks") (auto simp: b)
qed

text \<open>A delay that does not fit wraps: a timer whose set time plus delay exceeds 64 bits, such as the
  largest delay meant as never, burns the message at the next tick, even one at the same time.\<close>

theorem burn_overflow:
  assumes "s = fold burn_step ops (snd (burn_init s0))" "validate_conv_id c" "validate_msg_idx m"
    and "set_timer c m d s = (ESP_OK, s1)" "2 ^ 64 \<le> unat (bt_tick_count s) + unat d"
  shows "timers (snd (burn_tick (bt_tick_count s) s1)) (c, m) = None \<and> 0 < fst (burn_tick (bt_tick_count s) s1)"
proof -
  let ?t = "bt_tick_count s"
  have inv: "burn_inv s" unfolding assms(1) by (rule burn_machine.run_inv [OF fresh_inv])
  have s1: "burn_inv s1" "timers s1 (c, m) = Some (?t, d)"
    using set_timer_spec [OF inv assms(2-4)] by (auto split: if_splits)
  obtain r s' where b: "burn_tick ?t s1 = (r, s')" by fastforce
  have "unat (?t + d) = unat ?t + unat d - 2 ^ 64"
    using assms(5) unsigned_less [of ?t, where 'a=nat] unsigned_less [of d, where 'a=nat]
    by (simp add: unat_word_ariths mod_if [of "unat _ + unat _"])
  moreover have "unat d < 2 ^ 64" by (rule order_less_le_trans [OF unsigned_less]) simp
  ultimately have "?t + d \<le> ?t" by (simp add: word_le_nat_alt)
  with due_keys_iff [OF s1(1), of ?t] s1(2) have "(c, m) \<in> set (due_keys ?t s1)" by blast
  then have "due_keys ?t s1 \<noteq> []" by auto
  with burn_tick_spec [OF s1(1) b] s1(2) \<open>?t + d \<le> ?t\<close> show ?thesis by (simp add: b)
qed

theorem burn_overflow_witness:
  "0 < fst (burn_tick 10 (snd (set_timer 1 2 (- 1) (burn_run [BTick 10]))))"
proof -
  have a: "fst (set_timer 1 2 (- 1) (burn_run [BTick 10])) = ESP_OK" by code_simp
  have b: "bt_tick_count (burn_run [BTick 10]) = 10" "validate_conv_id 1" "validate_msg_idx 2" by code_simp+
  obtain s1 where "set_timer 1 2 (- 1) (burn_run [BTick 10]) = (ESP_OK, s1)" using a by (cases "set_timer 1 2 (- 1) (burn_run [BTick 10])") simp
  with burn_overflow [OF burn_run_def b(2,3) this] b(1) show ?thesis by (simp add: unsigned_minus_1_eq_mask mask_eq_exp_minus_1)
qed

end
