(* ===== verification/Driver_Reload.thy ===== *)
theory Driver_Reload
  imports Thistle_Prelude
begin

text \<open>
  The driver reload manager (\<open>kernel_rs/src/driver_reload.rs\<close>): a table of sixteen registered drivers
  and the life cycle of each, driven by calls to the platform. The platform is the host, where every
  call succeeds without effect, or an ESP-IDF build, where the calls are C functions: their results are
  a parameter, given the calls made so far. The calls are recorded in \<open>dl_calls\<close>, which is not a field
  of the source. A buffer with its length field is the string of the bytes before that length.
\<close>

definition MAX_RELOADABLE :: nat where "MAX_RELOADABLE = 16"
definition MAX_HAL_TYPE :: u8 where "MAX_HAL_TYPE = 9"

datatype driver_state = Empty | Loaded | Running | Stopped | Error

fun driver_state_u8 :: "driver_state \<Rightarrow> int" where
  "driver_state_u8 Empty = 0"
| "driver_state_u8 Loaded = 1"
| "driver_state_u8 Running = 2"
| "driver_state_u8 Stopped = 3"
| "driver_state_u8 Error = 4"

record reloadable =
  rd_id :: u32
  rd_path :: string
  rd_name :: string
  rd_hal_type :: u8
  rd_state :: driver_state
  rd_load_count :: u32
  rd_last_error :: int
  rd_version :: string

definition driver_empty :: reloadable where
  "driver_empty = \<lparr>rd_id = 0, rd_path = [], rd_name = [], rd_hal_type = 0, rd_state = Empty,
     rd_load_count = 0, rd_last_error = 0, rd_version = []\<rparr>"

record driver_info =
  di_id :: u32
  di_path :: string
  di_name :: string
  di_hal_type :: u8
  di_state :: int
  di_load_count :: u32
  di_last_error :: int

definition to_info :: "reloadable \<Rightarrow> driver_info" where
  "to_info d = \<lparr>di_id = rd_id d, di_path = rd_path d, di_name = rd_name d, di_hal_type = rd_hal_type d,
     di_state = driver_state_u8 (rd_state d), di_load_count = rd_load_count d, di_last_error = rd_last_error d\<rparr>"

datatype platform_call =
    LoadDriver string | UnloadDriver u32 | StartDriver u8 | StopDriver u8 | HalPreReload u8 | HalPostReload u8

record driver_reload =
  dl_drivers :: "reloadable option list"
  dl_driver_count :: nat
  dl_next_id :: u32
  dl_total_reloads :: u32
  dl_initialized :: bool
  dl_calls :: "platform_call list"

definition reload_new :: driver_reload where
  "reload_new = \<lparr>dl_drivers = replicate MAX_RELOADABLE None, dl_driver_count = 0, dl_next_id = 1,
     dl_total_reloads = 0, dl_initialized = False, dl_calls = []\<rparr>"

section \<open>The platform\<close>

record platform =
  pf_espidf :: bool
  pf_extern :: "platform_call list \<Rightarrow> platform_call \<Rightarrow> int"

definition replacement_supported_for_target :: "bool \<Rightarrow> bool" where
  "replacement_supported_for_target is_espidf \<longleftrightarrow> \<not> is_espidf"

definition platform_load_driver :: "platform \<Rightarrow> string \<Rightarrow> platform_call list \<Rightarrow> int" where
  "platform_load_driver pf path calls =
     (if \<not> pf_espidf pf then ESP_OK else if path = [] then ESP_ERR_INVALID_ARG
      else pf_extern pf calls (LoadDriver path))"

text \<open>On a device the old image is retained until reboot.\<close>

definition platform_unload_driver :: "platform \<Rightarrow> u32 \<Rightarrow> int" where
  "platform_unload_driver pf i = ESP_OK"

text \<open>The start, stop, pre-reload and post-reload hooks: not supported counts as success.\<close>

definition platform_hook :: "platform \<Rightarrow> platform_call \<Rightarrow> platform_call list \<Rightarrow> int" where
  "platform_hook pf c calls =
     (if \<not> pf_espidf pf then ESP_OK
      else (let ret = pf_extern pf calls c in if ret = ESP_ERR_NOT_SUPPORTED then ESP_OK else ret))"

fun platform_result :: "platform \<Rightarrow> platform_call list \<Rightarrow> platform_call \<Rightarrow> int" where
  "platform_result pf calls (LoadDriver path) = platform_load_driver pf path calls"
| "platform_result pf calls (UnloadDriver i) = platform_unload_driver pf i"
| "platform_result pf calls c = platform_hook pf c calls"

section \<open>Helpers\<close>

text \<open>What \<open>copy_cstr_to_buf\<close> leaves in a buffer of \<open>n\<close> bytes: one byte is kept for the terminator.\<close>

definition copy_cstr_to_buf :: "string \<Rightarrow> nat \<Rightarrow> string" where
  "copy_cstr_to_buf src n = take (n - 1) src"

definition has_driver_id :: "u32 \<Rightarrow> reloadable option \<Rightarrow> bool" where
  "has_driver_id i x = (case x of None \<Rightarrow> False | Some d \<Rightarrow> rd_id d = i)"

definition has_driver_path :: "string \<Rightarrow> reloadable option \<Rightarrow> bool" where
  "has_driver_path p x = (case x of None \<Rightarrow> False | Some d \<Rightarrow> rd_path d = p)"

definition find_driver_index :: "driver_reload \<Rightarrow> u32 \<Rightarrow> nat option" where
  "find_driver_index s i = find_index (has_driver_id i) (dl_drivers s)"

definition find_driver_by_path :: "driver_reload \<Rightarrow> string \<Rightarrow> nat option" where
  "find_driver_by_path s p = find_index (has_driver_path p) (dl_drivers s)"

definition find_free_slot :: "driver_reload \<Rightarrow> nat option" where
  "find_free_slot s = find_index (\<lambda>x. x = None) (dl_drivers s)"

definition put_driver :: "nat \<Rightarrow> reloadable option \<Rightarrow> driver_reload \<Rightarrow> driver_reload" where
  "put_driver i x s = s\<lparr>dl_drivers := (dl_drivers s)[i := x]\<rparr>"

text \<open>The lookup every operation starts with; the slot found is occupied, so \<open>unwrap\<close> does not panic.\<close>

definition with_driver :: "u32 \<Rightarrow> (nat \<Rightarrow> reloadable \<Rightarrow> driver_reload \<Rightarrow> int \<times> driver_reload) \<Rightarrow>
    driver_reload \<Rightarrow> int \<times> driver_reload" where
  "with_driver i f s =
     (case find_driver_index s i of
        None \<Rightarrow> (ESP_ERR_NOT_FOUND, s)
      | Some idx \<Rightarrow> (case dl_drivers s ! idx of None \<Rightarrow> (ESP_ERR_NOT_FOUND, s) | Some d \<Rightarrow> f idx d s))"

text \<open>A call to the platform: on failure the driver goes to the error state and the code is returned.\<close>

definition attempt :: "platform \<Rightarrow> nat \<Rightarrow> reloadable \<Rightarrow> platform_call \<Rightarrow> (driver_reload \<Rightarrow> int \<times> driver_reload) \<Rightarrow>
    driver_reload \<Rightarrow> int \<times> driver_reload" where
  "attempt pf idx d c k s =
     (let ret = platform_result pf (dl_calls s) c; s1 = s\<lparr>dl_calls := dl_calls s @ [c]\<rparr>
      in if ret \<noteq> ESP_OK then (ret, put_driver idx (Some (d\<lparr>rd_state := Error, rd_last_error := ret\<rparr>)) s1)
         else k s1)"

section \<open>Operations\<close>

definition reload_init :: "driver_reload \<Rightarrow> int \<times> driver_reload" where
  "reload_init s =
     (ESP_OK, s\<lparr>dl_drivers := map (\<lambda>_. None) (dl_drivers s), dl_driver_count := 0, dl_next_id := 1,
        dl_total_reloads := 0, dl_initialized := True\<rparr>)"

definition registered :: "u32 \<Rightarrow> string \<Rightarrow> string \<Rightarrow> u8 \<Rightarrow> reloadable" where
  "registered i path_buf name hal_type =
     driver_empty\<lparr>rd_id := i, rd_path := path_buf, rd_name := copy_cstr_to_buf name 32,
       rd_hal_type := hal_type, rd_state := Loaded\<rparr>"

definition reload_register :: "string option \<Rightarrow> string option \<Rightarrow> u8 \<Rightarrow> driver_reload \<Rightarrow> int \<times> driver_reload" where
  "reload_register path name hal_type s =
     (case (path, name) of
        (Some p, Some n) \<Rightarrow>
          if MAX_HAL_TYPE < hal_type then (ESP_ERR_INVALID_ARG, s)
          else if \<not> dl_initialized s then (ESP_ERR_INVALID_STATE, s)
          else
            (let path_buf = copy_cstr_to_buf p 128 in
             case find_driver_by_path s path_buf of
               Some idx \<Rightarrow>
                 (case dl_drivers s ! idx of
                    None \<Rightarrow> (ESP_ERR_NOT_FOUND, s)
                  | Some old \<Rightarrow>
                      (sint (rd_id old), put_driver idx (Some (registered (rd_id old) path_buf n hal_type)) s))
             | None \<Rightarrow>
                 (case find_free_slot s of
                    None \<Rightarrow> (ESP_ERR_NO_MEM, s)
                  | Some slot \<Rightarrow>
                      (sint (dl_next_id s),
                       (put_driver slot (Some (registered (dl_next_id s) path_buf n hal_type)) s)
                       \<lparr>dl_next_id := dl_next_id s + 1, dl_driver_count := dl_driver_count s + 1\<rparr>)))
      | _ \<Rightarrow> (ESP_ERR_INVALID_ARG, s))"

definition reload_unregister :: "u32 \<Rightarrow> driver_reload \<Rightarrow> int \<times> driver_reload" where
  "reload_unregister i =
     with_driver i (\<lambda>idx d s.
       if rd_state d = Running then (ESP_ERR_INVALID_STATE, s)
       else (ESP_OK, (put_driver idx None s)
               \<lparr>dl_driver_count := if 0 < dl_driver_count s then dl_driver_count s - 1 else dl_driver_count s\<rparr>))"

definition reload_load :: "platform \<Rightarrow> u32 \<Rightarrow> driver_reload \<Rightarrow> int \<times> driver_reload" where
  "reload_load pf i s =
     (if \<not> replacement_supported_for_target (pf_espidf pf) then (ESP_ERR_NOT_SUPPORTED, s)
      else with_driver i (\<lambda>idx d s.
        (case rd_state d of
           Empty \<Rightarrow> (ESP_ERR_INVALID_STATE, s)
         | Running \<Rightarrow> (ESP_ERR_INVALID_STATE, s)
         | Loaded \<Rightarrow>
             attempt pf idx d (LoadDriver (rd_path d))
               (\<lambda>s. (ESP_OK, put_driver idx (Some (d\<lparr>rd_load_count := rd_load_count d + 1\<rparr>)) s)) s
         | _ \<Rightarrow>
             attempt pf idx d (LoadDriver (rd_path d))
               (\<lambda>s. (ESP_OK, put_driver idx (Some (d\<lparr>rd_state := Loaded, rd_load_count := rd_load_count d + 1,
                  rd_last_error := 0\<rparr>)) s)) s)) s)"

definition reload_unload :: "platform \<Rightarrow> u32 \<Rightarrow> driver_reload \<Rightarrow> int \<times> driver_reload" where
  "reload_unload pf i s =
     (if \<not> replacement_supported_for_target (pf_espidf pf) then (ESP_ERR_NOT_SUPPORTED, s)
      else with_driver i (\<lambda>idx d s.
        (case rd_state d of
           Running \<Rightarrow> (ESP_ERR_INVALID_STATE, s)
         | Empty \<Rightarrow> (ESP_ERR_INVALID_STATE, s)
         | _ \<Rightarrow>
             attempt pf idx d (UnloadDriver (rd_id d))
               (\<lambda>s. (ESP_OK, put_driver idx (Some (d\<lparr>rd_state := Loaded, rd_last_error := 0\<rparr>)) s)) s)) s)"

text \<open>The second half of a reload: load, post-reload hook, success.\<close>

definition load_again :: "platform \<Rightarrow> nat \<Rightarrow> reloadable \<Rightarrow> driver_reload \<Rightarrow> int \<times> driver_reload" where
  "load_again pf idx d =
     attempt pf idx d (LoadDriver (rd_path d))
       (attempt pf idx d (HalPostReload (rd_hal_type d))
         (\<lambda>s. (ESP_OK,
           (put_driver idx (Some (d\<lparr>rd_state := Loaded, rd_load_count := rd_load_count d + 1, rd_last_error := 0\<rparr>)) s)
           \<lparr>dl_total_reloads := dl_total_reloads s + 1\<rparr>)))"

definition unload_and_load :: "platform \<Rightarrow> nat \<Rightarrow> reloadable \<Rightarrow> driver_reload \<Rightarrow> int \<times> driver_reload" where
  "unload_and_load pf idx d =
     (if rd_state d = Stopped \<or> rd_state d = Loaded \<or> rd_state d = Error then
        attempt pf idx d (HalPreReload (rd_hal_type d))
          (attempt pf idx d (UnloadDriver (rd_id d)) (load_again pf idx d))
      else load_again pf idx d)"

definition reload_reload :: "platform \<Rightarrow> u32 \<Rightarrow> driver_reload \<Rightarrow> int \<times> driver_reload" where
  "reload_reload pf i s =
     (if \<not> replacement_supported_for_target (pf_espidf pf) then (ESP_ERR_NOT_SUPPORTED, s)
      else with_driver i (\<lambda>idx d s.
        if rd_state d = Empty then (ESP_ERR_INVALID_STATE, s)
        else if rd_state d = Running then
          attempt pf idx d (StopDriver (rd_hal_type d)) (unload_and_load pf idx (d\<lparr>rd_state := Stopped\<rparr>)) s
        else unload_and_load pf idx d s) s)"

definition reload_start :: "platform \<Rightarrow> u32 \<Rightarrow> driver_reload \<Rightarrow> int \<times> driver_reload" where
  "reload_start pf i =
     with_driver i (\<lambda>idx d s.
       if rd_state d \<noteq> Loaded then (ESP_ERR_INVALID_STATE, s)
       else attempt pf idx d (StartDriver (rd_hal_type d))
              (\<lambda>s. (ESP_OK, put_driver idx (Some (d\<lparr>rd_state := Running, rd_last_error := 0\<rparr>)) s)) s)"

definition reload_stop :: "platform \<Rightarrow> u32 \<Rightarrow> driver_reload \<Rightarrow> int \<times> driver_reload" where
  "reload_stop pf i =
     with_driver i (\<lambda>idx d s.
       if rd_state d \<noteq> Running then (ESP_ERR_INVALID_STATE, s)
       else attempt pf idx d (StopDriver (rd_hal_type d))
              (\<lambda>s. (ESP_OK, put_driver idx (Some (d\<lparr>rd_state := Stopped, rd_last_error := 0\<rparr>)) s)) s)"

definition reload_get_state :: "u32 \<Rightarrow> driver_reload \<Rightarrow> int" where
  "reload_get_state i s = fst (with_driver i (\<lambda>idx d s. (driver_state_u8 (rd_state d), s)) s)"

definition reload_get_info :: "u32 \<Rightarrow> bool \<Rightarrow> driver_reload \<Rightarrow> int \<times> driver_info option" where
  "reload_get_info i null_out s =
     (if null_out then (ESP_ERR_INVALID_ARG, None)
      else case find_driver_index s i of
        None \<Rightarrow> (ESP_ERR_NOT_FOUND, None)
      | Some idx \<Rightarrow> (ESP_OK, map_option to_info (dl_drivers s ! idx)))"

definition reload_get_count :: "driver_reload \<Rightarrow> int" where
  "reload_get_count s = int (dl_driver_count s)"

fun nth_driver :: "u32 \<Rightarrow> u32 \<Rightarrow> reloadable option list \<Rightarrow> reloadable option" where
  "nth_driver index count [] = None"
| "nth_driver index count (None # xs) = nth_driver index count xs"
| "nth_driver index count (Some d # xs) = (if count = index then Some d else nth_driver index (count + 1) xs)"

definition reload_get_at :: "u32 \<Rightarrow> bool \<Rightarrow> driver_reload \<Rightarrow> int \<times> driver_info option" where
  "reload_get_at index null_out s =
     (if null_out then (ESP_ERR_INVALID_ARG, None)
      else case nth_driver index 0 (dl_drivers s) of
        Some d \<Rightarrow> (ESP_OK, Some (to_info d))
      | None \<Rightarrow> (ESP_ERR_INVALID_ARG, None))"

record reload_stats =
  rls_driver_count :: nat
  rls_running_count :: nat
  rls_stopped_count :: nat
  rls_error_count :: nat
  rls_total_reloads :: u32

definition in_state :: "driver_state \<Rightarrow> reloadable option \<Rightarrow> bool" where
  "in_state st x = (case x of None \<Rightarrow> False | Some d \<Rightarrow> rd_state d = st)"

definition reload_get_stats :: "bool \<Rightarrow> driver_reload \<Rightarrow> int \<times> reload_stats option" where
  "reload_get_stats null_out s =
     (if null_out then (ESP_ERR_INVALID_ARG, None)
      else (ESP_OK, Some \<lparr>rls_driver_count = dl_driver_count s,
             rls_running_count = length (filter (in_state Running) (dl_drivers s)),
             rls_stopped_count = length (filter (in_state Stopped) (dl_drivers s)),
             rls_error_count = length (filter (in_state Error) (dl_drivers s)),
             rls_total_reloads = dl_total_reloads s\<rparr>))"

definition reload_by_path :: "platform \<Rightarrow> string option \<Rightarrow> driver_reload \<Rightarrow> int \<times> driver_reload" where
  "reload_by_path pf path s =
     (case path of
        None \<Rightarrow> (ESP_ERR_INVALID_ARG, s)
      | Some p \<Rightarrow>
          (case find_driver_by_path s (copy_cstr_to_buf p 128) of
             None \<Rightarrow> (ESP_ERR_NOT_FOUND, s)
           | Some idx \<Rightarrow>
               (case dl_drivers s ! idx of
                  None \<Rightarrow> (ESP_ERR_NOT_FOUND, s)
                | Some d \<Rightarrow> reload_reload pf (rd_id d) s)))"

definition reload_set_version :: "u32 \<Rightarrow> string option \<Rightarrow> driver_reload \<Rightarrow> int \<times> driver_reload" where
  "reload_set_version i version s =
     (case version of
        None \<Rightarrow> (ESP_ERR_INVALID_ARG, s)
      | Some v \<Rightarrow>
          with_driver i (\<lambda>idx d s. (ESP_OK, put_driver idx (Some (d\<lparr>rd_version := copy_cstr_to_buf v 16\<rparr>)) s)) s)"

end
