(* ===== verification/Slot_Map.thy ===== *)
theory Slot_Map
  imports Thistle_Prelude
begin

text \<open>
  A table of slots read as a map: the entries of the occupied slots under their keys. The lemmas say
  what looking up, replacing, emptying and filling a slot do to the map.
\<close>

definition slot_keys :: "('a \<Rightarrow> 'k) \<Rightarrow> 'a option list \<Rightarrow> 'k list" where
  "slot_keys key xs = map key (somes xs)"

definition slot_map :: "('a \<Rightarrow> 'k) \<Rightarrow> 'a option list \<Rightarrow> 'k \<Rightarrow> 'a option" where
  "slot_map key xs = map_of (map (\<lambda>d. (key d, d)) (somes xs))"

definition slot_has :: "('a \<Rightarrow> 'k) \<Rightarrow> 'k \<Rightarrow> 'a option \<Rightarrow> bool" where
  "slot_has key k x \<longleftrightarrow> (\<exists>d. x = Some d \<and> key d = k)"

lemma slot_map_None [simp]: "slot_map key xs k = None \<longleftrightarrow> k \<notin> set (slot_keys key xs)"
  by (simp add: slot_map_def slot_keys_def map_of_eq_None_iff image_image)

lemma slot_keys_iff: "k \<in> set (slot_keys key xs) \<longleftrightarrow> (\<exists>d. Some d \<in> set xs \<and> key d = k)"
  by (auto simp: slot_keys_def set_somes)

lemma slot_map_key: "slot_map key xs k = Some d \<Longrightarrow> key d = k \<and> Some d \<in> set xs"
  by (auto simp: slot_map_def set_somes dest!: map_of_SomeD)

lemma slot_map_entry: "distinct (slot_keys key xs) \<Longrightarrow> Some d \<in> set xs \<Longrightarrow> slot_map key xs (key d) = Some d"
  by (auto simp: slot_map_def slot_keys_def set_somes comp_def intro!: map_of_is_SomeI)

lemma somes_cut:
  assumes "i < length xs"
  shows "somes xs = somes (take i xs) @ somes [xs ! i] @ somes (drop (Suc i) xs)"
    "somes (xs[i := v]) = somes (take i xs) @ somes [v] @ somes (drop (Suc i) xs)"
proof -
  have "xs = take i xs @ [xs ! i] @ drop (Suc i) xs" using assms by (simp add: id_take_nth_drop [symmetric])
  then show "somes xs = somes (take i xs) @ somes [xs ! i] @ somes (drop (Suc i) xs)" by (metis somes_append)
  show "somes (xs[i := v]) = somes (take i xs) @ somes [v] @ somes (drop (Suc i) xs)"
    using assms by (metis append_Cons append_Nil somes_append upd_conv_take_nth_drop)
qed

lemma replace_slot:
  assumes "i < length xs" "xs ! i = Some d" "key d' = key d" "distinct (slot_keys key xs)"
  shows "slot_keys key (xs[i := Some d']) = slot_keys key xs"
    "slot_map key (xs[i := Some d']) = (slot_map key xs)(key d \<mapsto> d')"
    "length (somes (xs[i := Some d'])) = length (somes xs)"
proof -
  note cut = somes_cut [OF assms(1), unfolded assms(2)]
  show k: "slot_keys key (xs[i := Some d']) = slot_keys key xs" using assms(3) by (simp add: slot_keys_def cut)
  show "length (somes (xs[i := Some d'])) = length (somes xs)" by (simp add: cut)
  have "key d \<notin> set (slot_keys key (take i xs))" using assms(4) by (auto simp: slot_keys_def cut)
  then have "map_of (map (\<lambda>e. (key e, e)) (somes (take i xs))) (key d) = None"
    by (simp add: slot_keys_def map_of_eq_None_iff image_image)
  then show "slot_map key (xs[i := Some d']) = (slot_map key xs)(key d \<mapsto> d')"
    using assms(3) by (auto simp: slot_map_def cut map_add_def split: option.split)
qed

lemma remove_slot:
  assumes "i < length xs" "xs ! i = Some d" "distinct (slot_keys key xs)"
  shows "distinct (slot_keys key (xs[i := None]))" "set (slot_keys key (xs[i := None])) = set (slot_keys key xs) - {key d}"
    "slot_map key (xs[i := None]) = (slot_map key xs)(key d := None)"
    "length (somes xs) = Suc (length (somes (xs[i := None])))"
proof -
  note cut = somes_cut [OF assms(1), unfolded assms(2)]
  show "distinct (slot_keys key (xs[i := None]))" "length (somes xs) = Suc (length (somes (xs[i := None])))"
    "set (slot_keys key (xs[i := None])) = set (slot_keys key xs) - {key d}"
    using assms(3) by (auto simp: slot_keys_def cut)
  have "map_of (map (\<lambda>e. (key e, e)) (somes (take i xs))) (key d) = None"
    "map_of (map (\<lambda>e. (key e, e)) (somes (drop (Suc i) xs))) (key d) = None"
    using assms(3) by (auto simp: slot_keys_def cut map_of_eq_None_iff image_image)
  then show "slot_map key (xs[i := None]) = (slot_map key xs)(key d := None)"
    by (auto simp: slot_map_def cut map_add_def split: option.split)
qed

lemma fill_empty_slot:
  assumes "i < length xs" "xs ! i = None" "distinct (slot_keys key xs)" "key d \<notin> set (slot_keys key xs)"
  shows "distinct (slot_keys key (xs[i := Some d]))" "set (slot_keys key (xs[i := Some d])) = insert (key d) (set (slot_keys key xs))"
    "slot_map key (xs[i := Some d]) = (slot_map key xs)(key d \<mapsto> d)"
    "length (somes (xs[i := Some d])) = Suc (length (somes xs))"
proof -
  note cut = somes_cut [OF assms(1), unfolded assms(2)]
  show "distinct (slot_keys key (xs[i := Some d]))" "length (somes (xs[i := Some d])) = Suc (length (somes xs))"
    "set (slot_keys key (xs[i := Some d])) = insert (key d) (set (slot_keys key xs))"
    using assms(3,4) by (auto simp: slot_keys_def cut)
  have "map_of (map (\<lambda>e. (key e, e)) (somes (take i xs))) (key d) = None"
    using assms(4) by (auto simp: slot_keys_def cut map_of_eq_None_iff image_image)
  then show "slot_map key (xs[i := Some d]) = (slot_map key xs)(key d \<mapsto> d)"
    by (auto simp: slot_map_def cut map_add_def split: option.split)
qed

lemma find_slot_miss:
  assumes "\<And>x. P x \<longleftrightarrow> slot_has key k x"
  shows "find_index P xs = None \<longleftrightarrow> k \<notin> set (slot_keys key xs)"
  unfolding find_index_None slot_keys_iff assms slot_has_def by (metis in_set_conv_nth)

lemma find_slot_hit:
  assumes "\<And>x. P x \<longleftrightarrow> slot_has key k x" "find_index P xs = Some i"
  obtains d where "i < length xs" "xs ! i = Some d" "key d = k" "Some d \<in> set xs"
proof -
  from find_index_Some [OF assms(2)] assms(1) obtain d where "i < length xs" "xs ! i = Some d" "key d = k"
    by (auto simp: slot_has_def)
  then show thesis using that by (metis nth_mem)
qed

lemma card_slot_map: "distinct (slot_keys key xs) \<Longrightarrow> card (dom (slot_map key xs)) = length (somes xs)"
proof -
  assume "distinct (slot_keys key xs)"
  moreover have "dom (slot_map key xs) = set (slot_keys key xs)"
    by (simp add: slot_map_def slot_keys_def dom_map_of_conv_image_fst image_image)
  ultimately show ?thesis using distinct_card [of "slot_keys key xs"] by (simp add: slot_keys_def)
qed

end
