(* ===== verification/Driver_Lifecycle.thy ===== *)
theory Driver_Lifecycle
  imports Driver_Reload Slot_Map
begin

text \<open>
  The life cycle of a managed driver as an abstract machine, and the slot table as a map from
  identifiers to drivers: every operation of the manager is one move of the machine for the driver it
  names and none for the others. The last section shows where the machine parts from the platform.
\<close>

section \<open>The abstract life cycle\<close>

datatype verb = VLoad | VUnload | VReload | VStart | VStop

fun enabled :: "verb \<Rightarrow> driver_state \<Rightarrow> bool" where
  "enabled VLoad st = (st \<noteq> Running \<and> st \<noteq> Empty)"
| "enabled VUnload st = (st \<noteq> Running \<and> st \<noteq> Empty)"
| "enabled VReload st = (st \<noteq> Empty)"
| "enabled VStart st = (st = Loaded)"
| "enabled VStop st = (st = Running)"

fun outcome :: "verb \<Rightarrow> driver_state" where
  "outcome VLoad = Loaded"
| "outcome VUnload = Loaded"
| "outcome VReload = Loaded"
| "outcome VStart = Running"
| "outcome VStop = Stopped"

text \<open>\<open>drv_move v r x y\<close>: the request \<open>v\<close> returns \<open>r\<close> and takes the driver from \<open>x\<close> to \<open>y\<close>; \<open>None\<close>
  is a driver that is not registered.\<close>

inductive drv_move :: "verb \<Rightarrow> int \<Rightarrow> driver_state option \<Rightarrow> driver_state option \<Rightarrow> bool" where
  moved: "enabled v st \<Longrightarrow> drv_move v ESP_OK (Some st) (Some (outcome v))"
| failed: "enabled v st \<Longrightarrow> e \<noteq> ESP_OK \<Longrightarrow> drv_move v e (Some st) (Some Error)"
| refused: "\<not> enabled v st \<Longrightarrow> drv_move v ESP_ERR_INVALID_STATE (Some st) (Some st)"
| missing: "drv_move v ESP_ERR_NOT_FOUND None None"
| unsupported: "v \<noteq> VStart \<Longrightarrow> v \<noteq> VStop \<Longrightarrow> drv_move v ESP_ERR_NOT_SUPPORTED x x"

inductive_cases drv_move_to_running: "drv_move v r x (Some Running)"
inductive_cases drv_move_from_running: "drv_move v r (Some Running) y"

lemma drv_move_running:
  "drv_move v r x (Some Running) \<Longrightarrow> x = Some Running \<or> v = VStart \<and> r = ESP_OK \<and> x = Some Loaded"
  by (erule drv_move_to_running) (auto elim: outcome.elims enabled.elims)

definition run_verb :: "platform \<Rightarrow> verb \<Rightarrow> u32 \<Rightarrow> driver_reload \<Rightarrow> int \<times> driver_reload" where
  "run_verb pf v =
     (case v of VLoad \<Rightarrow> reload_load pf | VUnload \<Rightarrow> reload_unload pf | VReload \<Rightarrow> reload_reload pf
      | VStart \<Rightarrow> reload_start pf | VStop \<Rightarrow> reload_stop pf)"

section \<open>The table as a map\<close>

definition drv_view :: "driver_reload \<Rightarrow> u32 \<Rightarrow> reloadable option" where
  "drv_view s = slot_map rd_id (dl_drivers s)"

definition drv_state :: "driver_reload \<Rightarrow> u32 \<Rightarrow> driver_state option" where
  "drv_state s i = map_option rd_state (drv_view s i)"

definition driver_ok :: "u32 \<Rightarrow> reloadable \<Rightarrow> bool" where
  "driver_ok next_id d \<longleftrightarrow> rd_state d \<noteq> Empty \<and> length (rd_path d) \<le> 127 \<and> length (rd_name d) \<le> 31 \<and>
     length (rd_version d) \<le> 15 \<and> rd_hal_type d \<le> MAX_HAL_TYPE \<and> 0 < rd_id d \<and> rd_id d < next_id"

definition driver_inv :: "driver_reload \<Rightarrow> bool" where
  "driver_inv s \<longleftrightarrow> length (dl_drivers s) = MAX_RELOADABLE \<and> dl_driver_count s = length (somes (dl_drivers s)) \<and>
     distinct (slot_keys rd_id (dl_drivers s)) \<and> distinct (slot_keys rd_path (dl_drivers s)) \<and>
     (\<forall>d. Some d \<in> set (dl_drivers s) \<longrightarrow> driver_ok (dl_next_id s) d) \<and> 0 < dl_next_id s"

lemma has_id_slot: "has_driver_id i x \<longleftrightarrow> slot_has rd_id i x"
  by (auto simp: has_driver_id_def slot_has_def split: option.split)

lemma has_path_slot: "has_driver_path p x \<longleftrightarrow> slot_has rd_path p x"
  by (auto simp: has_driver_path_def slot_has_def split: option.split)

lemma with_driver_cases:
  assumes "driver_inv s" "with_driver i f s = (r, s')"
  obtains (missing) "drv_view s i = None" "r = ESP_ERR_NOT_FOUND" "s' = s"
    | (found) idx d where "idx < length (dl_drivers s)" "dl_drivers s ! idx = Some d" "rd_id d = i"
        "drv_view s i = Some d" "f idx d s = (r, s')"
proof (cases "find_driver_index s i")
  case None
  then show thesis
    using missing assms(2) find_slot_miss [of "has_driver_id i" rd_id i "dl_drivers s", OF has_id_slot]
    by (simp add: with_driver_def find_driver_index_def drv_view_def)
next
  case (Some idx)
  then obtain d where d: "idx < length (dl_drivers s)" "dl_drivers s ! idx = Some d" "rd_id d = i" "Some d \<in> set (dl_drivers s)"
    unfolding find_driver_index_def by (rule find_slot_hit [OF has_id_slot])
  with assms(1) have "drv_view s i = Some d"
    using slot_map_entry [of rd_id "dl_drivers s" d] by (simp add: driver_inv_def drv_view_def)
  with found d assms(2) Some show thesis by (simp add: with_driver_def)
qed

text \<open>What the body of a request does to the driver it found.\<close>

definition touches :: "verb \<Rightarrow> nat \<Rightarrow> reloadable \<Rightarrow> driver_reload \<Rightarrow> int \<Rightarrow> driver_reload \<Rightarrow> bool" where
  "touches v idx d s r s' \<longleftrightarrow>
     (\<exists>d'. rd_id d' = rd_id d \<and> rd_path d' = rd_path d \<and> rd_name d' = rd_name d \<and> rd_hal_type d' = rd_hal_type d \<and>
        rd_version d' = rd_version d \<and>
        (if enabled v (rd_state d)
         then rd_state d' = (if r = ESP_OK then outcome v else Error) \<and> (r \<noteq> ESP_OK \<longrightarrow> rd_last_error d' = r)
         else r = ESP_ERR_INVALID_STATE \<and> d' = d) \<and>
        dl_drivers s' = (dl_drivers s)[idx := Some d']) \<and>
     dl_driver_count s' = dl_driver_count s \<and> dl_next_id s' = dl_next_id s \<and> dl_initialized s' = dl_initialized s"

lemma touches_refused:
  "\<not> enabled v (rd_state d) \<Longrightarrow> idx < length (dl_drivers s) \<Longrightarrow> dl_drivers s ! idx = Some d \<Longrightarrow>
   touches v idx d s ESP_ERR_INVALID_STATE s"
  unfolding touches_def by (metis list_update_id)

lemma outcome_ok [simp]: "outcome v \<noteq> Error" "outcome v \<noteq> Empty"
  by (cases v; simp)+

definition same_identity :: "reloadable \<Rightarrow> reloadable \<Rightarrow> bool" where
  "same_identity d d' \<longleftrightarrow> rd_id d' = rd_id d \<and> rd_path d' = rd_path d \<and> rd_name d' = rd_name d \<and>
     rd_hal_type d' = rd_hal_type d \<and> rd_version d' = rd_version d"

lemma touches_moved:
  assumes "enabled v (rd_state d)" "dl_drivers s' = (dl_drivers s)[idx := Some d']" "same_identity d d'" "rd_state d' = outcome v"
    and "dl_driver_count s' = dl_driver_count s" "dl_next_id s' = dl_next_id s" "dl_initialized s' = dl_initialized s"
  shows "touches v idx d s ESP_OK s'"
  using assms unfolding touches_def same_identity_def by (intro conjI exI [of _ d']) simp_all

lemma touches_failed:
  assumes "enabled v (rd_state d)" "r \<noteq> ESP_OK"
    and "dl_drivers s' = (dl_drivers s)[idx := Some (d\<lparr>rd_state := Error, rd_last_error := r\<rparr>)]"
    and "dl_driver_count s' = dl_driver_count s" "dl_next_id s' = dl_next_id s" "dl_initialized s' = dl_initialized s"
  shows "touches v idx d s r s'"
  using assms unfolding touches_def
  by (intro conjI exI [of _ "d\<lparr>rd_state := Error, rd_last_error := r\<rparr>"]) simp_all

text \<open>A platform call either fails, and ends the request, or lets it go on.\<close>

lemma attempt_cases:
  assumes "attempt pf idx d c k s = (r, s')"
  obtains (failed) "r \<noteq> ESP_OK" "s' = put_driver idx (Some (d\<lparr>rd_state := Error, rd_last_error := r\<rparr>)) (s\<lparr>dl_calls := dl_calls s @ [c]\<rparr>)"
    | (succeeded) "k (s\<lparr>dl_calls := dl_calls s @ [c]\<rparr>) = (r, s')"
  using assms by (auto simp: attempt_def Let_def split: if_splits)

lemma attempt_touches:
  assumes "attempt pf idx d c k s = (r, s')" "enabled v (rd_state d)"
    and "k (s\<lparr>dl_calls := dl_calls s @ [c]\<rparr>) = (r, s') \<Longrightarrow> touches v idx d (s\<lparr>dl_calls := dl_calls s @ [c]\<rparr>) r s'"
  shows "touches v idx d s r s'"
proof (cases rule: attempt_cases [OF assms(1)])
  case 1
  then show ?thesis by (intro touches_failed [OF assms(2)]) (simp_all add: put_driver_def)
next
  case 2
  with assms(3) show ?thesis by (simp add: touches_def)
qed

lemma attempt_last_touches:
  assumes "attempt pf idx d c (\<lambda>s. (ESP_OK, k s)) s = (r, s')" "enabled v (rd_state d)"
    and "\<And>s. dl_drivers (k s) = (dl_drivers s)[idx := Some d']" "same_identity d d'" "rd_state d' = outcome v"
    and "\<And>s. dl_driver_count (k s) = dl_driver_count s" "\<And>s. dl_next_id (k s) = dl_next_id s"
    "\<And>s. dl_initialized (k s) = dl_initialized s"
  shows "touches v idx d s r s'"
proof (rule attempt_touches [OF assms(1,2)])
  assume "(ESP_OK, k (s\<lparr>dl_calls := dl_calls s @ [c]\<rparr>)) = (r, s')"
  then show "touches v idx d (s\<lparr>dl_calls := dl_calls s @ [c]\<rparr>) r s'"
    using touches_moved [OF assms(2,3) assms(4-8)] by auto
qed

lemma reload_move_stopped:
  assumes "touches VReload idx (d\<lparr>rd_state := Stopped\<rparr>) s r s'" "rd_state d \<noteq> Empty"
  shows "touches VReload idx d s r s'"
  using assms by (simp add: touches_def)

lemma load_again_touches:
  assumes "load_again pf idx d s = (r, s')" "rd_state d \<noteq> Empty"
  shows "touches VReload idx d s r s'"
proof (rule attempt_touches [OF assms(1) [unfolded load_again_def]])
  let ?s = "s\<lparr>dl_calls := dl_calls s @ [LoadDriver (rd_path d)]\<rparr>"
  show "enabled VReload (rd_state d)" using assms(2) by simp
  assume "attempt pf idx d (HalPostReload (rd_hal_type d))
    (\<lambda>s. (ESP_OK, (put_driver idx (Some (d\<lparr>rd_state := Loaded, rd_load_count := rd_load_count d + 1, rd_last_error := 0\<rparr>)) s)
       \<lparr>dl_total_reloads := dl_total_reloads s + 1\<rparr>)) ?s = (r, s')"
  then show "touches VReload idx d ?s r s'"
    by (rule attempt_last_touches [where d' = "d\<lparr>rd_state := Loaded, rd_load_count := rd_load_count d + 1, rd_last_error := 0\<rparr>"])
      (use assms(2) in \<open>simp_all add: put_driver_def same_identity_def\<close>)
qed

lemma unload_and_load_touches:
  assumes "unload_and_load pf idx d s = (r, s')" "rd_state d \<noteq> Empty"
  shows "touches VReload idx d s r s'"
  using assms unfolding unload_and_load_def
  by (auto split: if_splits elim!: attempt_touches load_again_touches)

text \<open>What a request does as a whole.\<close>

definition request_effect :: "verb \<Rightarrow> u32 \<Rightarrow> driver_reload \<Rightarrow> int \<Rightarrow> driver_reload \<Rightarrow> bool" where
  "request_effect v i s r s' \<longleftrightarrow>
     s' = s \<and> r = ESP_ERR_NOT_SUPPORTED \<and> v \<noteq> VStart \<and> v \<noteq> VStop \<or>
     s' = s \<and> r = ESP_ERR_NOT_FOUND \<and> drv_view s i = None \<or>
     (\<exists>idx d. idx < length (dl_drivers s) \<and> dl_drivers s ! idx = Some d \<and> rd_id d = i \<and> drv_view s i = Some d \<and>
        touches v idx d s r s')"

lemma found_effect:
  assumes "driver_inv s" "with_driver i f s = (r, s')"
    and "\<And>idx d. idx < length (dl_drivers s) \<Longrightarrow> dl_drivers s ! idx = Some d \<Longrightarrow> f idx d s = (r, s') \<Longrightarrow> touches v idx d s r s'"
  shows "request_effect v i s r s'"
  by (cases rule: with_driver_cases [OF assms(1,2)]) (use assms(3) in \<open>auto simp: request_effect_def\<close>)

lemma load_effect:
  assumes "driver_inv s" "reload_load pf i s = (r, s')"
  shows "request_effect VLoad i s r s'"
proof (cases "pf_espidf pf")
  case True
  with assms(2) show ?thesis by (auto simp: reload_load_def replacement_supported_for_target_def request_effect_def)
next
  case False
  note run = assms(2) [unfolded reload_load_def, simplified False replacement_supported_for_target_def, simplified]
  show ?thesis
  proof (rule found_effect [OF assms(1) run])
    fix idx d
    assume d: "idx < length (dl_drivers s)" "dl_drivers s ! idx = Some d"
      and f: "(case rd_state d of Loaded \<Rightarrow> attempt pf idx d (LoadDriver (rd_path d))
               (\<lambda>s. (ESP_OK, put_driver idx (Some (d\<lparr>rd_load_count := rd_load_count d + 1\<rparr>)) s)) s
         | Running \<Rightarrow> (ESP_ERR_INVALID_STATE, s) | Empty \<Rightarrow> (ESP_ERR_INVALID_STATE, s)
         | _ \<Rightarrow> attempt pf idx d (LoadDriver (rd_path d))
               (\<lambda>s. (ESP_OK, put_driver idx (Some (d\<lparr>rd_state := Loaded, rd_load_count := rd_load_count d + 1,
                  rd_last_error := 0\<rparr>)) s)) s) = (r, s')"
    show "touches VLoad idx d s r s'"
      using f d by (cases "rd_state d")
        (auto intro!: touches_refused elim!: attempt_last_touches simp: put_driver_def same_identity_def)
  qed
qed

lemma unload_effect:
  assumes "driver_inv s" "reload_unload pf i s = (r, s')"
  shows "request_effect VUnload i s r s'"
proof (cases "pf_espidf pf")
  case True
  with assms(2) show ?thesis by (auto simp: reload_unload_def replacement_supported_for_target_def request_effect_def)
next
  case False
  note run = assms(2) [unfolded reload_unload_def, simplified False replacement_supported_for_target_def, simplified]
  show ?thesis
  proof (rule found_effect [OF assms(1) run])
    fix idx d
    assume d: "idx < length (dl_drivers s)" "dl_drivers s ! idx = Some d"
      and f: "(case rd_state d of Running \<Rightarrow> (ESP_ERR_INVALID_STATE, s) | Empty \<Rightarrow> (ESP_ERR_INVALID_STATE, s)
         | _ \<Rightarrow> attempt pf idx d (UnloadDriver (rd_id d))
               (\<lambda>s. (ESP_OK, put_driver idx (Some (d\<lparr>rd_state := Loaded, rd_last_error := 0\<rparr>)) s)) s) = (r, s')"
    show "touches VUnload idx d s r s'"
      using f d by (cases "rd_state d")
        (auto intro!: touches_refused elim!: attempt_last_touches simp: put_driver_def same_identity_def)
  qed
qed

lemma reload_effect:
  assumes "driver_inv s" "reload_reload pf i s = (r, s')"
  shows "request_effect VReload i s r s'"
proof (cases "pf_espidf pf")
  case True
  with assms(2) show ?thesis by (auto simp: reload_reload_def replacement_supported_for_target_def request_effect_def)
next
  case False
  note run = assms(2) [unfolded reload_reload_def, simplified False replacement_supported_for_target_def, simplified]
  show ?thesis
  proof (rule found_effect [OF assms(1) run])
    fix idx d
    assume d: "idx < length (dl_drivers s)" "dl_drivers s ! idx = Some d"
      and f: "(if rd_state d = Empty then (ESP_ERR_INVALID_STATE, s)
        else if rd_state d = Running then
          attempt pf idx d (StopDriver (rd_hal_type d)) (unload_and_load pf idx (d\<lparr>rd_state := Stopped\<rparr>)) s
        else unload_and_load pf idx d s) = (r, s')"
    consider "rd_state d = Empty" | "rd_state d = Running" | "rd_state d \<noteq> Empty" "rd_state d \<noteq> Running" by blast
    then show "touches VReload idx d s r s'"
    proof cases
      case 1
      with f d show ?thesis by (auto intro: touches_refused)
    next
      case 2
      with f have "attempt pf idx d (StopDriver (rd_hal_type d)) (unload_and_load pf idx (d\<lparr>rd_state := Stopped\<rparr>)) s = (r, s')"
        by simp
      then show ?thesis
        by (rule attempt_touches) (use 2 in \<open>auto dest!: unload_and_load_touches intro: reload_move_stopped\<close>)
    next
      case 3
      with f show ?thesis by (auto intro: unload_and_load_touches)
    qed
  qed
qed

lemma start_effect:
  assumes "driver_inv s" "reload_start pf i s = (r, s')"
  shows "request_effect VStart i s r s'"
  by (rule found_effect [OF assms(1) assms(2) [unfolded reload_start_def]])
    (auto split: if_splits intro!: touches_refused elim!: attempt_last_touches simp: put_driver_def same_identity_def)

lemma stop_effect:
  assumes "driver_inv s" "reload_stop pf i s = (r, s')"
  shows "request_effect VStop i s r s'"
  by (rule found_effect [OF assms(1) assms(2) [unfolded reload_stop_def]])
    (auto split: if_splits intro!: touches_refused elim!: attempt_last_touches simp: put_driver_def same_identity_def)

lemma verb_effect: "driver_inv s \<Longrightarrow> run_verb pf v i s = (r, s') \<Longrightarrow> request_effect v i s r s'"
  by (cases v) (auto simp: run_verb_def intro: load_effect unload_effect reload_effect start_effect stop_effect)

section \<open>The invariant\<close>

lemma put_keeps_inv:
  assumes "driver_inv s" "idx < length (dl_drivers s)" "dl_drivers s ! idx = Some d"
    and "rd_id d' = rd_id d" "rd_path d' = rd_path d" "driver_ok (dl_next_id s) d'"
    and "dl_drivers s' = (dl_drivers s)[idx := Some d']" "dl_driver_count s' = dl_driver_count s" "dl_next_id s' = dl_next_id s"
  shows "driver_inv s'" "drv_view s' = (drv_view s)(rd_id d \<mapsto> d')"
proof -
  have dist: "distinct (slot_keys rd_id (dl_drivers s))" "distinct (slot_keys rd_path (dl_drivers s))"
    and ok: "\<forall>d. Some d \<in> set (dl_drivers s) \<longrightarrow> driver_ok (dl_next_id s) d"
    using assms(1) by (simp_all add: driver_inv_def)
  note ids = replace_slot [OF assms(2-4) dist(1)] and paths = replace_slot [OF assms(2,3,5) dist(2)]
  have "Some e \<in> set (dl_drivers s') \<Longrightarrow> driver_ok (dl_next_id s) e" for e
    using ok assms(6) set_update_subset_insert [of "dl_drivers s" idx "Some d'"] by (auto simp: assms(7))
  then show "driver_inv s'" using assms(1) ids(1,3) paths(1) by (simp add: driver_inv_def assms(7-9))
  show "drv_view s' = (drv_view s)(rd_id d \<mapsto> d')" using ids(2) by (simp add: drv_view_def assms(7))
qed

lemma driver_ok_same:
  "driver_ok n d \<Longrightarrow> same_identity d d' \<Longrightarrow> rd_state d' \<noteq> Empty \<Longrightarrow> driver_ok n d'"
  by (simp add: driver_ok_def same_identity_def)

lemma touches_spec:
  assumes "driver_inv s" "idx < length (dl_drivers s)" "dl_drivers s ! idx = Some d" "touches v idx d s r s'"
  shows "driver_inv s' \<and> dl_next_id s' = dl_next_id s \<and> dl_initialized s' = dl_initialized s \<and>
    (\<exists>d'. same_identity d d' \<and> drv_view s' = (drv_view s)(rd_id d \<mapsto> d') \<and>
       drv_move v r (Some (rd_state d)) (Some (rd_state d')) \<and>
       (rd_state d' = Error \<longrightarrow> rd_last_error d' = r \<or> d' = d))"
proof -
  obtain d' where d': "same_identity d d'" "dl_drivers s' = (dl_drivers s)[idx := Some d']"
    and st: "if enabled v (rd_state d)
         then rd_state d' = (if r = ESP_OK then outcome v else Error) \<and> (r \<noteq> ESP_OK \<longrightarrow> rd_last_error d' = r)
         else r = ESP_ERR_INVALID_STATE \<and> d' = d"
    and rest: "dl_driver_count s' = dl_driver_count s" "dl_next_id s' = dl_next_id s" "dl_initialized s' = dl_initialized s"
    using assms(4) by (auto simp: touches_def same_identity_def)
  have move: "drv_move v r (Some (rd_state d)) (Some (rd_state d'))"
    using st by (auto split: if_splits intro: drv_move.intros)
  have ok: "driver_ok (dl_next_id s) d" using assms(1-3) by (metis driver_inv_def nth_mem)
  then have "rd_state d' \<noteq> Empty" using st by (auto split: if_splits simp: driver_ok_def)
  then have "driver_ok (dl_next_id s) d'" by (rule driver_ok_same [OF ok d'(1)])
  then have "driver_inv s'" "drv_view s' = (drv_view s)(rd_id d \<mapsto> d')"
    using put_keeps_inv [OF assms(1-3), of d' s'] d' rest by (simp_all add: same_identity_def)
  moreover have "rd_state d' = Error \<longrightarrow> rd_last_error d' = r \<or> d' = d" using st by (auto split: if_splits)
  ultimately show ?thesis using move d'(1) rest(2,3) by blast
qed

lemma verb_spec:
  assumes "driver_inv s" "run_verb pf v i s = (r, s')"
  shows "driver_inv s' \<and> dl_next_id s' = dl_next_id s \<and> dl_initialized s' = dl_initialized s \<and>
    drv_move v r (drv_state s i) (drv_state s' i) \<and> (\<forall>j. j \<noteq> i \<longrightarrow> drv_view s' j = drv_view s j) \<and>
    dom (drv_view s') = dom (drv_view s) \<and>
    (\<forall>d d'. drv_view s i = Some d \<longrightarrow> drv_view s' i = Some d' \<longrightarrow> same_identity d d' \<and>
       (rd_state d' = Error \<longrightarrow> rd_last_error d' = r \<or> d' = d))"
  using verb_effect [OF assms] unfolding request_effect_def
proof (elim disjE)
  assume "\<exists>idx d. idx < length (dl_drivers s) \<and> dl_drivers s ! idx = Some d \<and> rd_id d = i \<and> drv_view s i = Some d \<and> touches v idx d s r s'"
  then obtain idx d where d: "idx < length (dl_drivers s)" "dl_drivers s ! idx = Some d" "rd_id d = i" "drv_view s i = Some d"
    "touches v idx d s r s'" by blast
  then obtain d' where "same_identity d d'" "drv_view s' = (drv_view s)(i \<mapsto> d')"
    "drv_move v r (Some (rd_state d)) (Some (rd_state d'))" "rd_state d' = Error \<longrightarrow> rd_last_error d' = r \<or> d' = d"
    "driver_inv s'" "dl_next_id s' = dl_next_id s" "dl_initialized s' = dl_initialized s"
    using touches_spec [OF assms(1) d(1,2,5)] by auto
  with d(4) show ?thesis by (auto simp: drv_state_def)
qed (use assms(1) in \<open>auto simp: drv_state_def same_identity_def intro: drv_move.intros\<close>)

section \<open>Registration\<close>

lemma registered_ok:
  "hal_type \<le> MAX_HAL_TYPE \<Longrightarrow> 0 < i \<Longrightarrow> i < n \<Longrightarrow> driver_ok n (registered i (copy_cstr_to_buf p 128) nm hal_type)"
  by (simp add: driver_ok_def registered_def driver_empty_def copy_cstr_to_buf_def)

lemma driver_ok_mono: "driver_ok n d \<Longrightarrow> n \<le> m \<Longrightarrow> driver_ok m d"
  by (auto simp: driver_ok_def)

lemma next_id_grows: "unat n < 2 ^ 32 - 1 \<Longrightarrow> n < n + 1 \<and> unat (n + 1) = Suc (unat n)" for n :: u32
  by (simp add: word_less_nat_alt unat_add_nowrap)

text \<open>A path that is registered keeps its identifier and loses everything else; a new one gets a fresh
  identifier unless the table is full.\<close>

lemma register_spec:
  assumes inv: "driver_inv s" and init: "dl_initialized s" and hal: "hal_type \<le> MAX_HAL_TYPE"
    and run: "reload_register (Some p) (Some nm) hal_type s = (r, s')" and room: "unat (dl_next_id s) < 2 ^ 32 - 1"
  shows "driver_inv s' \<and> dl_initialized s' \<and> unat (dl_next_id s') \<le> Suc (unat (dl_next_id s)) \<and> dl_calls s' = dl_calls s"
    and "(\<exists>i old. drv_view s i = Some old \<and> rd_path old = take 127 p \<and> r = sint i \<and>
        drv_view s' = (drv_view s)(i \<mapsto> registered i (take 127 p) nm hal_type)) \<or>
     (\<forall>i old. drv_view s i = Some old \<longrightarrow> rd_path old \<noteq> take 127 p) \<and>
       (if card (dom (drv_view s)) < MAX_RELOADABLE
        then r = sint (dl_next_id s) \<and> drv_view s (dl_next_id s) = None \<and>
          drv_view s' = (drv_view s)(dl_next_id s \<mapsto> registered (dl_next_id s) (take 127 p) nm hal_type)
        else r = ESP_ERR_NO_MEM \<and> s' = s)"
proof (atomize (full), goal_cases)
  case 1
  let ?p = "copy_cstr_to_buf p 128" let ?xs = "dl_drivers s"
  have p: "take 127 p = ?p" by (simp add: copy_cstr_to_buf_def)
  have dist: "distinct (slot_keys rd_id ?xs)" "distinct (slot_keys rd_path ?xs)" and len: "length ?xs = MAX_RELOADABLE"
    using inv by (simp_all add: driver_inv_def)
  have hal': "\<not> MAX_HAL_TYPE < hal_type" using hal by (simp only: not_less)
  show ?case
  proof (cases "find_driver_by_path s ?p")
    case (Some idx)
    then obtain old where old: "idx < length ?xs" "?xs ! idx = Some old" "rd_path old = ?p" "Some old \<in> set ?xs"
      unfolding find_driver_by_path_def by (rule find_slot_hit [OF has_path_slot])
    have view: "drv_view s (rd_id old) = Some old" using slot_map_entry [OF dist(1) old(4)] by (simp add: drv_view_def)
    have "driver_ok (dl_next_id s) old" using inv old(4) by (simp add: driver_inv_def)
    then have "0 < rd_id old" "rd_id old < dl_next_id s" by (simp_all add: driver_ok_def)
    then have ok: "driver_ok (dl_next_id s) (registered (rd_id old) ?p nm hal_type)" by (rule registered_ok [OF hal])
    have run': "r = sint (rd_id old)" "s' = put_driver idx (Some (registered (rd_id old) ?p nm hal_type)) s"
      using run init hal' Some old(2) by (simp_all add: reload_register_def Let_def)
    have "driver_inv s'" "drv_view s' = (drv_view s)(rd_id old \<mapsto> registered (rd_id old) ?p nm hal_type)"
      using put_keeps_inv [OF inv old(1,2) _ _ ok, of s'] old(3) run'(2)
      by (simp_all add: put_driver_def registered_def driver_empty_def)
    with run' view old(3) init show ?thesis by (auto simp: p put_driver_def)
  next
    case None
    then have new: "?p \<notin> set (slot_keys rd_path ?xs)"
      using find_slot_miss [of "has_driver_path ?p" rd_path ?p ?xs, OF has_path_slot] by (simp add: find_driver_by_path_def)
    have fresh: "\<forall>i old. drv_view s i = Some old \<longrightarrow> rd_path old \<noteq> ?p"
    proof (intro allI impI)
      fix i old
      assume "drv_view s i = Some old"
      then have "Some old \<in> set ?xs" using slot_map_key [of rd_id ?xs i old] by (simp add: drv_view_def)
      with new show "rd_path old \<noteq> ?p" by (auto simp: slot_keys_iff)
    qed
    have card: "card (dom (drv_view s)) = length (somes ?xs)" unfolding drv_view_def by (rule card_slot_map [OF dist(1)])
    show ?thesis
    proof (cases "find_free_slot s")
      case None
      then have "None \<notin> set ?xs" unfolding find_free_slot_def find_index_None by (metis in_set_conv_nth)
      with somes_full [of ?xs] card len have "\<not> card (dom (drv_view s)) < MAX_RELOADABLE" by simp
      moreover have "r = ESP_ERR_NO_MEM" "s' = s"
        using run init hal' None \<open>find_driver_by_path s ?p = None\<close> by (simp_all add: reload_register_def Let_def)
      ultimately show ?thesis using fresh inv init by (simp add: p)
    next
      case (Some slot)
      let ?d = "registered (dl_next_id s) ?p nm hal_type"
      have slot: "slot < length ?xs" "?xs ! slot = None" using find_index_Some [OF Some [unfolded find_free_slot_def]] by simp_all
      then have "None \<in> set ?xs" by (metis nth_mem)
      with somes_full [of ?xs] length_somes [of ?xs] card len have "card (dom (drv_view s)) < MAX_RELOADABLE" by (simp add: order_le_less)
      have run': "r = sint (dl_next_id s)"
        "s' = (put_driver slot (Some ?d) s)\<lparr>dl_next_id := dl_next_id s + 1, dl_driver_count := dl_driver_count s + 1\<rparr>"
        using run init hal' Some \<open>find_driver_by_path s ?p = None\<close> by (simp_all add: reload_register_def Let_def)
      have keys: "rd_id ?d = dl_next_id s" "rd_path ?d = ?p" by (simp_all add: registered_def driver_empty_def)
      note grow = next_id_grows [OF room]
      have ok: "\<forall>d. Some d \<in> set ?xs \<longrightarrow> driver_ok (dl_next_id s) d" "0 < dl_next_id s" using inv by (simp_all add: driver_inv_def)
      then have new_id: "rd_id ?d \<notin> set (slot_keys rd_id ?xs)" by (auto simp: slot_keys_iff keys driver_ok_def)
      have new_path: "rd_path ?d \<notin> set (slot_keys rd_path ?xs)" using new by (simp add: keys)
      note ids = fill_empty_slot [OF slot dist(1) new_id] and paths = fill_empty_slot [OF slot dist(2) new_path]
      have "driver_ok (dl_next_id s + 1) ?d" using registered_ok [OF hal ok(2)] grow by blast
      moreover have "driver_ok (dl_next_id s + 1) d" if "Some d \<in> set ?xs" for d
        using ok(1) that grow driver_ok_mono by (metis order_less_imp_le)
      ultimately have "\<forall>d. Some d \<in> set (?xs[slot := Some ?d]) \<longrightarrow> driver_ok (dl_next_id s + 1) d"
        using set_update_subset_insert [of ?xs slot "Some ?d"] by auto
      moreover have "0 < dl_next_id s + 1" using grow ok(2) by (metis order_less_trans)
      ultimately have "driver_inv s'"
        using inv ids(1,4) paths(1) unfolding driver_inv_def by (simp add: run'(2) put_driver_def)
      moreover have "drv_view s' = (drv_view s)(dl_next_id s \<mapsto> ?d)"
        using ids(3) by (simp add: drv_view_def run'(2) put_driver_def keys)
      moreover have "drv_view s (dl_next_id s) = None" using new_id by (simp add: drv_view_def keys)
      moreover have "dl_initialized s'" "dl_calls s' = dl_calls s" "unat (dl_next_id s') \<le> Suc (unat (dl_next_id s))"
        using init grow by (simp_all add: run'(2) put_driver_def)
      ultimately show ?thesis using run'(1) fresh \<open>card (dom (drv_view s)) < MAX_RELOADABLE\<close> by (simp add: p)
    qed
  qed
qed

section \<open>Runs\<close>

datatype reload_op =
    OpInit | OpRegister "string option" "string option" u8 | OpUnregister u32 | OpVerb verb u32
  | OpReloadPath "string option" | OpSetVersion u32 "string option"

fun reload_step :: "platform \<Rightarrow> reload_op \<Rightarrow> driver_reload \<Rightarrow> int \<times> driver_reload" where
  "reload_step pf OpInit s = reload_init s"
| "reload_step pf (OpRegister p n h) s = reload_register p n h s"
| "reload_step pf (OpUnregister i) s = reload_unregister i s"
| "reload_step pf (OpVerb v i) s = run_verb pf v i s"
| "reload_step pf (OpReloadPath p) s = reload_by_path pf p s"
| "reload_step pf (OpSetVersion i v) s = reload_set_version i v s"

text \<open>\<open>managed pf n s\<close>: the state \<open>s\<close> is reached with \<open>n\<close> operations after the first initialisation.\<close>

inductive managed :: "platform \<Rightarrow> nat \<Rightarrow> driver_reload \<Rightarrow> bool" for pf where
  init: "managed pf 0 (snd (reload_init reload_new))"
| step: "managed pf n s \<Longrightarrow> managed pf (Suc n) (snd (reload_step pf op s))"

lemma drv_init_inv:
  assumes "length (dl_drivers s) = MAX_RELOADABLE"
  shows "driver_inv (snd (reload_init s))"
proof -
  have "map (\<lambda>_. None :: reloadable option) (dl_drivers s) = replicate MAX_RELOADABLE None" using assms by (simp add: map_replicate_const)
  then have "somes (map (\<lambda>_. None :: reloadable option) (dl_drivers s)) = []" by (simp only: somes_replicate_None)
  then show ?thesis using assms by (auto simp: driver_inv_def reload_init_def slot_keys_def)
qed

lemma unregister_spec:
  assumes "driver_inv s" "reload_unregister i s = (r, s')"
  shows "driver_inv s' \<and> dl_next_id s' = dl_next_id s \<and> dl_initialized s' = dl_initialized s \<and>
    (case drv_state s i of
       None \<Rightarrow> r = ESP_ERR_NOT_FOUND \<and> s' = s
     | Some st \<Rightarrow> if st = Running then r = ESP_ERR_INVALID_STATE \<and> s' = s
         else r = ESP_OK \<and> drv_view s' = (drv_view s)(i := None))"
proof (cases rule: with_driver_cases [OF assms(1) assms(2) [unfolded reload_unregister_def]])
  case 1
  with assms(1) show ?thesis by (simp add: drv_state_def)
next
  case (2 idx d)
  have dist: "distinct (slot_keys rd_id (dl_drivers s))" "distinct (slot_keys rd_path (dl_drivers s))"
    using assms(1) by (simp_all add: driver_inv_def)
  note ids = remove_slot [OF 2(1,2) dist(1)] and paths = remove_slot [OF 2(1,2) dist(2)]
  show ?thesis
  proof (cases "rd_state d = Running")
    case True
    with 2 assms(1) show ?thesis by (simp add: drv_state_def)
  next
    case False
    then have s': "r = ESP_OK" "s' = (put_driver idx None s)\<lparr>dl_driver_count := dl_driver_count s - 1\<rparr>"
      using 2(5) by (auto split: if_splits)
    have "Some e \<in> set ((dl_drivers s)[idx := None]) \<Longrightarrow> Some e \<in> set (dl_drivers s)" for e
      using set_update_subset_insert [of "dl_drivers s" idx None] by auto
    then have "driver_inv s'"
      using assms(1) ids(1,4) paths(1) by (simp add: driver_inv_def s'(2) put_driver_def)
    moreover have "drv_view s' = (drv_view s)(i := None)"
      using ids(3) 2(3) by (simp add: drv_view_def s'(2) put_driver_def)
    ultimately show ?thesis using False 2(4) s' by (simp add: drv_state_def put_driver_def)
  qed
qed

lemma set_version_spec:
  assumes "driver_inv s"
  shows "driver_inv (snd (reload_set_version i v s)) \<and> dl_next_id (snd (reload_set_version i v s)) = dl_next_id s \<and>
    dl_initialized (snd (reload_set_version i v s)) = dl_initialized s \<and>
    (\<forall>j. drv_state (snd (reload_set_version i v s)) j = drv_state s j)"
proof (cases v)
  case None
  with assms show ?thesis by (simp add: reload_set_version_def)
next
  case (Some w)
  obtain r s' where run: "reload_set_version i v s = (r, s')" by fastforce
  with Some have "with_driver i (\<lambda>idx d s. (ESP_OK, put_driver idx (Some (d\<lparr>rd_version := copy_cstr_to_buf w 16\<rparr>)) s)) s = (r, s')"
    by (simp add: reload_set_version_def)
  from with_driver_cases [OF assms this] show ?thesis
  proof cases
    case 1
    with assms run show ?thesis by simp
  next
    case (2 idx d)
    let ?d = "d\<lparr>rd_version := copy_cstr_to_buf w 16\<rparr>"
    have "driver_ok (dl_next_id s) d" using assms 2(1,2) by (metis driver_inv_def nth_mem)
    then have ok: "driver_ok (dl_next_id s) ?d" by (simp add: driver_ok_def copy_cstr_to_buf_def)
    have s': "s' = put_driver idx (Some ?d) s" using 2(5) by simp
    then have "driver_inv s'" "drv_view s' = (drv_view s)(rd_id d \<mapsto> ?d)"
      using put_keeps_inv [OF assms 2(1,2) _ _ ok, of s'] by (simp_all add: put_driver_def)
    with run s' 2(3,4) show ?thesis by (auto simp: drv_state_def put_driver_def)
  qed
qed

lemma reload_by_path_cases:
  assumes "driver_inv s" "reload_by_path pf p s = (r, s')"
  obtains (nothing) "s' = s" | (reload) i where "run_verb pf VReload i s = (r, s')"
  using assms by (auto simp: reload_by_path_def run_verb_def split: option.splits)

lemma step_inv:
  assumes "driver_inv s" "dl_initialized s" "unat (dl_next_id s) < 2 ^ 32 - 1" "reload_step pf op s = (r, s')"
  shows "driver_inv s' \<and> dl_initialized s' \<and> unat (dl_next_id s') \<le> Suc (unat (dl_next_id s))"
proof (cases op)
  case OpInit
  have "unat (dl_next_id s) \<noteq> 0" using assms(1) by (auto simp: driver_inv_def unat_eq_0)
  with OpInit assms(1,4) drv_init_inv [of s] show ?thesis by (auto simp: reload_init_def driver_inv_def)
next
  case (OpRegister p n h)
  then consider "s' = s" | pp nn where "p = Some pp" "n = Some nn" "h \<le> MAX_HAL_TYPE"
    using assms(4) by (cases p; cases n; cases "MAX_HAL_TYPE < h") (auto simp: reload_register_def not_less)
  then show ?thesis
  proof cases
    case 1
    with assms(1,2) show ?thesis by simp
  next
    case 2
    with register_spec(1) [OF assms(1,2) 2(3) _ assms(3)] OpRegister assms(4) show ?thesis by simp
  qed
next
  case (OpUnregister i)
  with unregister_spec [OF assms(1)] assms(2,4) show ?thesis by simp
next
  case (OpVerb v i)
  with verb_spec [OF assms(1)] assms(2,4) show ?thesis by simp
next
  case (OpReloadPath p)
  with assms(4) have run: "reload_by_path pf p s = (r, s')" by simp
  show ?thesis
  proof (cases rule: reload_by_path_cases [OF assms(1) run])
    case 1
    with assms(1,2) show ?thesis by simp
  next
    case (2 i)
    with verb_spec [OF assms(1)] assms(2) show ?thesis by simp
  qed
next
  case (OpSetVersion i v)
  with set_version_spec [OF assms(1)] assms(2,4) show ?thesis by (metis le_SucI order_refl reload_step.simps(6) snd_conv)
qed

lemma managed_inv: "managed pf n s \<Longrightarrow> n < 2 ^ 32 - 1 \<Longrightarrow> driver_inv s \<and> dl_initialized s \<and> unat (dl_next_id s) \<le> Suc n"
proof (induction rule: managed.induct)
  case init
  have "length (dl_drivers reload_new) = MAX_RELOADABLE" by (simp add: reload_new_def)
  from drv_init_inv [OF this] show ?case by (simp add: reload_init_def)
next
  case (step n s op)
  obtain r s' where "reload_step pf op s = (r, s')" by fastforce
  with step.IH step.prems step_inv [of s pf op r s'] show ?case by simp
qed

section \<open>Calls to the platform\<close>

definition extends :: "platform_call list \<Rightarrow> driver_reload \<Rightarrow> driver_reload \<Rightarrow> bool" where
  "extends cs s s' \<longleftrightarrow> (\<exists>ds. dl_calls s' = dl_calls s @ cs @ ds)"

lemma attempt_extends:
  assumes "attempt pf idx d c k s = (r, s')" "\<And>t. k t = (r, s') \<Longrightarrow> extends cs t s'"
  shows "extends [c] s s'" "r = ESP_OK \<Longrightarrow> extends (c # cs) s s'"
  using assms(2) [of "s\<lparr>dl_calls := dl_calls s @ [c]\<rparr>"]
  by (cases rule: attempt_cases [OF assms(1)]; auto simp: extends_def put_driver_def)+

lemma attempt_last_extends:
  "attempt pf idx d c (\<lambda>s. (ESP_OK, k s)) s = (r, s') \<Longrightarrow> (\<And>s. dl_calls (k s) = dl_calls s) \<Longrightarrow> dl_calls s' = dl_calls s @ [c]"
  by (auto simp: attempt_def Let_def put_driver_def split: if_splits)

lemma load_again_extends: "load_again pf idx d s = (r, s') \<Longrightarrow> extends [LoadDriver (rd_path d)] s s'"
  unfolding load_again_def
  by (rule attempt_extends(1) [where cs = "[HalPostReload (rd_hal_type d)]"], assumption)
    (auto simp: extends_def put_driver_def dest!: attempt_last_extends)

lemma unload_and_load_extends:
  assumes "unload_and_load pf idx d s = (r, s')"
  shows "extends [] s s'"
  using assms unfolding unload_and_load_def
  by (auto simp: extends_def split: if_splits dest!: attempt_extends(1) [where cs = "[]", unfolded extends_def] load_again_extends [unfolded extends_def])

text \<open>A running driver stops running through a stop request or a reload, which begin with the stop hook,
  or because it was registered again, without any call.\<close>

lemma verb_stops:
  assumes "driver_inv s" "run_verb pf v i s = (r, s')" "drv_view s i = Some d" "rd_state d = Running"
    and "drv_state s' i \<noteq> Some Running"
  shows "extends [StopDriver (rd_hal_type d)] s s'"
proof -
  have "drv_move v r (Some Running) (drv_state s' i)"
    using verb_spec [OF assms(1,2)] assms(3,4) by (simp add: drv_state_def)
  then have "enabled v Running" using assms(5) by (auto elim: drv_move_from_running)
  then consider "v = VStop" | "v = VReload" by (cases v) auto
  then show ?thesis
  proof cases
    case 1
    have run: "with_driver i (\<lambda>idx d s.
       if rd_state d \<noteq> Running then (ESP_ERR_INVALID_STATE, s)
       else attempt pf idx d (StopDriver (rd_hal_type d))
              (\<lambda>s. (ESP_OK, put_driver idx (Some (d\<lparr>rd_state := Stopped, rd_last_error := 0\<rparr>)) s)) s) s = (r, s')"
      using assms(2) 1 by (simp add: run_verb_def reload_stop_def)
    show ?thesis
      by (cases rule: with_driver_cases [OF assms(1) run])
        (use assms(3,4) in \<open>auto simp: extends_def put_driver_def dest!: attempt_last_extends\<close>)
  next
    case 2
    have "\<not> pf_espidf pf"
      using assms(2-5) 2 by (auto simp: run_verb_def reload_reload_def replacement_supported_for_target_def drv_state_def)
    then have run: "with_driver i (\<lambda>idx d s.
        if rd_state d = Empty then (ESP_ERR_INVALID_STATE, s)
        else if rd_state d = Running then
          attempt pf idx d (StopDriver (rd_hal_type d)) (unload_and_load pf idx (d\<lparr>rd_state := Stopped\<rparr>)) s
        else unload_and_load pf idx d s) s = (r, s')"
      using assms(2) 2 by (simp add: run_verb_def reload_reload_def replacement_supported_for_target_def)
    show ?thesis
      by (cases rule: with_driver_cases [OF assms(1) run])
        (use assms(3,4) in \<open>auto intro: attempt_extends(1) unload_and_load_extends\<close>)
  qed
qed

text \<open>A driver starts to run through a start request, which made the start hook and succeeded.\<close>

lemma verb_starts:
  assumes "driver_inv s" "run_verb pf v i s = (r, s')" "drv_state s' i = Some Running" "drv_state s i \<noteq> Some Running"
  shows "v = VStart \<and> r = ESP_OK \<and>
    (\<exists>d. drv_view s i = Some d \<and> rd_state d = Loaded \<and> dl_calls s' = dl_calls s @ [StartDriver (rd_hal_type d)])"
proof -
  have move: "v = VStart" "r = ESP_OK" "drv_state s i = Some Loaded"
    using verb_spec [OF assms(1,2)] assms(3,4) drv_move_running [of v r "drv_state s i"] by auto
  have run: "with_driver i (\<lambda>idx d s.
       if rd_state d \<noteq> Loaded then (ESP_ERR_INVALID_STATE, s)
       else attempt pf idx d (StartDriver (rd_hal_type d))
              (\<lambda>s. (ESP_OK, put_driver idx (Some (d\<lparr>rd_state := Running, rd_last_error := 0\<rparr>)) s)) s) s = (r, s')"
    using assms(2) move by (simp add: run_verb_def reload_start_def)
  show ?thesis
    by (cases rule: with_driver_cases [OF assms(1) run])
      (use move in \<open>auto simp: drv_state_def put_driver_def dest!: attempt_last_extends\<close>)
qed

text \<open>What one operation can do to whether a driver runs.\<close>

definition started_by :: "u32 \<Rightarrow> driver_reload \<Rightarrow> reload_op \<Rightarrow> int \<Rightarrow> driver_reload \<Rightarrow> bool" where
  "started_by i s op r s' \<longleftrightarrow> op = OpVerb VStart i \<and> r = ESP_OK \<and>
     (\<exists>d. drv_view s i = Some d \<and> rd_state d = Loaded \<and> dl_calls s' = dl_calls s @ [StartDriver (rd_hal_type d)])"

definition replaced_by :: "reloadable \<Rightarrow> driver_reload \<Rightarrow> reload_op \<Rightarrow> driver_reload \<Rightarrow> bool" where
  "replaced_by d s op s' \<longleftrightarrow> (\<exists>p nm h. op = OpRegister (Some p) (Some nm) h \<and> h \<le> MAX_HAL_TYPE \<and> take 127 p = rd_path d \<and>
     drv_view s' (rd_id d) = Some (registered (rd_id d) (rd_path d) nm h) \<and> dl_calls s' = dl_calls s)"

definition run_change :: "u32 \<Rightarrow> driver_reload \<Rightarrow> reload_op \<Rightarrow> int \<Rightarrow> driver_reload \<Rightarrow> bool" where
  "run_change i s op r s' \<longleftrightarrow>
     (drv_state s i \<noteq> Some Running \<and> drv_state s' i = Some Running \<longrightarrow> started_by i s op r s') \<and>
     (\<forall>d. drv_view s i = Some d \<and> rd_state d = Running \<and> drv_state s' i \<noteq> Some Running \<longrightarrow>
        extends [StopDriver (rd_hal_type d)] s s' \<or> op = OpInit \<or> replaced_by d s op s')"

lemma run_change_same: "drv_state s' i = drv_state s i \<Longrightarrow> run_change i s op r s'"
  by (auto simp: run_change_def drv_state_def)

lemma verb_run_change:
  assumes "driver_inv s" "run_verb pf v j s = (r, s')" "op = OpVerb v j \<or> v \<noteq> VStart"
  shows "run_change i s op r s'"
proof (cases "j = i")
  case True
  with assms(1,2) have run: "run_verb pf v i s = (r, s')" by simp
  show ?thesis
    using verb_starts [OF assms(1) run] verb_stops [OF assms(1) run] assms(3) True
    by (auto simp: run_change_def started_by_def)
next
  case False
  with verb_spec [OF assms(1,2)] show ?thesis by (intro run_change_same) (simp add: drv_state_def)
qed

lemma view_path_unique:
  assumes "driver_inv s" "drv_view s j = Some e" "drv_view s k = Some e'" "rd_path e = rd_path e'"
  shows "j = k"
proof -
  have mem: "e \<in> set (somes (dl_drivers s))" "e' \<in> set (somes (dl_drivers s))" and ids: "rd_id e = j" "rd_id e' = k"
    using slot_map_key assms(2,3) unfolding drv_view_def set_somes by fast+
  have "inj_on rd_path (set (somes (dl_drivers s)))"
    using assms(1) by (simp add: driver_inv_def slot_keys_def distinct_map)
  then have "e = e'" using mem assms(4) by (auto dest: inj_onD)
  with ids show ?thesis by simp
qed

lemma register_run_change:
  assumes "driver_inv s" "dl_initialized s" "unat (dl_next_id s) < 2 ^ 32 - 1"
    and "h \<le> MAX_HAL_TYPE" "reload_register (Some p) (Some nm) h s = (r, s')"
  shows "run_change i s (OpRegister (Some p) (Some nm) h) r s'"
    and "drv_view s i = Some d \<Longrightarrow> take 127 p = rd_path d \<Longrightarrow> replaced_by d s (OpRegister (Some p) (Some nm) h) s'"
proof -
  note spec = register_spec [OF assms(1,2,4,5,3)]
  have new: "rd_state (registered j q nm h) = Loaded" for j q by (simp add: registered_def)
  have ids: "rd_id e = j" if "drv_view s j = Some e" for j e using slot_map_key that unfolding drv_view_def by fast
  note uniq = view_path_unique [OF assms(1)]
  show rep: "replaced_by d s (OpRegister (Some p) (Some nm) h) s'" if "drv_view s i = Some d" "take 127 p = rd_path d" for i d
  proof -
    from spec(2) that obtain j old where "drv_view s j = Some old" "rd_path old = take 127 p"
      "drv_view s' = (drv_view s)(j \<mapsto> registered j (take 127 p) nm h)" by metis
    with uniq [of j old i d] that ids [OF that(1)] spec(1) assms(4) show ?thesis by (auto simp: replaced_by_def)
  qed
  show "run_change i s (OpRegister (Some p) (Some nm) h) r s'"
    using spec(2)
  proof (elim disjE exE conjE)
    fix j old
    assume "drv_view s j = Some old" "rd_path old = take 127 p" "drv_view s' = (drv_view s)(j \<mapsto> registered j (take 127 p) nm h)"
    with rep [of j old] show ?thesis by (auto simp: run_change_def drv_state_def new split: if_splits)
  next
    assume "if card (dom (drv_view s)) < MAX_RELOADABLE
        then r = sint (dl_next_id s) \<and> drv_view s (dl_next_id s) = None \<and>
          drv_view s' = (drv_view s)(dl_next_id s \<mapsto> registered (dl_next_id s) (take 127 p) nm h)
        else r = ESP_ERR_NO_MEM \<and> s' = s"
    then show ?thesis by (auto simp: run_change_def drv_state_def new split: if_splits)
  qed
qed

lemma step_run_change:
  assumes "driver_inv s" "dl_initialized s" "unat (dl_next_id s) < 2 ^ 32 - 1" "reload_step pf op s = (r, s')"
  shows "run_change i s op r s'"
proof (cases op)
  case OpInit
  with assms(4) have "drv_view s' = Map.empty"
    by (auto simp: reload_init_def drv_view_def slot_keys_iff)
  with OpInit show ?thesis by (simp add: run_change_def drv_state_def)
next
  case (OpRegister p n h)
  then consider "s' = s" | pp nn where "p = Some pp" "n = Some nn" "h \<le> MAX_HAL_TYPE"
    using assms(4) by (cases p; cases n; cases "MAX_HAL_TYPE < h") (auto simp: reload_register_def not_less)
  then show ?thesis
  proof cases
    case 1
    then show ?thesis by (intro run_change_same) simp
  next
    case 2
    with register_run_change(1) [OF assms(1-3) 2(3)] OpRegister assms(4) show ?thesis by simp
  qed
next
  case (OpUnregister j)
  with assms(4) have run: "reload_unregister j s = (r, s')" by simp
  then consider "s' = s" | "drv_state s j \<noteq> Some Running" "drv_view s' = (drv_view s)(j := None)"
    using unregister_spec [OF assms(1) run] by (cases "drv_state s j") (auto split: if_splits)
  then show ?thesis
  proof cases
    case 1
    then show ?thesis by (intro run_change_same) simp
  next
    case 2
    then show ?thesis by (cases "i = j") (auto intro: run_change_same simp: run_change_def drv_state_def)
  qed
next
  case (OpVerb v j)
  with assms(4) verb_run_change [OF assms(1)] show ?thesis by simp
next
  case (OpReloadPath p)
  with assms(4) have run: "reload_by_path pf p s = (r, s')" by simp
  show ?thesis
  proof (cases rule: reload_by_path_cases [OF assms(1) run])
    case 1
    then show ?thesis by (intro run_change_same) simp
  next
    case (2 j)
    then show ?thesis by (rule verb_run_change [OF assms(1)]) simp
  qed
next
  case (OpSetVersion j v)
  with set_version_spec [OF assms(1), of j v] assms(4) show ?thesis by (intro run_change_same) simp
qed

section \<open>Properties\<close>

text \<open>A host build with one registered driver.\<close>

definition host :: platform where
  "host = \<lparr>pf_espidf = False, pf_extern = (\<lambda>_ _. 0)\<rparr>"

definition one_driver :: driver_reload where
  "one_driver = snd (reload_step host (OpRegister (Some ''/drv/a'') (Some ''a'') 1) (snd (reload_init reload_new)))"

definition one_running :: driver_reload where
  "one_running = snd (reload_step host (OpVerb VStart 1) one_driver)"

lemma one_driver_managed: "managed host 1 one_driver" "managed host 2 one_running"
proof -
  show one: "managed host 1 one_driver"
    unfolding one_driver_def One_nat_def by (intro managed.intros)
  show "managed host 2 one_running"
    using managed.step [OF one, of "OpVerb VStart 1"] by (simp add: one_running_def numeral_2_eq_2)
qed



text \<open>The table holds at most sixteen drivers with distinct paths, and the counter is their number.
  Registering a path that is present replaces that driver under its identifier; registering another
  one adds it under a fresh identifier, unless sixteen drivers are present. Paths are told apart by
  their first 127 bytes.\<close>

theorem driver_registration:
  assumes "managed pf n s" "n + 2 < 2 ^ 32" "h \<le> MAX_HAL_TYPE" "reload_register (Some p) (Some nm) h s = (r, s')"
  shows "card (dom (drv_view s)) \<le> 16 \<and> reload_get_count s = int (card (dom (drv_view s))) \<and>
    (\<forall>i j d e. drv_view s i = Some d \<longrightarrow> drv_view s j = Some e \<longrightarrow> rd_path d = rd_path e \<longrightarrow> i = j) \<and>
    ((\<exists>i old. drv_view s i = Some old \<and> rd_path old = take 127 p \<and> r = sint i \<and>
        drv_view s' = (drv_view s)(i \<mapsto> registered i (take 127 p) nm h)) \<or>
     (\<forall>i old. drv_view s i = Some old \<longrightarrow> rd_path old \<noteq> take 127 p) \<and>
       (if card (dom (drv_view s)) < 16
        then r = sint (dl_next_id s) \<and> drv_view s (dl_next_id s) = None \<and>
          drv_view s' = (drv_view s)(dl_next_id s \<mapsto> registered (dl_next_id s) (take 127 p) nm h)
        else r = ESP_ERR_NO_MEM \<and> s' = s))"
proof -
  have inv: "driver_inv s" "dl_initialized s" "unat (dl_next_id s) < 2 ^ 32 - 1"
    using managed_inv [OF assms(1)] assms(2) by auto
  have "card (dom (drv_view s)) = length (somes (dl_drivers s))"
    using inv(1) card_slot_map [of rd_id "dl_drivers s"] by (simp add: driver_inv_def drv_view_def)
  moreover have "length (somes (dl_drivers s)) \<le> 16"
    using inv(1) length_somes [of "dl_drivers s"] by (simp add: driver_inv_def MAX_RELOADABLE_def)
  ultimately have "card (dom (drv_view s)) \<le> 16 \<and> reload_get_count s = int (card (dom (drv_view s)))"
    using inv(1) by (simp add: driver_inv_def reload_get_count_def)
  moreover have "\<forall>i j d e. drv_view s i = Some d \<longrightarrow> drv_view s j = Some e \<longrightarrow> rd_path d = rd_path e \<longrightarrow> i = j"
    using view_path_unique [OF inv(1)] by blast
  ultimately show ?thesis
    using register_spec(2) [OF inv(1,2) assms(3,4) inv(3)] by (simp only: MAX_RELOADABLE_def simp_thms)
qed

theorem driver_registration_witness:
  "\<exists>s'. reload_register (Some ''/drv/a'') (Some ''b'') 2 one_running = (1, s') \<and> drv_state s' 1 = Some Loaded \<and>
     card (dom (drv_view one_running)) = 1"
proof -
  obtain r s' where run: "reload_register (Some ''/drv/a'') (Some ''b'') 2 one_running = (r, s')" by fastforce
  have st: "map_option rd_path (drv_view one_running 1) = Some ''/drv/a''" "reload_get_count one_running = 1" by code_simp+
  then obtain d where d: "drv_view one_running 1 = Some d" "rd_path d = ''/drv/a''" by auto
  have "(2 :: u8) \<le> MAX_HAL_TYPE" "(2 :: nat) + 2 < 2 ^ 32" by (simp_all add: MAX_HAL_TYPE_def)
  note reg = driver_registration [OF one_driver_managed(2) this(2,1) run]
  then obtain i old where i: "drv_view one_running i = Some old" "rd_path old = ''/drv/a''" "r = sint i"
    "drv_view s' = (drv_view one_running)(i \<mapsto> registered i ''/drv/a'' ''b'' 2)"
    using d by fastforce
  with reg d have "i = 1" by metis
  with i run st(2) reg show ?thesis by (simp add: drv_state_def registered_def)
qed

text \<open>A driver comes to run only through a start request that called its start hook with success, on a
  driver in the loaded state. It stops being recorded as running only after its stop hook was called,
  or at a new initialisation, or because its path was registered again: then the driver is recorded as
  loaded although no hook was called, and can be started a second time.\<close>

theorem driver_runs_between_hooks:
  assumes "managed pf n s" "n + 2 < 2 ^ 32" "reload_step pf op s = (r, s')"
  shows "(drv_state s i \<noteq> Some Running \<and> drv_state s' i = Some Running \<longrightarrow>
      op = OpVerb VStart i \<and> r = ESP_OK \<and>
      (\<exists>d. drv_view s i = Some d \<and> rd_state d = Loaded \<and> dl_calls s' = dl_calls s @ [StartDriver (rd_hal_type d)])) \<and>
    (\<forall>d. drv_view s i = Some d \<and> rd_state d = Running \<and> drv_state s' i \<noteq> Some Running \<longrightarrow>
      (\<exists>cs. dl_calls s' = dl_calls s @ StopDriver (rd_hal_type d) # cs) \<or> op = OpInit \<or>
      (\<exists>p nm h. op = OpRegister (Some p) (Some nm) h \<and> take 127 p = rd_path d)) \<and>
    (\<forall>d p nm h. drv_view s i = Some d \<and> op = OpRegister (Some p) (Some nm) h \<and> h \<le> MAX_HAL_TYPE \<and> take 127 p = rd_path d \<longrightarrow>
      drv_state s' i = Some Loaded \<and> dl_calls s' = dl_calls s)"
proof -
  have inv: "driver_inv s" "dl_initialized s" "unat (dl_next_id s) < 2 ^ 32 - 1"
    using managed_inv [OF assms(1)] assms(2) by auto
  note change = step_run_change [OF inv assms(3), of i, unfolded run_change_def]
  have again: "drv_state s' i = Some Loaded \<and> dl_calls s' = dl_calls s"
    if d: "drv_view s i = Some d" "op = OpRegister (Some p) (Some nm) h" "h \<le> MAX_HAL_TYPE" "take 127 p = rd_path d" for d p nm h
  proof -
    have "rd_id d = i" using slot_map_key d(1) unfolding drv_view_def by fast
    moreover have "replaced_by d s (OpRegister (Some p) (Some nm) h) s'"
      using register_run_change(2) [OF inv d(3) _ d(1,4)] assms(3) d(2) by simp
    ultimately show ?thesis by (auto simp: replaced_by_def drv_state_def registered_def)
  qed
  show ?thesis
    using change again by (simp only: started_by_def replaced_by_def extends_def append_Cons append_Nil) blast
qed

theorem driver_runs_between_hooks_witness:
  "let again = snd (reload_step host (OpRegister (Some ''/drv/a'') (Some ''a'') 1) one_running) in
     dl_calls again = [StartDriver 1] \<and> drv_state again 1 = Some Loaded \<and>
     dl_calls (snd (reload_step host (OpVerb VStart 1) again)) = [StartDriver 1, StartDriver 1]"
proof -
  obtain r s' where run: "reload_step host (OpRegister (Some ''/drv/a'') (Some ''a'') 1) one_running = (r, s')" by fastforce
  have st: "map_option rd_path (drv_view one_running 1) = Some ''/drv/a''" "dl_calls one_running = [StartDriver 1]"
    and twice: "dl_calls (snd (reload_step host (OpVerb VStart 1)
      (snd (reload_step host (OpRegister (Some ''/drv/a'') (Some ''a'') 1) one_running)))) = [StartDriver 1, StartDriver 1]"
    by code_simp+
  from st obtain d where d: "drv_view one_running 1 = Some d" "rd_path d = ''/drv/a''" by auto
  have side: "(1 :: u8) \<le> MAX_HAL_TYPE" "(2 :: nat) + 2 < 2 ^ 32" by (simp_all add: MAX_HAL_TYPE_def)
  have "dl_calls s' = [StartDriver 1] \<and> drv_state s' 1 = Some Loaded"
    using driver_runs_between_hooks [OF one_driver_managed(2) side(2) run, of 1] d st(2) side(1) by auto
  with twice show ?thesis unfolding run by (simp add: Let_def)
qed

end
