(* ===== verification/Ui_Tree.thy ===== *)
theory Ui_Tree
  imports Thistle_Prelude "HOL-Library.Monad_Syntax"
begin

text \<open>
  The widget tree of the toolkit (\<open>thistle-tk/src/tree.rs\<close>, with the parts of \<open>widget.rs\<close> the tree and
  the input handling use): an arena of nodes addressed by 16-bit identifiers, with a list of free slots.
  Colours, fonts, size hints and other attributes only the renderer and the layout read are left out
  of the widgets; callbacks are addresses. Recursion over the tree takes its depth bound as an argument
  and returns \<open>None\<close> when it is exceeded; \<open>Ui_Tree_Safety\<close> shows that the number of nodes is enough.
\<close>

type_synonym i32 = "32 word"
type_synonym widget_id = u16
type_synonym callback = nat

section \<open>Widgets\<close>

record pos =
  pos_x :: i32
  pos_y :: i32

record size =
  size_w :: u32
  size_h :: u32

record common_props =
  cp_id :: widget_id
  cp_pos :: pos
  cp_size :: size
  cp_visible :: bool
  cp_dirty :: bool
  cp_pressed :: bool
  cp_focused :: bool

text \<open>Texts are lists of Unicode scalar values.\<close>

type_synonym utext = "nat list"

datatype widget =
    Container common_props i32
  | Label common_props utext
  | Button common_props utext "callback option"
  | TextInput common_props utext u16 "callback option"
  | Image common_props
  | ListItem common_props "callback option"
  | ProgressBar common_props
  | Divider common_props
  | Spacer common_props
  | StatusBar common_props
  | Switch common_props bool "callback option"
  | Checkbox common_props bool "callback option"
  | Slider common_props u8 u8 u8 "callback option"
  | Dropdown common_props "utext list" u8 bool "callback option"

primrec common :: "widget \<Rightarrow> common_props" where
  "common (Container c s) = c"
| "common (Label c t) = c"
| "common (Button c t p) = c"
| "common (TextInput c t p f) = c"
| "common (Image c) = c"
| "common (ListItem c p) = c"
| "common (ProgressBar c) = c"
| "common (Divider c) = c"
| "common (Spacer c) = c"
| "common (StatusBar c) = c"
| "common (Switch c b f) = c"
| "common (Checkbox c b f) = c"
| "common (Slider c v mn mx f) = c"
| "common (Dropdown c os s b f) = c"

text \<open>A write through \<open>common_mut\<close>.\<close>

primrec common_mut :: "(common_props \<Rightarrow> common_props) \<Rightarrow> widget \<Rightarrow> widget" where
  "common_mut g (Container c s) = Container (g c) s"
| "common_mut g (Label c t) = Label (g c) t"
| "common_mut g (Button c t p) = Button (g c) t p"
| "common_mut g (TextInput c t p f) = TextInput (g c) t p f"
| "common_mut g (Image c) = Image (g c)"
| "common_mut g (ListItem c p) = ListItem (g c) p"
| "common_mut g (ProgressBar c) = ProgressBar (g c)"
| "common_mut g (Divider c) = Divider (g c)"
| "common_mut g (Spacer c) = Spacer (g c)"
| "common_mut g (StatusBar c) = StatusBar (g c)"
| "common_mut g (Switch c b f) = Switch (g c) b f"
| "common_mut g (Checkbox c b f) = Checkbox (g c) b f"
| "common_mut g (Slider c v mn mx f) = Slider (g c) v mn mx f"
| "common_mut g (Dropdown c os s b f) = Dropdown (g c) os s b f"

lemma common_common_mut [simp]: "common (common_mut g w) = g (common w)"
  by (cases w) simp_all

section \<open>The arena\<close>

definition MAX_CHILDREN :: nat where "MAX_CHILDREN = 32"

record node =
  nd_widget :: widget
  nd_parent :: "widget_id option"
  nd_children :: "widget_id list"
  nd_generation :: u16
  nd_alive :: bool

type_synonym rectangle = "pos \<times> size"

record ui_tree =
  ui_nodes :: "node list"
  ui_root :: widget_id
  ui_free :: "widget_id list"
  ui_focus :: "widget_id option"
  ui_dirty_rect :: "rectangle option"

definition union_rect :: "rectangle \<Rightarrow> rectangle \<Rightarrow> rectangle" where
  "union_rect a b =
     (let smin = (\<lambda>u v. if sint u \<le> sint v then u else v); smax = (\<lambda>u v. if sint u \<le> sint v then v else u);
          a_x2 = pos_x (fst a) + size_w (snd a); a_y2 = pos_y (fst a) + size_h (snd a);
          b_x2 = pos_x (fst b) + size_w (snd b); b_y2 = pos_y (fst b) + size_h (snd b);
          min_x = smin (pos_x (fst a)) (pos_x (fst b)); min_y = smin (pos_y (fst a)) (pos_y (fst b));
          max_x = smax a_x2 b_x2; max_y = smax a_y2 b_y2
      in (\<lparr>pos_x = min_x, pos_y = min_y\<rparr>, \<lparr>size_w = max_x - min_x, size_h = max_y - min_y\<rparr>))"

definition ui_new :: "widget \<Rightarrow> ui_tree" where
  "ui_new root_widget =
     \<lparr>ui_nodes = [\<lparr>nd_widget = root_widget, nd_parent = None, nd_children = [], nd_generation = 0, nd_alive = True\<rparr>],
      ui_root = 0, ui_free = [], ui_focus = None, ui_dirty_rect = None\<rparr>"

text \<open>\<open>self.nodes.get(id as usize).filter(|n| n.alive)\<close>, and a write to \<open>self.nodes[id as usize]\<close>.\<close>

definition node_at :: "ui_tree \<Rightarrow> widget_id \<Rightarrow> node option" where
  "node_at t i =
     (if unat i < length (ui_nodes t) \<and> nd_alive (ui_nodes t ! unat i) then Some (ui_nodes t ! unat i) else None)"

definition upd_node :: "widget_id \<Rightarrow> (node \<Rightarrow> node) \<Rightarrow> ui_tree \<Rightarrow> ui_tree" where
  "upd_node i f t = t\<lparr>ui_nodes := (ui_nodes t)[unat i := f (ui_nodes t ! unat i)]\<rparr>"

text \<open>A write to the common properties of a widget that is in the tree.\<close>

definition upd_common :: "widget_id \<Rightarrow> (common_props \<Rightarrow> common_props) \<Rightarrow> ui_tree \<Rightarrow> ui_tree" where
  "upd_common i g t =
     (case node_at t i of None \<Rightarrow> t | Some n \<Rightarrow> upd_node i (\<lambda>n. n\<lparr>nd_widget := common_mut g (nd_widget n)\<rparr>) t)"

definition ui_get :: "ui_tree \<Rightarrow> widget_id \<Rightarrow> widget option" where
  "ui_get t i = map_option nd_widget (node_at t i)"

definition ui_get_mut :: "widget_id \<Rightarrow> (widget \<Rightarrow> widget) \<Rightarrow> ui_tree \<Rightarrow> ui_tree" where
  "ui_get_mut i f t =
     (case node_at t i of None \<Rightarrow> t | Some n \<Rightarrow> upd_node i (\<lambda>n. n\<lparr>nd_widget := f (nd_widget n)\<rparr>) t)"

definition ui_children :: "ui_tree \<Rightarrow> widget_id \<Rightarrow> widget_id list" where
  "ui_children t i = (case node_at t i of None \<Rightarrow> [] | Some n \<Rightarrow> nd_children n)"

definition ui_parent :: "ui_tree \<Rightarrow> widget_id \<Rightarrow> widget_id option" where
  "ui_parent t i = Option.bind (node_at t i) nd_parent"

definition set_focus :: "widget_id option \<Rightarrow> ui_tree \<Rightarrow> ui_tree" where
  "set_focus i t =
     (let t1 = (case ui_focus t of None \<Rightarrow> t | Some old \<Rightarrow> upd_common old (\<lambda>c. c\<lparr>cp_focused := False, cp_dirty := True\<rparr>) t);
          t2 = (case i of None \<Rightarrow> t1 | Some new \<Rightarrow> upd_common new (\<lambda>c. c\<lparr>cp_focused := True, cp_dirty := True\<rparr>) t1)
      in t2\<lparr>ui_focus := i\<rparr>)"

section \<open>Adding and removing\<close>

text \<open>A reused slot (\<open>free.pop()\<close> takes the last) or a new one at the end.\<close>

definition alloc_node :: "widget_id \<Rightarrow> widget \<Rightarrow> ui_tree \<Rightarrow> widget_id \<times> ui_tree" where
  "alloc_node parent w t =
     (if ui_free t \<noteq> [] then
        (let fid = last (ui_free t)
         in (fid, upd_node fid (\<lambda>n. n\<lparr>nd_widget := common_mut (\<lambda>c. c\<lparr>cp_id := fid\<rparr>) w, nd_parent := Some parent,
                    nd_children := [], nd_generation := nd_generation n + 1, nd_alive := True\<rparr>)
                  (t\<lparr>ui_free := butlast (ui_free t)\<rparr>)))
      else
        (let i = word_of_nat (length (ui_nodes t))
         in (i, t\<lparr>ui_nodes := ui_nodes t @ [\<lparr>nd_widget = common_mut (\<lambda>c. c\<lparr>cp_id := i\<rparr>) w, nd_parent = Some parent,
                    nd_children = [], nd_generation = 0, nd_alive = True\<rparr>]\<rparr>)))"

definition add_child :: "widget_id \<Rightarrow> widget \<Rightarrow> ui_tree \<Rightarrow> widget_id option \<times> ui_tree" where
  "add_child parent w t =
     (if node_at t parent = None then (None, t)
      else
        (let (i, t1) = alloc_node parent w t
         in if length (nd_children (ui_nodes t1 ! unat parent)) < MAX_CHILDREN
            then (Some i, upd_node parent (\<lambda>n. n\<lparr>nd_children := nd_children n @ [i]\<rparr>) t1)
            else (None, (upd_node i (\<lambda>n. n\<lparr>nd_alive := False\<rparr>) t1)\<lparr>ui_free := ui_free t1 @ [i]\<rparr>)))"

text \<open>\<open>Vec::swap_remove\<close>: the last element takes the place of the one removed.\<close>

definition swap_remove :: "nat \<Rightarrow> 'a list \<Rightarrow> 'a list" where
  "swap_remove p xs = (if p = length xs - 1 then butlast xs else butlast (xs[p := last xs]))"

text \<open>\<open>collect_subtree\<close> of each of the identifiers, in order.\<close>

fun collect :: "nat \<Rightarrow> ui_tree \<Rightarrow> widget_id list \<Rightarrow> widget_id list option" where
  "collect n t [] = Some []"
| "collect 0 t (i # is) = None"
| "collect (Suc n) t (i # is) =
     do { xs \<leftarrow> collect n t (ui_children t i); ys \<leftarrow> collect (Suc n) t is; Some (i # xs @ ys) }"

definition collect_subtree :: "nat \<Rightarrow> ui_tree \<Rightarrow> widget_id \<Rightarrow> widget_id list option" where
  "collect_subtree n t i = collect n t [i]"

definition unlink :: "widget_id \<Rightarrow> ui_tree \<Rightarrow> ui_tree" where
  "unlink i t =
     (case nd_parent (ui_nodes t ! unat i) of
        None \<Rightarrow> t
      | Some p \<Rightarrow>
          (case find_index (\<lambda>c. c = i) (nd_children (ui_nodes t ! unat p)) of
             None \<Rightarrow> t
           | Some k \<Rightarrow> upd_node p (\<lambda>n. n\<lparr>nd_children := swap_remove k (nd_children n)\<rparr>) t))"

definition kill :: "widget_id \<Rightarrow> ui_tree \<Rightarrow> ui_tree" where
  "kill i t =
     (let t1 = upd_node i (\<lambda>n. n\<lparr>nd_alive := False, nd_children := []\<rparr>) t
      in t1\<lparr>ui_free := ui_free t1 @ [i], ui_focus := if ui_focus t1 = Some i then None else ui_focus t1\<rparr>)"

definition ui_remove :: "nat \<Rightarrow> widget_id \<Rightarrow> ui_tree \<Rightarrow> (bool \<times> ui_tree) option" where
  "ui_remove n i t =
     (if i = ui_root t then Some (False, t)
      else if node_at t i = None then Some (False, t)
      else do { to_remove \<leftarrow> collect_subtree n t i; Some (True, fold kill to_remove (unlink i t)) })"

section \<open>Dirty marks\<close>

fun mark_up :: "nat \<Rightarrow> widget_id option \<Rightarrow> ui_tree \<Rightarrow> ui_tree option" where
  "mark_up n None t = Some t"
| "mark_up 0 (Some i) t = None"
| "mark_up (Suc n) (Some i) t =
     (case node_at t i of
        None \<Rightarrow> Some t
      | Some nd \<Rightarrow> mark_up n (nd_parent nd) (upd_common i (\<lambda>c. c\<lparr>cp_dirty := True\<rparr>) t))"

definition mark_dirty :: "nat \<Rightarrow> widget_id \<Rightarrow> ui_tree \<Rightarrow> ui_tree option" where
  "mark_dirty n i t =
     (let t1 = (case node_at t i of
                  None \<Rightarrow> t
                | Some nd \<Rightarrow>
                    (let c = common (nd_widget nd); r = (cp_pos c, cp_size c)
                     in t\<lparr>ui_dirty_rect := Some (case ui_dirty_rect t of Some e \<Rightarrow> union_rect e r | None \<Rightarrow> r)\<rparr>))
      in mark_up n (Some i) t1)"

definition clear_dirty_rect :: "ui_tree \<Rightarrow> ui_tree" where
  "clear_dirty_rect t = t\<lparr>ui_dirty_rect := None\<rparr>"

definition clear_dirty :: "ui_tree \<Rightarrow> ui_tree" where
  "clear_dirty t =
     t\<lparr>ui_nodes := map (\<lambda>n. if nd_alive n then n\<lparr>nd_widget := common_mut (\<lambda>c. c\<lparr>cp_dirty := False\<rparr>) (nd_widget n)\<rparr> else n)
        (ui_nodes t)\<rparr>"

section \<open>Traversal\<close>

text \<open>The nodes \<open>walk\<close> calls the visitor on, with the visitor's answer, for each of the identifiers in order.\<close>

fun walk_all :: "nat \<Rightarrow> (widget_id \<Rightarrow> widget \<Rightarrow> bool) \<Rightarrow> ui_tree \<Rightarrow> widget_id list \<Rightarrow> (widget_id \<times> bool) list option" where
  "walk_all n f t [] = Some []"
| "walk_all 0 f t (i # is) = None"
| "walk_all (Suc n) f t (i # is) =
     do { xs \<leftarrow> (case node_at t i of
                   None \<Rightarrow> Some []
                 | Some nd \<Rightarrow>
                     if \<not> cp_visible (common (nd_widget nd)) then Some []
                     else if f i (nd_widget nd) then
                       do { ys \<leftarrow> walk_all n f t (nd_children nd); Some ((i, True) # ys) }
                     else Some [(i, False)]);
          zs \<leftarrow> walk_all (Suc n) f t is;
          Some (xs @ zs) }"

definition walk :: "nat \<Rightarrow> (widget_id \<Rightarrow> widget \<Rightarrow> bool) \<Rightarrow> ui_tree \<Rightarrow> widget_id \<Rightarrow> (widget_id \<times> bool) list option" where
  "walk n f t start = walk_all n f t [start]"

definition inside :: "i32 \<Rightarrow> i32 \<Rightarrow> common_props \<Rightarrow> bool" where
  "inside x y c \<longleftrightarrow>
     sint (pos_x (cp_pos c)) \<le> sint x \<and> sint (pos_y (cp_pos c)) \<le> sint y \<and>
     sint x < sint (pos_x (cp_pos c) + size_w (cp_size c)) \<and> sint y < sint (pos_y (cp_pos c) + size_h (cp_size c))"

text \<open>The first hit among the identifiers, in order; the children are tried from the last to the first.\<close>

fun find_hit :: "nat \<Rightarrow> i32 \<Rightarrow> i32 \<Rightarrow> ui_tree \<Rightarrow> widget_id list \<Rightarrow> widget_id option option" where
  "find_hit n x y t [] = Some None"
| "find_hit 0 x y t (i # is) = None"
| "find_hit (Suc n) x y t (i # is) =
     do { r \<leftarrow> (case node_at t i of
                  None \<Rightarrow> Some None
                | Some nd \<Rightarrow>
                    if \<not> cp_visible (common (nd_widget nd)) then Some None
                    else if \<not> inside x y (common (nd_widget nd)) then Some None
                    else do { h \<leftarrow> find_hit n x y t (rev (nd_children nd)); Some (Some (case h of Some k \<Rightarrow> k | None \<Rightarrow> i)) });
          case r of Some k \<Rightarrow> Some (Some k) | None \<Rightarrow> find_hit (Suc n) x y t is }"

definition find_at_point :: "nat \<Rightarrow> i32 \<Rightarrow> i32 \<Rightarrow> ui_tree \<Rightarrow> widget_id option option" where
  "find_at_point n x y t = find_hit n x y t [ui_root t]"

end
