(* ===== verification/Ui_Tree_Safety.thy ===== *)
theory Ui_Tree_Safety
  imports Ui_Tree "HOL-Library.Multiset"
begin

text \<open>
  The arena as a tree: the nodes in use are those of one ordered tree without repetitions, and every
  operation of the arena is one on that tree.
\<close>

section \<open>Ordered trees of identifiers\<close>

datatype rtree = RT widget_id "rtree list"

primrec rid :: "rtree \<Rightarrow> widget_id" where
  "rid (RT i ks) = i"

primrec kids :: "rtree \<Rightarrow> rtree list" where
  "kids (RT i ks) = ks"

fun ids :: "rtree \<Rightarrow> widget_id list" where
  "ids (RT i ks) = i # concat (map ids ks)"

fun subs :: "rtree \<Rightarrow> rtree list" where
  "subs (RT i ks) = RT i ks # concat (map subs ks)"

fun fits :: "(widget_id \<Rightarrow> widget_id list) \<Rightarrow> rtree \<Rightarrow> bool" where
  "fits ch (RT i ks) \<longleftrightarrow> map rid ks = ch i \<and> (\<forall>k\<in>set ks. fits ch k)"

fun height :: "rtree \<Rightarrow> nat" where
  "height (RT i ks) = Suc (foldr max (map height ks) 0)"

lemma rid_ids [simp]: "rid r \<in> set (ids r)"
  by (cases r) simp

lemma subs_self [simp]: "r \<in> set (subs r)"
  by (cases r) simp

lemma ids_subs: "ids r = map rid (subs r)"
  by (induction r rule: ids.induct) (simp add: map_concat comp_def cong: map_cong)

lemma subs_trans: "s \<in> set (subs r) \<Longrightarrow> u \<in> set (subs s) \<Longrightarrow> u \<in> set (subs r)"
  by (induction r rule: subs.induct) auto

lemma subs_ids: "s \<in> set (subs r) \<Longrightarrow> set (ids s) \<subseteq> set (ids r)"
  using subs_trans by (fastforce simp: ids_subs)

lemma fits_subs: "fits ch r \<Longrightarrow> s \<in> set (subs r) \<Longrightarrow> fits ch s"
  by (induction r rule: subs.induct) auto

lemma kids_subs: "k \<in> set (kids r) \<Longrightarrow> k \<in> set (subs r)"
  by (cases r) (auto intro: bexI [of _ k])

lemma fits_kids: "fits ch r \<Longrightarrow> map rid (kids r) = ch (rid r)"
  by (cases r) simp

lemma fits_cong: "fits ch r \<Longrightarrow> (\<And>j. j \<in> set (ids r) \<Longrightarrow> ch' j = ch j) \<Longrightarrow> fits ch' r"
  by (induction r rule: ids.induct) auto

lemma foldr_max_le: "foldr max ns 0 \<le> (m :: nat) \<longleftrightarrow> (\<forall>n\<in>set ns. n \<le> m)"
  by (induction ns) auto

lemma height_ids: "height r \<le> length (ids r)"
proof (induction r rule: ids.induct)
  case (1 i ks)
  have "height k \<le> length (concat (map ids ks))" if "k \<in> set ks" for k
    using 1 [OF that] member_le_sum_list [of "length (ids k)" "map length (map ids ks)"] that
    by (fastforce simp: length_concat comp_def)
  then show ?case by (simp add: foldr_max_le)
qed

text \<open>In a tree without repetitions a subtree is known by its root.\<close>

lemma subs_unique: "distinct (ids r) \<Longrightarrow> s \<in> set (subs r) \<Longrightarrow> u \<in> set (subs r) \<Longrightarrow> rid s = rid u \<Longrightarrow> s = u"
  by (auto simp: ids_subs distinct_map dest: inj_onD)

lemma distinct_concat_member: "distinct (concat xss) \<Longrightarrow> xs \<in> set xss \<Longrightarrow> distinct xs"
  by (induction xss) auto

lemma distinct_subs: "distinct (ids r) \<Longrightarrow> s \<in> set (subs r) \<Longrightarrow> distinct (ids s)"
proof (induction r rule: subs.induct)
  case (1 i ks)
  show ?case
  proof (cases "s = RT i ks")
    case False
    then obtain k where k: "k \<in> set ks" "s \<in> set (subs k)" using 1(3) by auto
    moreover have "distinct (ids k)" using 1(2) k(1) distinct_concat_member [of "map ids ks"] by simp
    ultimately show ?thesis using 1(1) by blast
  qed (use 1 in simp)
qed

lemma sub_at: "i \<in> set (ids r) \<Longrightarrow> \<exists>s\<in>set (subs r). rid s = i"
  by (auto simp: ids_subs)

text \<open>Every node but the root is a child of another.\<close>

lemma has_parent: "s \<in> set (subs r) \<Longrightarrow> s \<noteq> r \<Longrightarrow> \<exists>p\<in>set (subs r). s \<in> set (kids p)"
proof (induction r rule: subs.induct)
  case (1 i ks)
  then obtain k where k: "k \<in> set ks" "s \<in> set (subs k)" by auto
  show ?case
  proof (cases "s = k")
    case True
    with k show ?thesis by (intro bexI [of _ "RT i ks"]) simp_all
  next
    case False
    with 1(1) [OF k] k(1) show ?thesis by auto
  qed
qed

section \<open>The arena is a tree\<close>

definition tree_of :: "ui_tree \<Rightarrow> rtree \<Rightarrow> bool" where
  "tree_of t r \<longleftrightarrow>
     ui_root t = 0 \<and> rid r = 0 \<and> fits (ui_children t) r \<and> distinct (ids r) \<and>
     set (ids r) = {i. node_at t i \<noteq> None} \<and>
     ui_parent t 0 = None \<and> (\<forall>i. \<forall>c\<in>set (ui_children t i). ui_parent t c = Some i) \<and>
     (\<forall>i. length (ui_children t i) \<le> MAX_CHILDREN) \<and>
     distinct (ui_free t) \<and> set (ui_free t) = {i. unat i < length (ui_nodes t) \<and> node_at t i = None} \<and>
     length (ui_nodes t) \<le> 2 ^ 16"

definition ui_wf :: "ui_tree \<Rightarrow> bool" where
  "ui_wf t \<longleftrightarrow> (\<exists>r. tree_of t r)"

lemma node_at_index: "node_at t i \<noteq> None \<Longrightarrow> unat i < length (ui_nodes t)"
  by (auto simp: node_at_def split: if_splits)

lemma unat_inj: "unat i = unat j \<Longrightarrow> i = j"
  by (rule word_unat_eq_iff [THEN iffD2])

lemma alive_card: "tree_of t r \<Longrightarrow> length (ids r) \<le> length (ui_nodes t)"
proof -
  assume t: "tree_of t r"
  have "unat ` set (ids r) \<subseteq> {..<length (ui_nodes t)}"
    using t node_at_index [of t] by (auto simp: tree_of_def)
  then have "card (unat ` set (ids r)) \<le> length (ui_nodes t)" using card_mono [of "{..<length (ui_nodes t)}"] by fastforce
  moreover have "card (unat ` set (ids r)) = length (ids r)"
    using t distinct_card [of "ids r"] by (subst card_image) (auto simp: tree_of_def inj_on_def intro: unat_inj)
  ultimately show ?thesis by simp
qed

lemma collect_ids:
  assumes "\<forall>k\<in>set ks. fits (ui_children t) k \<and> height k \<le> n"
  shows "collect n t (map rid ks) = Some (concat (map ids ks))"
  using assms
proof (induction n t "map rid ks" arbitrary: ks rule: collect.induct)
  case (2 t i js)
  then show ?case by (cases ks; cases "hd ks") auto
next
  case (3 n t i js)
  then obtain k ks' where ks: "ks = k # ks'" "i = rid k" "js = map rid ks'" by (cases ks) auto
  have "map rid (kids k) = ui_children t i" using 3(4) ks fits_kids by simp
  moreover have "\<forall>k'\<in>set (kids k). fits (ui_children t) k' \<and> height k' \<le> n"
    using 3(4) ks by (cases k) (auto simp: foldr_max_le)
  ultimately have "collect n t (ui_children t i) = Some (concat (map ids (kids k)))" using 3(1) by metis
  moreover have "collect (Suc n) t js = Some (concat (map ids ks'))" using 3(2) 3(4) ks calculation by auto
  ultimately show ?case using ks by (cases k) simp
qed simp

section \<open>Walking and hit testing\<close>

text \<open>The nodes that satisfy \<open>P\<close> together with all their ancestors, each before its descendants: the order
  in which the tree is drawn.\<close>

fun drawn :: "(widget_id \<Rightarrow> bool) \<Rightarrow> rtree \<Rightarrow> widget_id list" where
  "drawn P (RT i ks) = (if P i then i # concat (map (drawn P) ks) else [])"

definition last_opt :: "'a list \<Rightarrow> 'a option" where
  "last_opt xs = (if xs = [] then None else Some (last xs))"

lemma last_opt_append: "last_opt (xs @ ys) = (case last_opt ys of Some y \<Rightarrow> Some y | None \<Rightarrow> last_opt xs)"
  by (simp add: last_opt_def)

lemma last_opt_Nil [simp]: "last_opt [] = None"
  by (simp add: last_opt_def)

definition hit_ok :: "i32 \<Rightarrow> i32 \<Rightarrow> ui_tree \<Rightarrow> widget_id \<Rightarrow> bool" where
  "hit_ok x y t i \<longleftrightarrow> (\<exists>w. ui_get t i = Some w \<and> cp_visible (common w) \<and> inside x y (common w))"

lemma ready_kids:
  assumes "fits (ui_children t) k" "height k \<le> Suc n"
  shows "\<forall>k'\<in>set (kids k). fits (ui_children t) k' \<and> height k' \<le> n"
  using assms by (cases k) (auto simp: foldr_max_le)

lemma drawn_unfold: "drawn P k = (if P (rid k) then rid k # concat (map (drawn P) (kids k)) else [])"
  by (cases k) simp

lemma find_hit_drawn:
  assumes "\<forall>k\<in>set ks. fits (ui_children t) k \<and> height k \<le> n"
  shows "find_hit n x y t (map rid ks) = Some (last_opt (concat (map (drawn (hit_ok x y t)) (rev ks))))"
  using assms
proof (induction n arbitrary: ks)
  case 0
  then show ?case by (cases ks; cases "hd ks") auto
next
  case (Suc n)
  note IH = Suc.IH
  show ?case
    using Suc.prems
  proof (induction ks)
    case Nil
    then show ?case by simp
  next
    case (Cons k ks)
    then have rest: "find_hit (Suc n) x y t (map rid ks) = Some (last_opt (concat (map (drawn (hit_ok x y t)) (rev ks))))"
      and k: "fits (ui_children t) k" "height k \<le> Suc n" by simp_all
    show ?case
    proof (cases "hit_ok x y t (rid k)")
      case True
      then obtain nd where nd: "node_at t (rid k) = Some nd" "cp_visible (common (nd_widget nd))" "inside x y (common (nd_widget nd))"
        by (auto simp: hit_ok_def ui_get_def)
      have "nd_children nd = map rid (kids k)"
        using fits_kids [OF k(1)] nd(1) by (simp add: ui_children_def)
      then have "find_hit n x y t (rev (nd_children nd)) = Some (last_opt (concat (map (drawn (hit_ok x y t)) (kids k))))"
        using IH [of "rev (kids k)"] ready_kids [OF k] by (simp add: rev_map)
      then show ?thesis
        using rest nd True by (simp add: drawn_unfold [of _ k] last_opt_def split: option.split)
    next
      case False
      then have "(case node_at t (rid k) of
            None \<Rightarrow> Some None
          | Some nd \<Rightarrow>
              if \<not> cp_visible (common (nd_widget nd)) then Some None
              else if \<not> inside x y (common (nd_widget nd)) then Some None
              else do { h \<leftarrow> find_hit n x y t (rev (nd_children nd)); Some (Some (case h of Some k \<Rightarrow> k | None \<Rightarrow> rid k)) }) = Some None"
        by (auto simp: hit_ok_def ui_get_def split: option.split)
      with rest False show ?thesis by (simp add: drawn_unfold [of _ k])
    qed
  qed
qed

definition walk_ok :: "(widget_id \<Rightarrow> widget \<Rightarrow> bool) \<Rightarrow> ui_tree \<Rightarrow> widget_id \<Rightarrow> bool" where
  "walk_ok f t i \<longleftrightarrow> (\<exists>w. ui_get t i = Some w \<and> cp_visible (common w) \<and> f i w)"

text \<open>The nodes accepted by the visitor.\<close>

definition accepted :: "(widget_id \<times> bool) list \<Rightarrow> widget_id list" where
  "accepted vs = map fst (filter snd vs)"

lemma accepted_simps [simp]: "accepted [] = []" "accepted ((i, b) # vs) = (if b then i # accepted vs else accepted vs)"
  "accepted (vs @ ws) = accepted vs @ accepted ws"
  by (simp_all add: accepted_def)

lemma walk_drawn:
  assumes "\<forall>k\<in>set ks. fits (ui_children t) k \<and> height k \<le> n"
  shows "\<exists>vs. walk_all n f t (map rid ks) = Some vs \<and> accepted vs = concat (map (drawn (walk_ok f t)) ks)"
  using assms
proof (induction n arbitrary: ks)
  case 0
  then show ?case by (cases ks; cases "hd ks") auto
next
  case (Suc n)
  note IH = Suc.IH
  show ?case
    using Suc.prems
  proof (induction ks)
    case Nil
    then show ?case by simp
  next
    case (Cons k ks)
    then obtain zs where rest: "walk_all (Suc n) f t (map rid ks) = Some zs" "accepted zs = concat (map (drawn (walk_ok f t)) ks)"
      and k: "fits (ui_children t) k" "height k \<le> Suc n" by auto
    show ?case
    proof (cases "walk_ok f t (rid k)")
      case True
      then obtain nd where nd: "node_at t (rid k) = Some nd" "cp_visible (common (nd_widget nd))" "f (rid k) (nd_widget nd)"
        by (auto simp: walk_ok_def ui_get_def)
      have "nd_children nd = map rid (kids k)"
        using fits_kids [OF k(1)] nd(1) by (simp add: ui_children_def)
      then obtain ys where "walk_all n f t (nd_children nd) = Some ys" "accepted ys = concat (map (drawn (walk_ok f t)) (kids k))"
        using IH [of "kids k"] ready_kids [OF k] by auto
      then show ?thesis using rest nd True by (simp add: drawn_unfold [of _ k])
    next
      case False
      then have "(case node_at t (rid k) of
                   None \<Rightarrow> Some []
                 | Some nd \<Rightarrow>
                     if \<not> cp_visible (common (nd_widget nd)) then Some []
                     else if f (rid k) (nd_widget nd) then
                       do { ys \<leftarrow> walk_all n f t (nd_children nd); Some ((rid k, True) # ys) }
                     else Some [(rid k, False)]) \<in> {Some [], Some [(rid k, False)]}"
        by (auto simp: walk_ok_def ui_get_def split: option.split)
      with rest False show ?thesis by (auto simp: drawn_unfold [of _ k])
    qed
  qed
qed

section \<open>Changes that keep the shape\<close>

definition same_shape :: "ui_tree \<Rightarrow> ui_tree \<Rightarrow> bool" where
  "same_shape t t' \<longleftrightarrow> ui_root t' = ui_root t \<and> ui_free t' = ui_free t \<and> length (ui_nodes t') = length (ui_nodes t) \<and>
     (\<forall>i. map_option (\<lambda>n. (nd_parent n, nd_children n)) (node_at t' i) = map_option (\<lambda>n. (nd_parent n, nd_children n)) (node_at t i))"

lemma same_shape_at:
  assumes "same_shape t t'"
  shows "ui_children t' = ui_children t" "ui_parent t' = ui_parent t" "node_at t' i = None \<longleftrightarrow> node_at t i = None"
proof -
  have "map_option (\<lambda>n. (nd_parent n, nd_children n)) (node_at t' i) = map_option (\<lambda>n. (nd_parent n, nd_children n)) (node_at t i)" for i
    using assms by (simp add: same_shape_def)
  then have eq: "map_option (\<lambda>n. (nd_parent n, nd_children n)) (node_at t' i) = map_option (\<lambda>n. (nd_parent n, nd_children n)) (node_at t i)" for i .
  have *: "ui_children t' i = ui_children t i \<and> ui_parent t' i = ui_parent t i \<and> (node_at t' i = None \<longleftrightarrow> node_at t i = None)" for i
    using eq [of i] by (cases "node_at t' i"; cases "node_at t i") (auto simp: ui_children_def ui_parent_def)
  then show "ui_children t' = ui_children t" "ui_parent t' = ui_parent t" "node_at t' i = None \<longleftrightarrow> node_at t i = None" by auto
qed

lemma same_shape_tree: "same_shape t t' \<Longrightarrow> tree_of t r \<Longrightarrow> tree_of t' r"
  using same_shape_at [of t t'] by (simp add: tree_of_def same_shape_def)

lemma same_shape_refl [simp]: "same_shape t t"
  by (simp add: same_shape_def)

lemma same_shape_trans: "same_shape t u \<Longrightarrow> same_shape u v \<Longrightarrow> same_shape t v"
  by (simp add: same_shape_def)

lemma node_at_fields [simp]: "node_at (t\<lparr>ui_focus := x\<rparr>) = node_at t" "node_at (t\<lparr>ui_dirty_rect := d\<rparr>) = node_at t"
  "node_at (t\<lparr>ui_free := fs\<rparr>) = node_at t"
  by (simp_all add: node_at_def fun_eq_iff)

lemma node_at_upd:
  assumes "unat i < length (ui_nodes t)"
  shows "node_at (upd_node i f t) j =
    (if j = i then (if nd_alive (f (ui_nodes t ! unat i)) then Some (f (ui_nodes t ! unat i)) else None) else node_at t j)"
proof (cases "j = i")
  case False
  then have "unat i \<noteq> unat j" using unat_inj by blast
  with False show ?thesis by (simp add: node_at_def upd_node_def)
qed (use assms in \<open>simp add: node_at_def upd_node_def\<close>)

lemma upd_node_out: "\<not> unat i < length (ui_nodes t) \<Longrightarrow> upd_node i f t = t"
  by (simp add: upd_node_def not_less list_update_beyond)

lemma upd_node_fields [simp]: "ui_root (upd_node i f t) = ui_root t" "ui_free (upd_node i f t) = ui_free t"
  "ui_focus (upd_node i f t) = ui_focus t" "ui_dirty_rect (upd_node i f t) = ui_dirty_rect t"
  "length (ui_nodes (upd_node i f t)) = length (ui_nodes t)"
  by (simp_all add: upd_node_def)

lemma upd_widget_shape: "same_shape t (upd_node i (\<lambda>n. n\<lparr>nd_widget := f (nd_widget n)\<rparr>) t)"
proof (cases "unat i < length (ui_nodes t)")
  case True
  have "node_at t i = (if nd_alive (ui_nodes t ! unat i) then Some (ui_nodes t ! unat i) else None)"
    using True by (simp add: node_at_def)
  then show ?thesis by (simp add: same_shape_def node_at_upd [OF True])
qed (simp add: upd_node_out)

lemma upd_common_shape: "same_shape t (upd_common i g t)"
  using upd_widget_shape [of t i "common_mut g"] by (simp add: upd_common_def split: option.split)

lemma get_mut_shape: "same_shape t (ui_get_mut i f t)"
  using upd_widget_shape [of t i f] by (simp add: ui_get_mut_def split: option.split)

lemma focus_field_shape: "same_shape t u \<Longrightarrow> same_shape t (u\<lparr>ui_focus := x\<rparr>)" "same_shape t u \<Longrightarrow> same_shape t (u\<lparr>ui_dirty_rect := d\<rparr>)"
  by (simp_all add: same_shape_def)

lemma set_focus_shape: "same_shape t (set_focus i t)"
  unfolding set_focus_def Let_def
  by (rule focus_field_shape(1)) (auto split: option.split intro: same_shape_trans upd_common_shape)

lemma clear_dirty_shape: "same_shape t (clear_dirty t)"
proof -
  have "node_at (clear_dirty t) i =
    map_option (\<lambda>n. n\<lparr>nd_widget := common_mut (\<lambda>c. c\<lparr>cp_dirty := False\<rparr>) (nd_widget n)\<rparr>) (node_at t i)" for i
    by (cases "unat i < length (ui_nodes t)") (simp_all add: node_at_def clear_dirty_def)
  then show ?thesis by (simp add: same_shape_def clear_dirty_def option.map_comp comp_def)
qed

lemma mark_up_shape: "mark_up n i t = Some t' \<Longrightarrow> same_shape t t'"
  by (induction n i t rule: mark_up.induct) (auto split: option.splits intro: same_shape_trans [OF upd_common_shape])

lemma mark_dirty_shape: "mark_dirty n i t = Some t' \<Longrightarrow> same_shape t t'"
  unfolding mark_dirty_def Let_def
  by (rule same_shape_trans [OF _ mark_up_shape]) (auto intro: focus_field_shape split: option.split)

section \<open>Adding a child\<close>

fun insert_kid :: "widget_id \<Rightarrow> widget_id \<Rightarrow> rtree \<Rightarrow> rtree" where
  "insert_kid p i (RT j ks) = RT j (map (insert_kid p i) ks @ (if j = p then [RT i []] else []))"

lemma rid_insert_kid [simp]: "rid (insert_kid p i r) = rid r"
  by (cases r) simp

lemma insert_kid_other: "p \<notin> set (ids r) \<Longrightarrow> insert_kid p i r = r"
  by (induction r rule: ids.induct) (auto intro: map_idI)

lemma insert_kid_fits:
  assumes "fits ch r" "i \<notin> set (ids r)"
  shows "fits (\<lambda>j. if j = i then [] else if j = p then ch p @ [i] else ch j) (insert_kid p i r)"
  using assms by (induction r rule: ids.induct) (auto simp: comp_def)

lemma insert_kid_ids:
  "set (ids (insert_kid p i r)) = set (ids r) \<union> (if p \<in> set (ids r) then {i} else {})"
  by (induction r rule: ids.induct) (auto split: if_splits)

lemma count_list_concat: "count_list (concat xss) a = sum_list (map (\<lambda>xs. count_list xs a) xss)"
  by (induction xss) auto

lemma count_list_distinct: "distinct xs \<Longrightarrow> count_list xs a = (if a \<in> set xs then 1 else 0)"
  by (induction xs) auto

lemma insert_kid_length: "length (ids (insert_kid p i r)) = length (ids r) + count_list (ids r) p"
proof (induction r rule: ids.induct)
  case (1 j ks)
  then have "(\<Sum>k\<leftarrow>ks. length (ids (insert_kid p i k))) = (\<Sum>k\<leftarrow>ks. length (ids k) + count_list (ids k) p)"
    by (intro arg_cong [of _ _ sum_list]) simp
  then show ?case by (simp add: length_concat comp_def count_list_concat sum_list_addf)
qed

lemma insert_kid_distinct:
  assumes "distinct (ids r)" "i \<notin> set (ids r)"
  shows "distinct (ids (insert_kid p i r))"
  using assms insert_kid_length [of p i r]
  by (intro card_distinct) (simp add: insert_kid_ids count_list_distinct distinct_card)

lemma alloc_spec:
  assumes "tree_of t r" "alloc_node p w t = (i, t1)" "ui_free t \<noteq> [] \<or> length (ui_nodes t) < 2 ^ 16"
  shows "\<exists>g. node_at t i = None \<and> unat i < length (ui_nodes t1) \<and>
    (\<forall>j. node_at t1 j = (if j = i then Some \<lparr>nd_widget = common_mut (\<lambda>c. c\<lparr>cp_id := i\<rparr>) w, nd_parent = Some p,
       nd_children = [], nd_generation = g, nd_alive = True\<rparr> else node_at t j)) \<and>
    ui_root t1 = ui_root t \<and> ui_focus t1 = ui_focus t \<and> ui_dirty_rect t1 = ui_dirty_rect t \<and>
    length (ui_nodes t1) \<le> 2 ^ 16 \<and> distinct (ui_free t1) \<and>
    set (ui_free t1) = {j. unat j < length (ui_nodes t1) \<and> node_at t1 j = None}"
proof (cases "ui_free t = []")
  case False
  let ?i = "last (ui_free t)"
  have free: "distinct (ui_free t)" "set (ui_free t) = {j. unat j < length (ui_nodes t) \<and> node_at t j = None}"
    using assms(1) by (simp_all add: tree_of_def)
  have i: "i = ?i" "t1 = upd_node ?i (\<lambda>n. n\<lparr>nd_widget := common_mut (\<lambda>c. c\<lparr>cp_id := ?i\<rparr>) w, nd_parent := Some p,
                    nd_children := [], nd_generation := nd_generation n + 1, nd_alive := True\<rparr>)
                  (t\<lparr>ui_free := butlast (ui_free t)\<rparr>)"
    using assms(2) False by (auto simp: alloc_node_def Let_def)
  have mem: "unat ?i < length (ui_nodes t)" "node_at t ?i = None" using free(2) False last_in_set by blast+
  have at: "node_at t1 j = (if j = i then Some \<lparr>nd_widget = common_mut (\<lambda>c. c\<lparr>cp_id := i\<rparr>) w, nd_parent = Some p,
       nd_children = [], nd_generation = nd_generation (ui_nodes t ! unat ?i) + 1, nd_alive = True\<rparr> else node_at t j)" for j
    unfolding i(2) using mem(1) i(1) by (subst node_at_upd) simp_all
  have split: "ui_free t = butlast (ui_free t) @ [?i]" using False by simp
  then have "distinct (butlast (ui_free t) @ [?i])" using free(1) by metis
  then have "?i \<notin> set (butlast (ui_free t))" by simp
  moreover have "set (ui_free t) = insert ?i (set (butlast (ui_free t)))" using split by (metis list.simps(15) rotate1.simps(2) set_rotate1)
  ultimately have "set (butlast (ui_free t)) = {j. unat j < length (ui_nodes t) \<and> node_at t j = None} - {?i}" using free(2) by auto
  then have "set (ui_free t1) = {j. unat j < length (ui_nodes t1) \<and> node_at t1 j = None}"
    using at i(1) by (auto simp: i(2))
  moreover have "distinct (ui_free t1)" using free(1) by (simp add: i(2) distinct_butlast)
  moreover have "unat i < length (ui_nodes t1)" "node_at t i = None" using mem i(1) by (simp_all add: i(2))
  moreover have "ui_root t1 = ui_root t" "ui_focus t1 = ui_focus t" "ui_dirty_rect t1 = ui_dirty_rect t" by (simp_all add: i(2))
  moreover have "length (ui_nodes t1) \<le> 2 ^ 16" using assms(1) by (simp add: i(2) tree_of_def)
  ultimately show ?thesis using at by blast
next
  case True
  let ?n = "length (ui_nodes t)"
  have n: "?n < 2 ^ 16" using assms(3) True by simp
  have i: "i = word_of_nat ?n" and t1: "t1 = t\<lparr>ui_nodes := ui_nodes t @ [\<lparr>nd_widget = common_mut (\<lambda>c. c\<lparr>cp_id := i\<rparr>) w,
      nd_parent = Some p, nd_children = [], nd_generation = 0, nd_alive = True\<rparr>]\<rparr>"
    using assms(2) True by (auto simp: alloc_node_def Let_def)
  have ui: "unat i = ?n" using n by (simp add: i unsigned_of_nat take_bit_nat_eq_self)
  have ne: "unat j \<noteq> ?n" if "j \<noteq> i" for j using that ui unat_inj by metis
  have at: "node_at t1 j = (if j = i then Some \<lparr>nd_widget = common_mut (\<lambda>c. c\<lparr>cp_id := i\<rparr>) w, nd_parent = Some p,
       nd_children = [], nd_generation = 0, nd_alive = True\<rparr> else node_at t j)" for j
    using ne [of j] ui by (cases "j = i") (auto simp: t1 node_at_def nth_append)
  have none: "node_at t i = None" using ui by (simp add: node_at_def)
  have all: "\<forall>j. unat j < ?n \<longrightarrow> node_at t j \<noteq> None" using assms(1) True by (auto simp: tree_of_def)
  have "set (ui_free t1) = {j. unat j < length (ui_nodes t1) \<and> node_at t1 j = None}"
    using all ne True at by (auto simp: t1 less_Suc_eq)
  moreover have "unat i < length (ui_nodes t1)" "distinct (ui_free t1)" "length (ui_nodes t1) \<le> 2 ^ 16"
    using ui n True by (simp_all add: t1)
  moreover have "ui_root t1 = ui_root t" "ui_focus t1 = ui_focus t" "ui_dirty_rect t1 = ui_dirty_rect t" by (simp_all add: t1)
  ultimately show ?thesis using at none by blast
qed

text \<open>A new child is appended to the children of its parent, unless there are thirty-two; everything else is
  as before.\<close>

lemma add_child_spec:
  assumes tree: "tree_of t r" and p: "node_at t p \<noteq> None" and room: "ui_free t \<noteq> [] \<or> length (ui_nodes t) < 2 ^ 16"
    and run: "add_child p w t = (res, t')"
  shows "if length (ui_children t p) < MAX_CHILDREN
     then \<exists>i g. res = Some i \<and> node_at t i = None \<and> tree_of t' (insert_kid p i r) \<and>
       node_at t' i = Some \<lparr>nd_widget = common_mut (\<lambda>c. c\<lparr>cp_id := i\<rparr>) w, nd_parent = Some p, nd_children = [],
         nd_generation = g, nd_alive = True\<rparr> \<and>
       (\<forall>j. j \<noteq> i \<longrightarrow> node_at t' j = (if j = p then map_option (\<lambda>n. n\<lparr>nd_children := nd_children n @ [i]\<rparr>) (node_at t p) else node_at t j))
     else res = None \<and> tree_of t' r \<and> (\<forall>j. node_at t' j = node_at t j)"
proof -
  obtain i t1 where alloc: "alloc_node p w t = (i, t1)" by fastforce
  obtain g where a: "node_at t i = None" "unat i < length (ui_nodes t1)"
    "\<forall>j. node_at t1 j = (if j = i then Some \<lparr>nd_widget = common_mut (\<lambda>c. c\<lparr>cp_id := i\<rparr>) w, nd_parent = Some p,
       nd_children = [], nd_generation = g, nd_alive = True\<rparr> else node_at t j)"
    "ui_root t1 = ui_root t" "ui_focus t1 = ui_focus t" "ui_dirty_rect t1 = ui_dirty_rect t" "length (ui_nodes t1) \<le> 2 ^ 16"
    "distinct (ui_free t1)" "set (ui_free t1) = {j. unat j < length (ui_nodes t1) \<and> node_at t1 j = None}"
    using alloc_spec [OF tree alloc room] by blast
  have ip: "i \<noteq> p" using a(1) p by auto
  then have p1: "node_at t1 p = node_at t p" using a(3) by simp
  obtain np where np: "node_at t p = Some np" using p by blast
  then have np1: "unat p < length (ui_nodes t1)" "ui_nodes t1 ! unat p = np" "nd_alive np"
    using p1 by (auto simp: node_at_def split: if_splits)
  have chp: "ui_children t p = nd_children np" by (simp add: ui_children_def np)
  show ?thesis
  proof (cases "length (nd_children np) < MAX_CHILDREN")
    case True
    have t': "res = Some i" "t' = upd_node p (\<lambda>n. n\<lparr>nd_children := nd_children n @ [i]\<rparr>) t1"
      using run p alloc True np1(2) by (simp_all add: add_child_def)
    have at: "node_at t' j = (if j = p then Some (np\<lparr>nd_children := nd_children np @ [i]\<rparr>) else node_at t1 j)" for j
      unfolding t'(2) using np1 by (simp add: node_at_upd)
    have ch: "ui_children t' = (\<lambda>j. if j = i then [] else if j = p then ui_children t p @ [i] else ui_children t j)"
      using ip by (auto simp: ui_children_def at a(3) np fun_eq_iff)
    have par: "ui_parent t' j = (if j = i then Some p else ui_parent t j)" for j
      using ip by (auto simp: ui_parent_def at a(3) np)
    have none: "node_at t' j = None \<longleftrightarrow> node_at t j = None \<and> j \<noteq> i" for j using np ip by (auto simp: at a(3))
    have fresh: "i \<notin> set (ids r)" using tree a(1) by (simp add: tree_of_def)
    have link: "ui_parent t' c = Some j" if "c \<in> set (ui_children t' j)" for j c
    proof -
      have "ui_parent t i = None" using a(1) by (simp add: ui_parent_def)
      then have "c \<noteq> i" if "c \<in> set (ui_children t j)" for c j
        using tree that unfolding tree_of_def by force
      then show ?thesis using that tree by (auto simp: ch par tree_of_def split: if_splits)
    qed
    have z: "i \<noteq> 0" "p \<in> set (ids r)" using tree fresh p rid_ids [of r] by (auto simp: tree_of_def)
    have "tree_of t' (insert_kid p i r)"
      unfolding tree_of_def
    proof (intro conjI allI ballI)
      show "fits (ui_children t') (insert_kid p i r)"
        unfolding ch using insert_kid_fits [of "ui_children t" r i p] tree fresh by (simp add: tree_of_def)
      show "distinct (ids (insert_kid p i r))" using insert_kid_distinct tree fresh by (simp add: tree_of_def)
      show "set (ids (insert_kid p i r)) = {j. node_at t' j \<noteq> None}"
        using tree z(2) none by (auto simp: insert_kid_ids tree_of_def)
      show "length (ui_children t' j) \<le> MAX_CHILDREN" for j
        using tree True chp by (auto simp: ch tree_of_def)
      show "set (ui_free t') = {j. unat j < length (ui_nodes t') \<and> node_at t' j = None}"
        using a(9) none by (auto simp: t'(2) a(3))
    qed (use tree a par z link in \<open>simp_all add: tree_of_def t'(2)\<close>)
    then show ?thesis using True chp t'(1) a(1,3) at ip np by auto
  next
    case False
    have t': "res = None" "t' = (upd_node i (\<lambda>n. n\<lparr>nd_alive := False\<rparr>) t1)\<lparr>ui_free := ui_free t1 @ [i]\<rparr>"
      using run p alloc False np1(2) by (simp_all add: add_child_def)
    have at: "node_at t' j = node_at t j" for j
      unfolding t'(2) using a(1-3) by (simp add: node_at_upd)
    have eq: "ui_children t' = ui_children t" "ui_parent t' = ui_parent t" by (simp_all add: ui_children_def ui_parent_def at fun_eq_iff)
    have "i \<notin> set (ui_free t1)" using a(3,9) by simp
    moreover have fields: "ui_free t' = ui_free t1 @ [i]" "length (ui_nodes t') = length (ui_nodes t1)" "ui_root t' = ui_root t1"
      by (simp_all add: t'(2))
    ultimately have "distinct (ui_free t')" "set (ui_free t') = {j. unat j < length (ui_nodes t') \<and> node_at t' j = None}"
      using a by (auto simp: at)
    then have "tree_of t' r" using tree a(4,7) eq at fields by (simp add: tree_of_def)
    then show ?thesis using False chp t'(1) at by simp
  qed
qed

section \<open>Removing a subtree\<close>

definition drop_key :: "('a \<Rightarrow> 'k) \<Rightarrow> 'k \<Rightarrow> 'a list \<Rightarrow> 'a list" where
  "drop_key f k xs = (case find_index (\<lambda>x. f x = k) xs of None \<Rightarrow> xs | Some q \<Rightarrow> swap_remove q xs)"

fun delete_kid :: "widget_id \<Rightarrow> rtree \<Rightarrow> rtree" where
  "delete_kid i (RT j ks) = RT j (drop_key rid i (map (delete_kid i) ks))"

lemma rid_delete_kid [simp]: "rid (delete_kid i r) = rid r"
  by (cases r) simp

lemma map_swap_remove: "q < length xs \<Longrightarrow> map f (swap_remove q xs) = swap_remove q (map f xs)"
  by (cases xs rule: rev_cases) (auto simp: swap_remove_def map_butlast map_update)

lemma find_index_map: "find_index P (map f xs) = find_index (P \<circ> f) xs"
  by (induction xs) auto

lemma map_drop_key: "map f (drop_key f k xs) = drop_key (\<lambda>x. x) k (map f xs)"
  by (auto simp: drop_key_def find_index_map comp_def map_swap_remove dest: find_index_Some split: option.split)

lemma mset_swap_remove: "mset (swap_remove (length as) (as @ x # bs)) = mset as + mset bs"
  by (cases bs rule: rev_cases) (simp_all add: swap_remove_def butlast_append)

lemma find_index_split: "\<forall>a\<in>set as. f a \<noteq> k \<Longrightarrow> f x = k \<Longrightarrow> find_index (\<lambda>x. f x = k) (as @ x # bs) = Some (length as)"
  by (induction as) auto

lemma drop_key_split:
  "\<forall>a\<in>set as. f a \<noteq> k \<Longrightarrow> f x = k \<Longrightarrow> mset (drop_key f k (as @ x # bs)) = mset as + mset bs"
  by (simp add: drop_key_def find_index_split mset_swap_remove)

lemma drop_key_other: "\<forall>a\<in>set xs. f a \<noteq> k \<Longrightarrow> drop_key f k xs = xs"
  by (auto simp: drop_key_def dest!: find_index_Some split: option.split)

lemma drop_key_subset: "set (drop_key f k xs) \<subseteq> set xs"
proof (cases "find_index (\<lambda>x. f x = k) xs")
  case (Some q)
  then have "last xs \<in> set xs" using find_index_Some [OF Some] by (auto intro: last_in_set)
  then have "set (swap_remove q xs) \<subseteq> set xs"
    using set_update_subset_insert [of xs q "last xs"] by (auto simp: swap_remove_def dest!: in_set_butlastD)
  with Some show ?thesis by (simp add: drop_key_def)
qed (simp add: drop_key_def)

lemma drop_key_length: "length (drop_key f k xs) \<le> length xs"
  by (auto simp: drop_key_def swap_remove_def split: option.split)

lemma delete_kid_other: "i \<notin> set (tl (ids r)) \<Longrightarrow> delete_kid i r = r"
proof (induction r rule: ids.induct)
  case (1 j ks)
  have "i \<notin> set (ids k)" if "k \<in> set ks" for k using 1(2) that by auto
  moreover have "set (tl (ids k)) \<subseteq> set (ids k)" for k by (cases k) auto
  ultimately have "map (delete_kid i) ks = ks" using 1(1) by (auto intro!: map_idI)
  moreover have "\<forall>k\<in>set ks. rid k \<noteq> i" using 1(2) rid_ids by fastforce
  ultimately show ?case by (simp add: drop_key_other)
qed

lemma delete_kid_fits: "fits ch r \<Longrightarrow> fits (\<lambda>j. drop_key (\<lambda>x. x) i (ch j)) (delete_kid i r)"
proof (induction r rule: ids.induct)
  case (1 j ks)
  have "map rid (map (delete_kid i) ks) = ch j" using 1(2) by (simp add: comp_def)
  then have "map rid (drop_key rid i (map (delete_kid i) ks)) = drop_key (\<lambda>x. x) i (ch j)" by (simp add: map_drop_key)
  moreover have "fits (\<lambda>j. drop_key (\<lambda>x. x) i (ch j)) k" if "k \<in> set (map (delete_kid i) ks)" for k using 1 that by auto
  ultimately show ?case using drop_key_subset [of rid i "map (delete_kid i) ks"] by auto
qed

lemma mset_ids_concat: "mset (concat (map ids xs)) = (\<Sum>\<^sub># (image_mset (mset \<circ> ids) (mset xs)))"
  by (simp add: mset_concat sum_mset_sum_list comp_def flip: mset_map)

text \<open>Deleting takes away exactly the identifiers of the subtree.\<close>

lemma delete_kid_mset:
  "distinct (ids r) \<Longrightarrow> s \<in> set (subs r) \<Longrightarrow> s \<noteq> r \<Longrightarrow> mset (ids r) = mset (ids (delete_kid (rid s) r)) + mset (ids s)"
proof (induction r rule: ids.induct)
  case (1 j ks)
  then obtain k where k: "k \<in> set ks" "s \<in> set (subs k)" by auto
  then obtain as bs where ks: "ks = as @ k # bs" by (meson split_list)
  have s: "set (ids s) \<subseteq> set (ids k)" by (rule subs_ids [OF k(2)])
  have dk: "distinct (ids k)" using 1(2) ks by simp
  have other: "rid s \<notin> set (ids k')" if "k' \<in> set as \<or> k' \<in> set bs" for k'
  proof -
    have "set (ids k') \<inter> set (ids k) = {}" using 1(2) that by (auto simp: ks)
    moreover have "rid s \<in> set (ids k)" using s rid_ids [of s] by (rule subsetD)
    ultimately show ?thesis by blast
  qed
  have "set (tl (ids k')) \<subseteq> set (ids k')" for k' by (cases k') auto
  with other have same: "map (delete_kid (rid s)) as = as" "map (delete_kid (rid s)) bs = bs"
    by (auto intro!: map_idI delete_kid_other)
  have roots: "\<forall>k'\<in>set as \<union> set bs. rid k' \<noteq> rid s" using other by (metis UnE rid_ids)
  show ?case
  proof (cases "s = k")
    case True
    have "rid s \<notin> set (tl (ids k))" using dk True by (cases k) simp
    then have dks: "map (delete_kid (rid s)) ks = as @ k # bs" using same by (simp add: ks delete_kid_other)
    have "\<forall>a\<in>set as. rid a \<noteq> rid s" "rid k = rid s" using roots True by auto
    then have "mset (drop_key rid (rid s) (map (delete_kid (rid s)) ks)) = mset as + mset bs"
      unfolding dks by (rule drop_key_split)
    then have "mset (concat (map ids (drop_key rid (rid s) (map (delete_kid (rid s)) ks)))) =
        mset (concat (map ids as)) + mset (concat (map ids bs))"
      by (simp only: mset_ids_concat image_mset_union sum_mset.union)
    then show ?thesis by (simp add: ks True [symmetric])
  next
    case False
    have "rid k \<noteq> rid s" using subs_unique [OF dk k(2) subs_self] False by auto
    then have "drop_key rid (rid s) (map (delete_kid (rid s)) ks) = as @ delete_kid (rid s) k # bs"
      using same roots by (subst drop_key_other) (auto simp: ks)
    moreover have "mset (ids k) = mset (ids (delete_kid (rid s) k)) + mset (ids s)" by (rule 1(1) [OF k(1) dk k(2) False])
    ultimately show ?thesis by (simp add: ks)
  qed
qed

end
