(* ===== verification/Ui_Tree_Runs.thy ===== *)
theory Ui_Tree_Runs
  imports Ui_Tree_Safety
begin

text \<open>
  Removal of a subtree on the arena, the runs of the tree operations, and the properties of the
  widget tree.
\<close>

section \<open>Removal on the arena\<close>

text \<open>The widgets below \<open>i\<close>, along the parent links.\<close>

inductive descends :: "ui_tree \<Rightarrow> widget_id \<Rightarrow> widget_id \<Rightarrow> bool" for t i where
  self: "descends t i i"
| down: "descends t i p \<Longrightarrow> ui_parent t j = Some p \<Longrightarrow> descends t i j"

lemma parent_in_tree:
  assumes "tree_of t r" "s \<in> set (subs r)" "s \<noteq> r"
  obtains p where "p \<in> set (subs r)" "s \<in> set (kids p)" "ui_parent t (rid s) = Some (rid p)" "rid s \<in> set (ui_children t (rid p))"
proof -
  obtain p where p: "p \<in> set (subs r)" "s \<in> set (kids p)" using has_parent [OF assms(2,3)] by blast
  have "fits (ui_children t) p" using assms(1) p(1) fits_subs by (auto simp: tree_of_def)
  then have "map rid (kids p) = ui_children t (rid p)" by (rule fits_kids)
  moreover have "rid s \<in> set (map rid (kids p))" using p(2) by simp
  ultimately have c: "rid s \<in> set (ui_children t (rid p))" by simp
  then have "ui_parent t (rid s) = Some (rid p)" using assms(1) by (simp add: tree_of_def)
  with that p c show thesis by blast
qed

lemma child_in_tree:
  assumes "tree_of t r" "s \<in> set (subs r)" "ui_parent t j = Some p" "p \<in> set (ids s)"
  shows "j \<in> set (ids s)"
proof -
  have "node_at t j \<noteq> None" using assms(3) by (cases "node_at t j") (simp_all add: ui_parent_def)
  then obtain u where u: "u \<in> set (subs r)" "rid u = j" using assms(1) sub_at [of j r] by (auto simp: tree_of_def)
  have "u \<noteq> r" using assms(1,3) u(2) by (auto simp: tree_of_def)
  then obtain q where q: "q \<in> set (subs r)" "u \<in> set (kids q)" "ui_parent t j = Some (rid q)"
    using parent_in_tree [OF assms(1) u(1)] u(2) by metis
  then have "rid q = p" using assms(3) by simp
  then obtain v where v: "v \<in> set (subs s)" "rid v = rid q" using sub_at assms(4) by metis
  have "v = q" using subs_unique [of r v q] subs_trans [OF assms(2) v(1)] q(1) v(2) assms(1) by (simp add: tree_of_def)
  then have "u \<in> set (subs s)" using kids_subs [OF q(2)] subs_trans v(1) by blast
  then show ?thesis using u(2) by (force simp: ids_subs)
qed

lemma descends_ids:
  assumes "tree_of t r" "s \<in> set (subs r)"
  shows "descends t (rid s) j \<longleftrightarrow> j \<in> set (ids s)"
proof
  assume "descends t (rid s) j"
  then show "j \<in> set (ids s)"
    by induction (auto intro: child_in_tree [OF assms])
next
  have "\<forall>u\<in>set (subs v). v \<in> set (subs r) \<longrightarrow> descends t (rid v) (rid u)" for v
  proof (induction v rule: subs.induct)
    case (1 i ks)
    show ?case
    proof (intro ballI impI)
      fix u
      assume u: "u \<in> set (subs (RT i ks))" and r: "RT i ks \<in> set (subs r)"
      show "descends t (rid (RT i ks)) (rid u)"
      proof (cases "u = RT i ks")
        case True
        then show ?thesis by (simp add: descends.self)
      next
        case False
        then obtain k where k: "k \<in> set ks" "u \<in> set (subs k)" using u by auto
        have kr: "k \<in> set (subs r)" using subs_trans [OF r] kids_subs [of k "RT i ks"] k(1) by simp
        then have below: "descends t (rid k) (rid u)" using 1 k by blast
        have "fits (ui_children t) r" using assms(1) by (simp add: tree_of_def)
        then have "fits (ui_children t) (RT i ks)" by (rule fits_subs [OF _ r])
        then have "rid k \<in> set (ui_children t i)" using k(1) by (metis fits.simps imageI set_map)
        then have "ui_parent t (rid k) = Some i" using assms(1) by (simp add: tree_of_def)
        then have up: "descends t i (rid k)" by (rule descends.down [OF descends.self])
        from below up show ?thesis by (induction) (auto intro: descends.down)
      qed
    qed
  qed
  moreover assume "j \<in> set (ids s)"
  ultimately show "descends t (rid s) j" using assms(2) sub_at by metis
qed

lemma fits_closed:
  assumes "fits ch r" "j \<in> set (ids r)" "c \<in> set (ch j)"
  shows "c \<in> set (ids r)"
proof -
  obtain s where s: "s \<in> set (subs r)" "rid s = j" using sub_at assms(2) by blast
  have "c \<in> set (map rid (kids s))" using fits_kids [OF fits_subs [OF assms(1) s(1)]] s(2) assms(3) by simp
  then obtain k where "k \<in> set (kids s)" "rid k = c" by auto
  then have "k \<in> set (subs r)" "rid k = c" using kids_subs subs_trans [OF s(1)] by blast+
  then show ?thesis by (force simp: ids_subs)
qed

lemma kill_fields [simp]: "ui_root (kill i t) = ui_root t" "ui_free (kill i t) = ui_free t @ [i]"
  "length (ui_nodes (kill i t)) = length (ui_nodes t)"
  by (simp_all add: kill_def Let_def)

lemma node_at_kill: "unat i < length (ui_nodes t) \<Longrightarrow> node_at (kill i t) j = (if j = i then None else node_at t j)"
  by (simp add: kill_def Let_def node_at_upd)

lemma fold_kill:
  assumes "\<forall>i\<in>set is. unat i < length (ui_nodes t)"
  shows "node_at (fold kill is t) j = (if j \<in> set is then None else node_at t j) \<and> ui_root (fold kill is t) = ui_root t \<and>
    ui_free (fold kill is t) = ui_free t @ is \<and> length (ui_nodes (fold kill is t)) = length (ui_nodes t) \<and>
    ui_focus (fold kill is t) = (if ui_focus t \<in> Some ` set is then None else ui_focus t)"
  using assms
proof (induction "is" arbitrary: t)
  case (Cons i "is")
  then show ?case by (auto simp: node_at_kill) (auto simp: kill_def Let_def)
qed simp

lemma unlink_spec:
  assumes "tree_of t r" "s \<in> set (subs r)" "s \<noteq> r"
  shows "node_at (unlink (rid s) t) j = map_option (\<lambda>n. n\<lparr>nd_children := drop_key (\<lambda>x. x) (rid s) (nd_children n)\<rparr>) (node_at t j) \<and>
    ui_root (unlink (rid s) t) = ui_root t \<and> ui_free (unlink (rid s) t) = ui_free t \<and> ui_focus (unlink (rid s) t) = ui_focus t \<and>
    length (ui_nodes (unlink (rid s) t)) = length (ui_nodes t)"
proof -
  let ?i = "rid s"
  obtain p where p: "p \<in> set (subs r)" "ui_parent t ?i = Some (rid p)" "?i \<in> set (ui_children t (rid p))"
    using parent_in_tree [OF assms] by metis
  obtain np where np: "node_at t (rid p) = Some np" using p(3) by (cases "node_at t (rid p)") (simp_all add: ui_children_def)
  obtain ni where ni: "node_at t ?i = Some ni" "nd_parent ni = Some (rid p)"
    using p(2) by (cases "node_at t ?i") (auto simp: ui_parent_def)
  have idx: "ui_nodes t ! unat ?i = ni" "ui_nodes t ! unat (rid p) = np" "unat (rid p) < length (ui_nodes t)" "nd_alive np"
    using ni(1) np by (auto simp: node_at_def split: if_splits)
  have "?i \<in> set (nd_children np)" using p(3) by (simp add: ui_children_def np)
  then obtain q where q: "find_index (\<lambda>c. c = ?i) (nd_children np) = Some q"
    by (cases "find_index (\<lambda>c. c = ?i) (nd_children np)") (auto simp: find_index_None in_set_conv_nth)
  then have u: "unlink ?i t = upd_node (rid p) (\<lambda>n. n\<lparr>nd_children := swap_remove q (nd_children n)\<rparr>) t"
    using idx ni(2) by (simp add: unlink_def)
  have other: "drop_key (\<lambda>x. x) ?i (nd_children n) = nd_children n" if "node_at t k = Some n" "k \<noteq> rid p" for k n
  proof (rule drop_key_other, intro ballI notI)
    fix c
    assume "c \<in> set (nd_children n)" "c = ?i"
    then have "ui_parent t ?i = Some k" using assms(1) that(1) by (auto simp: tree_of_def ui_children_def)
    with p(2) that(2) show False by simp
  qed
  have "node_at (unlink ?i t) j = map_option (\<lambda>n. n\<lparr>nd_children := drop_key (\<lambda>x. x) ?i (nd_children n)\<rparr>) (node_at t j)"
  proof (cases "j = rid p")
    case True
    then show ?thesis using idx q np by (simp add: u node_at_upd drop_key_def)
  next
    case False
    then show ?thesis using idx other [of j] by (cases "node_at t j") (simp_all add: u node_at_upd)
  qed
  then show ?thesis by (simp add: u)
qed

text \<open>Removing a widget takes away its subtree and nothing else; among its siblings the last one takes its place.\<close>

lemma remove_spec:
  assumes "tree_of t r" "node_at t i \<noteq> None" "i \<noteq> 0" "length (ui_nodes t) \<le> n"
  obtains s t' where "ui_remove n i t = Some (True, t')" "s \<in> set (subs r)" "rid s = i" "s \<noteq> r" "tree_of t' (delete_kid i r)"
    "\<forall>j. node_at t' j = (if j \<in> set (ids s) then None
       else map_option (\<lambda>n. n\<lparr>nd_children := drop_key (\<lambda>x. x) i (nd_children n)\<rparr>) (node_at t j))"
    "ui_focus t' = (if ui_focus t \<in> Some ` set (ids s) then None else ui_focus t)"
    "length (ui_nodes t') = length (ui_nodes t)" "ui_free t' = ui_free t @ ids s"
proof -
  obtain s where s: "s \<in> set (subs r)" "rid s = i" using assms(1,2) sub_at [of i r] by (auto simp: tree_of_def)
  have sr: "s \<noteq> r" using assms(1,3) s(2) by (auto simp: tree_of_def)
  have froot: "fits (ui_children t) r" and dist: "distinct (ids r)" using assms(1) by (simp_all add: tree_of_def)
  have fs: "fits (ui_children t) s" by (rule fits_subs [OF froot s(1)])
  have "length (ids s) \<le> length (ids r)"
    using distinct_subs [OF dist s(1)] dist subs_ids [OF s(1)] by (metis distinct_card card_mono List.finite_set)
  then have "height s \<le> n" using height_ids [of s] alive_card [OF assms(1)] assms(4) by linarith
  then have "collect_subtree n t i = Some (ids s)"
    using collect_ids [of "[s]" t n] fs s(2) by (simp add: collect_subtree_def)
  moreover have "i \<noteq> ui_root t" using assms(1,3) by (simp add: tree_of_def)
  ultimately have run: "ui_remove n i t = Some (True, fold kill (ids s) (unlink i t))" using assms(2) by (simp add: ui_remove_def)
  let ?u = "unlink i t" let ?t' = "fold kill (ids s) ?u"
  note un = unlink_spec [OF assms(1) s(1) sr, unfolded s(2)]
  have alive: "\<forall>j\<in>set (ids s). node_at t j \<noteq> None" using subs_ids [OF s(1)] assms(1) by (auto simp: tree_of_def)
  then have "\<forall>j\<in>set (ids s). unat j < length (ui_nodes ?u)" using un node_at_index by metis
  note k = fold_kill [OF this]
  have at: "node_at ?t' j = (if j \<in> set (ids s) then None
       else map_option (\<lambda>n. n\<lparr>nd_children := drop_key (\<lambda>x. x) i (nd_children n)\<rparr>) (node_at t j))" for j
    using k [of j] un [of j] by simp
  have fields: "ui_root ?t' = ui_root t" "ui_free ?t' = ui_free t @ ids s" "length (ui_nodes ?t') = length (ui_nodes t)"
    "ui_focus ?t' = (if ui_focus t \<in> Some ` set (ids s) then None else ui_focus t)"
    using k un by simp_all
  have ms: "mset (ids r) = mset (ids (delete_kid i r)) + mset (ids s)" using delete_kid_mset [OF dist s(1) sr] s(2) by simp
  have "distinct (ids (delete_kid i r) @ ids s)" using dist ms by (metis mset_append mset_eq_imp_distinct_iff)
  then have dd: "distinct (ids (delete_kid i r))" "set (ids (delete_kid i r)) \<inter> set (ids s) = {}" by simp_all
  have rest: "set (ids (delete_kid i r)) = set (ids r) - set (ids s)"
    using dd(2) arg_cong [OF ms, of set_mset] by auto
  have ch: "ui_children ?t' j = (if j \<in> set (ids s) then [] else drop_key (\<lambda>x. x) i (ui_children t j))" for j
    by (cases "node_at t j") (simp_all add: ui_children_def at drop_key_def)
  have par: "ui_parent ?t' j = (if j \<in> set (ids s) then None else ui_parent t j)" for j
    by (cases "node_at t j") (simp_all add: ui_parent_def at)
  have none: "node_at ?t' j = None \<longleftrightarrow> node_at t j = None \<or> j \<in> set (ids s)" for j by (simp add: at)
  have fits': "fits (ui_children ?t') (delete_kid i r)"
    using delete_kid_fits [OF froot, of i] by (rule fits_cong) (use rest in \<open>auto simp: ch\<close>)
  have "tree_of ?t' (delete_kid i r)"
    unfolding tree_of_def
  proof (intro conjI allI ballI)
    show "set (ids (delete_kid i r)) = {j. node_at ?t' j \<noteq> None}"
      using rest assms(1) none by (auto simp: tree_of_def)
    show "ui_parent ?t' c = Some j" if "c \<in> set (ui_children ?t' j)" for j c
    proof -
      have j: "j \<notin> set (ids s)" "c \<in> set (drop_key (\<lambda>x. x) i (ui_children t j))" using that ch by (auto split: if_splits)
      then have cj: "c \<in> set (ui_children t j)" using drop_key_subset by fast
      then have pc: "ui_parent t c = Some j" using assms(1) by (simp add: tree_of_def)
      have "node_at t j \<noteq> None" using cj by (cases "node_at t j") (simp_all add: ui_children_def)
      then have "j \<in> set (ids (delete_kid i r))" using rest assms(1) j(1) by (simp add: tree_of_def)
      then have "c \<notin> set (ids s)" using fits_closed [OF fits' _ that] rest by blast
      with pc show ?thesis by (simp add: par)
    qed
    show "length (ui_children ?t' j) \<le> MAX_CHILDREN" for j
      using assms(1) drop_key_length [of "\<lambda>x. x" i "ui_children t j"] by (auto simp: ch tree_of_def intro: order_trans)
    show "distinct (ui_free ?t')"
      using assms(1) distinct_subs [OF dist s(1)] alive by (auto simp: fields tree_of_def)
    show "set (ui_free ?t') = {j. unat j < length (ui_nodes ?t') \<and> node_at ?t' j = None}"
      using assms(1) alive node_at_index none by (auto simp: fields tree_of_def)
  qed (use fits' assms(1) dd par s(2) in \<open>simp_all add: tree_of_def fields\<close>)
  with that run s sr at fields show thesis by blast
qed

section \<open>Marking upwards ends\<close>

lemma kid_smaller: "k \<in> set (kids p) \<Longrightarrow> length (ids k) < length (ids p)"
  using member_le_sum_list [of "length (ids k)" "map length (map ids (kids p))"]
  by (cases p) (fastforce simp: length_concat comp_def less_Suc_eq_le)

lemma mark_up_ends:
  assumes "tree_of t r" "s \<in> set (subs r)" "length (ids r) < n + length (ids s)"
  shows "mark_up n (Some (rid s)) t \<noteq> None"
  using assms
proof (induction n arbitrary: s t)
  case 0
  have "length (ids s) \<le> length (ids r)"
    using distinct_subs [OF _ 0(2)] 0(1) subs_ids [OF 0(2)] by (metis tree_of_def distinct_card card_mono List.finite_set)
  with 0 show ?case by simp
next
  case (Suc n)
  let ?t = "upd_common (rid s) (\<lambda>c. c\<lparr>cp_dirty := True\<rparr>) t"
  have tree: "tree_of ?t r" using same_shape_tree [OF upd_common_shape Suc.prems(1)] .
  show ?case
  proof (cases "node_at t (rid s)")
    case (Some nd)
    show ?thesis
    proof (cases "s = r")
      case True
      then have "nd_parent nd = None" using Suc.prems(1) Some by (auto simp: tree_of_def ui_parent_def)
      with Some show ?thesis by simp
    next
      case False
      then obtain p where p: "p \<in> set (subs r)" "s \<in> set (kids p)" "ui_parent t (rid s) = Some (rid p)"
        using parent_in_tree [OF Suc.prems(1,2)] by metis
      then have "mark_up n (Some (rid p)) ?t \<noteq> None"
        using Suc.IH [OF tree p(1)] Suc.prems(3) kid_smaller [OF p(2)] by simp
      with Some p(3) show ?thesis by (simp add: ui_parent_def)
    qed
  qed simp
qed

lemma mark_dirty_ends:
  assumes "tree_of t r" "length (ui_nodes t) \<le> n"
  shows "\<exists>t'. mark_dirty n i t = Some t'"
proof -
  define t1 where "t1 = (case node_at t i of
                  None \<Rightarrow> t
                | Some nd \<Rightarrow>
                    (let c = common (nd_widget nd); r = (cp_pos c, cp_size c)
                     in t\<lparr>ui_dirty_rect := Some (case ui_dirty_rect t of Some e \<Rightarrow> union_rect e r | None \<Rightarrow> r)\<rparr>))"
  have "same_shape t t1" by (auto simp: t1_def Let_def intro: focus_field_shape split: option.split)
  then have tree: "tree_of t1 r" and same: "node_at t1 i = None \<longleftrightarrow> node_at t i = None"
    using same_shape_tree same_shape_at(3) assms(1) by blast+
  have len: "length (ids r) \<le> n" using alive_card [OF assms(1)] assms(2) by simp
  have "0 < length (ids r)" by (cases r) simp
  then obtain m where m: "n = Suc m" using len by (cases n) auto
  have "mark_up n (Some i) t1 \<noteq> None"
  proof (cases "node_at t1 i")
    case None
    then show ?thesis by (simp add: m)
  next
    case (Some nd)
    then obtain s where s: "s \<in> set (subs r)" "rid s = i" using tree sub_at [of i r] by (auto simp: tree_of_def)
    have "0 < length (ids s)" by (cases s) simp
    with mark_up_ends [OF tree s(1), of n] len s(2) show ?thesis by simp
  qed
  then show ?thesis by (simp add: mark_dirty_def t1_def [symmetric] Let_def)
qed

section \<open>Runs\<close>

datatype ui_op =
    Add widget_id widget | Remove widget_id | Focus "widget_id option" | Update widget_id "widget \<Rightarrow> widget"
  | Mark widget_id | Clear_Dirty | Clear_Rect

text \<open>The depth of recursion granted is the number of nodes.\<close>

fun ui_step :: "ui_op \<Rightarrow> ui_tree \<Rightarrow> ui_tree option" where
  "ui_step (Add p w) t = Some (snd (add_child p w t))"
| "ui_step (Remove i) t = map_option snd (ui_remove (length (ui_nodes t)) i t)"
| "ui_step (Focus i) t = Some (set_focus i t)"
| "ui_step (Update i f) t = Some (ui_get_mut i f t)"
| "ui_step (Mark i) t = mark_dirty (length (ui_nodes t)) i t"
| "ui_step Clear_Dirty t = Some (clear_dirty t)"
| "ui_step Clear_Rect t = Some (clear_dirty_rect t)"

fun ui_run :: "ui_op list \<Rightarrow> ui_tree \<Rightarrow> ui_tree option" where
  "ui_run [] t = Some t"
| "ui_run (op # ops) t = do { t' \<leftarrow> ui_step op t; ui_run ops t' }"

lemma ui_new_tree: "tree_of (ui_new w) (RT 0 [])"
proof -
  have "node_at (ui_new w) i = (if i = 0 then Some \<lparr>nd_widget = w, nd_parent = None, nd_children = [], nd_generation = 0, nd_alive = True\<rparr> else None)" for i
    by (auto simp: node_at_def ui_new_def unat_eq_0)
  then show ?thesis by (auto simp: tree_of_def ui_children_def ui_parent_def ui_new_def unat_eq_0 split: if_splits)
qed

lemma add_child_length: "length (ui_nodes (snd (add_child p w t))) \<le> Suc (length (ui_nodes t))"
  by (auto simp: add_child_def alloc_node_def Let_def split: prod.split if_splits)

lemma ui_step_wf:
  assumes "ui_wf t" "length (ui_nodes t) < 2 ^ 16"
  shows "\<exists>t'. ui_step op t = Some t' \<and> ui_wf t' \<and> length (ui_nodes t') \<le> Suc (length (ui_nodes t))"
proof -
  obtain r where tree: "tree_of t r" using assms(1) by (auto simp: ui_wf_def)
  have shape: "ui_wf u \<and> length (ui_nodes u) \<le> Suc (length (ui_nodes t))" if "same_shape t u" for u
    using same_shape_tree [OF that tree] that by (auto simp: ui_wf_def same_shape_def)
  show ?thesis
  proof (cases op)
    case (Add p w)
    obtain res t' where run: "add_child p w t = (res, t')" by fastforce
    have "ui_wf t'"
    proof (cases "node_at t p")
      case None
      with run assms(1) show ?thesis by (simp add: add_child_def)
    next
      case (Some n)
      with add_child_spec [OF tree _ _ run] assms(2) show ?thesis by (auto simp: ui_wf_def split: if_splits)
    qed
    with Add run add_child_length [of p w t] show ?thesis by simp
  next
    case (Remove i)
    consider "i = 0 \<or> node_at t i = None" | "node_at t i \<noteq> None" "i \<noteq> 0" by blast
    then show ?thesis
    proof cases
      case 1
      with tree assms(1) Remove show ?thesis by (auto simp: ui_remove_def tree_of_def)
    next
      case 2
      from remove_spec [OF tree 2 order_refl] obtain t' where "ui_remove (length (ui_nodes t)) i t = Some (True, t')"
        "tree_of t' (delete_kid i r)" "length (ui_nodes t') = length (ui_nodes t)" by metis
      with Remove show ?thesis by (auto simp: ui_wf_def)
    qed
  next
    case (Focus i)
    with shape [OF set_focus_shape] show ?thesis by simp
  next
    case (Update i f)
    with shape [OF get_mut_shape] show ?thesis by simp
  next
    case (Mark i)
    from mark_dirty_ends [OF tree order_refl] obtain t' where "mark_dirty (length (ui_nodes t)) i t = Some t'" by blast
    with Mark shape [OF mark_dirty_shape] show ?thesis by auto
  next
    case Clear_Dirty
    with shape [OF clear_dirty_shape] show ?thesis by simp
  next
    case Clear_Rect
    have "same_shape t (clear_dirty_rect t)" unfolding clear_dirty_rect_def by (rule focus_field_shape(2)) simp
    with Clear_Rect shape show ?thesis by simp
  qed
qed

lemma ui_run_wf:
  assumes "ui_wf t" "length (ui_nodes t) + length ops \<le> 2 ^ 16"
  shows "\<exists>t'. ui_run ops t = Some t' \<and> ui_wf t' \<and> length (ui_nodes t') \<le> length (ui_nodes t) + length ops"
  using assms
proof (induction ops arbitrary: t)
  case (Cons op ops)
  obtain u where u: "ui_step op t = Some u" "ui_wf u" "length (ui_nodes u) \<le> Suc (length (ui_nodes t))"
    using ui_step_wf [of t op] Cons.prems by auto
  from Cons.IH [OF u(2)] u(3) Cons.prems(2) u(1) show ?case by fastforce
qed simp

section \<open>Properties\<close>

lemma distinct_roots: "distinct (concat (map ids ks)) \<Longrightarrow> distinct (map rid ks)"
proof (induction ks)
  case (Cons k ks)
  then have "set (ids k) \<inter> (\<Union>k'\<in>set ks. set (ids k')) = {}" "distinct (map rid ks)" by auto
  moreover have "rid k' \<in> set (ids k')" for k' by simp
  ultimately have "\<forall>k'\<in>set ks. rid k' \<noteq> rid k" by (metis UN_I disjoint_iff)
  then show ?case using \<open>distinct (map rid ks)\<close> by auto
qed simp

lemma drop_key_at:
  "i \<notin> set as \<Longrightarrow> drop_key (\<lambda>x. x) i (as @ i # bs) = as @ (if bs = [] then [] else last bs # butlast bs)"
proof -
  assume "i \<notin> set as"
  then have "find_index (\<lambda>x. x = i) (as @ i # bs) = Some (length as)"
    using find_index_split [of as "\<lambda>x. x" i i bs] by blast
  then show ?thesis
    by (cases bs rule: rev_cases) (simp_all add: drop_key_def swap_remove_def butlast_append)
qed

lemma tree_links:
  assumes "tree_of t r"
  shows "ui_get t j \<noteq> None \<longleftrightarrow> descends t (ui_root t) j" "c \<in> set (ui_children t i) \<longleftrightarrow> ui_parent t c = Some i"
    "distinct (ui_children t i)"
proof -
  have r0: "ui_root t = rid r" and dist: "distinct (ids r)" and fit: "fits (ui_children t) r" using assms by (simp_all add: tree_of_def)
  show "ui_get t j \<noteq> None \<longleftrightarrow> descends t (ui_root t) j"
    using descends_ids [OF assms subs_self, of j] assms unfolding r0 by (simp add: ui_get_def tree_of_def)
  show "c \<in> set (ui_children t i) \<longleftrightarrow> ui_parent t c = Some i"
  proof
    assume up: "ui_parent t c = Some i"
    then have "node_at t c \<noteq> None" by (cases "node_at t c") (simp_all add: ui_parent_def)
    then obtain s where s: "s \<in> set (subs r)" "rid s = c" using assms sub_at [of c r] by (auto simp: tree_of_def)
    have "s \<noteq> r" using assms up s(2) by (auto simp: tree_of_def)
    then show "c \<in> set (ui_children t i)" using parent_in_tree [OF assms s(1)] s(2) up by (metis option.inject)
  qed (use assms in \<open>simp add: tree_of_def\<close>)
  show "distinct (ui_children t i)"
  proof (cases "node_at t i")
    case None
    then show ?thesis by (simp add: ui_children_def)
  next
    case (Some n)
    then obtain s where s: "s \<in> set (subs r)" "rid s = i" using assms sub_at [of i r] by (auto simp: tree_of_def)
    have "map rid (kids s) = ui_children t i" using fits_kids [OF fits_subs [OF fit s(1)]] s(2) by simp
    moreover have "distinct (concat (map ids (kids s)))" using distinct_subs [OF dist s(1)] by (cases s) simp
    then have "distinct (map rid (kids s))" by (rule distinct_roots)
    ultimately show ?thesis by simp
  qed
qed

text \<open>C31. Whatever the tree is asked to do, in fewer than two to the sixteenth operations, every operation
  returns and the arena stays one tree: the widgets in use are exactly those below the root, child
  lists and parent links agree, no child list repeats a widget or is longer than thirty-two, and the
  free list names every unused slot once.\<close>

theorem ui_tree_stays_a_tree:
  assumes "length ops < 2 ^ 16"
  shows "\<exists>t. ui_run ops (ui_new w) = Some t \<and>
    (\<forall>j. ui_get t j \<noteq> None \<longleftrightarrow> descends t (ui_root t) j) \<and>
    (\<forall>c i. c \<in> set (ui_children t i) \<longleftrightarrow> ui_parent t c = Some i) \<and>
    (\<forall>i. distinct (ui_children t i) \<and> length (ui_children t i) \<le> 32) \<and>
    distinct (ui_free t) \<and> set (ui_free t) = {i. unat i < length (ui_nodes t) \<and> ui_get t i = None}"
proof -
  have "ui_wf (ui_new w)" using ui_new_tree by (auto simp: ui_wf_def)
  moreover have "length (ui_nodes (ui_new w)) = 1" by (simp add: ui_new_def)
  ultimately obtain t where t: "ui_run ops (ui_new w) = Some t" "ui_wf t" using ui_run_wf [of "ui_new w" ops] assms by auto
  then obtain r where "tree_of t r" by (auto simp: ui_wf_def)
  moreover then have "\<forall>i. length (ui_children t i) \<le> 32" "distinct (ui_free t)"
    "set (ui_free t) = {i. unat i < length (ui_nodes t) \<and> ui_get t i = None}"
    by (simp_all add: tree_of_def MAX_CHILDREN_def ui_get_def)
  ultimately show ?thesis using t(1) tree_links by blast
qed

definition plain :: common_props where
  "plain = \<lparr>cp_id = 0, cp_pos = \<lparr>pos_x = 0, pos_y = 0\<rparr>, cp_size = \<lparr>size_w = 100, size_h = 100\<rparr>, cp_visible = True,
     cp_dirty = True, cp_pressed = False, cp_focused = False\<rparr>"

definition sample_ops :: "ui_op list" where
  "sample_ops = [Add 0 (Container plain 0), Add 1 (Spacer plain), Add 0 (Label plain []), Add 0 (Divider plain)]"

theorem ui_tree_stays_a_tree_witness:
  "\<exists>t. ui_run sample_ops (ui_new (Container plain 0)) = Some t \<and> distinct (ui_children t 0)"
  using ui_tree_stays_a_tree [of sample_ops "Container plain 0"] by (auto simp: sample_ops_def)

lemma reached_tree:
  assumes "ui_run ops (ui_new w) = Some t" "length ops < 2 ^ 16"
  obtains r where "tree_of t r"
proof -
  have "ui_wf (ui_new w)" "length (ui_nodes (ui_new w)) = 1" using ui_new_tree by (auto simp: ui_wf_def ui_new_def)
  with ui_run_wf [of "ui_new w" ops] assms have "ui_wf t" by auto
  with that show thesis by (auto simp: ui_wf_def)
qed

lemma parent_not_below:
  assumes tree: "tree_of t r" and s: "s \<in> set (subs r)" "s \<noteq> r" and p: "ui_parent t (rid s) = Some p"
  shows "\<not> descends t (rid s) p"
proof
  assume "descends t (rid s) p"
  then have "p \<in> set (ids s)" by (simp add: descends_ids [OF tree s(1)])
  then obtain u where u: "u \<in> set (subs s)" "rid u = p" using sub_at by blast
  obtain q where q: "q \<in> set (subs r)" "s \<in> set (kids q)" "rid q = p"
    using parent_in_tree [OF tree s] p by (metis option.inject)
  have "u = q" using subs_unique [of r u q] subs_trans [OF s(1) u(1)] q u(2) tree by (simp add: tree_of_def)
  then have "length (ids s) < length (ids u)" using kid_smaller q(2) by blast
  moreover have "length (ids u) \<le> length (ids s)"
    using distinct_subs [of r] tree s(1) subs_trans [OF s(1) u(1)] subs_ids [OF u(1)]
    by (metis tree_of_def distinct_card card_mono List.finite_set)
  ultimately show False by simp
qed

text \<open>C32. Removing a widget other than the root takes away exactly the widgets below it, itself included,
  and leaves every other widget with its contents and its parent. Its siblings are reordered: the last
  one takes its place. The focus is cleared if it was on a removed widget. For the root or a widget that
  is not in the tree nothing happens and the answer is no.\<close>

theorem ui_remove_subtree:
  assumes "ui_run ops (ui_new w) = Some t" "length ops < 2 ^ 16" "length (ui_nodes t) \<le> n"
  shows "\<exists>t' b. ui_remove n i t = Some (b, t') \<and> (b \<longleftrightarrow> i \<noteq> ui_root t \<and> ui_get t i \<noteq> None) \<and> (\<not> b \<longrightarrow> t' = t) \<and>
    (b \<longrightarrow>
      (\<forall>j. ui_get t' j = (if descends t i j then None else ui_get t j)) \<and>
      (\<forall>j. ui_parent t' j = (if descends t i j then None else ui_parent t j)) \<and>
      (\<forall>j. \<not> descends t i j \<and> ui_parent t i \<noteq> Some j \<longrightarrow> ui_children t' j = ui_children t j) \<and>
      (\<forall>p as bs. ui_parent t i = Some p \<and> ui_children t p = as @ i # bs \<longrightarrow>
         ui_children t' p = as @ (if bs = [] then [] else last bs # butlast bs)) \<and>
      ui_focus t' = (case ui_focus t of Some f \<Rightarrow> if descends t i f then None else Some f | None \<Rightarrow> None))"
proof -
  obtain r where tree: "tree_of t r" by (rule reached_tree [OF assms(1,2)])
  then have root: "ui_root t = 0" by (simp add: tree_of_def)
  show ?thesis
  proof (cases "i \<noteq> 0 \<and> node_at t i \<noteq> None")
    case False
    then show ?thesis by (auto simp: ui_remove_def root ui_get_def)
  next
    case True
    then have i: "node_at t i \<noteq> None" "i \<noteq> 0" by auto
    obtain s t' where run: "ui_remove n i t = Some (True, t')" and s: "s \<in> set (subs r)" "rid s = i" "s \<noteq> r"
      and tree': "tree_of t' (delete_kid i r)" and at: "\<forall>j. node_at t' j = (if j \<in> set (ids s) then None
       else map_option (\<lambda>n. n\<lparr>nd_children := drop_key (\<lambda>x. x) i (nd_children n)\<rparr>) (node_at t j))"
      and focus: "ui_focus t' = (if ui_focus t \<in> Some ` set (ids s) then None else ui_focus t)"
      and rest: "length (ui_nodes t') = length (ui_nodes t)" "ui_free t' = ui_free t @ ids s"
      by (rule remove_spec [OF tree i assms(3)])
    have below: "descends t i j \<longleftrightarrow> j \<in> set (ids s)" for j using descends_ids [OF tree s(1)] s(2) by simp
    have get: "ui_get t' j = (if descends t i j then None else ui_get t j)" for j
      by (cases "node_at t j") (simp_all add: ui_get_def at below)
    have par: "ui_parent t' j = (if descends t i j then None else ui_parent t j)" for j
      by (cases "node_at t j") (simp_all add: ui_parent_def at below)
    have ch: "ui_children t' j = (if descends t i j then [] else drop_key (\<lambda>x. x) i (ui_children t j))" for j
      by (cases "node_at t j") (simp_all add: ui_children_def at below drop_key_def)
    have keep: "ui_children t' j = ui_children t j" if "\<not> descends t i j" "ui_parent t i \<noteq> Some j" for j
      using that tree_links(2) [OF tree, of i j] by (auto simp: ch intro!: drop_key_other)
    have swap: "ui_children t' p = as @ (if bs = [] then [] else last bs # butlast bs)"
      if p: "ui_parent t i = Some p" "ui_children t p = as @ i # bs" for p as bs
    proof -
      have "\<not> descends t i p" using parent_not_below [OF tree s(1,3)] s(2) p(1) by simp
      moreover have "i \<notin> set as" using tree_links(3) [OF tree, of p] p(2) by simp
      ultimately show ?thesis by (simp add: ch p(2) drop_key_at)
    qed
    have "ui_focus t' = (case ui_focus t of Some f \<Rightarrow> if descends t i f then None else Some f | None \<Rightarrow> None)"
      by (auto simp: focus below split: option.split)
    moreover have "ui_get t i \<noteq> None" using True by (simp add: ui_get_def)
    ultimately show ?thesis
    proof (intro exI [of _ t'] exI [of _ True] conjI allI impI)
      show "ui_children t' j = ui_children t j" if "\<not> descends t i j \<and> ui_parent t i \<noteq> Some j" for j
        using keep that by blast
      show "ui_children t' p = as @ (if bs = [] then [] else last bs # butlast bs)"
        if "ui_parent t i = Some p \<and> ui_children t p = as @ i # bs" for p as bs using swap that by blast
    qed (use run get par True root in \<open>simp_all\<close>)
  qed
qed

definition sample_tree :: ui_tree where
  "sample_tree = the (ui_run sample_ops (ui_new (Container plain 0)))"

lemma sample_tree_run: "ui_run sample_ops (ui_new (Container plain 0)) = Some sample_tree" "length sample_ops < 2 ^ 16"
  by (code_simp, simp add: sample_ops_def)

theorem ui_remove_subtree_witness:
  "\<exists>t'. ui_remove 5 1 sample_tree = Some (True, t') \<and> ui_children t' 0 = [4, 3] \<and> ui_get t' 2 = None"
proof -
  have facts: "length (ui_nodes sample_tree) = 5" "ui_root sample_tree = 0" "ui_get sample_tree 1 \<noteq> None"
    "ui_parent sample_tree 1 = Some 0" "ui_parent sample_tree 2 = Some 1" "ui_children sample_tree 0 = [] @ 1 # [3, 4]" by code_simp+
  have "descends sample_tree 1 2" by (rule descends.down [OF descends.self facts(5)])
  moreover have "length (ui_nodes sample_tree) \<le> 5" using facts(1) by simp
  from ui_remove_subtree [OF sample_tree_run this, of 1] obtain t' b where r: "ui_remove 5 1 sample_tree = Some (b, t')"
    and b: "b \<longleftrightarrow> 1 \<noteq> ui_root sample_tree \<and> ui_get sample_tree 1 \<noteq> None"
    and get: "b \<longrightarrow> (\<forall>j. ui_get t' j = (if descends sample_tree 1 j then None else ui_get sample_tree j))"
    and swap: "b \<longrightarrow> (\<forall>p as bs. ui_parent sample_tree 1 = Some p \<and> ui_children sample_tree p = as @ 1 # bs \<longrightarrow>
         ui_children t' p = as @ (if bs = [] then [] else last bs # butlast bs))" by blast
  have "b" using b facts(2,3) by simp
  moreover have "ui_children t' 0 = [4, 3]"
    using swap [rule_format, OF \<open>b\<close>, of 0 "[]" "[3, 4]"] facts(4,6) by simp
  ultimately show ?thesis using r get by simp
qed

subsection \<open>Hit test and drawing\<close>

text \<open>A widget is drawn when it and all widgets above it pass the test.\<close>

lemma distinct_concat_one:
  "distinct (concat (map f xs)) \<Longrightarrow> a \<in> set xs \<Longrightarrow> b \<in> set xs \<Longrightarrow> x \<in> set (f a) \<Longrightarrow> x \<in> set (f b) \<Longrightarrow> a = b"
  by (induction xs) auto

lemma drawn_iff:
  "distinct (ids r) \<Longrightarrow> i \<in> set (drawn P r) \<longleftrightarrow> i \<in> set (ids r) \<and> (\<forall>u\<in>set (subs r). i \<in> set (ids u) \<longrightarrow> P (rid u))"
proof (induction r rule: ids.induct)
  case (1 j ks)
  have dk: "distinct (ids k)" if "k \<in> set ks" for k using 1(2) that distinct_concat_member [of "map ids ks"] by auto
  have one: "k = k'" if "k \<in> set ks" "k' \<in> set ks" "i \<in> set (ids k)" "i \<in> set (ids k')" for k k'
    using 1(2) that distinct_concat_one [of ids ks] by simp
  have j: "j \<notin> set (ids k)" if "k \<in> set ks" for k using 1(2) that by auto
  have below: "set (ids u) \<subseteq> set (ids k)" if "u \<in> set (subs k)" for u k using subs_ids that by blast
  show ?case
  proof (cases "i = j")
    case True
    have top: "u = RT j ks" if u: "u \<in> set (subs (RT j ks))" "j \<in> set (ids u)" for u
    proof (rule ccontr)
      assume "u \<noteq> RT j ks"
      then obtain k where "k \<in> set ks" "u \<in> set (subs k)" using u(1) by auto
      with j below u(2) show False by blast
    qed
    have "(\<forall>u\<in>set (subs (RT j ks)). j \<in> set (ids u) \<longrightarrow> P (rid u)) \<longleftrightarrow> P j"
      using top by (metis rid.simps subs_self rid_ids)
    with True show ?thesis by auto
  next
    case False
    have "i \<in> set (drawn P k) \<longleftrightarrow> i \<in> set (ids k) \<and> (\<forall>u\<in>set (subs k). i \<in> set (ids u) \<longrightarrow> P (rid u))"
      if "k \<in> set ks" for k using 1(1) that dk by blast
    then have "i \<in> set (drawn P (RT j ks)) \<longleftrightarrow> P j \<and> (\<exists>k\<in>set ks. i \<in> set (ids k) \<and> (\<forall>u\<in>set (subs k). i \<in> set (ids u) \<longrightarrow> P (rid u)))"
      using False by auto
    also have "\<dots> \<longleftrightarrow> i \<in> set (ids (RT j ks)) \<and> (\<forall>u\<in>set (subs (RT j ks)). i \<in> set (ids u) \<longrightarrow> P (rid u))"
    proof
      assume "P j \<and> (\<exists>k\<in>set ks. i \<in> set (ids k) \<and> (\<forall>u\<in>set (subs k). i \<in> set (ids u) \<longrightarrow> P (rid u)))"
      then obtain k where k: "P j" "k \<in> set ks" "i \<in> set (ids k)" "\<forall>u\<in>set (subs k). i \<in> set (ids u) \<longrightarrow> P (rid u)" by blast
      have "P (rid u)" if u: "u \<in> set (subs (RT j ks))" "i \<in> set (ids u)" for u
      proof (cases "u = RT j ks")
        case False
        then obtain k' where k': "k' \<in> set ks" "u \<in> set (subs k')" using u(1) by auto
        then have "k' = k" using one [OF k'(1) k(2) _ k(3)] below [OF k'(2)] u(2) by blast
        with k(4) k'(2) u(2) show ?thesis by blast
      qed (use k(1) in simp)
      with k(2,3) show "i \<in> set (ids (RT j ks)) \<and> (\<forall>u\<in>set (subs (RT j ks)). i \<in> set (ids u) \<longrightarrow> P (rid u))" by auto
    next
      assume "i \<in> set (ids (RT j ks)) \<and> (\<forall>u\<in>set (subs (RT j ks)). i \<in> set (ids u) \<longrightarrow> P (rid u))"
      with False show "P j \<and> (\<exists>k\<in>set ks. i \<in> set (ids k) \<and> (\<forall>u\<in>set (subs k). i \<in> set (ids u) \<longrightarrow> P (rid u)))" by auto
    qed
    finally show ?thesis .
  qed
qed


lemma drawn_descends:
  assumes "tree_of t r"
  shows "i \<in> set (drawn P r) \<longleftrightarrow> ui_get t i \<noteq> None \<and> (\<forall>a. ui_get t a \<noteq> None \<longrightarrow> descends t a i \<longrightarrow> P a)"
proof -
  have dist: "distinct (ids r)" and alive: "set (ids r) = {i. ui_get t i \<noteq> None}" using assms by (simp_all add: tree_of_def ui_get_def)
  have "(\<forall>u\<in>set (subs r). i \<in> set (ids u) \<longrightarrow> P (rid u)) \<longleftrightarrow> (\<forall>a. ui_get t a \<noteq> None \<longrightarrow> descends t a i \<longrightarrow> P a)"
  proof
    assume all: "\<forall>u\<in>set (subs r). i \<in> set (ids u) \<longrightarrow> P (rid u)"
    show "\<forall>a. ui_get t a \<noteq> None \<longrightarrow> descends t a i \<longrightarrow> P a"
    proof (intro allI impI)
      fix a
      assume "ui_get t a \<noteq> None" "descends t a i"
      then obtain u where "u \<in> set (subs r)" "rid u = a" using alive sub_at [of a r] by auto
      with all descends_ids [OF assms, of u i] \<open>descends t a i\<close> show "P a" by auto
    qed
  next
    assume all: "\<forall>a. ui_get t a \<noteq> None \<longrightarrow> descends t a i \<longrightarrow> P a"
    show "\<forall>u\<in>set (subs r). i \<in> set (ids u) \<longrightarrow> P (rid u)"
    proof (intro ballI impI)
      fix u
      assume u: "u \<in> set (subs r)" "i \<in> set (ids u)"
      then have "ui_get t (rid u) \<noteq> None" using alive subs_ids [OF u(1)] rid_ids [of u] by blast
      with all descends_ids [OF assms u(1)] u(2) show "P (rid u)" by blast
    qed
  qed
  then show ?thesis using drawn_iff [OF dist, of i P] alive by blast
qed

text \<open>C33. The hit test agrees with the drawing order: it finds the last widget a walk over the tree accepts
  when it tests whether the point is inside, and the widgets accepted are exactly the visible ones
  that contain the point and whose ancestors are visible and contain it as well.\<close>

theorem ui_hit_is_last_walked:
  assumes "ui_run ops (ui_new w) = Some t" "length ops < 2 ^ 16" "length (ui_nodes t) \<le> n"
  shows "\<exists>vs. walk n (\<lambda>_ w. inside x y (common w)) t (ui_root t) = Some vs \<and>
    find_at_point n x y t = Some (if accepted vs = [] then None else Some (last (accepted vs))) \<and>
    (\<forall>i. i \<in> set (accepted vs) \<longleftrightarrow> ui_get t i \<noteq> None \<and>
       (\<forall>a w. ui_get t a = Some w \<longrightarrow> descends t a i \<longrightarrow> cp_visible (common w) \<and> inside x y (common w)))"
proof -
  obtain r where tree: "tree_of t r" by (rule reached_tree [OF assms(1,2)])
  have "height r \<le> n" using height_ids [of r] alive_card [OF tree] assms(3) by linarith
  then have ready: "\<forall>k\<in>set [r]. fits (ui_children t) k \<and> height k \<le> n" using tree by (simp add: tree_of_def)
  have root: "[ui_root t] = map rid [r]" using tree by (simp add: tree_of_def)
  let ?f = "\<lambda>(_ :: widget_id) w. inside x y (common w)"
  have ok: "walk_ok ?f t = hit_ok x y t" by (simp add: walk_ok_def hit_ok_def fun_eq_iff)
  obtain vs where vs: "walk_all n ?f t [ui_root t] = Some vs" "accepted vs = drawn (hit_ok x y t) r"
    using walk_drawn [OF ready, of ?f] unfolding root ok by auto
  moreover have "find_at_point n x y t = Some (last_opt (drawn (hit_ok x y t) r))"
    using find_hit_drawn [OF ready] unfolding find_at_point_def root by simp
  moreover have "i \<in> set (drawn (hit_ok x y t) r) \<longleftrightarrow> ui_get t i \<noteq> None \<and>
       (\<forall>a w. ui_get t a = Some w \<longrightarrow> descends t a i \<longrightarrow> cp_visible (common w) \<and> inside x y (common w))" for i
    unfolding drawn_descends [OF tree] by (auto simp: hit_ok_def split: option.splits)
  ultimately show ?thesis by (simp add: walk_def last_opt_def)
qed

theorem ui_hit_is_last_walked_witness:
  "\<exists>vs. walk 5 (\<lambda>_ w. inside 3 3 (common w)) sample_tree 0 = Some vs \<and> last (accepted vs) = 4 \<and>
     find_at_point 5 3 3 sample_tree = Some (Some 4)"
proof -
  have "length (ui_nodes sample_tree) \<le> 5" "ui_root sample_tree = 0" "find_at_point 5 3 3 sample_tree = Some (Some 4)" by code_simp+
  with ui_hit_is_last_walked [OF sample_tree_run this(1), of 3 3] show ?thesis by (auto split: if_splits)
qed

end
