(* ===== verification/Manifest.thy ===== *)
theory Manifest
  imports Json_Lite Permissions
begin

text \<open>
  Manifests of applications, drivers, firmware and window managers (\<open>kernel_rs/src/manifest.rs\<close>) and
  the version of the kernel they ask for (\<open>version.rs\<close>). The text is searched by the helpers of
  \<open>manifest.rs\<close>, whose strings have no escapes: a value ends at the first quote. Reading the file is an
  argument, so that \<open>from_file\<close> is a function of what \<open>read_to_string\<close> returned.
\<close>

section \<open>Version of the kernel\<close>

definition VERSION_MAJOR :: nat where "VERSION_MAJOR = 0"
definition VERSION_MINOR :: nat where "VERSION_MINOR = 5"
definition VERSION_PATCH :: nat where "VERSION_PATCH = 0"
definition VERSION_STRING :: string where "VERSION_STRING = ''0.5.0''"

text \<open>\<open>parts.next().and_then(|s| s.parse().ok()).unwrap_or(0)\<close> for the part at an index.\<close>

definition version_part :: "string list \<Rightarrow> nat \<Rightarrow> nat" where
  "version_part parts k =
     (case if k < length parts then parse_uint 10 U32_MAX (parts ! k) else None of None \<Rightarrow> 0 | Some n \<Rightarrow> n)"

definition satisfies :: "string \<Rightarrow> bool" where
  "satisfies requirement =
     (let parts = split_on CHR ''.'' requirement;
          req_major = version_part parts 0; req_minor = version_part parts 1; req_patch = version_part parts 2
      in if VERSION_MAJOR \<noteq> req_major then VERSION_MAJOR > req_major
         else if VERSION_MINOR \<noteq> req_minor then VERSION_MINOR > req_minor
         else VERSION_PATCH \<ge> req_patch)"

section \<open>Architecture of the build\<close>

datatype target_arch = Xtensa | Riscv32 | HostArch

definition current_arch :: "target_arch \<Rightarrow> string list \<Rightarrow> string" where
  "current_arch target features =
     (case target of
        Xtensa \<Rightarrow> if ''esp32'' \<in> set features then ''esp32'' else if ''esp32s2'' \<in> set features then ''esp32s2'' else ''esp32s3''
      | Riscv32 \<Rightarrow> if ''esp32c6'' \<in> set features then ''esp32c6'' else ''esp32c3''
      | HostArch \<Rightarrow> ''host'')"

text \<open>The C string of the slug; \<open>None\<close> where the source panics.\<close>

definition current_arch_cstr :: "target_arch \<Rightarrow> string list \<Rightarrow> string option" where
  "current_arch_cstr target features =
     (let a = current_arch target features in
      if a = ''esp32'' then Some (''esp32'' @ [NUL])
      else if a = ''esp32s2'' then Some (''esp32s2'' @ [NUL])
      else if a = ''esp32s3'' then Some (''esp32s3'' @ [NUL])
      else if a = ''esp32c3'' then Some (''esp32c3'' @ [NUL])
      else if a = ''esp32c6'' then Some (''esp32c6'' @ [NUL])
      else if a = ''host'' then Some (''host'' @ [NUL])
      else None)"

section \<open>Data\<close>

datatype manifest_type = AppManifest | DriverManifest | FirmwareManifest | WmManifest

record detection =
  dt_bus :: string
  dt_address :: "nat option"
  dt_chip_id_reg :: "nat option"
  dt_chip_id_value :: "nat option"

record manifest =
  mf_type :: manifest_type
  mf_id :: string
  mf_name :: string
  mf_version :: string
  mf_author :: string
  mf_description :: string
  mf_min_os :: string
  mf_arch :: string
  mf_entry :: string
  mf_icon :: string
  mf_permissions :: u32
  mf_background :: bool
  mf_min_memory_kb :: u32
  mf_hal_interface :: string
  mf_changelog :: string
  mf_compatible_boards :: "string list"
  mf_detection :: "detection option"

text \<open>The errors of the standard library are kept as a name.\<close>

datatype manifest_error = ManifestNotFound | ParseError string | Incompatible string | ManifestIo string

section \<open>Helpers\<close>

definition mf_get_string :: "string \<Rightarrow> string \<Rightarrow> string option" where
  "mf_get_string json key =
     Option.bind (json_value json key) (\<lambda>trimmed.
       if \<not> starts_with [DQ] trimmed then None
       else map_option fst (split_once DQ (tl trimmed)))"

definition mf_get_bool :: "string \<Rightarrow> string \<Rightarrow> bool option" where
  "mf_get_bool json key =
     Option.bind (json_value json key) (\<lambda>trimmed.
       if starts_with ''true'' trimmed then Some True else if starts_with ''false'' trimmed then Some False else None)"

definition mf_get_int :: "string \<Rightarrow> string \<Rightarrow> int option" where
  "mf_get_int json key =
     Option.bind (json_value json key) (\<lambda>trimmed. parse_int 64 (takeWhile (\<lambda>c. is_digit c \<or> c = CHR ''-'') trimmed))"

text \<open>The loop that collects the quoted texts of an array.\<close>

function quoted_items :: "string \<Rightarrow> string list" where
  "quoted_items remaining =
     (case split_once DQ remaining of
        None \<Rightarrow> []
      | Some (_, inner) \<Rightarrow>
          (case split_once DQ inner of None \<Rightarrow> [] | Some (item, rest) \<Rightarrow> item # quoted_items rest))"
  by pat_completeness auto

termination
  by (relation "measure length") (auto simp: split_once_Some)

declare quoted_items.simps [simp del]

definition mf_get_string_array :: "string \<Rightarrow> string \<Rightarrow> string list" where
  "mf_get_string_array json key =
     (case json_value json key of
        None \<Rightarrow> []
      | Some after_colon \<Rightarrow>
          if \<not> starts_with ''['' after_colon then []
          else (case split_once CHR '']'' (tl after_colon) of
                  None \<Rightarrow> []
                | Some (bracket_content, _) \<Rightarrow> quoted_items bracket_content))"

definition mf_get_hex_or_int :: "string \<Rightarrow> string \<Rightarrow> nat option" where
  "mf_get_hex_or_int json key =
     Option.bind (json_value json key) (\<lambda>trimmed.
       if starts_with [DQ] trimmed then
         Option.bind (split_once DQ (tl trimmed)) (\<lambda>(value, _).
           let s = trim value in
           case (case strip_prefix ''0x'' s of None \<Rightarrow> strip_prefix ''0X'' s | Some h \<Rightarrow> Some h) of
             Some hex \<Rightarrow> parse_uint 16 U16_MAX hex
           | None \<Rightarrow> parse_uint 10 U16_MAX s)
       else parse_uint 10 U16_MAX (takeWhile is_digit trimmed))"

definition mf_get_detection :: "string \<Rightarrow> detection option" where
  "mf_get_detection json =
     Option.bind (json_value json ''detection'') (\<lambda>trimmed.
       if \<not> starts_with ''{'' trimmed then None
       else Option.bind (split_once CHR ''}'' (tl trimmed)) (\<lambda>(inner, _).
         let bus = (case mf_get_string inner ''bus'' of None \<Rightarrow> [] | Some b \<Rightarrow> b)
         in if bus = [] then None
            else Some \<lparr>dt_bus = bus, dt_address = mf_get_hex_or_int inner ''address'',
                   dt_chip_id_reg = mf_get_hex_or_int inner ''chip_id_reg'',
                   dt_chip_id_value = mf_get_hex_or_int inner ''chip_id_value''\<rparr>))"

text \<open>The part of the permissions value that is searched for names.\<close>

definition permissions_chunk :: "string \<Rightarrow> string option" where
  "permissions_chunk after_colon =
     (if starts_with ''['' after_colon then
        Some (takeWhile (\<lambda>c. c \<noteq> CHR '']'') after_colon)
      else if starts_with [DQ] after_colon then Some (takeWhile (\<lambda>c. c \<noteq> DQ) (tl after_colon))
      else None)"

definition named_perms :: "string \<Rightarrow> u32" where
  "named_perms chunk =
     (let p0 = 0;
          p1 = (if str_contains chunk ''radio'' then p0 OR PERM_RADIO else p0);
          p2 = (if str_contains chunk ''gps'' then p1 OR PERM_GPS else p1);
          p3 = (if str_contains chunk ''storage'' then p2 OR PERM_STORAGE else p2);
          p4 = (if str_contains chunk ''network'' then p3 OR PERM_NETWORK else p3);
          p5 = (if str_contains chunk ''audio'' then p4 OR PERM_AUDIO else p4);
          p6 = (if str_contains chunk ''system'' then p5 OR PERM_SYSTEM else p5)
      in if str_contains chunk ''ipc'' then p6 OR PERM_IPC else p6)"

definition parse_permissions :: "string \<Rightarrow> u32" where
  "parse_permissions json =
     (case json_value json ''permissions'' of
        None \<Rightarrow> 0
      | Some after_colon \<Rightarrow> (case permissions_chunk after_colon of None \<Rightarrow> 0 | Some chunk \<Rightarrow> named_perms chunk))"

section \<open>Parsing\<close>

definition type_of_str :: "string \<Rightarrow> manifest_error + manifest_type" where
  "type_of_str s =
     (if s = ''app'' then Inr AppManifest
      else if s = ''driver'' then Inr DriverManifest
      else if s = ''firmware'' then Inr FirmwareManifest
      else if s = ''wm'' then Inr WmManifest
      else Inl (ParseError (''unknown type: '' @ s)))"

definition manifest_from_json :: "string \<Rightarrow> manifest_error + manifest" where
  "manifest_from_json json =
     and_then (ok_or (ParseError ''missing 'type' field'') (mf_get_string json ''type'')) (\<lambda>type_str.
     and_then (type_of_str type_str) (\<lambda>ty.
     and_then (ok_or (ParseError ''missing 'id' field'') (mf_get_string json ''id'')) (\<lambda>i.
       let str = (\<lambda>key. unwrap_or [] (mf_get_string json key)) in
       Inr \<lparr>mf_type = ty, mf_id = i, mf_name = str ''name'', mf_version = str ''version'',
         mf_author = str ''author'', mf_description = str ''description'',
         mf_min_os = str ''min_os'', mf_arch = str ''arch'',
         mf_entry = str ''entry'', mf_icon = str ''icon'',
         mf_permissions = parse_permissions json,
         mf_background = unwrap_or False (mf_get_bool json ''background''),
         mf_min_memory_kb = word_of_int (unwrap_or 0 (mf_get_int json ''min_memory_kb'')),
         mf_hal_interface = str ''hal_interface'', mf_changelog = str ''changelog'',
         mf_compatible_boards = mf_get_string_array json ''compatible_boards'',
         mf_detection = mf_get_detection json\<rparr>)))"

text \<open>\<open>read_to_string\<close>: \<open>Inl None\<close> is the error kind for a file that is not there.\<close>

definition manifest_from_file :: "string option + string \<Rightarrow> manifest_error + manifest" where
  "manifest_from_file r =
     (case r of
        Inl None \<Rightarrow> Inl ManifestNotFound
      | Inl (Some e) \<Rightarrow> Inl (ManifestIo e)
      | Inr json \<Rightarrow> manifest_from_json json)"

definition path_from_elf :: "string \<Rightarrow> string" where
  "path_from_elf elf_path =
     (case find_sub ''.app.elf'' elf_path of
        Some n \<Rightarrow> take n elf_path @ ''.manifest.json''
      | None \<Rightarrow>
          (case find_sub ''.drv.elf'' elf_path of
             Some n \<Rightarrow> take n elf_path @ ''.manifest.json''
           | None \<Rightarrow>
               (case find_sub ''.wm.elf'' elf_path of
                  Some n \<Rightarrow> take n elf_path @ ''.manifest.json''
                | None \<Rightarrow> elf_path @ ''.manifest.json'')))"

definition is_compatible :: "manifest \<Rightarrow> string \<Rightarrow> bool" where
  "is_compatible m arch =
     (if mf_arch m \<noteq> [] \<and> mf_arch m \<noteq> arch then False
      else if mf_min_os m \<noteq> [] \<and> \<not> satisfies (mf_min_os m) then False
      else True)"

definition manifest_type_str :: "manifest \<Rightarrow> string" where
  "manifest_type_str m =
     (case mf_type m of AppManifest \<Rightarrow> ''app'' | DriverManifest \<Rightarrow> ''driver'' | FirmwareManifest \<Rightarrow> ''firmware'' | WmManifest \<Rightarrow> ''wm'')"

definition is_board_compatible :: "manifest \<Rightarrow> string \<Rightarrow> bool" where
  "is_board_compatible m board =
     (if mf_compatible_boards m = [] then True else list_ex (\<lambda>b. b = board) (mf_compatible_boards m))"

end
