(* ===== verification/Manifest_Json.thy ===== *)
theory Manifest_Json
  imports Manifest_Facts
begin

text \<open>
  A manifest written as a JSON object is read back. The printer of \<open>Json_Text\<close> is the reference: one line
  of JSON, fields in a fixed order.
\<close>

section \<open>Reading values\<close>







section \<open>Manifests\<close>




























end
