(* ===== verification/Notification.thy ===== *)
theory Notification
  imports Rust_Str "HOL-Library.Product_Lexorder"
begin

text \<open>
  The notification manager (\<open>kernel_rs/src/notification.rs\<close>): a vector of notifications in the order they
  were posted, a capacity and the next identifier. A post may panic, when a text that is too long cannot
  be cut at a character boundary: operations that post return an option. The C functions take the
  manager as an option, \<open>None\<close> for the null pointer.
\<close>

section \<open>Data\<close>

definition TITLE_MAX_LEN :: nat where "TITLE_MAX_LEN = 64"
definition BODY_MAX_LEN :: nat where "BODY_MAX_LEN = 256"

datatype notification_priority = NotifyLow | NotifyNormal | NotifyHigh | NotifyUrgent

fun notify_rank :: "notification_priority \<Rightarrow> nat" where
  "notify_rank NotifyLow = 0"
| "notify_rank NotifyNormal = 1"
| "notify_rank NotifyHigh = 2"
| "notify_rank NotifyUrgent = 3"

text \<open>The derived order.\<close>

instantiation notification_priority :: linorder
begin

definition less_eq_notification_priority :: "notification_priority \<Rightarrow> notification_priority \<Rightarrow> bool" where
  "less_eq_notification_priority p q \<longleftrightarrow> notify_rank p \<le> notify_rank q"

definition less_notification_priority :: "notification_priority \<Rightarrow> notification_priority \<Rightarrow> bool" where
  "less_notification_priority p q \<longleftrightarrow> notify_rank p < notify_rank q"

instance
proof
  show "p = q" if "p \<le> q" "q \<le> p" for p q :: notification_priority
    using that by (cases p; cases q) (auto simp: less_eq_notification_priority_def)
qed (auto simp: less_eq_notification_priority_def less_notification_priority_def)

end

definition notify_priority_from_u8 :: "u8 \<Rightarrow> notification_priority option" where
  "notify_priority_from_u8 v =
     (if v = 0 then Some NotifyLow else if v = 1 then Some NotifyNormal else if v = 2 then Some NotifyHigh
      else if v = 3 then Some NotifyUrgent else None)"

datatype notification_category = MessageNote | SystemNote | AppNote | AlertNote | ProgressNote

definition notify_category_from_u8 :: "u8 \<Rightarrow> notification_category option" where
  "notify_category_from_u8 v =
     (if v = 0 then Some MessageNote else if v = 1 then Some SystemNote else if v = 2 then Some AppNote
      else if v = 3 then Some AlertNote else if v = 4 then Some ProgressNote else None)"

record notification =
  nt_id :: u32
  nt_app_id :: string
  nt_title :: string
  nt_body :: string
  nt_priority :: notification_priority
  nt_category :: notification_category
  nt_timestamp :: u32
  nt_expires_at :: "u32 option"
  nt_read :: bool
  nt_dismissed :: bool
  nt_progress :: "u8 option"
  nt_action_label :: "string option"

record notification_manager =
  nm_notifications :: "notification list"
  nm_max_capacity :: nat
  nm_next_id :: u32

definition notify_new :: "nat \<Rightarrow> notification_manager" where
  "notify_new max_capacity = \<lparr>nm_notifications = [], nm_max_capacity = max_capacity, nm_next_id = 1\<rparr>"

section \<open>Helpers\<close>

text \<open>\<open>s[..max]\<close> panics inside a character: \<open>None\<close>.\<close>

definition note_truncate :: "string \<Rightarrow> nat \<Rightarrow> string option" where
  "note_truncate s n =
     (if length s \<le> n then Some s else if is_cont (code (s ! n)) then None else Some (take n s))"

text \<open>\<open>min_by_key\<close>: the first of the elements with the least key.\<close>

fun first_min :: "('a \<Rightarrow> 'k::linorder) \<Rightarrow> 'a list \<Rightarrow> 'a option" where
  "first_min f [] = None"
| "first_min f (x # xs) =
     (case first_min f xs of None \<Rightarrow> Some x | Some y \<Rightarrow> if f x \<le> f y then Some x else Some y)"

definition remove_at :: "nat \<Rightarrow> 'a list \<Rightarrow> 'a list" where
  "remove_at i xs = take i xs @ drop (Suc i) xs"

definition find_eviction_candidate :: "notification list \<Rightarrow> bool \<Rightarrow> notification_priority \<Rightarrow> nat option" where
  "find_eviction_candidate ns dismissed priority =
     map_option fst (first_min (\<lambda>(_, n). unat (nt_id n))
       (filter (\<lambda>(_, n). nt_dismissed n = dismissed \<and> nt_priority n = priority) (enumerate 0 ns)))"

definition evict_if_needed :: "notification_manager \<Rightarrow> notification_manager" where
  "evict_if_needed m =
     (let ns = nm_notifications m; evict = (\<lambda>idx. m\<lparr>nm_notifications := remove_at idx ns\<rparr>) in
      if length ns < nm_max_capacity m then m
      else (case find_eviction_candidate ns True NotifyLow of Some idx \<Rightarrow> evict idx | None \<Rightarrow>
           (case find_eviction_candidate ns True NotifyNormal of Some idx \<Rightarrow> evict idx | None \<Rightarrow>
           (case find_eviction_candidate ns True NotifyHigh of Some idx \<Rightarrow> evict idx | None \<Rightarrow>
           (case find_eviction_candidate ns True NotifyUrgent of Some idx \<Rightarrow> evict idx | None \<Rightarrow>
           (case find_eviction_candidate ns False NotifyLow of Some idx \<Rightarrow> evict idx | None \<Rightarrow>
            if ns \<noteq> [] then evict 0 else m))))))"

text \<open>A write through \<open>iter_mut().find(|n| n.id == id)\<close>.\<close>

definition with_note :: "u32 \<Rightarrow> (notification \<Rightarrow> notification) \<Rightarrow> notification_manager \<Rightarrow> notification_manager option" where
  "with_note i f m =
     map_option (\<lambda>ns. m\<lparr>nm_notifications := ns\<rparr>) (update_first (\<lambda>n. nt_id n = i) f (nm_notifications m))"

definition set_note :: "u32 \<Rightarrow> (notification \<Rightarrow> notification) \<Rightarrow> notification_manager \<Rightarrow> notification_manager" where
  "set_note i f m = unwrap_or m (with_note i f m)"

section \<open>Operations\<close>

definition notify_post :: "string \<Rightarrow> string \<Rightarrow> string \<Rightarrow> notification_priority \<Rightarrow> notification_category \<Rightarrow>
    notification_manager \<Rightarrow> (u32 \<times> notification_manager) option" where
  "notify_post app_id title body priority category m =
     (let m1 = evict_if_needed m; i = nm_next_id m1 in
      case (note_truncate title TITLE_MAX_LEN, note_truncate body BODY_MAX_LEN) of
        (Some t, Some b) \<Rightarrow>
          Some (i, m1\<lparr>nm_next_id := i + 1,
            nm_notifications := nm_notifications m1 @
              [\<lparr>nt_id = i, nt_app_id = app_id, nt_title = t, nt_body = b, nt_priority = priority, nt_category = category,
                nt_timestamp = 0, nt_expires_at = None, nt_read = False, nt_dismissed = False, nt_progress = None,
                nt_action_label = None\<rparr>]\<rparr>)
      | _ \<Rightarrow> None)"

definition post_with_expiry :: "string \<Rightarrow> string \<Rightarrow> string \<Rightarrow> notification_priority \<Rightarrow> notification_category \<Rightarrow>
    u32 \<Rightarrow> notification_manager \<Rightarrow> (u32 \<times> notification_manager) option" where
  "post_with_expiry app_id title body priority category expires_at m =
     map_option (\<lambda>(i, m1). (i, set_note i (\<lambda>n. n\<lparr>nt_expires_at := Some expires_at\<rparr>) m1))
       (notify_post app_id title body priority category m)"

definition post_progress :: "string \<Rightarrow> string \<Rightarrow> string \<Rightarrow> u8 \<Rightarrow> notification_manager \<Rightarrow>
    (u32 \<times> notification_manager) option" where
  "post_progress app_id title body progress m =
     map_option (\<lambda>(i, m1). (i, set_note i (\<lambda>n. n\<lparr>nt_progress := Some (min progress 100)\<rparr>) m1))
       (notify_post app_id title body NotifyNormal ProgressNote m)"

definition update_progress :: "u32 \<Rightarrow> u8 \<Rightarrow> notification_manager \<Rightarrow> int \<times> notification_manager" where
  "update_progress i progress m =
     (case find (\<lambda>n. nt_id n = i) (nm_notifications m) of
        None \<Rightarrow> (ESP_ERR_INVALID_ARG, m)
      | Some n \<Rightarrow>
          if nt_category n \<noteq> ProgressNote then (ESP_ERR_INVALID_STATE, m)
          else (ESP_OK, set_note i (\<lambda>n. n\<lparr>nt_progress := Some (min progress 100)\<rparr>) m))"

definition on_note :: "u32 \<Rightarrow> (notification \<Rightarrow> notification) \<Rightarrow> notification_manager \<Rightarrow> int \<times> notification_manager" where
  "on_note i f m = (case with_note i f m of None \<Rightarrow> (ESP_ERR_INVALID_ARG, m) | Some m' \<Rightarrow> (ESP_OK, m'))"

definition set_action :: "u32 \<Rightarrow> string \<Rightarrow> notification_manager \<Rightarrow> int \<times> notification_manager" where
  "set_action i label = on_note i (\<lambda>n. n\<lparr>nt_action_label := Some label\<rparr>)"

definition notify_get :: "notification_manager \<Rightarrow> u32 \<Rightarrow> notification option" where
  "notify_get m i = find (\<lambda>n. nt_id n = i) (nm_notifications m)"

definition mark_read :: "u32 \<Rightarrow> notification_manager \<Rightarrow> int \<times> notification_manager" where
  "mark_read i = on_note i (\<lambda>n. n\<lparr>nt_read := True\<rparr>)"

definition dismiss :: "u32 \<Rightarrow> notification_manager \<Rightarrow> int \<times> notification_manager" where
  "dismiss i = on_note i (\<lambda>n. n\<lparr>nt_dismissed := True\<rparr>)"

text \<open>The loops that dismiss: the number of notifications dismissed and the new state.\<close>

definition dismiss_where :: "(notification \<Rightarrow> bool) \<Rightarrow> notification_manager \<Rightarrow> nat \<times> notification_manager" where
  "dismiss_where P m =
     (length (filter P (nm_notifications m)),
      m\<lparr>nm_notifications := map (\<lambda>n. if P n then n\<lparr>nt_dismissed := True\<rparr> else n) (nm_notifications m)\<rparr>)"

definition dismiss_all_from_app :: "string \<Rightarrow> notification_manager \<Rightarrow> nat \<times> notification_manager" where
  "dismiss_all_from_app app_id = dismiss_where (\<lambda>n. nt_app_id n = app_id \<and> \<not> nt_dismissed n)"

definition unread_count :: "notification_manager \<Rightarrow> nat" where
  "unread_count m = length (filter (\<lambda>n. \<not> nt_read n \<and> \<not> nt_dismissed n) (nm_notifications m))"

definition unread_count_by_app :: "notification_manager \<Rightarrow> string \<Rightarrow> nat" where
  "unread_count_by_app m app_id =
     length (filter (\<lambda>n. nt_app_id n = app_id \<and> \<not> nt_read n \<and> \<not> nt_dismissed n) (nm_notifications m))"

text \<open>\<open>sort_by\<close> is stable; a descending comparison is an ascending one of the negated numbers.\<close>

definition active_notifications :: "notification_manager \<Rightarrow> notification list" where
  "active_notifications m =
     sort_key (\<lambda>n. (- int (notify_rank (nt_priority n)), - uint (nt_timestamp n)))
       (filter (\<lambda>n. \<not> nt_dismissed n) (nm_notifications m))"

definition notifications_by_app :: "notification_manager \<Rightarrow> string \<Rightarrow> notification list" where
  "notifications_by_app m app_id = filter (\<lambda>n. nt_app_id n = app_id) (nm_notifications m)"

definition notifications_by_category :: "notification_manager \<Rightarrow> notification_category \<Rightarrow> notification list" where
  "notifications_by_category m category = filter (\<lambda>n. nt_category n = category) (nm_notifications m)"

definition pending_urgent :: "notification \<Rightarrow> bool" where
  "pending_urgent n \<longleftrightarrow> nt_priority n = NotifyUrgent \<and> \<not> nt_dismissed n \<and> \<not> nt_read n"

definition has_urgent :: "notification_manager \<Rightarrow> bool" where
  "has_urgent m = list_ex pending_urgent (nm_notifications m)"

definition next_urgent :: "notification_manager \<Rightarrow> notification option" where
  "next_urgent m = first_min (\<lambda>n. unat (nt_timestamp n)) (filter pending_urgent (nm_notifications m))"

definition note_expired :: "u32 \<Rightarrow> notification \<Rightarrow> bool" where
  "note_expired current_time n \<longleftrightarrow>
     \<not> nt_dismissed n \<and> (case nt_expires_at n of None \<Rightarrow> False | Some e \<Rightarrow> current_time \<ge> e)"

definition expire_old :: "u32 \<Rightarrow> notification_manager \<Rightarrow> nat \<times> notification_manager" where
  "expire_old current_time = dismiss_where (note_expired current_time)"

definition clear_all_notes :: "notification_manager \<Rightarrow> notification_manager" where
  "clear_all_notes m = m\<lparr>nm_notifications := map (\<lambda>n. n\<lparr>nt_dismissed := True\<rparr>) (nm_notifications m)\<rparr>"

definition total_count :: "notification_manager \<Rightarrow> nat" where
  "total_count m = length (nm_notifications m)"

definition notify_active_count :: "notification_manager \<Rightarrow> nat" where
  "notify_active_count m = length (filter (\<lambda>n. \<not> nt_dismissed n) (nm_notifications m))"

definition notify_history :: "notification_manager \<Rightarrow> nat \<Rightarrow> notification list" where
  "notify_history m limit =
     take limit (sort_key (\<lambda>n. (- uint (nt_timestamp n), - uint (nt_id n))) (nm_notifications m))"

section \<open>The C interface\<close>

definition rs_notification_manager_create :: "u32 \<Rightarrow> notification_manager option" where
  "rs_notification_manager_create max_capacity = Some (notify_new (unat max_capacity))"

definition rs_notification_post :: "string option \<Rightarrow> string option \<Rightarrow> string option \<Rightarrow> u8 \<Rightarrow> u8 \<Rightarrow>
    notification_manager option \<Rightarrow> (int \<times> notification_manager option) option" where
  "rs_notification_post app_id title body priority category mgr =
     (case (mgr, app_id, title, body) of
        (Some m, Some a, Some t, Some b) \<Rightarrow>
          (case notify_priority_from_u8 priority of
             None \<Rightarrow> Some (ESP_ERR_INVALID_ARG, mgr)
           | Some prio \<Rightarrow>
               (case notify_category_from_u8 category of
                  None \<Rightarrow> Some (ESP_ERR_INVALID_ARG, mgr)
                | Some cat \<Rightarrow>
                    map_option (\<lambda>(i, m'). (sint i, Some m')) (notify_post (cstr_or_empty a) (cstr_or_empty t) (cstr_or_empty b) prio cat m)))
      | _ \<Rightarrow> Some (ESP_ERR_INVALID_ARG, mgr))"

definition rs_notification_post_progress :: "string option \<Rightarrow> string option \<Rightarrow> string option \<Rightarrow> u8 \<Rightarrow>
    notification_manager option \<Rightarrow> (int \<times> notification_manager option) option" where
  "rs_notification_post_progress app_id title body progress mgr =
     (case (mgr, app_id, title, body) of
        (Some m, Some a, Some t, Some b) \<Rightarrow>
          map_option (\<lambda>(i, m'). (sint i, Some m')) (post_progress (cstr_or_empty a) (cstr_or_empty t) (cstr_or_empty b) progress m)
      | _ \<Rightarrow> Some (ESP_ERR_INVALID_ARG, mgr))"

text \<open>The functions that take the manager alone: what the null pointer gives, and the operation.\<close>

definition with_mgr :: "(notification_manager \<Rightarrow> int \<times> notification_manager) \<Rightarrow> notification_manager option \<Rightarrow>
    int \<times> notification_manager option" where
  "with_mgr f mgr =
     (case mgr of None \<Rightarrow> (ESP_ERR_INVALID_ARG, None) | Some m \<Rightarrow> (let (c, m') = f m in (c, Some m')))"

definition rs_notification_update_progress :: "u32 \<Rightarrow> u8 \<Rightarrow> notification_manager option \<Rightarrow> int \<times> notification_manager option" where
  "rs_notification_update_progress i progress = with_mgr (update_progress i progress)"

definition rs_notification_mark_read :: "u32 \<Rightarrow> notification_manager option \<Rightarrow> int \<times> notification_manager option" where
  "rs_notification_mark_read i = with_mgr (mark_read i)"

definition rs_notification_dismiss :: "u32 \<Rightarrow> notification_manager option \<Rightarrow> int \<times> notification_manager option" where
  "rs_notification_dismiss i = with_mgr (dismiss i)"

definition rs_notification_expire :: "u32 \<Rightarrow> notification_manager option \<Rightarrow> int \<times> notification_manager option" where
  "rs_notification_expire current_time =
     with_mgr (\<lambda>m. let (count, m') = expire_old current_time m in (sint (word_of_nat count :: u32), m'))"

definition rs_notification_unread_count :: "notification_manager option \<Rightarrow> int" where
  "rs_notification_unread_count mgr = (case mgr of None \<Rightarrow> 0 | Some m \<Rightarrow> sint (word_of_nat (unread_count m) :: u32))"

definition rs_notification_has_urgent :: "notification_manager option \<Rightarrow> int" where
  "rs_notification_has_urgent mgr = (case mgr of None \<Rightarrow> 0 | Some m \<Rightarrow> if has_urgent m then 1 else 0)"

definition rs_notification_active_count :: "notification_manager option \<Rightarrow> int" where
  "rs_notification_active_count mgr = (case mgr of None \<Rightarrow> 0 | Some m \<Rightarrow> sint (word_of_nat (notify_active_count m) :: u32))"

end
