(* ===== verification/Note_Facts.thy ===== *)
theory Note_Facts
  imports Notification "HOL-Library.Multiset"
begin

text \<open>
  Properties of the notification manager: identifiers grow along the vector, the capacity is kept, what a
  post at capacity throws away, and in which order the lists come out.
\<close>

section \<open>Runs\<close>

datatype note_op =
    PostNote string string string notification_priority notification_category
  | PostExpiring string string string notification_priority notification_category u32
  | PostProgress string string string u8
  | UpdateProgress u32 u8
  | SetAction u32 string
  | MarkRead u32
  | DismissNote u32
  | DismissApp string
  | ExpireNotes u32
  | ClearNotes

fun note_step :: "note_op \<Rightarrow> notification_manager \<Rightarrow> notification_manager option" where
  "note_step (PostNote a t b p c) m = map_option snd (notify_post a t b p c m)"
| "note_step (PostExpiring a t b p c e) m = map_option snd (post_with_expiry a t b p c e m)"
| "note_step (PostProgress a t b n) m = map_option snd (post_progress a t b n m)"
| "note_step (UpdateProgress i n) m = Some (snd (update_progress i n m))"
| "note_step (SetAction i l) m = Some (snd (set_action i l m))"
| "note_step (MarkRead i) m = Some (snd (mark_read i m))"
| "note_step (DismissNote i) m = Some (snd (dismiss i m))"
| "note_step (DismissApp a) m = Some (snd (dismiss_all_from_app a m))"
| "note_step (ExpireNotes t) m = Some (snd (expire_old t m))"
| "note_step ClearNotes m = Some (clear_all_notes m)"

text \<open>A run that met a panic stays there.\<close>

definition note_next :: "note_op \<Rightarrow> notification_manager option \<Rightarrow> notification_manager option" where
  "note_next op s = Option.bind s (note_step op)"

definition note_run :: "note_op list \<Rightarrow> notification_manager \<Rightarrow> notification_manager option" where
  "note_run ops m = fold note_next ops (Some m)"

lemma note_run_simps [simp]: "note_run [] m = Some m" "note_run (ops @ [op]) m = Option.bind (note_run ops m) (note_step op)"
  by (simp_all add: note_run_def note_next_def)

section \<open>Identifiers\<close>

text \<open>What the notifications have in common with those they replace.\<close>

definition same_note :: "notification \<Rightarrow> notification \<Rightarrow> bool" where
  "same_note n n' \<longleftrightarrow> nt_id n' = nt_id n \<and> nt_timestamp n' = nt_timestamp n"

text \<open>After \<open>k\<close> posts.\<close>

definition note_inv :: "nat \<Rightarrow> notification_manager \<Rightarrow> bool" where
  "note_inv k m \<longleftrightarrow> sorted_wrt (\<lambda>n n'. unat (nt_id n) < unat (nt_id n')) (nm_notifications m) \<and>
     (\<forall>n\<in>set (nm_notifications m). nt_timestamp n = 0 \<and> unat (nt_id n) < unat (nm_next_id m)) \<and> unat (nm_next_id m) \<le> Suc k"

lemma note_inv_new: "note_inv 0 (notify_new c)"
  by (simp add: note_inv_def notify_new_def)

lemma note_inv_mono: "note_inv k m \<Longrightarrow> k \<le> l \<Longrightarrow> note_inv l m"
  by (auto simp: note_inv_def)

lemma note_inv_same:
  assumes "note_inv k m" "list_all2 same_note (nm_notifications m) ns"
  shows "note_inv k (m\<lparr>nm_notifications := ns\<rparr>)"
proof -
  have ids: "map nt_id ns = map nt_id (nm_notifications m)" "map nt_timestamp ns = map nt_timestamp (nm_notifications m)"
    using assms(2) by (induction rule: list_all2_induct) (simp_all add: same_note_def)
  have "sorted_wrt (\<lambda>i j. unat i < unat j) (map nt_id ns)" using assms(1) by (simp only: ids) (simp add: note_inv_def sorted_wrt_map)
  moreover have "\<forall>i\<in>set (map nt_id ns). unat i < unat (nm_next_id m)" "\<forall>t\<in>set (map nt_timestamp ns). t = 0"
    using assms(1) by (simp_all only: ids) (simp_all add: note_inv_def)
  ultimately show ?thesis using assms(1) by (simp add: note_inv_def sorted_wrt_map)
qed

lemma same_note_refl: "list_all2 same_note ns ns"
  by (simp add: list_all2_same same_note_def)

lemma same_note_update:
  assumes "update_first P f ns = Some ns'" "\<And>n. same_note n (f n)"
  shows "list_all2 same_note ns ns'"
proof -
  obtain as x bs where "ns = as @ x # bs" "ns' = as @ f x # bs" using update_first_split [OF assms(1)] by blast
  then show ?thesis using assms(2) same_note_refl by (simp add: list_all2_append)
qed

lemma same_note_map: "(\<And>n. same_note n (f n)) \<Longrightarrow> list_all2 same_note ns (map f ns)"
  by (simp add: list_all2_conv_all_nth)

lemma with_note_inv:
  assumes "note_inv k m" "\<And>n. same_note n (f n)" "with_note i f m = Some m'"
  shows "note_inv k m'" "length (nm_notifications m') = length (nm_notifications m)" "nm_max_capacity m' = nm_max_capacity m"
  using assms note_inv_same same_note_update update_first_length by (fastforce simp: with_note_def)+

lemma remove_at_part: "i < length xs \<Longrightarrow> \<exists>as v bs. xs = as @ v # bs \<and> remove_at i xs = as @ bs"
  by (metis id_take_nth_drop remove_at_def)

lemma sorted_wrt_remove: "sorted_wrt R (as @ v # bs) \<Longrightarrow> sorted_wrt R (as @ bs)"
  by (simp add: sorted_wrt_append)

section \<open>Eviction\<close>

text \<open>The order of eviction: dismissed notifications by priority, then low ones, then any.\<close>

definition evict_class :: "notification \<Rightarrow> nat" where
  "evict_class n = (if nt_dismissed n then notify_rank (nt_priority n) else if nt_priority n = NotifyLow then 4 else 5)"

lemma first_min_sorted: "sorted_wrt (\<lambda>x y. f x < f y) xs \<Longrightarrow> first_min f xs = (if xs = [] then None else Some (hd xs))"
proof (induction xs)
  case (Cons x xs)
  then show ?case by (cases xs) auto
qed simp

lemma first_enumerated:
  "(case filter (\<lambda>(_, n). P n) (enumerate k ns) of [] \<Rightarrow> None | (i, _) # _ \<Rightarrow> Some i) = map_option (\<lambda>i. i + k) (find_index P ns)"
  by (induction ns arbitrary: k) (auto simp: option.map_comp comp_def)

lemma sorted_enumerate: "sorted_wrt (\<lambda>x y. g x < g y) ns \<Longrightarrow> sorted_wrt (\<lambda>(_, x) (_, y). g x < g y) (enumerate k ns)"
  by (induction ns arbitrary: k) (auto simp: in_set_enumerate_eq)

lemma candidate_first:
  assumes "sorted_wrt (\<lambda>n n'. unat (nt_id n) < unat (nt_id n')) ns"
  shows "find_eviction_candidate ns d p = find_index (\<lambda>n. nt_dismissed n = d \<and> nt_priority n = p) ns"
proof -
  let ?P = "\<lambda>n. nt_dismissed n = d \<and> nt_priority n = p"
  let ?xs = "filter (\<lambda>(_, n). ?P n) (enumerate 0 ns)"
  have "sorted_wrt (\<lambda>x y. unat (nt_id (snd x)) < unat (nt_id (snd y))) ?xs"
    using sorted_enumerate [OF assms, of 0] by (intro sorted_wrt_filter) (simp add: case_prod_beta')
  then have "first_min (\<lambda>(_, n). unat (nt_id n)) ?xs = (if ?xs = [] then None else Some (hd ?xs))"
    using first_min_sorted [of "\<lambda>(_, n). unat (nt_id n)" ?xs] by (simp add: case_prod_beta')
  moreover have "(case ?xs of [] \<Rightarrow> None | (i, _) # _ \<Rightarrow> Some i) = find_index ?P ns"
    using first_enumerated [of ?P 0 ns] by (simp add: option.map_ident)
  ultimately show ?thesis by (cases ?xs) (auto simp: find_eviction_candidate_def)
qed

lemma candidate_Nil [simp]: "find_eviction_candidate [] d p = None"
  by (simp add: find_eviction_candidate_def)

lemma class_tests:
  "(nt_dismissed n = True \<and> nt_priority n = NotifyLow) = (evict_class n = 0)"
  "(nt_dismissed n = True \<and> nt_priority n = NotifyNormal) = (evict_class n = 1)"
  "(nt_dismissed n = True \<and> nt_priority n = NotifyHigh) = (evict_class n = 2)"
  "(nt_dismissed n = True \<and> nt_priority n = NotifyUrgent) = (evict_class n = 3)"
  "(nt_dismissed n = False \<and> nt_priority n = NotifyLow) = (evict_class n = 4)"
  by (cases "nt_priority n"; simp add: evict_class_def)+

definition evicted :: "notification list \<Rightarrow> notification list \<Rightarrow> bool" where
  "evicted ns ns' \<longleftrightarrow> (\<exists>as v bs. ns = as @ v # bs \<and> ns' = as @ bs \<and>
     (\<forall>n\<in>set as. evict_class v < evict_class n) \<and> (\<forall>n\<in>set bs. evict_class v \<le> evict_class n))"

lemma evicted_Nil [simp]: "\<not> evicted [] ns"
  by (simp add: evicted_def)

lemma evicted_first:
  assumes "find_index (\<lambda>n. evict_class n = k) ns = Some i" "\<forall>n\<in>set ns. k \<le> evict_class n"
  shows "evicted ns (remove_at i ns)"
proof -
  note cut = find_index_cut [OF assms(1)]
  have "k < evict_class n" if "n \<in> set (take i ns)" for n
  proof -
    from that obtain j where "j < i" "j < length ns" "n = ns ! j" by (auto simp: in_set_conv_nth)
    then have "evict_class n \<noteq> k" using find_index_Some [OF assms(1)] by blast
    moreover have "k \<le> evict_class n" using that assms(2) in_set_takeD by fast
    ultimately show ?thesis by simp
  qed
  moreover have "\<forall>n\<in>set (drop (Suc i) ns). k \<le> evict_class n" using assms(2) in_set_dropD by fast
  ultimately show ?thesis using cut(1,2) unfolding evicted_def remove_at_def by metis
qed

lemma next_class: "find_index (\<lambda>n. evict_class n = k) ns = None \<Longrightarrow> \<forall>n\<in>set ns. k \<le> evict_class n \<Longrightarrow> \<forall>n\<in>set ns. Suc k \<le> evict_class n"
  by (auto simp: find_index_None in_set_conv_nth) (metis le_neq_implies_less Suc_le_eq nth_mem)

lemma evict_spec:
  assumes "sorted_wrt (\<lambda>n n'. unat (nt_id n) < unat (nt_id n')) (nm_notifications m)"
    "nm_max_capacity m \<le> length (nm_notifications m)" "nm_notifications m \<noteq> []"
  shows "\<exists>ns. evict_if_needed m = m\<lparr>nm_notifications := ns\<rparr> \<and> evicted (nm_notifications m) ns"
proof -
  let ?ns = "nm_notifications m"
  let ?f = "\<lambda>k. find_index (\<lambda>n. evict_class n = k) ?ns"
  have eq: "evict_if_needed m = m\<lparr>nm_notifications := remove_at (case ?f 0 of Some i \<Rightarrow> i | None \<Rightarrow>
      case ?f 1 of Some i \<Rightarrow> i | None \<Rightarrow> case ?f 2 of Some i \<Rightarrow> i | None \<Rightarrow> case ?f 3 of Some i \<Rightarrow> i | None \<Rightarrow>
      case ?f 4 of Some i \<Rightarrow> i | None \<Rightarrow> 0) ?ns\<rparr>"
    using assms(2,3) unfolding evict_if_needed_def candidate_first [OF assms(1)] class_tests Let_def
    by (auto split: option.split)
  have c0: "\<forall>n\<in>set ?ns. 0 \<le> evict_class n" by simp
  consider k i where "?f k = Some i" "\<forall>n\<in>set ?ns. k \<le> evict_class n" "evict_if_needed m = m\<lparr>nm_notifications := remove_at i ?ns\<rparr>"
    | "\<forall>n\<in>set ?ns. 5 \<le> evict_class n" "evict_if_needed m = m\<lparr>nm_notifications := remove_at 0 ?ns\<rparr>"
  proof (cases "?f 0")
    case f0: None
    then have c1: "\<forall>n\<in>set ?ns. 1 \<le> evict_class n" using next_class [OF f0 c0] by simp
    show thesis
    proof (cases "?f 1")
      case f1: None
      then have c2: "\<forall>n\<in>set ?ns. 2 \<le> evict_class n" using next_class [OF f1 c1] by (simp add: eval_nat_numeral)
      show thesis
      proof (cases "?f 2")
        case f2: None
        then have c3: "\<forall>n\<in>set ?ns. 3 \<le> evict_class n" using next_class [OF f2 c2] by (simp add: eval_nat_numeral)
        show thesis
        proof (cases "?f 3")
          case f3: None
          then have c4: "\<forall>n\<in>set ?ns. 4 \<le> evict_class n" using next_class [OF f3 c3] by (simp add: eval_nat_numeral)
          show thesis
          proof (cases "?f 4")
            case f4: None
            then have "\<forall>n\<in>set ?ns. 5 \<le> evict_class n" using next_class [OF f4 c4] by (simp add: eval_nat_numeral)
            then show thesis by (rule that(2)) (simp add: eq f0 f1 f2 f3 f4 del: One_nat_def)
          next
            case (Some i)
            then show thesis by (rule that(1) [OF _ c4]) (simp add: eq f0 f1 f2 f3 Some del: One_nat_def)
          qed
        next
          case (Some i)
          then show thesis by (rule that(1) [OF _ c3]) (simp add: eq f0 f1 f2 Some del: One_nat_def)
        qed
      next
        case (Some i)
        then show thesis by (rule that(1) [OF _ c2]) (simp add: eq f0 f1 Some del: One_nat_def)
      qed
    next
      case (Some i)
      then show thesis by (rule that(1) [OF _ c1]) (simp add: eq f0 Some del: One_nat_def)
    qed
  next
    case (Some i)
    then show thesis by (rule that(1) [OF _ c0]) (simp add: eq Some)
  qed
  then show ?thesis
  proof cases
    case 1
    with evicted_first show ?thesis by blast
  next
    case 2
    obtain v bs where v: "?ns = v # bs" using assms(3) by (cases ?ns) auto
    have "evict_class v \<le> 5" by (cases "nt_priority v") (simp_all add: evict_class_def)
    with 2(1) v have "evicted ?ns (remove_at 0 ?ns)" unfolding evicted_def remove_at_def by (intro exI [of _ "[]"]) auto
    with 2(2) show ?thesis by blast
  qed
qed


section \<open>Posting\<close>

lemma post_result:
  assumes "notify_post a t b p c m = Some (i, m')"
  obtains n where "i = nm_next_id m" "nt_id n = i" "nt_timestamp n = 0" "nt_priority n = p" "\<not> nt_dismissed n" "nt_app_id n = a"
    "m' = (evict_if_needed m)\<lparr>nm_next_id := i + 1, nm_notifications := nm_notifications (evict_if_needed m) @ [n]\<rparr>"
proof -
  have "nm_next_id (evict_if_needed m) = nm_next_id m"
    by (simp add: evict_if_needed_def Let_def split: option.split)
  then show thesis
    using assms by (intro that [of "last (nm_notifications m')"]) (auto simp: notify_post_def Let_def split: option.splits)
qed

lemma evict_cases:
  assumes "note_inv k m"
  obtains "length (nm_notifications m) < nm_max_capacity m \<or> nm_notifications m = []" "evict_if_needed m = m"
  | ns where "nm_max_capacity m \<le> length (nm_notifications m)" "evicted (nm_notifications m) ns" "evict_if_needed m = m\<lparr>nm_notifications := ns\<rparr>"
proof (cases "length (nm_notifications m) < nm_max_capacity m \<or> nm_notifications m = []")
  case True
  then have "evict_if_needed m = m"
    by (auto simp: evict_if_needed_def Let_def)
  with True that(1) show thesis by blast
next
  case False
  with assms evict_spec [of m] that(2) show thesis by (auto simp: note_inv_def)
qed

lemma evicted_part: "evicted ns ns' \<Longrightarrow> set ns' \<subseteq> set ns \<and> Suc (length ns') = length ns"
  by (auto simp: evicted_def)

lemma post_inv:
  assumes inv: "note_inv k m" and k: "Suc k < 2 ^ 32 - 1" and post: "notify_post a t b p c m = Some (i, m')"
  shows "note_inv (Suc k) m'" "nm_max_capacity m' = nm_max_capacity m"
    "length (nm_notifications m) \<le> max 1 (nm_max_capacity m) \<Longrightarrow> length (nm_notifications m') \<le> max 1 (nm_max_capacity m)"
proof -
  obtain n where n: "i = nm_next_id m" "nt_id n = i" "nt_timestamp n = 0"
    and m': "m' = (evict_if_needed m)\<lparr>nm_next_id := i + 1, nm_notifications := nm_notifications (evict_if_needed m) @ [n]\<rparr>"
    by (rule post_result [OF post])
  have nxt: "unat (i + 1) = Suc (unat i)"
    using inv k n(1) unat_add_nowrap [of i 1] by (simp add: note_inv_def)
  have sorted: "sorted_wrt (\<lambda>n n'. unat (nt_id n) < unat (nt_id n')) (nm_notifications m)"
    and ids: "\<forall>n\<in>set (nm_notifications m). nt_timestamp n = 0 \<and> unat (nt_id n) < unat i" "unat i \<le> Suc k"
    using inv n(1) by (simp_all add: note_inv_def)
  have kept: "sorted_wrt (\<lambda>n n'. unat (nt_id n) < unat (nt_id n')) (nm_notifications (evict_if_needed m)) \<and>
      set (nm_notifications (evict_if_needed m)) \<subseteq> set (nm_notifications m) \<and> nm_max_capacity (evict_if_needed m) = nm_max_capacity m \<and>
      (length (nm_notifications m) \<le> max 1 (nm_max_capacity m) \<longrightarrow> length (nm_notifications (evict_if_needed m)) < max 1 (nm_max_capacity m))"
  proof (cases rule: evict_cases [OF inv])
    case 1
    with sorted show ?thesis by auto
  next
    case (2 ns)
    then have "sorted_wrt (\<lambda>n n'. unat (nt_id n) < unat (nt_id n')) ns" using sorted sorted_wrt_remove by (auto simp: evicted_def)
    with 2 evicted_part [OF 2(2)] show ?thesis by auto
  qed
  then show "note_inv (Suc k) m'" using ids n nxt by (fastforce simp: m' note_inv_def sorted_wrt_append)
  show "nm_max_capacity m' = nm_max_capacity m" using kept by (simp add: m')
  show "length (nm_notifications m') \<le> max 1 (nm_max_capacity m)" if "length (nm_notifications m) \<le> max 1 (nm_max_capacity m)"
    using kept that by (simp add: m' Suc_le_eq)
qed

text \<open>What holds of the manager in every state: the identifiers, the timestamps and the capacity.\<close>

definition note_ok :: "nat \<Rightarrow> nat \<Rightarrow> notification_manager \<Rightarrow> bool" where
  "note_ok c k m \<longleftrightarrow> note_inv k m \<and> nm_max_capacity m = c \<and> length (nm_notifications m) \<le> max 1 c"

lemma note_ok_same:
  assumes "note_ok c k m" "list_all2 same_note (nm_notifications m) ns"
  shows "note_ok c (Suc k) (m\<lparr>nm_notifications := ns\<rparr>)"
  using assms note_inv_same [of k m ns] note_inv_mono [of k _ "Suc k"] list_all2_lengthD [OF assms(2)] by (auto simp: note_ok_def)

lemma note_ok_map:
  "note_ok c k m \<Longrightarrow> (\<And>n. same_note n (f n)) \<Longrightarrow> note_ok c (Suc k) (m\<lparr>nm_notifications := map f (nm_notifications m)\<rparr>)"
  by (intro note_ok_same same_note_map)

lemma note_ok_dismiss: "note_ok c k m \<Longrightarrow> note_ok c (Suc k) (snd (dismiss_where P m))"
  unfolding dismiss_where_def snd_conv by (rule note_ok_map) (simp_all add: same_note_def)

lemma set_note_same:
  assumes "\<And>n. same_note n (f n)"
  shows "\<exists>ns. list_all2 same_note (nm_notifications m) ns \<and> set_note i f m = m\<lparr>nm_notifications := ns\<rparr>"
proof (cases "update_first (\<lambda>n. nt_id n = i) f (nm_notifications m)")
  case None
  then show ?thesis using same_note_refl by (intro exI [of _ "nm_notifications m"]) (simp add: set_note_def with_note_def unwrap_or_def)
next
  case (Some ns)
  then show ?thesis using same_note_update [OF Some assms] by (auto simp: set_note_def with_note_def unwrap_or_def)
qed

lemma on_note_set: "snd (on_note i f m) = set_note i f m"
  by (simp add: on_note_def set_note_def unwrap_or_def split: option.split)

lemma note_ok_set: "note_ok c k m \<Longrightarrow> (\<And>n. same_note n (f n)) \<Longrightarrow> note_ok c (Suc k) (set_note i f m)"
  using set_note_same [of f m i] note_ok_same by metis

lemma note_ok_post:
  assumes "note_ok c k m" "Suc k < 2 ^ 32 - 1" "notify_post a t b p cat m = Some (i, m')"
  shows "note_ok c (Suc k) m'"
  using assms post_inv [of k m a t b p cat i m'] by (auto simp: note_ok_def)

lemma note_ok_post_set:
  assumes "note_ok c k m" "Suc k < 2 ^ 32 - 1" "notify_post a t b p cat m = Some (i, m')" "\<And>n. same_note n (f n)"
  shows "note_ok c (Suc k) (set_note i f m')"
  using note_ok_post [OF assms(1-3)] set_note_same [OF assms(4), of m' i] note_inv_same [of "Suc k" m'] list_all2_lengthD
  by (fastforce simp: note_ok_def)

lemma note_ok_step:
  assumes ok: "note_ok c k m" and k: "Suc k < 2 ^ 32 - 1" and step: "note_step op m = Some m'"
  shows "note_ok c (Suc k) m'"
proof (cases op)
  case (PostNote a t b p cat)
  with step note_ok_post [OF ok k] show ?thesis by auto
next
  case (PostExpiring a t b p cat e)
  with step note_ok_post_set [OF ok k] show ?thesis by (auto simp: post_with_expiry_def same_note_def)
next
  case (PostProgress a t b n)
  with step note_ok_post_set [OF ok k] show ?thesis by (auto simp: post_progress_def same_note_def)
next
  case (UpdateProgress i n)
  have "note_ok c (Suc k) m" using ok note_inv_mono [of k m "Suc k"] by (simp add: note_ok_def)
  with UpdateProgress step note_ok_set [OF ok] show ?thesis by (auto simp: update_progress_def same_note_def split: option.splits if_splits)
next
  case (DismissApp a)
  with step note_ok_dismiss [OF ok] show ?thesis by (auto simp: dismiss_all_from_app_def)
next
  case (ExpireNotes t)
  with step note_ok_dismiss [OF ok] show ?thesis by (auto simp: expire_old_def)
next
  case ClearNotes
  with step note_ok_map [OF ok, of "\<lambda>n. n\<lparr>nt_dismissed := True\<rparr>"] show ?thesis by (auto simp: clear_all_notes_def same_note_def)
qed (use step note_ok_set [OF ok] in \<open>auto simp: set_action_def mark_read_def dismiss_def on_note_set same_note_def\<close>)

lemma note_ok_run: "note_run ops (notify_new c) = Some m \<Longrightarrow> length ops < 2 ^ 32 - 1 \<Longrightarrow> note_ok c (length ops) m"
proof (induction ops arbitrary: m rule: rev_induct)
  case Nil
  then show ?case using note_inv_new [of c] by (auto simp: note_ok_def notify_new_def)
next
  case (snoc op ops)
  then obtain m0 where "note_run ops (notify_new c) = Some m0" "note_step op m0 = Some m" by (auto simp: bind_eq_Some_conv)
  with snoc note_ok_step [of c "length ops" m0 op m] show ?case by simp
qed


text \<open>A post at any time leaves at most the capacity of notifications, and the new one, at the end, has an
  identifier that none of the others has. Below capacity nothing is lost. At capacity exactly one
  notification goes: the first, in the order they were posted, of the least eviction class - dismissed
  ones by priority, then low ones, then any, urgent ones included - and the others keep their order.\<close>

theorem notify_eviction:
  assumes "note_run ops (notify_new c) = Some m" "length ops < 2 ^ 32 - 2" "notify_post a t b p cat m = Some (i, m')"
  shows "length (nm_notifications m') \<le> max 1 c \<and>
    (\<exists>kept n. nm_notifications m' = kept @ [n] \<and> nt_id n = i \<and> nt_app_id n = a \<and> nt_priority n = p \<and> \<not> nt_dismissed n \<and>
       (\<forall>k\<in>set (nm_notifications m). nt_id k \<noteq> i) \<and>
       (if length (nm_notifications m) < c \<or> nm_notifications m = [] then kept = nm_notifications m
        else \<exists>as v bs. nm_notifications m = as @ v # bs \<and> kept = as @ bs \<and>
          (\<forall>k\<in>set as. evict_class v < evict_class k) \<and> (\<forall>k\<in>set bs. evict_class v \<le> evict_class k)))"
proof -
  have ok: "note_ok c (length ops) m" using note_ok_run [OF assms(1)] assms(2) by simp
  then have inv: "note_inv (length ops) m" and cap: "nm_max_capacity m = c" by (simp_all add: note_ok_def)
  have "length (nm_notifications m') \<le> max 1 c" using note_ok_post [OF ok _ assms(3)] assms(2) by (simp add: note_ok_def)
  moreover obtain n where n: "i = nm_next_id m" "nt_id n = i" "nt_priority n = p" "\<not> nt_dismissed n" "nt_app_id n = a"
    and m': "m' = (evict_if_needed m)\<lparr>nm_next_id := i + 1, nm_notifications := nm_notifications (evict_if_needed m) @ [n]\<rparr>"
    by (rule post_result [OF assms(3)])
  moreover have "\<forall>k\<in>set (nm_notifications m). nt_id k \<noteq> i" using inv n(1) by (auto simp: note_inv_def)
  moreover have "if length (nm_notifications m) < c \<or> nm_notifications m = [] then nm_notifications (evict_if_needed m) = nm_notifications m
      else evicted (nm_notifications m) (nm_notifications (evict_if_needed m))"
    by (cases rule: evict_cases [OF inv]) (auto simp: cap)
  ultimately show ?thesis
    unfolding evicted_def [symmetric] by (intro conjI exI [of _ "nm_notifications (evict_if_needed m)"] exI [of _ n]) simp_all
qed

definition two_urgent :: "note_op list" where
  "two_urgent = [PostNote ''a'' ''t'' ''b'' NotifyUrgent AlertNote, PostNote ''a'' ''u'' ''b'' NotifyUrgent AlertNote]"

text \<open>With two urgent notifications in a manager of capacity two, a low one takes the place of the first.\<close>

definition urgent_pair :: notification_manager where
  "urgent_pair = the (note_run two_urgent (notify_new 2))"

theorem notify_eviction_witness:
  "\<exists>m'. notify_post ''a'' ''v'' ''b'' NotifyLow AppNote urgent_pair = Some (3, m') \<and>
     length (nm_notifications m') \<le> 2 \<and> map nt_title (butlast (nm_notifications m')) = [''u'']"
proof -
  have m: "note_run two_urgent (notify_new 2) = Some urgent_pair" by code_simp
  have pair: "map nt_title (nm_notifications urgent_pair) = [''t'', ''u'']" "map evict_class (nm_notifications urgent_pair) = [5, 5]" by code_simp+
  have "map_option fst (notify_post ''a'' ''v'' ''b'' NotifyLow AppNote urgent_pair) = Some 3" by code_simp
  then obtain m' where post: "notify_post ''a'' ''v'' ''b'' NotifyLow AppNote urgent_pair = Some (3, m')" by auto
  have "length two_urgent < 2 ^ 32 - 2" by (simp add: two_urgent_def)
  note post' = notify_eviction [OF m this post]
  have len: "length (nm_notifications urgent_pair) = 2" using arg_cong [OF pair(1), of length] by simp
  then have no: "(length (nm_notifications urgent_pair) < 2 \<or> nm_notifications urgent_pair = []) = False" by auto
  from post' obtain kept n as v bs where k: "nm_notifications m' = kept @ [n]"
    and r: "nm_notifications urgent_pair = as @ v # bs" "kept = as @ bs" "\<forall>k\<in>set as. evict_class v < evict_class k"
    unfolding no if_False by blast
  have "\<forall>x\<in>set (map evict_class (nm_notifications urgent_pair)). x = 5" unfolding pair(2) by simp
  with r have "as = []" by (cases as) auto
  with r pair(1) post post' k show ?thesis by simp
qed

text \<open>A title of sixty-three letters and an accented one is valid UTF-8 of sixty-five bytes; cutting it panics.\<close>

lemma long_title_panics:
  "note_truncate (replicate 63 CHR ''x'' @ [char_of (195 :: nat), char_of (169 :: nat)]) TITLE_MAX_LEN = None"
  by (simp add: note_truncate_def TITLE_MAX_LEN_def is_cont_def nth_append)

section \<open>Order\<close>

text \<open>The notifications of one priority that are not dismissed, in the order they were posted.\<close>

definition active_of :: "notification_manager \<Rightarrow> notification_priority \<Rightarrow> notification list" where
  "active_of m p = filter (\<lambda>n. \<not> nt_dismissed n \<and> nt_priority n = p) (nm_notifications m)"

lemma mset_active: "mset (active_of m NotifyUrgent @ active_of m NotifyHigh @ active_of m NotifyNormal @ active_of m NotifyLow) =
    mset (filter (\<lambda>n. \<not> nt_dismissed n) (nm_notifications m))"
proof -
  have "mset (filter (\<lambda>n. \<not> nt_dismissed n \<and> nt_priority n = NotifyUrgent) ns) + (mset (filter (\<lambda>n. \<not> nt_dismissed n \<and> nt_priority n = NotifyHigh) ns) +
      (mset (filter (\<lambda>n. \<not> nt_dismissed n \<and> nt_priority n = NotifyNormal) ns) + mset (filter (\<lambda>n. \<not> nt_dismissed n \<and> nt_priority n = NotifyLow) ns))) =
      mset (filter (\<lambda>n. \<not> nt_dismissed n) ns)" for ns
  proof (induction ns)
    case (Cons n ns)
    then show ?case by (cases "nt_priority n") auto
  qed simp
  then show ?thesis by (simp add: active_of_def)
qed

lemma rank_inj: "notify_rank p = notify_rank q \<longleftrightarrow> p = q"
  by (cases p; cases q) simp_all

lemma active_sorted:
  assumes zero: "\<forall>n\<in>set (nm_notifications m). nt_timestamp n = 0"
  shows "active_notifications m = active_of m NotifyUrgent @ active_of m NotifyHigh @ active_of m NotifyNormal @ active_of m NotifyLow"
    (is "_ = ?ys")
  unfolding active_notifications_def
proof (rule properties_for_sort_key [OF mset_active])
  let ?f = "\<lambda>n. (- int (notify_rank (nt_priority n)), - uint (nt_timestamp n))"
  let ?xs = "filter (\<lambda>n. \<not> nt_dismissed n) (nm_notifications m)"
  have part: "n \<in> set (nm_notifications m)" "nt_priority n = p" "nt_timestamp n = 0" if "n \<in> set (active_of m p)" for n p
    using that zero by (auto simp: active_of_def)
  fix k
  assume "k \<in> set ?ys"
  then have k: "nt_timestamp k = 0" using zero part(1) by auto
  have "filter (\<lambda>x. ?f k = ?f x) (active_of m p) = (if p = nt_priority k then active_of m p else [])" for p
    using k zero by (auto simp: active_of_def filter_empty_conv rank_inj intro!: filter_cong)
  moreover have "filter (\<lambda>x. ?f k = ?f x) ?xs = active_of m (nt_priority k)"
    using k zero by (auto simp: active_of_def rank_inj intro!: filter_cong)
  ultimately show "filter (\<lambda>x. ?f k = ?f x) ?ys = filter (\<lambda>x. ?f k = ?f x) ?xs"
    by (cases "nt_priority k") simp_all
next
  have "sorted (map (\<lambda>n. (- int (notify_rank (nt_priority n)), - uint (nt_timestamp n))) (active_of m p))" for p
  proof -
    have "map (\<lambda>n. (- int (notify_rank (nt_priority n)), - uint (nt_timestamp n))) (active_of m p) =
        map (\<lambda>n. (- int (notify_rank p), 0)) (active_of m p)"
      using zero by (simp add: active_of_def)
    then show ?thesis by (simp only:) (simp add: sorted_map sorted_wrt_true)
  qed
  then show "sorted (map (\<lambda>n. (- int (notify_rank (nt_priority n)), - uint (nt_timestamp n))) ?ys)"
    by (auto simp: sorted_append active_of_def)
qed

lemma history_reversed:
  assumes zero: "\<forall>n\<in>set (nm_notifications m). nt_timestamp n = 0"
    and ids: "sorted_wrt (\<lambda>n n'. unat (nt_id n) < unat (nt_id n')) (nm_notifications m)"
  shows "notify_history m limit = take limit (rev (nm_notifications m))"
proof -
  let ?f = "\<lambda>n. (- uint (nt_timestamp n), - uint (nt_id n))"
  have "sorted_wrt (\<lambda>n n'. ?f n' < ?f n) (nm_notifications m)"
    by (rule sorted_wrt_mono_rel [OF _ ids]) (use zero in \<open>auto simp: word_less_nat_alt [symmetric] word_less_def\<close>)
  then have strict: "sorted_wrt (\<lambda>x y. y < x) (map ?f (nm_notifications m))" by (simp add: sorted_wrt_map)
  then have "sorted_wrt (<) (map ?f (rev (nm_notifications m)))" by (simp add: rev_map [symmetric] sorted_wrt_rev)
  then have "sorted (map ?f (rev (nm_notifications m)))" "distinct (map ?f (rev (nm_notifications m)))"
    by (simp_all only: strict_sorted_iff)
  moreover from this(2) have "inj_on ?f (set (nm_notifications m))" by (simp add: distinct_map)
  ultimately have "sort_key ?f (nm_notifications m) = rev (nm_notifications m)" by (intro sort_key_inj_key_eq) simp_all
  then show ?thesis by (simp add: notify_history_def)
qed

lemma first_min_const: "\<forall>x\<in>set xs. f x = k \<Longrightarrow> first_min f xs = (if xs = [] then None else Some (hd xs))"
proof (induction xs)
  case (Cons x xs)
  then show ?case by (cases xs) auto
qed simp

lemma find_filter: "find P xs = (if filter P xs = [] then None else Some (hd (filter P xs)))"
  by (induction xs) auto

lemma next_urgent_first:
  assumes "\<forall>n\<in>set (nm_notifications m). nt_timestamp n = 0"
  shows "next_urgent m = find pending_urgent (nm_notifications m)"
  using assms first_min_const [of "filter pending_urgent (nm_notifications m)" "\<lambda>n. unat (nt_timestamp n)" 0]
  by (simp add: next_urgent_def find_filter)

text \<open>The lists come out in this order: the active notifications by falling priority and, within a priority,
  the oldest first; the next urgent one is the oldest that is unread; the history is newest first. The
  time stamps, which the code sorts by, are zero in every notification, and a notification whose
  expiry has passed is listed until the expiry is asked for.\<close>

theorem notify_order:
  assumes "note_run ops (notify_new c) = Some m" "length ops < 2 ^ 32 - 1"
  shows "active_notifications m = active_of m NotifyUrgent @ active_of m NotifyHigh @ active_of m NotifyNormal @ active_of m NotifyLow \<and>
    next_urgent m = find pending_urgent (nm_notifications m) \<and>
    notify_history m limit = take limit (rev (nm_notifications m)) \<and>
    sorted_wrt (\<lambda>n n'. unat (nt_id n) < unat (nt_id n')) (nm_notifications m) \<and> (\<forall>n\<in>set (nm_notifications m). nt_timestamp n = 0)"
proof -
  have inv: "note_inv (length ops) m" using note_ok_run [OF assms] by (simp add: note_ok_def)
  then have zero: "\<forall>n\<in>set (nm_notifications m). nt_timestamp n = 0"
    and ids: "sorted_wrt (\<lambda>n n'. unat (nt_id n) < unat (nt_id n')) (nm_notifications m)" by (simp_all add: note_inv_def)
  show ?thesis
    using active_sorted [OF zero] history_reversed [OF zero ids] next_urgent_first [OF zero] zero ids by blast
qed

theorem notify_order_witness:
  "map nt_title (active_notifications urgent_pair) = [''t'', ''u''] \<and> map nt_title (notify_history urgent_pair 1) = [''u'']"
proof -
  have m: "note_run two_urgent (notify_new 2) = Some urgent_pair" by code_simp
  have "length two_urgent < 2 ^ 32 - 1" by (simp add: two_urgent_def)
  note order = notify_order [OF m this, of 1]
  have "map nt_title (active_of urgent_pair NotifyUrgent @ active_of urgent_pair NotifyHigh @ active_of urgent_pair NotifyNormal @
      active_of urgent_pair NotifyLow) = [''t'', ''u'']" "map nt_title (take 1 (rev (nm_notifications urgent_pair))) = [''u'']" by code_simp+
  with order show ?thesis by metis
qed

end
