(* ===== verification/Contacts.thy ===== *)
theory Contacts
  imports Json_Text Base64
begin

text \<open>
  The address book (\<open>kernel_rs/src/contact_manager.rs\<close>). Texts are UTF-8 bytes; the Base64 coder and the JSON
  helpers are those of the message queue, of which the source keeps its own copies. The file system is
  an input of \<open>load\<close> (what reading the file gave, \<open>None\<close> for an error) and an output of \<open>save\<close>.
  \<open>to_lowercase\<close> is an argument of the search, as its tables are not part of the program. The mutex
  around the singleton is never poisoned, as no operation panics while it holds the lock.
\<close>

section \<open>Data\<close>

definition MAX_CONTACTS :: nat where "MAX_CONTACTS = 128"

record contact =
  ct_id :: u32
  ct_name :: string
  ct_callsign :: string
  ct_device_id :: u32
  ct_phone :: string
  ct_ble_addr :: string
  ct_public_key :: string
  ct_notes :: string
  ct_is_emergency :: bool
  ct_created_at :: u32
  ct_updated_at :: u32

definition zero_key :: string where "zero_key = replicate 32 NUL"

definition contact_new :: "u32 \<Rightarrow> string \<Rightarrow> contact" where
  "contact_new i name =
     \<lparr>ct_id = i, ct_name = name, ct_callsign = [], ct_device_id = 0, ct_phone = [], ct_ble_addr = [],
      ct_public_key = zero_key, ct_notes = [], ct_is_emergency = False, ct_created_at = 0, ct_updated_at = 0\<rparr>"

text \<open>The C structure, its buffers as byte lists of their length.\<close>

record contact_info =
  ci_id :: u32
  ci_name :: string
  ci_callsign :: string
  ci_device_id :: u32
  ci_phone :: string
  ci_ble_addr :: string
  ci_public_key :: string
  ci_is_emergency :: bool

section \<open>Buffers\<close>

definition copy_str_to_buf :: "string \<Rightarrow> nat \<Rightarrow> string" where
  "copy_str_to_buf s n = (let len = min (length s) (n - 1) in take len s @ replicate (n - len) NUL)"

definition buf_to_string :: "string \<Rightarrow> string" where
  "buf_to_string buf = utf8_lossy (takeWhile (\<lambda>c. c \<noteq> NUL) buf)"

definition to_c_info :: "contact \<Rightarrow> contact_info" where
  "to_c_info c =
     \<lparr>ci_id = ct_id c, ci_name = copy_str_to_buf (ct_name c) 64, ci_callsign = copy_str_to_buf (ct_callsign c) 16,
      ci_device_id = ct_device_id c, ci_phone = copy_str_to_buf (ct_phone c) 24, ci_ble_addr = copy_str_to_buf (ct_ble_addr c) 24,
      ci_public_key = ct_public_key c, ci_is_emergency = ct_is_emergency c\<rparr>"

definition from_c_info :: "contact_info \<Rightarrow> contact" where
  "from_c_info i =
     \<lparr>ct_id = ci_id i, ct_name = buf_to_string (ci_name i), ct_callsign = buf_to_string (ci_callsign i),
      ct_device_id = ci_device_id i, ct_phone = buf_to_string (ci_phone i), ct_ble_addr = buf_to_string (ci_ble_addr i),
      ct_public_key = ci_public_key i, ct_notes = [], ct_is_emergency = ci_is_emergency i, ct_created_at = 0, ct_updated_at = 0\<rparr>"

section \<open>JSON\<close>

definition show_bool :: "bool \<Rightarrow> string" where
  "show_bool b = (if b then ''true'' else ''false'')"

definition contact_to_json :: "contact \<Rightarrow> string" where
  "contact_to_json c =
     (let key_b64 = base64_encode (ct_public_key c) in
      ''{'' @ quoted ''id'' @ '':'' @ show_nat (unat (ct_id c)) @
      '','' @ quoted ''name'' @ '':'' @ quoted (json_escape (ct_name c)) @
      '','' @ quoted ''callsign'' @ '':'' @ quoted (json_escape (ct_callsign c)) @
      '','' @ quoted ''device_id'' @ '':'' @ show_nat (unat (ct_device_id c)) @
      '','' @ quoted ''phone'' @ '':'' @ quoted (json_escape (ct_phone c)) @
      '','' @ quoted ''ble_addr'' @ '':'' @ quoted (json_escape (ct_ble_addr c)) @
      '','' @ quoted ''public_key'' @ '':'' @ quoted key_b64 @
      '','' @ quoted ''notes'' @ '':'' @ quoted (json_escape (ct_notes c)) @
      '','' @ quoted ''is_emergency'' @ '':'' @ show_bool (ct_is_emergency c) @
      '','' @ quoted ''created_at'' @ '':'' @ show_nat (unat (ct_created_at c)) @
      '','' @ quoted ''updated_at'' @ '':'' @ show_nat (unat (ct_updated_at c)) @ ''}'')"

text \<open>The key of a Base64 text with at least thirty-two bytes, else the one given.\<close>

definition decoded_key :: "string \<Rightarrow> string \<Rightarrow> string" where
  "decoded_key old text =
     (case base64_decode text of None \<Rightarrow> old | Some d \<Rightarrow> if 32 \<le> length d then take 32 d else old)"

definition contact_from_json :: "string \<Rightarrow> contact option" where
  "contact_from_json json =
     Option.bind (json_get_int json ''id'') (\<lambda>i.
     Option.bind (json_get_string json ''name'') (\<lambda>name.
       if name = [] then None
       else
         (let str = (\<lambda>key. unwrap_or [] (json_get_string json key));
              num = (\<lambda>key. word_of_int (unwrap_or 0 (json_get_int json key)));
              public_key = (case json_get_string json ''public_key'' of
                              None \<Rightarrow> zero_key | Some k \<Rightarrow> if k = [] then zero_key else decoded_key zero_key k)
          in Some \<lparr>ct_id = word_of_int i, ct_name = name, ct_callsign = str ''callsign'',
                ct_device_id = num ''device_id'', ct_phone = str ''phone'', ct_ble_addr = str ''ble_addr'',
                ct_public_key = public_key, ct_notes = str ''notes'',
                ct_is_emergency = unwrap_or False (json_get_bool json ''is_emergency''),
                ct_created_at = num ''created_at'', ct_updated_at = num ''updated_at''\<rparr>)))"

section \<open>vCard\<close>

definition CRLF :: string where "CRLF = [CR, LF]"

definition contact_to_vcard :: "contact \<Rightarrow> string" where
  "contact_to_vcard c =
     ''BEGIN:VCARD'' @ CRLF @ ''VERSION:3.0'' @ CRLF @ ''FN:'' @ ct_name c @ CRLF @
     (if ct_callsign c \<noteq> [] then ''NICKNAME:'' @ ct_callsign c @ CRLF else []) @
     (if ct_phone c \<noteq> [] then ''TEL:'' @ ct_phone c @ CRLF else []) @
     ''NOTE:device_id='' @ show_nat (unat (ct_device_id c)) @ '';ble_addr='' @ ct_ble_addr c @
       '';emergency='' @ show_bool (ct_is_emergency c) @ CRLF @
     (if ct_public_key c \<noteq> zero_key then ''KEY;ENCODING=BASE64:'' @ base64_encode (ct_public_key c) @ CRLF else []) @
     ''END:VCARD'' @ CRLF"

text \<open>A part of the note, and a line; both change the contact read so far.\<close>

definition vcard_note_part :: "string \<Rightarrow> contact \<Rightarrow> contact" where
  "vcard_note_part part c =
     (case strip_prefix ''device_id='' part of
        Some v \<Rightarrow> c\<lparr>ct_device_id := of_nat (unwrap_or 0 (parse_uint 10 U32_MAX v))\<rparr>
      | None \<Rightarrow>
          (case strip_prefix ''ble_addr='' part of
             Some v \<Rightarrow> c\<lparr>ct_ble_addr := v\<rparr>
           | None \<Rightarrow>
               (case strip_prefix ''emergency='' part of
                  Some v \<Rightarrow> c\<lparr>ct_is_emergency := (v = ''true'')\<rparr>
                | None \<Rightarrow> c)))"

definition vcard_line :: "string \<Rightarrow> contact \<Rightarrow> contact" where
  "vcard_line raw c =
     (let line = trim_end_matches CR raw in
      case strip_prefix ''FN:'' line of
        Some v \<Rightarrow> c\<lparr>ct_name := v\<rparr>
      | None \<Rightarrow>
          (case strip_prefix ''NICKNAME:'' line of
             Some v \<Rightarrow> c\<lparr>ct_callsign := v\<rparr>
           | None \<Rightarrow>
               (case strip_prefix ''TEL:'' line of
                  Some v \<Rightarrow> c\<lparr>ct_phone := v\<rparr>
                | None \<Rightarrow>
                    (case strip_prefix ''NOTE:'' line of
                       Some v \<Rightarrow> fold vcard_note_part (split_on CHR '';'' v) c
                     | None \<Rightarrow>
                         (case strip_prefix ''KEY;ENCODING=BASE64:'' line of
                            Some v \<Rightarrow> c\<lparr>ct_public_key := decoded_key (ct_public_key c) (trim v)\<rparr>
                          | None \<Rightarrow> c)))))"

definition contact_from_vcard :: "string \<Rightarrow> contact option" where
  "contact_from_vcard data =
     (let c = fold vcard_line (str_lines data) (contact_new 0 [])
      in if ct_name c = [] then None else Some c)"

section \<open>The manager\<close>

record contact_manager =
  cm_contacts :: "contact list"
  cm_next_id :: u32
  cm_initialized :: bool
  cm_dirty :: bool

definition contact_manager_new :: contact_manager where
  "contact_manager_new = \<lparr>cm_contacts = [], cm_next_id = 1, cm_initialized = False, cm_dirty = False\<rparr>"

definition load_contact :: "string \<Rightarrow> contact_manager \<Rightarrow> contact_manager" where
  "load_contact entry m =
     (case contact_from_json entry of
        None \<Rightarrow> m
      | Some c \<Rightarrow> m\<lparr>cm_next_id := (if cm_next_id m \<le> ct_id c then ct_id c + 1 else cm_next_id m),
                   cm_contacts := cm_contacts m @ [c]\<rparr>)"

definition load_contacts :: "string option \<Rightarrow> contact_manager \<Rightarrow> contact_manager" where
  "load_contacts file m =
     (case file of None \<Rightarrow> m | Some json \<Rightarrow> (fold load_contact (json_split_array json) m)\<lparr>cm_dirty := False\<rparr>)"

definition contacts_init :: "string option \<Rightarrow> contact_manager \<Rightarrow> int \<times> contact_manager" where
  "contacts_init file m =
     (if cm_initialized m then (ESP_OK, m) else (ESP_OK, (load_contacts file m)\<lparr>cm_initialized := True\<rparr>))"

definition contacts_json :: "contact list \<Rightarrow> string" where
  "contacts_json cs = ''['' @ [LF] @ join ('','' @ [LF]) (map (\<lambda>c. ''  '' @ contact_to_json c) cs) @ [LF] @ '']''"

text \<open>The code, the text written if any, and the state; \<open>write_ok\<close> is the outcome of \<open>fs::write\<close>.\<close>

definition contacts_save :: "bool \<Rightarrow> contact_manager \<Rightarrow> int \<times> string option \<times> contact_manager" where
  "contacts_save write_ok m =
     (if \<not> cm_initialized m then (ESP_ERR_INVALID_STATE, None, m)
      else if write_ok then (ESP_OK, Some (contacts_json (cm_contacts m)), m\<lparr>cm_dirty := False\<rparr>)
      else (ESP_ERR_INVALID_STATE, None, m))"

definition contact_add :: "string \<Rightarrow> string \<Rightarrow> u32 \<Rightarrow> string \<Rightarrow> contact_manager \<Rightarrow> int \<times> contact_manager" where
  "contact_add name callsign device_id phone m =
     (if name = [] then (ESP_ERR_INVALID_ARG, m)
      else if MAX_CONTACTS \<le> length (cm_contacts m) then (ESP_ERR_NO_MEM, m)
      else
        (let i = cm_next_id m;
             c = (contact_new i name)\<lparr>ct_callsign := callsign, ct_device_id := device_id, ct_phone := phone\<rparr>
         in (sint i, m\<lparr>cm_next_id := i + 1, cm_contacts := cm_contacts m @ [c], cm_dirty := True\<rparr>)))"

definition contact_remove :: "u32 \<Rightarrow> contact_manager \<Rightarrow> int \<times> contact_manager" where
  "contact_remove i m =
     (let kept = filter (\<lambda>c. ct_id c \<noteq> i) (cm_contacts m) in
      if length kept = length (cm_contacts m) then (ESP_ERR_NOT_FOUND, m\<lparr>cm_contacts := kept\<rparr>)
      else (ESP_OK, m\<lparr>cm_contacts := kept, cm_dirty := True\<rparr>))"

text \<open>The loops that write the first contact with an identifier.\<close>

definition with_contact :: "u32 \<Rightarrow> (contact \<Rightarrow> contact) \<Rightarrow> contact_manager \<Rightarrow> int \<times> contact_manager" where
  "with_contact i f m =
     (case update_first (\<lambda>c. ct_id c = i) f (cm_contacts m) of
        None \<Rightarrow> (ESP_ERR_NOT_FOUND, m)
      | Some cs \<Rightarrow> (ESP_OK, m\<lparr>cm_contacts := cs, cm_dirty := True\<rparr>))"

definition contact_update :: "contact_info \<Rightarrow> contact_manager \<Rightarrow> int \<times> contact_manager" where
  "contact_update info =
     with_contact (ci_id info) (\<lambda>c. c\<lparr>ct_name := buf_to_string (ci_name info), ct_callsign := buf_to_string (ci_callsign info),
       ct_device_id := ci_device_id info, ct_phone := buf_to_string (ci_phone info), ct_ble_addr := buf_to_string (ci_ble_addr info),
       ct_public_key := ci_public_key info, ct_is_emergency := ci_is_emergency info\<rparr>)"

definition contact_get :: "contact_manager \<Rightarrow> u32 \<Rightarrow> contact option" where
  "contact_get m i = find (\<lambda>c. ct_id c = i) (cm_contacts m)"

definition contact_get_at :: "contact_manager \<Rightarrow> nat \<Rightarrow> contact option" where
  "contact_get_at m k = (if k < length (cm_contacts m) then Some (cm_contacts m ! k) else None)"

definition contact_count :: "contact_manager \<Rightarrow> nat" where
  "contact_count m = length (cm_contacts m)"

definition find_by_device_id :: "contact_manager \<Rightarrow> u32 \<Rightarrow> contact option" where
  "find_by_device_id m d = find (\<lambda>c. ct_device_id c = d \<and> ct_device_id c \<noteq> 0) (cm_contacts m)"

definition find_by_phone :: "contact_manager \<Rightarrow> string \<Rightarrow> contact option" where
  "find_by_phone m p = find (\<lambda>c. ct_phone c = p \<and> ct_phone c \<noteq> []) (cm_contacts m)"

definition contact_search :: "(string \<Rightarrow> string) \<Rightarrow> contact_manager \<Rightarrow> string \<Rightarrow> contact list" where
  "contact_search to_lowercase m query =
     (let q = to_lowercase query in
      filter (\<lambda>c. str_contains (to_lowercase (ct_name c)) q \<or> str_contains (to_lowercase (ct_callsign c)) q) (cm_contacts m))"

definition get_emergency :: "contact_manager \<Rightarrow> contact list" where
  "get_emergency m = filter ct_is_emergency (cm_contacts m)"

definition set_pubkey :: "u32 \<Rightarrow> string \<Rightarrow> contact_manager \<Rightarrow> int \<times> contact_manager" where
  "set_pubkey i key = with_contact i (\<lambda>c. c\<lparr>ct_public_key := key\<rparr>)"

definition export_vcard :: "contact_manager \<Rightarrow> u32 \<Rightarrow> string option" where
  "export_vcard m i = map_option contact_to_vcard (contact_get m i)"

definition import_vcard :: "string \<Rightarrow> contact_manager \<Rightarrow> int \<times> contact_manager" where
  "import_vcard data m =
     (if MAX_CONTACTS \<le> length (cm_contacts m) then (ESP_ERR_NO_MEM, m)
      else case contact_from_vcard data of
        None \<Rightarrow> (ESP_ERR_INVALID_ARG, m)
      | Some c \<Rightarrow>
          (let i = cm_next_id m
           in (sint i, m\<lparr>cm_next_id := i + 1, cm_contacts := cm_contacts m @ [c\<lparr>ct_id := i\<rparr>], cm_dirty := True\<rparr>)))"

section \<open>The C interface\<close>

definition rs_contact_add :: "string option \<Rightarrow> string option \<Rightarrow> u32 \<Rightarrow> string option \<Rightarrow> contact_manager \<Rightarrow> int \<times> contact_manager" where
  "rs_contact_add name callsign device_id phone m =
     (case name of
        None \<Rightarrow> (ESP_ERR_INVALID_ARG, m)
      | Some n \<Rightarrow>
          if \<not> utf8_valid n then (ESP_ERR_INVALID_ARG, m)
          else contact_add n (case callsign of None \<Rightarrow> [] | Some s \<Rightarrow> cstr_or_empty s) device_id
                 (case phone of None \<Rightarrow> [] | Some s \<Rightarrow> cstr_or_empty s) m)"

definition rs_contact_update :: "contact_info option \<Rightarrow> contact_manager \<Rightarrow> int \<times> contact_manager" where
  "rs_contact_update info m = (case info of None \<Rightarrow> (ESP_ERR_INVALID_ARG, m) | Some i \<Rightarrow> contact_update i m)"

text \<open>The lookups: the code, and what is written to the structure of the caller.\<close>

definition found_info :: "bool \<Rightarrow> contact option \<Rightarrow> int \<times> contact_info option" where
  "found_info null_out r =
     (if null_out then (ESP_ERR_INVALID_ARG, None)
      else case r of Some c \<Rightarrow> (ESP_OK, Some (to_c_info c)) | None \<Rightarrow> (ESP_ERR_NOT_FOUND, None))"

definition rs_contact_get :: "u32 \<Rightarrow> bool \<Rightarrow> contact_manager \<Rightarrow> int \<times> contact_info option" where
  "rs_contact_get i null_out m = found_info null_out (contact_get m i)"

definition rs_contact_count :: "contact_manager \<Rightarrow> int" where
  "rs_contact_count m = sint (of_nat (contact_count m) :: u32)"

definition rs_contact_get_at :: "u32 \<Rightarrow> bool \<Rightarrow> contact_manager \<Rightarrow> int \<times> contact_info option" where
  "rs_contact_get_at index null_out m = found_info null_out (contact_get_at m (unat index))"

definition rs_contact_find_by_device_id :: "u32 \<Rightarrow> bool \<Rightarrow> contact_manager \<Rightarrow> int \<times> contact_info option" where
  "rs_contact_find_by_device_id d null_out m = found_info null_out (find_by_device_id m d)"

definition rs_contact_find_by_phone :: "string option \<Rightarrow> bool \<Rightarrow> contact_manager \<Rightarrow> int \<times> contact_info option" where
  "rs_contact_find_by_phone phone null_out m =
     (case phone of
        None \<Rightarrow> (ESP_ERR_INVALID_ARG, None)
      | Some p \<Rightarrow>
          if null_out then (ESP_ERR_INVALID_ARG, None)
          else if \<not> utf8_valid p then (ESP_ERR_INVALID_ARG, None)
          else found_info False (find_by_phone m p))"

text \<open>The results of a listing, as many as there is room for.\<close>

definition listed :: "u32 \<Rightarrow> contact list \<Rightarrow> int \<times> contact_info list" where
  "listed room cs =
     (let count = min (length cs) (unat room) in (sint (of_nat count :: u32), map to_c_info (take count cs)))"

definition rs_contact_search :: "(string \<Rightarrow> string) \<Rightarrow> string option \<Rightarrow> bool \<Rightarrow> u32 \<Rightarrow> contact_manager \<Rightarrow> int \<times> contact_info list" where
  "rs_contact_search to_lowercase query null_out room m =
     (case query of
        None \<Rightarrow> (ESP_ERR_INVALID_ARG, [])
      | Some q \<Rightarrow>
          if null_out then (ESP_ERR_INVALID_ARG, [])
          else if room = 0 then (0, [])
          else if \<not> utf8_valid q then (ESP_ERR_INVALID_ARG, [])
          else listed room (contact_search to_lowercase m q))"

definition rs_contact_get_emergency :: "bool \<Rightarrow> u32 \<Rightarrow> contact_manager \<Rightarrow> int \<times> contact_info list" where
  "rs_contact_get_emergency null_out room m =
     (if null_out then (ESP_ERR_INVALID_ARG, []) else if room = 0 then (0, []) else listed room (get_emergency m))"

text \<open>\<open>key\<close> is the thirty-two bytes at the pointer.\<close>

definition rs_contact_set_pubkey :: "u32 \<Rightarrow> string option \<Rightarrow> contact_manager \<Rightarrow> int \<times> contact_manager" where
  "rs_contact_set_pubkey i key m =
     (case key of None \<Rightarrow> (ESP_ERR_INVALID_ARG, m) | Some k \<Rightarrow> set_pubkey i k m)"

text \<open>The number of bytes or the code, and the bytes written to the buffer.\<close>

definition rs_contact_export_vcard :: "u32 \<Rightarrow> bool \<Rightarrow> nat \<Rightarrow> contact_manager \<Rightarrow> int \<times> string" where
  "rs_contact_export_vcard i null_buf buf_len m =
     (if null_buf \<or> buf_len = 0 then (ESP_ERR_INVALID_ARG, [])
      else case export_vcard m i of
        None \<Rightarrow> (ESP_ERR_NOT_FOUND, [])
      | Some v \<Rightarrow> if buf_len < length v then (ESP_ERR_NO_MEM, []) else (sint (of_nat (length v) :: u32), v))"

definition rs_contact_import_vcard :: "string option \<Rightarrow> contact_manager \<Rightarrow> int \<times> contact_manager" where
  "rs_contact_import_vcard data m =
     (case data of
        None \<Rightarrow> (ESP_ERR_INVALID_ARG, m)
      | Some d \<Rightarrow>
          if d = [] then (ESP_ERR_INVALID_ARG, m)
          else if \<not> utf8_valid d then (ESP_ERR_INVALID_ARG, m)
          else import_vcard d m)"

end
