(* ===== verification/Contact_Facts.thy ===== *)
theory Contact_Facts
  imports Contacts
begin

text \<open>
  Properties of the address book: what comes back from the file it was saved to and from a vCard, and that
  the list of contacts is a map from identifiers.
\<close>

section \<open>JSON\<close>




















section \<open>The file\<close>





text \<open>A book whose one contact has a quoted nickname in its name.\<close>

definition ann :: contact where
  "ann = (contact_new 7 (''Ann '' @ [DQ] @ ''A'' @ [DQ]))\<lparr>ct_phone := ''+31 6'', ct_is_emergency := True\<rparr>"


section \<open>The book as a map\<close>

datatype book_op =
    Add_contact string string u32 string
  | Remove_contact u32
  | Update_contact contact_info
  | Set_pubkey u32 string
  | Import_vcard string

fun book_step :: "book_op \<Rightarrow> contact_manager \<Rightarrow> int \<times> contact_manager" where
  "book_step (Add_contact name callsign device_id phone) = contact_add name callsign device_id phone"
| "book_step (Remove_contact i) = contact_remove i"
| "book_step (Update_contact info) = contact_update info"
| "book_step (Set_pubkey i key) = set_pubkey i key"
| "book_step (Import_vcard data) = import_vcard data"

fun book_run :: "book_op list \<Rightarrow> contact_manager \<Rightarrow> int list \<times> contact_manager" where
  "book_run [] m = ([], m)"
| "book_run (op # ops) m =
     (let (r, m') = book_step op m; (rs, m'') = book_run ops m' in (r # rs, m''))"

text \<open>What the interface promises: a finite map from identifiers to contacts, and the next identifier.\<close>

type_synonym book = "(u32 \<rightharpoonup> contact) \<times> u32"

definition spec_insert :: "contact \<Rightarrow> book \<Rightarrow> int \<times> book" where
  "spec_insert c b = (sint (snd b), (fst b)(snd b \<mapsto> c\<lparr>ct_id := snd b\<rparr>), snd b + 1)"

definition spec_change :: "u32 \<Rightarrow> (contact \<Rightarrow> contact) \<Rightarrow> book \<Rightarrow> int \<times> book" where
  "spec_change i f b =
     (case fst b i of None \<Rightarrow> (ESP_ERR_NOT_FOUND, b) | Some c \<Rightarrow> (ESP_OK, (fst b)(i \<mapsto> f c), snd b))"

definition spec_full :: "book \<Rightarrow> bool" where
  "spec_full b \<longleftrightarrow> MAX_CONTACTS \<le> card (dom (fst b))"

fun spec_step :: "book_op \<Rightarrow> book \<Rightarrow> int \<times> book" where
  "spec_step (Add_contact name callsign device_id phone) b =
     (if name = [] then (ESP_ERR_INVALID_ARG, b) else if spec_full b then (ESP_ERR_NO_MEM, b)
      else spec_insert ((contact_new 0 name)\<lparr>ct_callsign := callsign, ct_device_id := device_id, ct_phone := phone\<rparr>) b)"
| "spec_step (Remove_contact i) b =
     (if i \<in> dom (fst b) then (ESP_OK, (fst b)(i := None), snd b) else (ESP_ERR_NOT_FOUND, b))"
| "spec_step (Update_contact info) b =
     spec_change (ci_id info) (\<lambda>c. (from_c_info info)\<lparr>ct_id := ct_id c, ct_notes := ct_notes c,
       ct_created_at := ct_created_at c, ct_updated_at := ct_updated_at c\<rparr>) b"
| "spec_step (Set_pubkey i key) b = spec_change i (\<lambda>c. c\<lparr>ct_public_key := key\<rparr>) b"
| "spec_step (Import_vcard data) b =
     (if spec_full b then (ESP_ERR_NO_MEM, b)
      else case contact_from_vcard data of None \<Rightarrow> (ESP_ERR_INVALID_ARG, b) | Some c \<Rightarrow> spec_insert c b)"

fun spec_run :: "book_op list \<Rightarrow> book \<Rightarrow> int list \<times> book" where
  "spec_run [] b = ([], b)"
| "spec_run (op # ops) b = (let (r, b') = spec_step op b; (rs, b'') = spec_run ops b' in (r # rs, b''))"

definition wf_book :: "contact_manager \<Rightarrow> bool" where
  "wf_book m \<longleftrightarrow> distinct (map ct_id (cm_contacts m)) \<and> (\<forall>c\<in>set (cm_contacts m). ct_id c < cm_next_id m) \<and>
     length (cm_contacts m) \<le> MAX_CONTACTS"

definition abs_book :: "contact_manager \<Rightarrow> book" where
  "abs_book m = (contact_get m, cm_next_id m)"

lemma get_by_id: "find (\<lambda>c. ct_id c = i) cs = map_of (map (\<lambda>c. (ct_id c, c)) cs) i"
  by (induction cs) auto

lemma get_dom: "dom (\<lambda>i. find (\<lambda>c. ct_id c = i) cs) = ct_id ` set cs"
  by (simp add: get_by_id dom_map_of_conv_image_fst image_image)

lemma get_count: "wf_book m \<Longrightarrow> card (dom (contact_get m)) = length (cm_contacts m)"
  using distinct_card [of "map ct_id (cm_contacts m)"] by (simp add: wf_book_def contact_get_def [abs_def] get_dom)

lemma find_replaced:
  "\<forall>a\<in>set as. ct_id a \<noteq> i \<Longrightarrow> ct_id x = i \<Longrightarrow> ct_id y = i \<Longrightarrow>
   find (\<lambda>c. ct_id c = j) (as @ y # bs) = (if j = i then Some y else find (\<lambda>c. ct_id c = j) (as @ x # bs))"
  by (induction as) auto

lemma find_filtered:
  "find (\<lambda>c. ct_id c = j) (filter (\<lambda>c. ct_id c \<noteq> i) cs) = (if j = i then None else find (\<lambda>c. ct_id c = j) cs)"
  by (induction cs) auto

lemma insert_refines:
  assumes "wf_book m" "unat (cm_next_id m) + 1 < 2 ^ 32" "length (cm_contacts m) < MAX_CONTACTS"
    and m': "cm_contacts m' = cm_contacts m @ [c\<lparr>ct_id := cm_next_id m\<rparr>]" "cm_next_id m' = cm_next_id m + 1"
  shows "spec_insert c (abs_book m) = (sint (cm_next_id m), abs_book m') \<and> wf_book m'"
proof -
  have lt: "cm_next_id m < cm_next_id m + 1" using assms(2) unat_add_nowrap [of "cm_next_id m" 1] by (simp add: word_less_nat_alt)
  have "contact_get m' = (contact_get m)(cm_next_id m \<mapsto> c\<lparr>ct_id := cm_next_id m\<rparr>)"
    using assms(1) m'(1) by (fastforce simp: contact_get_def [abs_def] wf_book_def table_simps get_by_id map_add_def dest: map_of_SomeD split: option.splits)
  moreover have "wf_book m'" using assms(1,3) m' lt by (auto simp: wf_book_def dest: order.strict_trans)
  ultimately show ?thesis by (simp add: spec_insert_def abs_book_def m'(2))
qed

lemma change_refines:
  assumes "wf_book m" "\<And>c. ct_id (f c) = ct_id c"
  shows "spec_change i f (abs_book m) = (fst (with_contact i f m), abs_book (snd (with_contact i f m))) \<and> wf_book (snd (with_contact i f m))
    \<and> cm_next_id (snd (with_contact i f m)) = cm_next_id m"
proof (cases "update_first (\<lambda>c. ct_id c = i) f (cm_contacts m)")
  case None
  then have "contact_get m i = None" by (simp add: contact_get_def find_None_iff update_first_None)
  with None assms(1) show ?thesis by (simp add: with_contact_def spec_change_def abs_book_def)
next
  case (Some ys)
  obtain as x bs where split: "cm_contacts m = as @ x # bs" "\<forall>a\<in>set as. ct_id a \<noteq> i" "ct_id x = i" "ys = as @ f x # bs"
    using update_first_split [OF Some] by blast
  have ids: "map ct_id ys = map ct_id (cm_contacts m)" using split assms(2) by simp
  have x: "contact_get m i = Some x" using split by (simp add: contact_get_def find_append_miss)
  have "find (\<lambda>c. ct_id c = j) ys = ((contact_get m)(i \<mapsto> f x)) j" for j
    using find_replaced [OF split(2,3), of "f x" j bs] assms(2) split by (simp add: contact_get_def)
  then have get: "(\<lambda>j. find (\<lambda>c. ct_id c = j) ys) = (contact_get m)(i \<mapsto> f x)" by blast
  have "ct_id ` set ys = ct_id ` set (cm_contacts m)"
    using arg_cong [OF ids, of set] by simp
  then have "ct_id c \<in> ct_id ` set (cm_contacts m)" if "c \<in> set ys" for c using that by blast
  then have "\<forall>c\<in>set ys. ct_id c < cm_next_id m" using assms(1) by (fastforce simp: wf_book_def)
  moreover have "distinct (map ct_id ys)" "length ys \<le> MAX_CONTACTS"
    using assms(1) ids update_first_length [OF Some] by (simp_all add: wf_book_def)
  ultimately show ?thesis
    using Some x get by (simp add: with_contact_def spec_change_def abs_book_def wf_book_def contact_get_def [abs_def])
qed

lemma remove_refines:
  assumes "wf_book m"
  shows "spec_step (Remove_contact i) (abs_book m) = (fst (contact_remove i m), abs_book (snd (contact_remove i m))) \<and>
    wf_book (snd (contact_remove i m)) \<and> cm_next_id (snd (contact_remove i m)) = cm_next_id m"
proof -
  let ?kept = "filter (\<lambda>c. ct_id c \<noteq> i) (cm_contacts m)"
  have get: "find (\<lambda>c. ct_id c = j) ?kept = ((contact_get m)(i := None)) j" for j
    by (simp add: contact_get_def find_filtered)
  have dom: "i \<in> dom (contact_get m) \<longleftrightarrow> (\<exists>c\<in>set (cm_contacts m). ct_id c = i)"
    by (auto simp: contact_get_def [abs_def] get_dom)
  have all: "length ?kept = length (cm_contacts m) \<longleftrightarrow> (\<forall>c\<in>set (cm_contacts m). ct_id c \<noteq> i)"
    by (metis (mono_tags, lifting) filter_True length_filter_less less_irrefl)
  have "distinct (map ct_id ?kept)" "length ?kept \<le> MAX_CONTACTS"
    using assms order.trans [OF length_filter_le] by (auto simp: wf_book_def distinct_map_filter)
  then have wf: "wf_book (m\<lparr>cm_contacts := ?kept, cm_dirty := d\<rparr>)" for d using assms by (auto simp: wf_book_def)
  show ?thesis
  proof (cases "i \<in> dom (contact_get m)")
    case True
    then have "length ?kept \<noteq> length (cm_contacts m)" using dom all by blast
    with True wf [of True] get show ?thesis by (simp add: contact_remove_def abs_book_def contact_get_def [abs_def] fun_eq_iff)
  next
    case False
    then have "\<forall>c\<in>set (cm_contacts m). ct_id c \<noteq> i" using dom by blast
    then have "?kept = cm_contacts m" by simp
    with False assms show ?thesis by (simp add: contact_remove_def abs_book_def)
  qed
qed

lemma book_step_refines:
  assumes wf: "wf_book m" and room: "unat (cm_next_id m) + 1 < 2 ^ 32" and m': "book_step op m = (r, m')"
  shows "spec_step op (abs_book m) = (r, abs_book m')" "wf_book m'" "unat (cm_next_id m') \<le> unat (cm_next_id m) + 1"
proof -
  have full: "spec_full (abs_book m) \<longleftrightarrow> MAX_CONTACTS \<le> length (cm_contacts m)"
    using get_count [OF wf] by (simp add: spec_full_def abs_book_def)
  have next_id: "unat (cm_next_id m + 1) = unat (cm_next_id m) + 1" using room unat_add_nowrap [of "cm_next_id m" 1] by simp
  have "spec_step op (abs_book m) = (r, abs_book m') \<and> wf_book m' \<and> unat (cm_next_id m') \<le> unat (cm_next_id m) + 1"
  proof (cases op)
    case (Add_contact name callsign device_id phone)
    define c where "c = (contact_new 0 name)\<lparr>ct_callsign := callsign, ct_device_id := device_id, ct_phone := phone\<rparr>"
    have new: "(contact_new i name)\<lparr>ct_callsign := callsign, ct_device_id := device_id, ct_phone := phone\<rparr> = c\<lparr>ct_id := i\<rparr>" for i
      by (simp add: c_def contact_new_def)
    have spec: "spec_step op b = (if name = [] then (ESP_ERR_INVALID_ARG, b) else if spec_full b then (ESP_ERR_NO_MEM, b) else spec_insert c b)" for b
      by (simp add: Add_contact c_def)
    have "contact_add name callsign device_id phone m = (r, m')" using m' Add_contact by simp
    then have add: "(if name = [] then (ESP_ERR_INVALID_ARG, m) else if MAX_CONTACTS \<le> length (cm_contacts m) then (ESP_ERR_NO_MEM, m)
        else (sint (cm_next_id m), m\<lparr>cm_next_id := cm_next_id m + 1, cm_contacts := cm_contacts m @ [c\<lparr>ct_id := cm_next_id m\<rparr>], cm_dirty := True\<rparr>))
        = (r, m')"
      by (simp only: contact_add_def Let_def new)
    show ?thesis
    proof (cases "name = [] \<or> MAX_CONTACTS \<le> length (cm_contacts m)")
      case True
      with add wf full show ?thesis by (cases "name = []") (auto simp: spec)
    next
      case False
      with add have r: "r = sint (cm_next_id m)" and m1: "cm_contacts m' = cm_contacts m @ [c\<lparr>ct_id := cm_next_id m\<rparr>]" "cm_next_id m' = cm_next_id m + 1"
        by auto
      from insert_refines [OF wf room _ m1] False show ?thesis by (simp add: spec full r m1(2) next_id)
    qed
  next
    case (Import_vcard data)
    show ?thesis
    proof (cases "contact_from_vcard data")
      case None
      with Import_vcard m' wf full show ?thesis by (auto simp: import_vcard_def split: if_splits)
    next
      case (Some c)
      with Import_vcard m' wf full insert_refines [OF wf room, of m' c] next_id show ?thesis
        by (auto simp: import_vcard_def Let_def split: if_splits)
    qed
  next
    case (Update_contact info)
    let ?f = "\<lambda>c. (from_c_info info)\<lparr>ct_id := ct_id c, ct_notes := ct_notes c, ct_created_at := ct_created_at c, ct_updated_at := ct_updated_at c\<rparr>"
    have "contact_update info m = with_contact (ci_id info) ?f m"
      by (simp add: contact_update_def from_c_info_def) (rule arg_cong [where f = "\<lambda>f. with_contact (ci_id info) f m"], simp add: fun_eq_iff)
    with change_refines [OF wf, of ?f "ci_id info"] m' Update_contact show ?thesis by simp
  next
    case (Set_pubkey i key)
    with change_refines [OF wf, of "\<lambda>c. c\<lparr>ct_public_key := key\<rparr>" i] m' show ?thesis by (simp add: set_pubkey_def)
  next
    case (Remove_contact i)
    with remove_refines [OF wf, of i] m' show ?thesis by simp
  qed
  then show "spec_step op (abs_book m) = (r, abs_book m')" "wf_book m'" "unat (cm_next_id m') \<le> unat (cm_next_id m) + 1"
    by blast+
qed

text \<open>C36. Seen from outside, the address book is a map from identifiers to contacts: every sequence of
  additions, removals, updates, key changes and vCard imports gives the codes and the contacts that the
  map gives, with a fresh identifier for every new contact, an update that keeps the notes and the times,
  and never more than 128 contacts. This is as long as the identifiers last.\<close>

theorem contacts_refine_map:
  assumes "wf_book m" "unat (cm_next_id m) + length ops < 2 ^ 32" "book_run ops m = (rs, m')"
  shows "spec_run ops (abs_book m) = (rs, abs_book m') \<and> wf_book m' \<and> contact_count m' \<le> 128 \<and>
    card (dom (contact_get m')) = contact_count m'"
proof -
  have "spec_run ops (abs_book m) = (rs, abs_book m') \<and> wf_book m'"
    using assms
  proof (induction ops arbitrary: m rs)
    case (Cons op ops)
    obtain r m1 where step: "book_step op m = (r, m1)" by fastforce
    moreover obtain rs' m2 where run: "book_run ops m1 = (rs', m2)" by fastforce
    ultimately have [simp]: "rs = r # rs'" "m2 = m'" using Cons.prems(3) by simp_all
    note s = book_step_refines [OF Cons.prems(1) _ step]
    have "unat (cm_next_id m) + 1 < 2 ^ 32" using Cons.prems(2) by simp
    with s Cons.prems(2) Cons.IH [of m1 rs'] run show ?case by (simp add: Let_def)
  qed simp
  then show ?thesis using get_count [of m'] by (auto simp: wf_book_def contact_count_def MAX_CONTACTS_def)
qed

theorem contacts_refine_map_witness:
  "fst (spec_run [Add_contact ''Ann'' [] 5 [], Add_contact [] [] 0 [], Add_contact ''Bo'' [] 0 [], Remove_contact 1, Set_pubkey 1 zero_key]
     (abs_book contact_manager_new)) = [1, 0x102, 2, 0, 0x105]"
proof -
  let ?ops = "[Add_contact ''Ann'' [] 5 [], Add_contact [] [] 0 [], Add_contact ''Bo'' [] 0 [], Remove_contact 1, Set_pubkey 1 zero_key]"
  obtain rs m' where run: "book_run ?ops contact_manager_new = (rs, m')" by fastforce
  then have "rs = [1, 0x102, 2, 0, 0x105]"
    by (auto simp: contact_add_def contact_remove_def set_pubkey_def with_contact_def contact_manager_new_def contact_new_def MAX_CONTACTS_def Let_def)
  moreover have "wf_book contact_manager_new" by (simp add: wf_book_def contact_manager_new_def)
  ultimately show ?thesis using contacts_refine_map [OF _ _ run] by (simp add: contact_manager_new_def)
qed

section \<open>vCards\<close>

text \<open>Texts that go into a line of a card.\<close>

definition card_text :: "string \<Rightarrow> bool" where
  "card_text s \<longleftrightarrow> LF \<notin> set s \<and> CR \<notin> set s"

lemma trim_end_none: "d \<notin> set s \<Longrightarrow> trim_end_matches d s = s"
  using trim_end_matches_replicate [of s d 0] last_in_set [of s] by fastforce

lemma str_lines_crlf:
  "list_all card_text ls \<Longrightarrow> str_lines (concat (map (\<lambda>l. l @ CRLF) ls)) = ls"
proof (induction ls)
  case (Cons l ls)
  have "LF \<noteq> CR" by (simp add: char_defs)
  with Cons show ?case
    using str_lines_Cons [of "l @ [CR]" "concat (map (\<lambda>l. l @ CRLF) ls)"] by (simp add: CRLF_def card_text_def strip_cr_def)
qed (simp add: str_lines_def)

lemma unat_u32_max: "unat (w :: u32) \<le> U32_MAX"
proof -
  have "unat w < 2 ^ LENGTH(32)" by (rule unsigned_less)
  then show ?thesis by (simp add: U32_MAX_def)
qed

definition note_text :: "contact \<Rightarrow> string" where
  "note_text c = join '';'' [''device_id='' @ show_nat (unat (ct_device_id c)), ''ble_addr='' @ ct_ble_addr c,
     ''emergency='' @ show_bool (ct_is_emergency c)]"

definition vcard_lines :: "contact \<Rightarrow> string list" where
  "vcard_lines c =
     [''BEGIN:VCARD'', ''VERSION:3.0'', ''FN:'' @ ct_name c] @
     (if ct_callsign c \<noteq> [] then [''NICKNAME:'' @ ct_callsign c] else []) @
     (if ct_phone c \<noteq> [] then [''TEL:'' @ ct_phone c] else []) @ [''NOTE:'' @ note_text c] @
     (if ct_public_key c \<noteq> zero_key then [''KEY;ENCODING=BASE64:'' @ base64_encode (ct_public_key c)] else []) @ [''END:VCARD'']"

lemma contact_to_vcard_lines: "contact_to_vcard c = concat (map (\<lambda>l. l @ CRLF) (vcard_lines c))"
  by (simp add: contact_to_vcard_def vcard_lines_def note_text_def)

lemma vcard_line_fields:
  assumes "card_text v"
  shows "vcard_line (''FN:'' @ v) c = c\<lparr>ct_name := v\<rparr>" "vcard_line (''NICKNAME:'' @ v) c = c\<lparr>ct_callsign := v\<rparr>"
    "vcard_line (''TEL:'' @ v) c = c\<lparr>ct_phone := v\<rparr>" "vcard_line (''NOTE:'' @ v) c = fold vcard_note_part (split_on CHR '';'' v) c"
    "vcard_line (''KEY;ENCODING=BASE64:'' @ v) c = c\<lparr>ct_public_key := decoded_key (ct_public_key c) (trim v)\<rparr>"
proof -
  have t: "trim_end_matches CR (''FN:'' @ v) = ''FN:'' @ v" "trim_end_matches CR (''NICKNAME:'' @ v) = ''NICKNAME:'' @ v"
    "trim_end_matches CR (''TEL:'' @ v) = ''TEL:'' @ v" "trim_end_matches CR (''NOTE:'' @ v) = ''NOTE:'' @ v"
    "trim_end_matches CR (''KEY;ENCODING=BASE64:'' @ v) = ''KEY;ENCODING=BASE64:'' @ v"
    by (rule trim_end_none; use assms in \<open>simp add: card_text_def CR_def\<close>)+
  show "vcard_line (''FN:'' @ v) c = c\<lparr>ct_name := v\<rparr>" "vcard_line (''NICKNAME:'' @ v) c = c\<lparr>ct_callsign := v\<rparr>"
    "vcard_line (''TEL:'' @ v) c = c\<lparr>ct_phone := v\<rparr>" "vcard_line (''NOTE:'' @ v) c = fold vcard_note_part (split_on CHR '';'' v) c"
    "vcard_line (''KEY;ENCODING=BASE64:'' @ v) c = c\<lparr>ct_public_key := decoded_key (ct_public_key c) (trim v)\<rparr>"
    unfolding vcard_line_def Let_def t by simp_all
qed

lemma vcard_line_frame:
  "vcard_line ''BEGIN:VCARD'' c = c" "vcard_line ''VERSION:3.0'' c = c" "vcard_line ''END:VCARD'' c = c"
  by (simp_all add: vcard_line_def trim_end_none CR_def)

lemma show_nat_card: "c \<in> set (show_nat n) \<Longrightarrow> c \<noteq> LF \<and> c \<noteq> CR \<and> c \<noteq> CHR '';''"
  using show_nat_digits by (fastforce simp: is_digit_def char_defs)

lemma note_read:
  assumes "CHR '';'' \<notin> set (ct_ble_addr c)"
  shows "fold vcard_note_part (split_on CHR '';'' (note_text c)) d =
    d\<lparr>ct_device_id := ct_device_id c, ct_ble_addr := ct_ble_addr c, ct_is_emergency := ct_is_emergency c\<rparr>"
proof -
  let ?ps = "[''device_id='' @ show_nat (unat (ct_device_id c)), ''ble_addr='' @ ct_ble_addr c, ''emergency='' @ show_bool (ct_is_emergency c)]"
  have "split_on CHR '';'' (note_text c) = ?ps"
    unfolding note_text_def using assms show_nat_card by (intro split_on_join) (auto simp: show_bool_def)
  moreover have "unat (ct_device_id c) \<le> U32_MAX" by (rule unat_u32_max)
  ultimately show ?thesis by (simp add: vcard_note_part_def parse_uint_show_nat unwrap_or_def show_bool_def)
qed

text \<open>A contact exported as a vCard and imported again is the contact: name, callsign, device, phone,
  Bluetooth address, emergency flag and public key, with only the notes, the times and the identifier
  lost. Its name must not be empty, its texts must not hold line ends, its Bluetooth address no semicolon.\<close>

theorem vcard_roundtrip:
  assumes name: "ct_name c \<noteq> []"
    and texts: "list_all card_text [ct_name c, ct_callsign c, ct_phone c, ct_ble_addr c]"
    and addr: "CHR '';'' \<notin> set (ct_ble_addr c)" and key: "length (ct_public_key c) = 32"
  shows "contact_from_vcard (contact_to_vcard c) = Some (c\<lparr>ct_id := 0, ct_notes := [], ct_created_at := 0, ct_updated_at := 0\<rparr>)"
proof -
  let ?b = "base64_encode (ct_public_key c)"
  have plain: "b64_text_char x \<Longrightarrow> x \<noteq> LF \<and> x \<noteq> CR \<and> not_ws_byte x" for x
    by (auto simp: b64_text_char_def char_class_defs char_defs not_ws_byte_def)
  have chars: "\<forall>x\<in>set ?b. b64_text_char x" using encode_text by (auto simp: list_all_iff)
  have b: "card_text ?b" "trim ?b = ?b" using chars plain trim_id by (auto simp: card_text_def)
  have nt: "card_text (note_text c)"
    using texts show_nat_card by (auto simp: note_text_def card_text_def show_bool_def char_defs)
  have "list_all card_text (vcard_lines c)"
    using texts b nt by (simp add: vcard_lines_def card_text_def char_defs)
  then have lines: "str_lines (contact_to_vcard c) = vcard_lines c" by (simp only: contact_to_vcard_lines str_lines_crlf)
  have "decoded_key k ?b = ct_public_key c" for k using key by (simp add: decoded_key_def decode_encode)
  then have "fold vcard_line (vcard_lines c) (contact_new 0 []) =
      c\<lparr>ct_id := 0, ct_notes := [], ct_created_at := 0, ct_updated_at := 0\<rparr>"
    using texts b nt
    by (simp add: vcard_lines_def vcard_line_fields [simplified] vcard_line_frame [simplified] note_read [OF addr] contact_new_def)
  then show ?thesis using name by (simp add: contact_from_vcard_def lines Let_def)
qed

theorem vcard_roundtrip_witness:
  "contact_from_vcard (contact_to_vcard ann) = Some (ann\<lparr>ct_id := 0\<rparr>)"
  using vcard_roundtrip [of ann] by (simp add: ann_def contact_new_def card_text_def zero_key_def char_defs)

end
