(* ===== verification/Signing.thy ===== *)
theory Signing
  imports Rust_Str
begin

text \<open>
  Detached Ed25519 signatures (\<open>kernel_rs/src/signing.rs\<close>). The curve arithmetic is the crate
  \<open>ed25519-dalek\<close>, an argument of the definitions: parsing a key, verifying a message, and verifying one
  piece by piece. Reading a file is what opening and reading its path gives, an input. Pointers to
  buffers of a fixed length are the bytes behind them, \<open>None\<close> for null. The lock is never poisoned.
\<close>

section \<open>Arguments\<close>

record ('k, 'v) ed25519 =
  key_from_bytes :: "string \<Rightarrow> 'k option"
  key_verifies :: "'k \<Rightarrow> string \<Rightarrow> string \<Rightarrow> bool"
  stream_start :: "'k \<Rightarrow> string \<Rightarrow> 'v option"
  stream_update :: "'v \<Rightarrow> string \<Rightarrow> 'v"
  stream_verifies :: "'v \<Rightarrow> bool"

datatype file_state = Absent | Unopenable | Unreadable | Contents string

text \<open>\<open>Read::read\<close> with the length of its buffer, and the closure that takes the verified pieces.\<close>

type_synonym 'r sized_reader = "nat \<Rightarrow> 'r \<Rightarrow> (nat + string) \<times> 'r"
type_synonym 'w consumer = "string \<Rightarrow> 'w \<Rightarrow> (int + unit) \<times> 'w"

section \<open>State\<close>

record 'k signing_state =
  verifying_key :: "'k option"
  hex_buf :: string

definition signing_new :: "'k signing_state" where
  "signing_new = \<lparr>verifying_key = None, hex_buf = replicate 65 NUL\<rparr>"

section \<open>Helpers\<close>

definition HEX :: string where "HEX = ''0123456789abcdef''"

definition bytes_to_hex :: "string \<Rightarrow> string" where
  "bytes_to_hex bytes = concat (map (\<lambda>b. [HEX ! drop_bit 4 (code b), HEX ! (code b AND 0x0F)]) bytes)"

definition sig_path_for :: "string \<Rightarrow> string" where
  "sig_path_for elf_path = elf_path @ ''.sig''"

definition read_file_bounded :: "(string \<Rightarrow> file_state) \<Rightarrow> string \<Rightarrow> nat \<Rightarrow> int + string" where
  "read_file_bounded files path max_size =
     (case files path of
        Contents s \<Rightarrow>
          (let bytes = take (max_size + 1) s
           in if max_size < length bytes then Inl ESP_ERR_INVALID_SIZE else Inr bytes)
      | _ \<Rightarrow> Inl ESP_ERR_NOT_FOUND)"

definition MAX_VERIFY_SIZE :: nat where "MAX_VERIFY_SIZE = 16777216"

section \<open>Operations\<close>

definition signing_init :: "('k, 'v) ed25519 \<Rightarrow> string option \<Rightarrow> 'k signing_state \<Rightarrow> int \<times> 'k signing_state" where
  "signing_init crypto key st =
     (case key of
        None \<Rightarrow> (ESP_ERR_INVALID_ARG, st)
      | Some key_bytes \<Rightarrow>
          (case key_from_bytes crypto key_bytes of
             None \<Rightarrow> (ESP_ERR_INVALID_ARG, st)
           | Some k \<Rightarrow> (ESP_OK, st\<lparr>hex_buf := bytes_to_hex key_bytes @ [NUL], verifying_key := Some k\<rparr>)))"

definition signing_verify :: "('k, 'v) ed25519 \<Rightarrow> 'k signing_state \<Rightarrow> string option \<Rightarrow> string option \<Rightarrow> int" where
  "signing_verify crypto st data signature =
     (case (data, signature) of
        (Some bytes, Some sig_bytes) \<Rightarrow>
          (case verifying_key st of
             None \<Rightarrow> ESP_ERR_INVALID_STATE
           | Some k \<Rightarrow> if key_verifies crypto k bytes sig_bytes then ESP_OK else ESP_ERR_INVALID_CRC)
      | _ \<Rightarrow> ESP_ERR_INVALID_ARG)"

definition verify_file_bytes ::
  "('k, 'v) ed25519 \<Rightarrow> 'k signing_state \<Rightarrow> (string \<Rightarrow> file_state) \<Rightarrow> string \<Rightarrow> string \<Rightarrow> int" where
  "verify_file_bytes crypto st files path file_bytes =
     (if MAX_VERIFY_SIZE < length file_bytes then ESP_ERR_INVALID_SIZE
      else case read_file_bounded files (sig_path_for path) 64 of
        Inl e \<Rightarrow> e
      | Inr sig_bytes \<Rightarrow>
          if length sig_bytes \<noteq> 64 then ESP_ERR_INVALID_SIZE
          else signing_verify crypto st (Some file_bytes) (Some sig_bytes))"

definition signing_verify_file ::
  "('k, 'v) ed25519 \<Rightarrow> 'k signing_state \<Rightarrow> (string \<Rightarrow> file_state) \<Rightarrow> string option \<Rightarrow> int" where
  "signing_verify_file crypto st files elf_path =
     (case elf_path of
        None \<Rightarrow> ESP_ERR_INVALID_ARG
      | Some path \<Rightarrow>
          if \<not> utf8_valid path then ESP_ERR_INVALID_ARG
          else case read_file_bounded files path MAX_VERIFY_SIZE of
            Inl e \<Rightarrow> e
          | Inr elf_bytes \<Rightarrow> verify_file_bytes crypto st files path elf_bytes)"

definition signing_has_signature :: "(string \<Rightarrow> file_state) \<Rightarrow> string option \<Rightarrow> bool" where
  "signing_has_signature files elf_path =
     (case elf_path of None \<Rightarrow> False | Some path \<Rightarrow> utf8_valid path \<and> files (sig_path_for path) \<noteq> Absent)"

text \<open>The string a C caller sees at the pointer.\<close>

definition signing_get_public_key_hex :: "'k signing_state \<Rightarrow> string" where
  "signing_get_public_key_hex st = takeWhile (\<lambda>c. c \<noteq> NUL) (hex_buf st)"

text \<open>The loop of the streaming verification; a round that goes on has read at least one byte.\<close>

function verify_loop ::
  "('v \<Rightarrow> string \<Rightarrow> 'v) \<Rightarrow> 'r sized_reader \<Rightarrow> 'w consumer \<Rightarrow> nat \<Rightarrow> nat \<Rightarrow> 'v \<Rightarrow> 'r \<Rightarrow> 'w \<Rightarrow> (int + 'v) \<times> 'r \<times> 'w" where
  "verify_loop update read consume expected_size consumed v r w =
     (if expected_size \<le> consumed then (Inr v, r, w)
      else case read (min 4096 (expected_size - consumed)) r of
        (Inl e, r') \<Rightarrow> (Inl ESP_ERR_INVALID_SIZE, r', w)
      | (Inr chunk, r') \<Rightarrow>
          if chunk = [] then (Inl ESP_ERR_INVALID_SIZE, r', w)
          else case consume chunk w of
            (Inl e, w') \<Rightarrow> (Inl e, r', w')
          | (Inr _, w') \<Rightarrow> verify_loop update read consume expected_size (consumed + length chunk) (update v chunk) r' w')"
  by pat_completeness auto
termination
  by (relation "measure (\<lambda>(update, read, consume, n, consumed, v, r, w). n - consumed)")
    (auto simp: not_le intro!: diff_less_mono2)

declare verify_loop.simps [simp del]

definition verify_exact_reader_with ::
  "('k, 'v) ed25519 \<Rightarrow> 'k signing_state \<Rightarrow> 'r sized_reader \<Rightarrow> 'w consumer \<Rightarrow> nat \<Rightarrow> string \<Rightarrow> 'r \<Rightarrow> 'w \<Rightarrow> (int + unit) \<times> 'w" where
  "verify_exact_reader_with crypto st read consume expected_size signature r w =
     (if expected_size = 0 \<or> MAX_VERIFY_SIZE < expected_size \<or> length signature \<noteq> 64 then (Inl ESP_ERR_INVALID_SIZE, w)
      else case verifying_key st of
        None \<Rightarrow> (Inl ESP_ERR_INVALID_STATE, w)
      | Some k \<Rightarrow>
          (case stream_start crypto k signature of
             None \<Rightarrow> (Inl ESP_ERR_INVALID_CRC, w)
           | Some v \<Rightarrow>
               (case verify_loop (stream_update crypto) read consume expected_size 0 v r w of
                  (Inl e, _, w') \<Rightarrow> (Inl e, w')
                | (Inr v', r', w') \<Rightarrow>
                    (case read 1 r' of
                       (Inl _, _) \<Rightarrow> (Inl ESP_ERR_INVALID_SIZE, w')
                     | (Inr extra, _) \<Rightarrow>
                         if extra \<noteq> [] then (Inl ESP_ERR_INVALID_SIZE, w')
                         else if stream_verifies crypto v' then (Inr (), w') else (Inl ESP_ERR_INVALID_CRC, w')))))"

section \<open>What a stream delivers\<close>

text \<open>The contracts of \<open>Read::read\<close> and of the streaming verifier, as their documentation states them: a read
  puts no more into the buffer than it holds; the pieces verify exactly if the whole message does.\<close>

definition fits_buffer :: "'r sized_reader \<Rightarrow> bool" where
  "fits_buffer read \<longleftrightarrow> (\<forall>n r c r'. read n r = (Inr c, r') \<longrightarrow> length c \<le> n)"

definition stream_contract :: "('k, 'v) ed25519 \<Rightarrow> bool" where
  "stream_contract crypto \<longleftrightarrow>
     (\<forall>k s. case stream_start crypto k s of
        None \<Rightarrow> \<forall>m. \<not> key_verifies crypto k m s
      | Some v \<Rightarrow> \<forall>cs. stream_verifies crypto (fold (\<lambda>c v. stream_update crypto v c) cs v) = key_verifies crypto k (concat cs) s)"

text \<open>The pieces of the next \<open>n\<close> bytes, and a consumer that accepts pieces one after the other.\<close>

fun reads :: "'r sized_reader \<Rightarrow> nat \<Rightarrow> 'r \<Rightarrow> string list \<Rightarrow> 'r \<Rightarrow> bool" where
  "reads read n r [] r' \<longleftrightarrow> n = 0 \<and> r' = r"
| "reads read n r (c # cs) r' \<longleftrightarrow>
     n \<noteq> 0 \<and> c \<noteq> [] \<and> fst (read (min 4096 n) r) = Inr c \<and> reads read (n - length c) (snd (read (min 4096 n) r)) cs r'"

fun accepts_all :: "'w consumer \<Rightarrow> string list \<Rightarrow> 'w \<Rightarrow> 'w \<Rightarrow> bool" where
  "accepts_all consume [] w w' \<longleftrightarrow> w' = w"
| "accepts_all consume (c # cs) w w' \<longleftrightarrow> fst (consume c w) = Inr () \<and> accepts_all consume cs (snd (consume c w)) w'"

lemma reads_length:
  assumes "fits_buffer read"
  shows "reads read n r cs r' \<Longrightarrow> length (concat cs) = n"
proof (induction cs arbitrary: n r)
  case (Cons c cs)
  then have "read (min 4096 n) r = (Inr c, snd (read (min 4096 n) r))" by (simp add: prod_eq_iff)
  then have "length c \<le> n" using assms unfolding fits_buffer_def by (meson min.boundedE)
  with Cons show ?case by fastforce
qed simp

lemma ex_list: "(\<exists>xs. P xs) \<longleftrightarrow> P [] \<or> (\<exists>x xs. P (x # xs))"
  by (metis neq_Nil_conv)

lemma verify_loop_Inr:
  "verify_loop update read consume n consumed v r w = (Inr v', r', w') \<longleftrightarrow>
    (\<exists>cs. reads read (n - consumed) r cs r' \<and> accepts_all consume cs w w' \<and> v' = fold (\<lambda>c v. update v c) cs v)"
proof (induction "n - consumed" arbitrary: consumed v r w rule: less_induct)
  case less
  show ?case
  proof (cases "n \<le> consumed")
    case True
    then show ?thesis by (subst ex_list) (auto simp: verify_loop.simps)
  next
    case False
    obtain x r1 where rd: "read (min 4096 (n - consumed)) r = (x, r1)" by fastforce
    show ?thesis
    proof (cases "\<exists>c w1. x = Inr c \<and> c \<noteq> [] \<and> consume c w = (Inr (), w1)")
      case True
      then obtain c w1 where c: "x = Inr c" "c \<noteq> []" "consume c w = (Inr (), w1)" by blast
      have loop: "verify_loop update read consume n consumed v r w =
          verify_loop update read consume n (consumed + length c) (update v c) r1 w1"
        using False rd c by (simp add: verify_loop.simps [of _ _ _ n consumed])
      have "n - (consumed + length c) < n - consumed" using False c(2) by (simp add: diff_less_mono2)
      from less [OF this] show ?thesis
        unfolding loop using False rd c by (subst ex_list) simp
    next
      case bad: False
      then have "verify_loop update read consume n consumed v r w \<noteq> (Inr v', r', w')"
        using False rd by (auto simp: verify_loop.simps [of _ _ _ n consumed] split: sum.splits prod.splits)
      with bad False rd show ?thesis by (subst ex_list) (auto simp: prod_eq_iff)
    qed
  qed
qed

lemma verify_exact_iff:
  assumes "fits_buffer read" "stream_contract crypto"
  shows "verify_exact_reader_with crypto st read consume n signature r w = (Inr (), w') \<longleftrightarrow>
    0 < n \<and> n \<le> 16777216 \<and> length signature = 64 \<and>
    (\<exists>k cs r1 r2. verifying_key st = Some k \<and> reads read n r cs r1 \<and> read 1 r1 = (Inr [], r2) \<and>
       accepts_all consume cs w w' \<and> length (concat cs) = n \<and> key_verifies crypto k (concat cs) signature)"
    (is "?run \<longleftrightarrow> ?spec")
proof (cases "0 < n \<and> n \<le> 16777216 \<and> length signature = 64 \<and> (\<exists>k. verifying_key st = Some k)")
  case True
  then obtain k where k: "verifying_key st = Some k" by blast
  note contract = assms(2) [unfolded stream_contract_def, rule_format, of k signature]
  show ?thesis
  proof (cases "stream_start crypto k signature")
    case None
    with contract True k show ?thesis by (simp add: verify_exact_reader_with_def MAX_VERIFY_SIZE_def)
  next
    case (Some v)
    with contract have streamed: "stream_verifies crypto (fold (\<lambda>c v. stream_update crypto v c) cs v) = key_verifies crypto k (concat cs) signature" for cs
      by simp
    have "?run \<longleftrightarrow> (\<exists>v' r1 r2. verify_loop (stream_update crypto) read consume n 0 v r w = (Inr v', r1, w') \<and>
        read 1 r1 = (Inr [], r2) \<and> stream_verifies crypto v')"
      using True k Some by (auto simp: verify_exact_reader_with_def MAX_VERIFY_SIZE_def split: sum.splits prod.splits if_splits)
    with streamed True k reads_length [OF assms(1)] show ?thesis by (auto simp: verify_loop_Inr) blast+
  qed
qed (auto simp: verify_exact_reader_with_def MAX_VERIFY_SIZE_def not_less split: option.splits)

text \<open>C11. One pass, one image: the streaming verification succeeds exactly when the size is in its bounds,
  a key is set, the reader delivers that many bytes and then its end, the consumer takes every piece, and
  the signature is that key's on these very bytes. So nothing but the bytes the consumer got was verified.\<close>

theorem signed_stream_exact:
  assumes "fits_buffer read" "stream_contract crypto"
  shows "verify_exact_reader_with crypto st read consume n signature r w = (Inr (), w') \<longleftrightarrow>
    0 < n \<and> n \<le> 16777216 \<and> length signature = 64 \<and>
    (\<exists>k cs r1 r2. verifying_key st = Some k \<and> reads read n r cs r1 \<and> read 1 r1 = (Inr [], r2) \<and>
       accepts_all consume cs w w' \<and> length (concat cs) = n \<and> key_verifies crypto k (concat cs) signature)"
  by (rule verify_exact_iff [OF assms])

text \<open>A verifier that accepts a message whose length is the code of the first byte of the signature, and a
  reader over a list of pieces.\<close>

definition toy_crypto :: "(unit, nat \<times> nat) ed25519" where
  "toy_crypto =
     \<lparr>key_from_bytes = \<lambda>s. if length s = 32 then Some () else None,
      key_verifies = \<lambda>_ m s. length m = code (hd s),
      stream_start = \<lambda>_ s. Some (0, code (hd s)),
      stream_update = \<lambda>(n, l) c. (n + length c, l),
      stream_verifies = \<lambda>(n, l). n = l\<rparr>"

fun piece_read :: "string list sized_reader" where
  "piece_read n [] = (Inr [], [])"
| "piece_read n (p # ps) = (Inr (take n p), if n < length p then drop n p # ps else ps)"

lemma piece_read_fits: "fits_buffer piece_read"
proof -
  have "piece_read n r = (Inr c, r') \<Longrightarrow> length c \<le> n" for n r c r' by (cases r) auto
  then show ?thesis by (simp add: fits_buffer_def)
qed

lemma toy_crypto_simps:
  "key_verifies toy_crypto k m s \<longleftrightarrow> length m = code (hd s)" "stream_start toy_crypto k s = Some (0, code (hd s))"
  "stream_verifies toy_crypto (n, l) \<longleftrightarrow> n = l"
  by (simp_all add: toy_crypto_def)

lemma toy_stream: "fold (\<lambda>c v. stream_update toy_crypto v c) cs (n, l) = (n + length (concat cs), l)"
  by (induction cs arbitrary: n) (simp_all add: toy_crypto_def)

lemma toy_contract: "stream_contract toy_crypto"
  by (simp add: stream_contract_def toy_crypto_simps toy_stream)

definition append_consumer :: "string consumer" where
  "append_consumer c w = (Inr (), w @ c)"

theorem signed_stream_exact_witness:
  "verify_exact_reader_with toy_crypto (signing_new\<lparr>verifying_key := Some ()\<rparr>) piece_read append_consumer 5
     (replicate 64 (CHR 0x05)) [''ab'', ''cde''] [] = (Inr (), ''abcde'')"
proof -
  have "\<exists>k cs r1 r2. (Some () :: unit option) = Some k \<and> reads piece_read 5 [''ab'', ''cde''] cs r1 \<and> piece_read 1 r1 = (Inr [], r2) \<and>
      accepts_all append_consumer cs [] ''abcde'' \<and> length (concat cs) = 5 \<and> key_verifies toy_crypto k (concat cs) (replicate 64 (CHR 0x05))"
    by (rule exI [of _ "()"], rule exI [of _ "[''ab'', ''cde'']"], rule exI [of _ "[]"], rule exI [of _ "[]"])
      (simp add: append_consumer_def toy_crypto_simps numeral_eq_Suc)
  with signed_stream_exact [OF piece_read_fits toy_contract, of "signing_new\<lparr>verifying_key := Some ()\<rparr>" append_consumer 5
      "replicate 64 (CHR 0x05)" "[''ab'', ''cde'']" "[]" "''abcde''"]
  show ?thesis by simp
qed

section \<open>Files\<close>

text \<open>C12. A file passes exactly when a key is set, its path is text, it is at most 16 MiB long, its
  signature file holds exactly 64 bytes, and these are a signature of its contents by the key; which
  code a failure gives says what is wrong.\<close>

theorem file_verified_iff:
  "(signing_verify_file crypto st files (Some path) = ESP_OK \<longleftrightarrow>
     utf8_valid path \<and> (\<exists>k s sig. verifying_key st = Some k \<and> files path = Contents s \<and> length s \<le> 16777216 \<and>
       files (path @ ''.sig'') = Contents sig \<and> length sig = 64 \<and> key_verifies crypto k s sig)) \<and>
   (signing_verify_file crypto st files (Some path) = ESP_ERR_INVALID_CRC \<longleftrightarrow>
     utf8_valid path \<and> (\<exists>k s sig. verifying_key st = Some k \<and> files path = Contents s \<and> length s \<le> 16777216 \<and>
       files (path @ ''.sig'') = Contents sig \<and> length sig = 64 \<and> \<not> key_verifies crypto k s sig)) \<and>
   (signing_verify_file crypto st files (Some path) = ESP_ERR_INVALID_STATE \<longrightarrow> verifying_key st = None)"
proof -
  have bounded: "read_file_bounded files p n = Inr s \<longleftrightarrow> files p = Contents s \<and> length s \<le> n" for p n s
    by (auto simp: read_file_bounded_def Let_def split: file_state.splits if_splits)
  have bad: "read_file_bounded files p n = Inl e \<Longrightarrow> e = ESP_ERR_NOT_FOUND \<or> e = ESP_ERR_INVALID_SIZE" for p n e
    by (auto simp: read_file_bounded_def Let_def split: file_state.splits if_splits)
  show ?thesis
  proof (cases "utf8_valid path")
    case True
    show ?thesis
    proof (cases "read_file_bounded files path MAX_VERIFY_SIZE")
      case (Inl e)
      then have "\<nexists>s. files path = Contents s \<and> length s \<le> 16777216" using bounded [of path MAX_VERIFY_SIZE] by (auto simp: MAX_VERIFY_SIZE_def)
      with Inl bad [OF Inl] True show ?thesis
        by (auto simp: signing_verify_file_def MAX_VERIFY_SIZE_def)
    next
      case (Inr s)
      then have s: "files path = Contents s" "length s \<le> 16777216" by (simp_all add: bounded MAX_VERIFY_SIZE_def)
      show ?thesis
      proof (cases "read_file_bounded files (path @ ''.sig'') 64")
        case (Inl e)
        then have "\<nexists>g. files (path @ ''.sig'') = Contents g \<and> length g \<le> 64" using bounded [of "path @ ''.sig''" 64] by auto
        with Inl bad [OF Inl] True s Inr show ?thesis
          by (auto simp: signing_verify_file_def verify_file_bytes_def sig_path_for_def MAX_VERIFY_SIZE_def)
      next
        case (Inr sig)
        then have "files (path @ ''.sig'') = Contents sig" "length sig \<le> 64" by (simp_all add: bounded)
        with True s Inr \<open>read_file_bounded files path MAX_VERIFY_SIZE = Inr s\<close> show ?thesis
          by (auto simp: signing_verify_file_def verify_file_bytes_def sig_path_for_def MAX_VERIFY_SIZE_def signing_verify_def
              split: option.splits)
      qed
    qed
  qed (simp add: signing_verify_file_def)
qed

theorem file_verified_iff_witness:
  "signing_verify_file toy_crypto signing_new (\<lambda>p. if p = ''a'' then Contents ''elf'' else Contents (replicate 64 (CHR 0x03))) (Some ''a'')
     = ESP_ERR_INVALID_STATE \<and>
   signing_verify_file toy_crypto (signing_new\<lparr>verifying_key := Some ()\<rparr>)
     (\<lambda>p. if p = ''a'' then Contents ''elf'' else Contents (replicate 64 (CHR 0x03))) (Some ''a'') = ESP_OK"
proof
  let ?files = "\<lambda>p. if p = ''a'' then Contents ''elf'' else Contents (replicate 64 (CHR 0x03))"
  have a: "utf8_valid ''a''" by (rule utf8_valid_ascii) simp
  have "key_verifies toy_crypto () ''elf'' (replicate 64 (CHR 0x03))" by (simp add: toy_crypto_simps numeral_eq_Suc)
  then show "signing_verify_file toy_crypto (signing_new\<lparr>verifying_key := Some ()\<rparr>) ?files (Some ''a'') = ESP_OK"
    using file_verified_iff [of toy_crypto "signing_new\<lparr>verifying_key := Some ()\<rparr>" ?files "''a''"] a by simp
  show "signing_verify_file toy_crypto signing_new ?files (Some ''a'') = ESP_ERR_INVALID_STATE"
    using a by (simp add: signing_verify_file_def verify_file_bytes_def read_file_bounded_def signing_verify_def sig_path_for_def
        signing_new_def MAX_VERIFY_SIZE_def Let_def)
qed

section \<open>The key in hexadecimal\<close>

lemma HEX_digits: "i < 16 \<Longrightarrow> HEX ! i \<in> set HEX" "i < 16 \<Longrightarrow> j < 16 \<Longrightarrow> HEX ! i = HEX ! j \<longleftrightarrow> i = j"
proof -
  have "length HEX = 16" "distinct HEX" by (simp_all add: HEX_def)
  then show "i < 16 \<Longrightarrow> HEX ! i \<in> set HEX" "i < 16 \<Longrightarrow> j < 16 \<Longrightarrow> HEX ! i = HEX ! j \<longleftrightarrow> i = j"
    by (simp, simp add: nth_eq_iff_index_eq)
qed

lemma nibbles: "drop_bit 4 (code b) = code b div 16" "code b AND 0x0F = code b mod 16"
  using take_bit_eq_mask [of 4 "code b"] by (simp_all add: drop_bit_eq_div take_bit_eq_mod mask_eq_exp_minus_1)

lemma high_nibble: "code b div 16 < 16"
  by (rule less_mult_imp_div_less) simp

lemma bytes_to_hex_simps:
  "bytes_to_hex [] = []" "bytes_to_hex (b # bs) = HEX ! (code b div 16) # HEX ! (code b mod 16) # bytes_to_hex bs"
  by (simp_all add: bytes_to_hex_def nibbles)

lemma bytes_to_hex_inj: "bytes_to_hex as = bytes_to_hex bs \<Longrightarrow> as = bs"
proof (induction as arbitrary: bs)
  case Nil
  then show ?case by (cases bs) (simp_all add: bytes_to_hex_simps)
next
  case (Cons a as)
  then obtain b bs' where b: "bs = b # bs'" by (cases bs) (simp_all add: bytes_to_hex_simps)
  have "code a div 16 < 16" "code b div 16 < 16" by (rule high_nibble)+
  with Cons.prems b have "code a div 16 = code b div 16" "code a mod 16 = code b mod 16" "bytes_to_hex as = bytes_to_hex bs'"
    by (simp_all add: bytes_to_hex_simps HEX_digits(2))
  moreover from this have "code a = code b" by (metis div_mult_mod_eq)
  ultimately show ?case using Cons.IH b by simp
qed

lemma bytes_to_hex_digits: "set (bytes_to_hex bs) \<subseteq> set HEX" "length (bytes_to_hex bs) = 2 * length bs"
proof (induction bs)
  case (Cons b bs)
  have "code b div 16 < 16" by (rule high_nibble)
  with Cons show "set (bytes_to_hex (b # bs)) \<subseteq> set HEX" "length (bytes_to_hex (b # bs)) = 2 * length (b # bs)"
    by (simp_all add: bytes_to_hex_simps HEX_digits(1))
qed (simp_all add: bytes_to_hex_simps)

lemma init_hex:
  assumes "signing_init crypto (Some key) st = (ESP_OK, st')"
  shows "signing_get_public_key_hex st' = bytes_to_hex key" "verifying_key st' = key_from_bytes crypto key"
proof -
  have "NUL \<notin> set HEX" by (simp add: HEX_def NUL_def)
  then have "takeWhile (\<lambda>c. c \<noteq> NUL) (bytes_to_hex key @ [NUL]) = bytes_to_hex key"
    using bytes_to_hex_digits(1) [of key] by (subst takeWhile_append2) auto
  with assms show "signing_get_public_key_hex st' = bytes_to_hex key" "verifying_key st' = key_from_bytes crypto key"
    by (auto simp: signing_init_def signing_get_public_key_hex_def split: option.splits)
qed

text \<open>C3. The hexadecimal text tells which key is trusted: it is the key last installed, in two lower-case
  digits for each byte, two keys never have the same text, and a key that is refused changes neither the
  text nor the key.\<close>

theorem key_hex_identifies:
  assumes "signing_init crypto (Some key) st = (r, st')"
  shows "(if r = ESP_OK then
       length (signing_get_public_key_hex st') = 2 * length key \<and> set (signing_get_public_key_hex st') \<subseteq> set ''0123456789abcdef'' \<and>
       verifying_key st' = key_from_bytes crypto key \<and> verifying_key st' \<noteq> None \<and>
       (\<forall>key2 st2 st2'. signing_init crypto (Some key2) st2 = (ESP_OK, st2') \<longrightarrow>
          signing_get_public_key_hex st2' = signing_get_public_key_hex st' \<longrightarrow> key2 = key)
     else st' = st \<and> key_from_bytes crypto key = None)"
proof (cases "r = ESP_OK")
  case True
  with assms have i: "signing_init crypto (Some key) st = (ESP_OK, st')" by simp
  then have "key_from_bytes crypto key \<noteq> None" by (auto simp: signing_init_def split: option.splits)
  with True init_hex [OF i] bytes_to_hex_digits [of key] bytes_to_hex_inj init_hex(1) [of crypto] show ?thesis
    by (auto simp: HEX_def)
next
  case False
  with assms show ?thesis by (auto simp: signing_init_def split: option.splits)
qed

theorem key_hex_identifies_witness:
  "length (signing_get_public_key_hex (snd (signing_init toy_crypto (Some (replicate 32 CHR ''k'')) signing_new))) = 64"
proof -
  have "signing_init toy_crypto (Some (replicate 32 CHR ''k'')) signing_new =
      (ESP_OK, snd (signing_init toy_crypto (Some (replicate 32 CHR ''k'')) signing_new))"
    by (simp add: signing_init_def toy_crypto_def)
  from key_hex_identifies [OF this] show ?thesis by simp
qed

end
