(* ===== verification/Ota.thy ===== *)
theory Ota
  imports Signing Bundle_Recovery
begin

text \<open>
  Firmware updates from the card (\<open>kernel_rs/src/ota.rs\<close>), as built for the device. The OTA interface of
  ESP-IDF is an argument: its calls act on the flash and return codes. An update that ends in
  \<open>esp_restart\<close> does not return. The callback is the list of its calls. Logging is left out.
\<close>

section \<open>ESP-IDF\<close>

record 'f ota_api =
  next_partition :: "'f \<Rightarrow> nat option"
  ota_begin :: "nat \<Rightarrow> nat \<Rightarrow> 'f \<Rightarrow> (int \<times> u32) \<times> 'f"
  ota_write :: "u32 \<Rightarrow> string \<Rightarrow> 'f \<Rightarrow> int \<times> 'f"
  ota_end :: "u32 \<Rightarrow> 'f \<Rightarrow> int \<times> 'f"
  ota_abort :: "u32 \<Rightarrow> 'f \<Rightarrow> 'f"
  set_boot_partition :: "nat \<Rightarrow> 'f \<Rightarrow> int \<times> 'f"

section \<open>Confirming a boot\<close>

definition ESP_OTA_IMG_PENDING_VERIFY :: u32 where "ESP_OTA_IMG_PENDING_VERIFY = 1"

datatype boot_validation_state = NotPending | Pending | Validated

definition observe_partition :: "bool \<Rightarrow> boot_validation_state" where
  "observe_partition is_pending = (if is_pending then Pending else NotPending)"

definition mark_valid_once_with :: "('f \<Rightarrow> int \<times> 'f) \<Rightarrow> boot_validation_state \<Rightarrow> 'f \<Rightarrow> int \<times> boot_validation_state \<times> 'f" where
  "mark_valid_once_with mark_valid s f =
     (if s \<noteq> Pending then (ESP_OK, s, f)
      else case mark_valid f of (result, f') \<Rightarrow> (result, if result = ESP_OK then Validated else s, f'))"

text \<open>\<open>running\<close> is what \<open>esp_ota_get_state_partition\<close> gives for the running partition, if there is one.\<close>

definition ota_init :: "(int \<times> u32) option \<Rightarrow> boot_validation_state \<Rightarrow> int \<times> boot_validation_state" where
  "ota_init running s =
     (let is_pending = (case running of None \<Rightarrow> False | Some (rc, state) \<Rightarrow> rc = ESP_OK \<and> state = ESP_OTA_IMG_PENDING_VERIFY)
      in (ESP_OK, observe_partition is_pending))"

definition ota_mark_valid :: "('f \<Rightarrow> int \<times> 'f) \<Rightarrow> boot_validation_state \<Rightarrow> 'f \<Rightarrow> int \<times> boot_validation_state \<times> 'f" where
  "ota_mark_valid = mark_valid_once_with"

section \<open>Applying an update\<close>

definition MAX_OTA_SIZE :: nat where "MAX_OTA_SIZE = 16777216"

text \<open>The update file, opened once: the reader of its description and the length in its metadata. The
  signature is what reading the file beside it gives.\<close>

record 'r update_files =
  image_file :: "'r option"
  image_len :: "nat option"
  image_sig :: "string option"

record 'f flashing =
  fl_flash :: 'f
  fl_written :: u32
  fl_progress :: "(u32 \<times> u32) list"

datatype ota_result = Returned int | Restarted

text \<open>\<open>metadata\<close> of the path, the length if there is a file.\<close>

definition ota_sd_update_available :: "nat option \<Rightarrow> bool" where
  "ota_sd_update_available len = (case len of None \<Rightarrow> False | Some n \<Rightarrow> 0 < n)"

definition write_chunk :: "'f ota_api \<Rightarrow> bool \<Rightarrow> nat \<Rightarrow> u32 \<Rightarrow> 'f flashing consumer" where
  "write_chunk api has_cb file_size h chunk s =
     (case ota_write api h chunk (fl_flash s) of (rc, f) \<Rightarrow>
        if rc \<noteq> ESP_OK then (Inl rc, s\<lparr>fl_flash := f\<rparr>)
        else
          (let written = fl_written s + of_nat (length chunk)
           in (Inr (), s\<lparr>fl_flash := f, fl_written := written,
                fl_progress := fl_progress s @ (if has_cb then [(written, of_nat file_size)] else [])\<rparr>)))"

definition ota_apply_from_sd ::
  "('k, 'v) ed25519 \<Rightarrow> 'k signing_state \<Rightarrow> 'f ota_api \<Rightarrow> 'r sized_reader \<Rightarrow> bool \<Rightarrow> 'r update_files \<Rightarrow> 'f \<Rightarrow>
   ota_result \<times> 'f \<times> (u32 \<times> u32) list" where
  "ota_apply_from_sd crypto st api read has_cb files f =
     (case image_file files of
        None \<Rightarrow> (Returned ESP_ERR_NOT_FOUND, f, [])
      | Some r \<Rightarrow>
     (case image_len files of
        None \<Rightarrow> (Returned ESP_ERR_NOT_FOUND, f, [])
      | Some file_size \<Rightarrow>
     if file_size = 0 then (Returned ESP_ERR_INVALID_SIZE, f, [])
     else if MAX_OTA_SIZE < file_size then (Returned ESP_ERR_INVALID_SIZE, f, [])
     else
     (case image_sig files of
        None \<Rightarrow> (Returned ESP_ERR_NOT_FOUND, f, [])
      | Some signature \<Rightarrow>
     if length signature \<noteq> 64 then (Returned ESP_ERR_INVALID_SIZE, f, [])
     else
     (case next_partition api f of
        None \<Rightarrow> (Returned ESP_ERR_NOT_FOUND, f, [])
      | Some p \<Rightarrow>
     (case ota_begin api p file_size f of ((rc, h), f1) \<Rightarrow>
     if rc \<noteq> ESP_OK then (Returned rc, f1, [])
     else
     (case verify_exact_reader_with crypto st read (write_chunk api has_cb file_size h) file_size signature r
             \<lparr>fl_flash = f1, fl_written = 0, fl_progress = []\<rparr> of
        (Inl e, s) \<Rightarrow> (Returned e, ota_abort api h (fl_flash s), fl_progress s)
      | (Inr _, s) \<Rightarrow>
     (case ota_end api h (fl_flash s) of (rc, f2) \<Rightarrow>
     if rc \<noteq> ESP_OK then (Returned rc, f2, fl_progress s)
     else
     (case set_boot_partition api p f2 of (rc, f3) \<Rightarrow>
     if rc \<noteq> ESP_OK then (Returned rc, f3, fl_progress s)
     else (Restarted, f3, fl_progress s)))))))))"

definition ota_apply_from_http :: "string option \<Rightarrow> int" where
  "ota_apply_from_http url = ESP_ERR_NOT_SUPPORTED"

definition ota_get_current_version :: string where
  "ota_get_current_version = ''0.5.0''"

section \<open>Closing the bundle\<close>

definition finalize_bundle_transaction_at :: "path \<Rightarrow> ('s, unit) io" where
  "finalize_bundle_transaction_at p =
     handle (remove_dir_all p) (\<lambda>e. if e = NotFound then ret () else throw e)"

definition ota_finalize_bundle_transaction :: "('s, int) io" where
  "ota_finalize_bundle_transaction =
     handle (seq (for_each finalize_bundle_transaction_at [transaction_root, BUNDLE_DOWNLOAD_DIR]) (ret ESP_OK))
       (\<lambda>_. ret ESP_FAIL)"

section \<open>The flash\<close>

text \<open>What ESP-IDF documents of the calls: the image written to a handle goes to its partition, only
  choosing a boot partition changes which one boots, and it leaves the images.\<close>

definition flash_contract :: "'f ota_api \<Rightarrow> ('f \<Rightarrow> nat \<Rightarrow> string) \<Rightarrow> ('f \<Rightarrow> u32 \<Rightarrow> nat) \<Rightarrow> ('f \<Rightarrow> nat) \<Rightarrow> bool" where
  "flash_contract api img target boot \<longleftrightarrow>
     (\<forall>p n f c h f'. ota_begin api p n f = ((c, h), f') \<longrightarrow> boot f' = boot f \<and> (c = ESP_OK \<longrightarrow> target f' h = p \<and> img f' p = [])) \<and>
     (\<forall>h s f c f'. ota_write api h s f = (c, f') \<longrightarrow> boot f' = boot f \<and>
        (c = ESP_OK \<longrightarrow> target f' h = target f h \<and> img f' (target f h) = img f (target f h) @ s)) \<and>
     (\<forall>h f c f'. ota_end api h f = (c, f') \<longrightarrow> boot f' = boot f \<and> (c = ESP_OK \<longrightarrow> img f' = img f)) \<and>
     (\<forall>h f. boot (ota_abort api h f) = boot f) \<and>
     (\<forall>p f c f'. set_boot_partition api p f = (c, f') \<longrightarrow> (if c = ESP_OK then boot f' = p \<and> img f' = img f else boot f' = boot f))"

lemma write_chunk_effect:
  assumes "flash_contract api img target boot"
  shows "boot (fl_flash (snd (write_chunk api has_cb n h c s))) = boot (fl_flash s)"
    and "fst (write_chunk api has_cb n h c s) = Inr () \<Longrightarrow>
      target (fl_flash (snd (write_chunk api has_cb n h c s))) h = target (fl_flash s) h \<and>
      img (fl_flash (snd (write_chunk api has_cb n h c s))) (target (fl_flash s) h) = img (fl_flash s) (target (fl_flash s) h) @ c \<and>
      fl_written (snd (write_chunk api has_cb n h c s)) = fl_written s + of_nat (length c)"
  using assms unfolding flash_contract_def
  by (auto simp: write_chunk_def Let_def split: prod.splits if_splits)

lemma accepts_flash:
  assumes "flash_contract api img target boot"
  shows "accepts_all (write_chunk api has_cb n h) cs s s' \<Longrightarrow>
    boot (fl_flash s') = boot (fl_flash s) \<and> target (fl_flash s') h = target (fl_flash s) h \<and>
    img (fl_flash s') (target (fl_flash s) h) = img (fl_flash s) (target (fl_flash s) h) @ concat cs"
proof (induction cs arbitrary: s)
  case (Cons c cs)
  from Cons.prems Cons.IH [of "snd (write_chunk api has_cb n h c s)"] write_chunk_effect [OF assms, of has_cb n h c s]
  show ?case by simp
qed simp

text \<open>A consumer that never touches something leaves it, also when the verification fails.\<close>

lemma verify_loop_frame:
  assumes "\<And>c w. P (snd (consume c w)) = P w"
  shows "P (snd (snd (verify_loop update read consume n consumed v r w))) = P w"
proof (induction "n - consumed" arbitrary: consumed v r w rule: less_induct)
  case less
  show ?case
  proof (cases "\<exists>c r1 w1. \<not> n \<le> consumed \<and> read (min 4096 (n - consumed)) r = (Inr c, r1) \<and> c \<noteq> [] \<and> consume c w = (Inr (), w1)")
    case True
    then obtain c r1 w1 where c: "\<not> n \<le> consumed" "read (min 4096 (n - consumed)) r = (Inr c, r1)" "c \<noteq> []" "consume c w = (Inr (), w1)"
      by blast
    then have "n - (consumed + length c) < n - consumed" by (simp add: diff_less_mono2)
    from less [OF this] show ?thesis using c assms [of c w] by (simp add: verify_loop.simps [of _ _ _ n consumed])
  next
    case False
    then show ?thesis
      using assms by (auto simp: verify_loop.simps [of _ _ _ n consumed] split: sum.splits prod.splits) (metis snd_conv)
  qed
qed

lemma verify_exact_frame:
  assumes "\<And>c w. P (snd (consume c w)) = P w"
  shows "P (snd (verify_exact_reader_with crypto st read consume n signature r w)) = P w"
proof -
  have "P w' = P w" if "verify_loop update read consume n 0 v r w = (x, r', w')" for update v x r' w'
    using verify_loop_frame [where P = P and consume = consume, OF assms, of update read n 0 v r w] that by simp
  then show ?thesis
    by (auto simp: verify_exact_reader_with_def split: option.splits sum.splits prod.splits)
qed

text \<open>C10. Only a signed image is ever made bootable. When an update ends by restarting, the partition that
  boots next holds exactly as many bytes as the update file announced, and the signature beside it is one
  of the trusted key on exactly these bytes; when it returns for any reason, what boots next is what it
  was.\<close>

theorem ota_boots_signed_image:
  assumes "flash_contract api img target boot" "fits_buffer read" "stream_contract crypto"
    and run: "ota_apply_from_sd crypto st api read has_cb files f = (res, f', shown)"
  shows "case res of
      Restarted \<Rightarrow> (\<exists>k signature. verifying_key st = Some k \<and> image_sig files = Some signature \<and> length signature = 64 \<and>
        next_partition api f = Some (boot f') \<and> image_len files = Some (length (img f' (boot f'))) \<and>
        0 < length (img f' (boot f')) \<and> length (img f' (boot f')) \<le> 16777216 \<and>
        key_verifies crypto k (img f' (boot f')) signature)
    | Returned _ \<Rightarrow> boot f' = boot f"
proof -
  let ?start = "\<lambda>f1. \<lparr>fl_flash = f1, fl_written = 0, fl_progress = []\<rparr>"
  note laws = assms(1) [unfolded flash_contract_def]
  have begun: "boot f1 = boot f \<and> (c = ESP_OK \<longrightarrow> target f1 h = p \<and> img f1 p = [])"
    if "ota_begin api p n f = ((c, h), f1)" for p n c h f1
    using conjunct1 [OF laws] that by auto
  have ended: "boot f2 = boot f1 \<and> (c = ESP_OK \<longrightarrow> img f2 = img f1)" if "ota_end api h f1 = (c, f2)" for h f1 c f2
    using conjunct1 [OF conjunct2 [OF conjunct2 [OF laws]]] that by auto
  have chosen: "if c = ESP_OK then boot f3 = p \<and> img f3 = img f2 else boot f3 = boot f2"
    if "set_boot_partition api p f2 = (c, f3)" for p f2 c f3
    using conjunct2 [OF conjunct2 [OF conjunct2 [OF conjunct2 [OF laws]]]] that by (auto split: if_splits)
  have aborted: "boot (ota_abort api h f1) = boot f1" for h f1 using assms(1) unfolding flash_contract_def by blast
  have same: "boot (fl_flash s) = boot f1"
    if "verify_exact_reader_with crypto st read (write_chunk api has_cb n h) n signature r (?start f1) = (x, s)" for n h signature r f1 x s
    using verify_exact_frame [of "\<lambda>s. boot (fl_flash s)" "write_chunk api has_cb n h", OF write_chunk_effect(1) [OF assms(1)],
        of crypto st read n signature r "?start f1"] that by simp
  show ?thesis
  proof (cases res)
    case (Returned e)
    with run show ?thesis
      by (auto simp: ota_apply_from_sd_def aborted split: option.splits prod.splits sum.splits if_splits
          dest!: chosen ended same begun)
  next
    case Restarted
    with run obtain r n signature p h f1 s f2 where i: "image_file files = Some r" "image_len files = Some n" "n \<noteq> 0" "n \<le> MAX_OTA_SIZE"
      "image_sig files = Some signature" "length signature = 64" "next_partition api f = Some p"
      "ota_begin api p n f = ((ESP_OK, h), f1)" "ota_end api h (fl_flash s) = (ESP_OK, f2)" "set_boot_partition api p f2 = (ESP_OK, f')"
      and v: "verify_exact_reader_with crypto st read (write_chunk api has_cb n h) n signature r (?start f1) = (Inr (), s)"
      by (auto simp: ota_apply_from_sd_def not_less split: option.splits prod.splits sum.splits if_splits)
    from v [unfolded verify_exact_iff [OF assms(2,3)]] obtain k cs where k: "verifying_key st = Some k"
      "accepts_all (write_chunk api has_cb n h) cs (?start f1) s" "length (concat cs) = n" "key_verifies crypto k (concat cs) signature"
      by blast
    have "img (fl_flash s) p = concat cs"
      using accepts_flash [OF assms(1) k(2)] begun [OF i(8)] by simp
    then have "boot f' = p" "img f' p = concat cs" using chosen [OF i(10)] ended [OF i(9)] by simp_all
    with Restarted i k show ?thesis by (simp add: MAX_OTA_SIZE_def)
  qed
qed

text \<open>One spare partition, its image, the partition a handle writes to, and the one that boots.\<close>

definition toy_flash :: "(string \<times> nat \<times> nat) ota_api" where
  "toy_flash =
     \<lparr>next_partition = \<lambda>_. Some 1,
      ota_begin = \<lambda>p n (_, _, b). ((0, 7), ([], p, b)),
      ota_write = \<lambda>h s (i, p, b). (0, (i @ s, p, b)),
      ota_end = \<lambda>h f. (0, f),
      ota_abort = \<lambda>h f. f,
      set_boot_partition = \<lambda>p (i, q, b). (0, (i, q, p))\<rparr>"

lemma toy_flash_contract: "flash_contract toy_flash (\<lambda>(i, p, b) _. i) (\<lambda>(i, p, b) _. p) (\<lambda>(i, p, b). b)"
  by (auto simp: flash_contract_def toy_flash_def split: prod.splits)

theorem ota_boots_signed_image_witness:
  "\<exists>i p b shown. ota_apply_from_sd toy_crypto (signing_new\<lparr>verifying_key := Some ()\<rparr>) toy_flash piece_read True
      \<lparr>image_file = Some [''ab'', ''cde''], image_len = Some 5, image_sig = Some (replicate 64 (CHR 0x05))\<rparr> ([], 0, 0)
      = (Restarted, (i, p, b), shown) \<and> b = 1 \<and> length i = 5"
proof -
  let ?files = "\<lparr>image_file = Some [''ab'', ''cde''], image_len = Some 5, image_sig = Some (replicate 64 (CHR 0x05))\<rparr>"
  obtain res i p b shown where run: "ota_apply_from_sd toy_crypto (signing_new\<lparr>verifying_key := Some ()\<rparr>) toy_flash piece_read True ?files ([], 0, 0)
      = (res, (i, p, b), shown)" by (metis prod_cases3 prod_cases5)
  note claim = ota_boots_signed_image [OF toy_flash_contract piece_read_fits toy_contract run]
  let ?st = "signing_new\<lparr>verifying_key := Some ()\<rparr>" and ?begun = "\<lparr>fl_flash = ([], 1, 0), fl_written = 0, fl_progress = []\<rparr>"
    and ?sig = "replicate 64 (CHR 0x05)"
  obtain s where acc: "accepts_all (write_chunk toy_flash True 5 7) [''ab'', ''cde''] ?begun s"
    by (simp add: write_chunk_def toy_flash_def Let_def)
  have "\<exists>k cs r1 r2. (Some () :: unit option) = Some k \<and> reads piece_read 5 [''ab'', ''cde''] cs r1 \<and> piece_read 1 r1 = (Inr [], r2) \<and>
      accepts_all (write_chunk toy_flash True 5 7) cs ?begun s \<and> length (concat cs) = 5 \<and> key_verifies toy_crypto k (concat cs) ?sig"
    by (rule exI [of _ "()"], rule exI [of _ "[''ab'', ''cde'']"], rule exI [of _ "[]"], rule exI [of _ "[]"])
      (use acc in \<open>simp add: toy_crypto_simps numeral_eq_Suc del: accepts_all.simps\<close>)
  with verify_exact_iff [OF piece_read_fits toy_contract, of ?st "write_chunk toy_flash True 5 7" 5 ?sig "[''ab'', ''cde'']" ?begun s]
  have v: "verify_exact_reader_with toy_crypto ?st piece_read (write_chunk toy_flash True 5 7) 5 ?sig [''ab'', ''cde''] ?begun = (Inr (), s)"
    by simp
  have api: "next_partition toy_flash f = Some 1" "ota_begin toy_flash 1 5 ([], 0, 0) = ((0, 7), ([], 1, 0))" "ota_end toy_flash h f = (0, f)"
    "fst (set_boot_partition toy_flash p f) = 0" for f h p
    by (simp_all add: toy_flash_def split: prod.splits)
  have "res = Restarted"
    using run v by (cases "set_boot_partition toy_flash 1 (fl_flash s)") (use api(4) [of 1 "fl_flash s"] in \<open>simp add: ota_apply_from_sd_def api MAX_OTA_SIZE_def del: One_nat_def\<close>)
  with run claim show ?thesis by (auto simp: api)
qed

lemma finalize_at_effect:
  assumes "wf_fs (dk_fs d)" "p \<noteq> []" "finalize_bundle_transaction_at p d = (r, d')"
  shows "wf_fs (dk_fs d') \<and> (\<forall>q. \<not> prefix p q \<longrightarrow> look (dk_fs d') q = look (dk_fs d) q) \<and> (\<forall>q. look (dk_fs d) q = None \<longrightarrow> look (dk_fs d') q = None) \<and>
    (r = Val () \<longrightarrow> look (dk_fs d') p = None) \<and>
    (dk_fates d = [] \<longrightarrow> dk_fates d' = [] \<and> (r = Val () \<or> (\<exists>s. look (dk_fs d) p = Some (File s))))"
proof -
  have tree: "wf_fs (del_tree p (dk_fs d))" using assms(1,2) by (rule wf_del_tree)
  have some: "wf_fs (remove_some p ps (dk_fs d))" "\<not> prefix p q \<Longrightarrow> look (remove_some p ps (dk_fs d)) q = look (dk_fs d) q"
    "look (dk_fs d) q = None \<Longrightarrow> look (remove_some p ps (dk_fs d)) q = None" for ps q
    using remove_some_shrunk [OF assms(1,2), of ps] unfolding shrunk_def by metis+
  show ?thesis
    using assms(3) unfolding finalize_bundle_transaction_at_def handle_def remove_dir_all_def prim_def Let_def
    using assms(1,2) tree some
    by (auto simp: look_del_tree ret_def throw_def split: list.splits fate.splits node.splits option.splits if_splits) (metis node.exhaust)
qed

text \<open>Closing the bundle after a healthy boot touches nothing but the transaction and the downloads,
  whatever fails on the way; when it reports success both are gone and the next boot has nothing to
  recover, and without a fault it does report success.\<close>

theorem ota_finalize_closes:
  assumes "wf_fs (dk_fs d)" "ota_finalize_bundle_transaction d = (r, d')"
  shows "(\<forall>p. user_path p \<longrightarrow> \<not> prefix BUNDLE_DOWNLOAD_DIR p \<longrightarrow> look (dk_fs d') p = look (dk_fs d) p) \<and>
    (r = Val ESP_OK \<longrightarrow> look (dk_fs d') transaction_root = None \<and> look (dk_fs d') BUNDLE_DOWNLOAD_DIR = None \<and>
       recover_interrupted_bundle selected valid (start (dk_fs d')) = (Val (), start (dk_fs d'))) \<and>
    (dk_fates d = [] \<longrightarrow> r = Val ESP_OK \<or>
       (\<exists>p\<in>{transaction_root, BUNDLE_DOWNLOAD_DIR}. \<exists>s. look (dk_fs d) p = Some (File s)))"
proof -
  have ne: "transaction_root \<noteq> []" "BUNDLE_DOWNLOAD_DIR \<noteq> []" "\<not> prefix transaction_root BUNDLE_DOWNLOAD_DIR"
    by (simp_all add: transaction_root_def BUNDLE_DOWNLOAD_DIR_def TRANSACTION_DIR_def)
  have user: "user_path p \<Longrightarrow> \<not> prefix transaction_root p" for p
    by (cases p) (auto simp: user_path_def transaction_root_def)
  obtain r1 d1 where one: "finalize_bundle_transaction_at transaction_root d = (r1, d1)" by fastforce
  note e1 = finalize_at_effect [OF assms(1) ne(1) one]
  then have "wf_fs (dk_fs d1)" by blast
  obtain r2 d2 where two: "finalize_bundle_transaction_at BUNDLE_DOWNLOAD_DIR d1 = (r2, d2)" by fastforce
  note e2 = finalize_at_effect [OF \<open>wf_fs (dk_fs d1)\<close> ne(2) two]
  have res: "(r, d') = (case r1 of
      Val _ \<Rightarrow> (case r2 of Val _ \<Rightarrow> Val ESP_OK | Err _ \<Rightarrow> Val ESP_FAIL | Off \<Rightarrow> Off, d2)
    | Err _ \<Rightarrow> (Val ESP_FAIL, d1) | Off \<Rightarrow> (Off, d1))"
    using assms(2) one two
    by (auto simp: ota_finalize_bundle_transaction_def handle_def seq_def bind_io_def ret_def split: outcome.splits)
  show ?thesis
  proof (cases "r1 = Val () \<and> r2 = Val ()")
    case True
    with res have r: "r = Val ESP_OK" "d' = d2" by auto
    have gone: "look (dk_fs d2) transaction_root = None" "look (dk_fs d2) BUNDLE_DOWNLOAD_DIR = None" "wf_fs (dk_fs d2)"
      using e1 e2 True by blast+
    then have "look (dk_fs d2) journal_path = None"
      using wf_strict_prefix [OF gone(3), of journal_path transaction_root] gone(1)
      by (metis journal_path_def not_Cons_self2 option.distinct(1) prefixI strict_prefix_def append_self_conv)
    with gone have "recover_interrupted_bundle selected valid (start (dk_fs d2)) = (Val (), start (dk_fs d2))"
      by (simp add: recover_interrupted_bundle_def recovery_action_def bind_io_def asks_def seq_def ret_def start_def
          transaction_exists_def path_exists_def)
    with gone e1 e2 user show ?thesis by (auto simp: r)
  next
    case False
    with res have r: "r \<noteq> Val ESP_OK" "d' = d2 \<or> d' = d1" by (auto split: outcome.splits)
    have "dk_fates d = [] \<longrightarrow> (\<exists>p\<in>{transaction_root, BUNDLE_DOWNLOAD_DIR}. \<exists>s. look (dk_fs d) p = Some (File s))"
      using False e1 e2 by (metis insert_iff option.distinct(1) ne(3))
    with r e1 e2 user show ?thesis by (metis (no_types, lifting))
  qed
qed

theorem ota_finalize_closes_witness:
  "\<exists>d'. ota_finalize_bundle_transaction (start (put transaction_root Dir vol0)) = (Val ESP_OK, d') \<and>
     look (dk_fs d') transaction_root = None \<and> look (dk_fs d') [''a''] = look vol0 [''a'']"
proof -
  let ?m = "put transaction_root Dir vol0"
  have new: "look vol0 transaction_root = None" by (simp add: look_vol0 transaction_root_def TRANSACTION_DIR_def)
  have "wf_fs ?m" using wf_vol0 new by (intro wf_put) (simp_all add: transaction_root_def)
  moreover have look: "look ?m q = (if q = transaction_root then Some Dir else look vol0 q)" for q
    by (rule look_put) (simp add: transaction_root_def)
  moreover obtain r d' where run: "ota_finalize_bundle_transaction (start ?m) = (r, d')" by fastforce
  ultimately have "r = Val ESP_OK" "look (dk_fs d') transaction_root = None" "look (dk_fs d') [''a''] = look ?m [''a'']"
    using ota_finalize_closes [of "start ?m" r d'] new
    by (auto simp: start_def BUNDLE_DOWNLOAD_DIR_def transaction_root_def look_vol0 user_path_def TRANSACTION_DIR_def)
  then show ?thesis using run look [of "[''a'']"] by (simp add: transaction_root_def TRANSACTION_DIR_def)
qed

end
