(* ===== verification/Msg_Crypto.thy ===== *)
theory Msg_Crypto
  imports Slot_Map Rust_Str
begin

text \<open>
  End-to-end encryption of messages (\<open>kernel_rs/src/msg_crypto.rs\<close>): per-contact channels with keys from a
  passphrase, and envelopes of AES-256 in counter mode under an HMAC. The block cipher, the hashes and
  the key derivations are third-party crates, an argument of the definitions; so is what the random
  generator gives, \<open>None\<close> when it fails. A pointer is the bytes behind it, \<open>None\<close> for null; what is written
  to a caller's buffer is its new contents. The lock is never poisoned.
\<close>

section \<open>Arguments and constants\<close>

record crypto_prims =
  aes256_block :: "string \<Rightarrow> string \<Rightarrow> string"
  hmac_sha256 :: "string \<Rightarrow> string \<Rightarrow> string"
  sha256 :: "string \<Rightarrow> string"
  pbkdf2_sha256 :: "string \<Rightarrow> string \<Rightarrow> nat \<Rightarrow> string"
  argon2id :: "string \<Rightarrow> string \<Rightarrow> string option"

definition MAX_CHANNELS :: nat where "MAX_CHANNELS = 32"
definition MAX_PASSPHRASE_LEN :: nat where "MAX_PASSPHRASE_LEN = 256"
definition MASTER_KEY_LEN :: nat where "MASTER_KEY_LEN = 32"
definition NONCE_LEN :: nat where "NONCE_LEN = 16"
definition HMAC_LEN :: nat where "HMAC_LEN = 32"
definition HEADER_LEN :: nat where "HEADER_LEN = 1"
definition OVERHEAD :: nat where "OVERHEAD = HEADER_LEN + NONCE_LEN + HMAC_LEN"
definition V2_SALT_LEN :: nat where "V2_SALT_LEN = 16"
definition V2_OVERHEAD :: nat where "V2_OVERHEAD = HEADER_LEN + V2_SALT_LEN + NONCE_LEN + HMAC_LEN"
definition LEGACY_VERSION :: char where "LEGACY_VERSION = CHR 0x01"
definition VERSION :: char where "VERSION = CHR 0x02"
definition PBKDF2_ITERATIONS :: nat where "PBKDF2_ITERATIONS = 10000"
definition PBKDF2_SALT :: string where "PBKDF2_SALT = ''ThistleOS-MsgCrypto-v1''"
definition ARGON2ID_MAX_PASSWORD_LEN :: nat where "ARGON2ID_MAX_PASSWORD_LEN = 1024"

lemmas crypto_lengths = MASTER_KEY_LEN_def NONCE_LEN_def HMAC_LEN_def HEADER_LEN_def OVERHEAD_def V2_SALT_LEN_def V2_OVERHEAD_def

section \<open>Data\<close>

record crypto_channel =
  cc_contact :: u32
  cc_master_key :: string
  cc_salt :: string
  cc_password_material :: string
  cc_legacy_key :: string
  cc_active :: bool
  cc_tx :: u32
  cc_rx :: u32

definition empty_channel :: crypto_channel where
  "empty_channel =
     \<lparr>cc_contact = 0, cc_master_key = replicate MASTER_KEY_LEN NUL, cc_salt = replicate V2_SALT_LEN NUL,
      cc_password_material = replicate MASTER_KEY_LEN NUL, cc_legacy_key = replicate MASTER_KEY_LEN NUL,
      cc_active = False, cc_tx = 0, cc_rx = 0\<rparr>"

record msg_crypto_state =
  mc_channels :: "crypto_channel list"
  mc_count :: nat
  mc_initialized :: bool

definition msg_crypto_new :: msg_crypto_state where
  "msg_crypto_new = \<lparr>mc_channels = replicate MAX_CHANNELS empty_channel, mc_count = 0, mc_initialized = False\<rparr>"

definition find_channel :: "u32 \<Rightarrow> msg_crypto_state \<Rightarrow> nat option" where
  "find_channel contact_id st = find_index (\<lambda>c. cc_active c \<and> cc_contact c = contact_id) (mc_channels st)"

definition find_free_slot :: "msg_crypto_state \<Rightarrow> nat option" where
  "find_free_slot st = find_index (\<lambda>c. \<not> cc_active c) (mc_channels st)"

section \<open>Counter mode\<close>

text \<open>The last four bytes of the block are a big-endian counter; here the bytes from the last one on.\<close>

fun carry_inc :: "string \<Rightarrow> string" where
  "carry_inc [] = []"
| "carry_inc (c # cs) =
     (let c' = char_of ((code c + 1) mod 256) in if c' \<noteq> NUL then c' # cs else c' # carry_inc cs)"

definition increment_counter :: "string \<Rightarrow> string" where
  "increment_counter counter = take 12 counter @ rev (carry_inc (rev (drop 12 counter)))"

definition xor_char :: "char \<Rightarrow> char \<Rightarrow> char" where
  "xor_char a b = char_of (code a XOR code b)"

function ctr_blocks :: "(string \<Rightarrow> string) \<Rightarrow> string \<Rightarrow> string \<Rightarrow> string" where
  "ctr_blocks encrypt_block counter input =
     (if input = [] then []
      else map2 xor_char (take 16 input) (encrypt_block counter) @
           ctr_blocks encrypt_block (increment_counter counter) (drop 16 input))"
  by pat_completeness auto
termination
  by (relation "measure (\<lambda>(e, c, input). length input)") auto

declare ctr_blocks.simps [simp del]

definition aes256_ctr_process :: "crypto_prims \<Rightarrow> string \<Rightarrow> string \<Rightarrow> string \<Rightarrow> string" where
  "aes256_ctr_process pr key nonce input = ctr_blocks (aes256_block pr key) nonce input"

section \<open>Keys\<close>

definition compute_hmac :: "crypto_prims \<Rightarrow> string \<Rightarrow> string \<Rightarrow> string" where
  "compute_hmac pr key data = hmac_sha256 pr key data"

definition derive_per_message_keys :: "crypto_prims \<Rightarrow> string \<Rightarrow> string \<Rightarrow> string \<times> string" where
  "derive_per_message_keys pr master_key nonce =
     (compute_hmac pr master_key (nonce @ ''enc''), compute_hmac pr master_key (nonce @ ''mac''))"

definition constant_time_eq :: "string \<Rightarrow> string \<Rightarrow> bool" where
  "constant_time_eq a b \<longleftrightarrow>
     (if length a \<noteq> length b then False
      else fold (\<lambda>(x, y) diff. diff OR (code x XOR code y)) (zip a b) 0 = 0)"

definition derive_master_key :: "crypto_prims \<Rightarrow> string \<Rightarrow> string" where
  "derive_master_key pr passphrase = pbkdf2_sha256 pr passphrase PBKDF2_SALT PBKDF2_ITERATIONS"

definition prehash_passphrase :: "crypto_prims \<Rightarrow> string \<Rightarrow> string" where
  "prehash_passphrase pr passphrase = sha256 pr (''ThistleOS-MsgCrypto-v2'' @ [NUL] @ passphrase)"

definition derive_argon2id_key :: "crypto_prims \<Rightarrow> string \<Rightarrow> string \<Rightarrow> int + string" where
  "derive_argon2id_key pr password salt =
     (if password = [] \<or> ARGON2ID_MAX_PASSWORD_LEN < length password then Inl ESP_ERR_INVALID_ARG
      else case argon2id pr password salt of None \<Rightarrow> Inl ESP_FAIL | Some key \<Rightarrow> Inr key)"

definition derive_v2_master_key :: "crypto_prims \<Rightarrow> string \<Rightarrow> string \<Rightarrow> int + string" where
  "derive_v2_master_key pr password_material salt = derive_argon2id_key pr password_material salt"

definition derive_v2_envelope_key_with ::
  "string \<Rightarrow> string \<Rightarrow> (string \<Rightarrow> string \<Rightarrow> int + string) \<Rightarrow> int + string" where
  "derive_v2_envelope_key_with password_material input derive =
     (if length input < V2_OVERHEAD then Inl ESP_ERR_INVALID_SIZE
      else if input ! 0 \<noteq> VERSION then Inl ESP_ERR_NOT_SUPPORTED
      else derive password_material (take V2_SALT_LEN (drop 1 input)))"

definition zeroize_channel :: "crypto_channel \<Rightarrow> crypto_channel" where
  "zeroize_channel ch =
     ch\<lparr>cc_master_key := map (\<lambda>_. NUL) (cc_master_key ch), cc_salt := map (\<lambda>_. NUL) (cc_salt ch),
        cc_password_material := map (\<lambda>_. NUL) (cc_password_material ch), cc_legacy_key := map (\<lambda>_. NUL) (cc_legacy_key ch),
        cc_active := False, cc_contact := 0, cc_tx := 0, cc_rx := 0\<rparr>"

section \<open>Envelopes\<close>

text \<open>The result and the contents of the output buffer. \<open>random\<close> is the nonce the generator gives.\<close>

definition encrypt_message :: "crypto_prims \<Rightarrow> string option \<Rightarrow> string \<Rightarrow> string \<Rightarrow> string \<Rightarrow> (int + nat) \<times> string" where
  "encrypt_message pr random master_key plaintext output =
     (let total_len = OVERHEAD + length plaintext in
      if length output < total_len then (Inl ESP_ERR_NO_MEM, output)
      else case random of
        None \<Rightarrow> (Inl ESP_FAIL, output)
      | Some nonce \<Rightarrow>
          (let (enc_key, mac_key) = derive_per_message_keys pr master_key nonce;
               body = [LEGACY_VERSION] @ nonce @ aes256_ctr_process pr enc_key nonce plaintext;
               hmac_val = compute_hmac pr mac_key body
           in (Inr total_len, (body @ hmac_val) @ drop total_len output)))"

definition decrypt_message :: "crypto_prims \<Rightarrow> string \<Rightarrow> string \<Rightarrow> string \<Rightarrow> (int + nat) \<times> string" where
  "decrypt_message pr master_key input plaintext =
     (if length input < OVERHEAD then (Inl ESP_ERR_INVALID_SIZE, plaintext)
      else if input ! 0 \<noteq> LEGACY_VERSION then (Inl ESP_ERR_NOT_SUPPORTED, plaintext)
      else
        (let nonce = take NONCE_LEN (drop 1 input);
             ct_len = length input - OVERHEAD;
             ct_start = HEADER_LEN + NONCE_LEN;
             ct_end = ct_start + ct_len;
             ciphertext = take ct_len (drop ct_start input);
             received_hmac = take HMAC_LEN (drop ct_end input)
         in
           if length plaintext < ct_len then (Inl ESP_ERR_NO_MEM, plaintext)
           else
             (let (enc_key, mac_key) = derive_per_message_keys pr master_key nonce;
                  computed_hmac = compute_hmac pr mac_key (take ct_end input)
              in
                if \<not> constant_time_eq computed_hmac received_hmac then (Inl ESP_ERR_INVALID_CRC, plaintext)
                else (Inr ct_len, aes256_ctr_process pr enc_key nonce ciphertext @ drop ct_len plaintext))))"

definition encrypt_message_v2 ::
  "crypto_prims \<Rightarrow> string option \<Rightarrow> string \<Rightarrow> string \<Rightarrow> string \<Rightarrow> string \<Rightarrow> (int + nat) \<times> string" where
  "encrypt_message_v2 pr random master_key salt plaintext output =
     (let total_len = V2_OVERHEAD + length plaintext in
      if length output < total_len then (Inl ESP_ERR_NO_MEM, output)
      else case random of
        None \<Rightarrow> (Inl ESP_FAIL, output)
      | Some nonce \<Rightarrow>
          (let (enc_key, mac_key) = derive_per_message_keys pr master_key nonce;
               body = [VERSION] @ salt @ nonce @ aes256_ctr_process pr enc_key nonce plaintext;
               hmac_val = compute_hmac pr mac_key body
           in (Inr total_len, (body @ hmac_val) @ drop total_len output)))"

definition decrypt_message_v2 :: "crypto_prims \<Rightarrow> string \<Rightarrow> string \<Rightarrow> string \<Rightarrow> (int + nat) \<times> string" where
  "decrypt_message_v2 pr master_key input plaintext =
     (if length input < V2_OVERHEAD then (Inl ESP_ERR_INVALID_SIZE, plaintext)
      else if input ! 0 \<noteq> VERSION then (Inl ESP_ERR_NOT_SUPPORTED, plaintext)
      else
        (let nonce_start = HEADER_LEN + V2_SALT_LEN;
             nonce = take NONCE_LEN (drop nonce_start input);
             ct_len = length input - V2_OVERHEAD;
             ct_start = nonce_start + NONCE_LEN;
             ct_end = ct_start + ct_len
         in
           if length plaintext < ct_len then (Inl ESP_ERR_NO_MEM, plaintext)
           else
             (let (enc_key, mac_key) = derive_per_message_keys pr master_key nonce;
                  computed_hmac = compute_hmac pr mac_key (take ct_end input)
              in
                if \<not> constant_time_eq computed_hmac (take HMAC_LEN (drop ct_end input)) then (Inl ESP_ERR_INVALID_CRC, plaintext)
                else (Inr ct_len, aes256_ctr_process pr enc_key nonce (take ct_len (drop ct_start input)) @ drop ct_len plaintext))))"

section \<open>The C interface\<close>

definition rs_msg_crypto_init :: "msg_crypto_state \<Rightarrow> int \<times> msg_crypto_state" where
  "rs_msg_crypto_init st =
     (ESP_OK, st\<lparr>mc_channels := map zeroize_channel (mc_channels st), mc_count := 0, mc_initialized := True\<rparr>)"

definition clear_slot :: "nat \<Rightarrow> msg_crypto_state \<Rightarrow> msg_crypto_state" where
  "clear_slot idx st =
     st\<lparr>mc_channels := (mc_channels st)[idx := zeroize_channel (mc_channels st ! idx)], mc_count := mc_count st - 1\<rparr>"

text \<open>\<open>random\<close> is the salt the generator gives.\<close>

definition rs_msg_crypto_establish ::
  "crypto_prims \<Rightarrow> string option \<Rightarrow> u32 \<Rightarrow> string option \<Rightarrow> msg_crypto_state \<Rightarrow> int \<times> msg_crypto_state" where
  "rs_msg_crypto_establish pr random contact_id passphrase st =
     (case passphrase of
        None \<Rightarrow> (ESP_ERR_INVALID_ARG, st)
      | Some pw \<Rightarrow>
          if length pw = 0 \<or> MAX_PASSPHRASE_LEN < length pw then (ESP_ERR_INVALID_ARG, st)
          else if \<not> mc_initialized st then (ESP_ERR_INVALID_STATE, st)
          else
            (let password_material = prehash_passphrase pr pw;
                 legacy_master_key = derive_master_key pr pw
             in case random of
                  None \<Rightarrow> (ESP_FAIL, st)
                | Some salt \<Rightarrow>
                    (case derive_v2_master_key pr password_material salt of
                       Inl err \<Rightarrow> (err, st)
                     | Inr master_key \<Rightarrow>
                         (let fill = (\<lambda>slot st.
                                (ESP_OK, st\<lparr>mc_channels := (mc_channels st)[slot :=
                                   \<lparr>cc_contact = contact_id, cc_master_key = master_key, cc_salt = salt,
                                    cc_password_material = password_material, cc_legacy_key = legacy_master_key,
                                    cc_active = True, cc_tx = 0, cc_rx = 0\<rparr>], mc_count := mc_count st + 1\<rparr>))
                          in case find_channel contact_id st of
                               Some idx \<Rightarrow> fill idx (clear_slot idx st)
                             | None \<Rightarrow>
                                 (case find_free_slot st of
                                    Some idx \<Rightarrow> fill idx st
                                  | None \<Rightarrow> (ESP_ERR_NO_MEM, st))))))"

definition rs_msg_crypto_destroy :: "u32 \<Rightarrow> msg_crypto_state \<Rightarrow> int \<times> msg_crypto_state" where
  "rs_msg_crypto_destroy contact_id st =
     (if \<not> mc_initialized st then (ESP_ERR_INVALID_STATE, st)
      else case find_channel contact_id st of
        Some idx \<Rightarrow> (ESP_OK, clear_slot idx st)
      | None \<Rightarrow> (ESP_ERR_NOT_FOUND, st))"

definition rs_msg_crypto_destroy_all :: "msg_crypto_state \<Rightarrow> int \<times> msg_crypto_state" where
  "rs_msg_crypto_destroy_all st =
     (if \<not> mc_initialized st then (ESP_ERR_INVALID_STATE, st)
      else (ESP_OK, st\<lparr>mc_channels := map zeroize_channel (mc_channels st), mc_count := 0\<rparr>))"

definition rs_msg_crypto_is_active :: "u32 \<Rightarrow> msg_crypto_state \<Rightarrow> bool" where
  "rs_msg_crypto_is_active contact_id st \<longleftrightarrow> find_channel contact_id st \<noteq> None"

definition upd_channel :: "nat \<Rightarrow> (crypto_channel \<Rightarrow> crypto_channel) \<Rightarrow> msg_crypto_state \<Rightarrow> msg_crypto_state" where
  "upd_channel idx f st = st\<lparr>mc_channels := (mc_channels st)[idx := f (mc_channels st ! idx)]\<rparr>"

definition as_i32 :: "nat \<Rightarrow> int" where
  "as_i32 n = sint (of_nat n :: u32)"

text \<open>The code, the buffer of the caller and the state.\<close>

definition rs_msg_crypto_encrypt ::
  "crypto_prims \<Rightarrow> string option \<Rightarrow> u32 \<Rightarrow> string option \<Rightarrow> nat \<Rightarrow> string option \<Rightarrow> msg_crypto_state \<Rightarrow>
   int \<times> string option \<times> msg_crypto_state" where
  "rs_msg_crypto_encrypt pr random contact_id plaintext pt_len ciphertext st =
     (case ciphertext of
        None \<Rightarrow> (ESP_ERR_INVALID_ARG, ciphertext, st)
      | Some ct \<Rightarrow>
          if plaintext = None \<and> 0 < pt_len then (ESP_ERR_INVALID_ARG, ciphertext, st)
          else if \<not> mc_initialized st then (ESP_ERR_INVALID_STATE, ciphertext, st)
          else case find_channel contact_id st of
            None \<Rightarrow> (ESP_ERR_NOT_FOUND, ciphertext, st)
          | Some idx \<Rightarrow>
              (let master_key = cc_master_key (mc_channels st ! idx);
                   salt = cc_salt (mc_channels st ! idx);
                   pt = (case plaintext of None \<Rightarrow> [] | Some s \<Rightarrow> take pt_len s)
               in case encrypt_message_v2 pr random master_key salt pt ct of
                    (Inr len, ct') \<Rightarrow> (as_i32 len, Some ct', upd_channel idx (\<lambda>c. c\<lparr>cc_tx := cc_tx c + 1\<rparr>) st)
                  | (Inl e, ct') \<Rightarrow> (e, Some ct', st)))"

definition open_envelope :: "crypto_prims \<Rightarrow> crypto_channel \<Rightarrow> string \<Rightarrow> string \<Rightarrow> (int + nat) \<times> string" where
  "open_envelope pr ch ct pt =
     (case ct of
        [] \<Rightarrow> (Inl ESP_ERR_INVALID_SIZE, pt)
      | version # _ \<Rightarrow>
          if version = LEGACY_VERSION then decrypt_message pr (cc_legacy_key ch) ct pt
          else if version = VERSION then
            (case derive_v2_envelope_key_with (cc_password_material ch) ct (derive_v2_master_key pr) of
               Inl e \<Rightarrow> (Inl e, pt)
             | Inr master_key \<Rightarrow> decrypt_message_v2 pr master_key ct pt)
          else (Inl ESP_ERR_NOT_SUPPORTED, pt))"

definition rs_msg_crypto_decrypt ::
  "crypto_prims \<Rightarrow> u32 \<Rightarrow> string option \<Rightarrow> string option \<Rightarrow> msg_crypto_state \<Rightarrow> int \<times> string option \<times> msg_crypto_state" where
  "rs_msg_crypto_decrypt pr contact_id ciphertext plaintext st =
     (case (ciphertext, plaintext) of
        (Some ct, Some pt) \<Rightarrow>
          if \<not> mc_initialized st then (ESP_ERR_INVALID_STATE, plaintext, st)
          else (case find_channel contact_id st of
            None \<Rightarrow> (ESP_ERR_NOT_FOUND, plaintext, st)
          | Some idx \<Rightarrow>
              (case open_envelope pr (mc_channels st ! idx) ct pt of
                 (Inr len, pt') \<Rightarrow> (as_i32 len, Some pt', upd_channel idx (\<lambda>c. c\<lparr>cc_rx := cc_rx c + 1\<rparr>) st)
               | (Inl e, pt') \<Rightarrow> (e, Some pt', st)))
      | _ \<Rightarrow> (ESP_ERR_INVALID_ARG, plaintext, st))"

definition rs_msg_crypto_get_overhead :: int where
  "rs_msg_crypto_get_overhead = as_i32 V2_OVERHEAD"

definition rs_msg_crypto_channel_count :: "msg_crypto_state \<Rightarrow> int" where
  "rs_msg_crypto_channel_count st = as_i32 (mc_count st)"

text \<open>What is written to the structure: contact, active flag, both counts.\<close>

definition rs_msg_crypto_get_channel :: "u32 \<Rightarrow> bool \<Rightarrow> msg_crypto_state \<Rightarrow> int \<times> (u32 \<times> bool \<times> u32 \<times> u32) option" where
  "rs_msg_crypto_get_channel contact_id null_out st =
     (if null_out then (ESP_ERR_INVALID_ARG, None)
      else case find_channel contact_id st of
        None \<Rightarrow> (ESP_ERR_NOT_FOUND, None)
      | Some idx \<Rightarrow>
          (let ch = mc_channels st ! idx in (ESP_OK, Some (cc_contact ch, cc_active ch, cc_tx ch, cc_rx ch))))"

definition rs_msg_crypto_get_stats :: "bool \<Rightarrow> msg_crypto_state \<Rightarrow> int \<times> (u32 \<times> u32 \<times> u32) option" where
  "rs_msg_crypto_get_stats null_out st =
     (if null_out then (ESP_ERR_INVALID_ARG, None)
      else
        (let chs = filter cc_active (mc_channels st)
         in (ESP_OK, Some (of_nat (mc_count st), sum_list (map cc_tx chs), sum_list (map cc_rx chs)))))"

definition rs_msg_crypto_derive_key :: "string option \<Rightarrow> bool \<Rightarrow> int" where
  "rs_msg_crypto_derive_key passphrase null_out =
     (case passphrase of
        None \<Rightarrow> ESP_ERR_INVALID_ARG
      | Some pw \<Rightarrow>
          if null_out \<or> length pw = 0 \<or> MAX_PASSPHRASE_LEN < length pw then ESP_ERR_INVALID_ARG else ESP_ERR_NOT_SUPPORTED)"

definition rs_msg_crypto_derive_key_v2 :: "crypto_prims \<Rightarrow> string option \<Rightarrow> string option \<Rightarrow> bool \<Rightarrow> int \<times> string option" where
  "rs_msg_crypto_derive_key_v2 pr passphrase salt null_out =
     (case (passphrase, salt) of
        (Some pw, Some s) \<Rightarrow>
          if null_out \<or> length pw = 0 \<or> MAX_PASSPHRASE_LEN < length pw \<or> length s \<noteq> V2_SALT_LEN then (ESP_ERR_INVALID_ARG, None)
          else (case derive_v2_master_key pr (prehash_passphrase pr pw) s of
                  Inr key \<Rightarrow> (ESP_OK, Some key)
                | Inl err \<Rightarrow> (err, None))
      | _ \<Rightarrow> (ESP_ERR_INVALID_ARG, None))"

end
