(* ===== verification/Msg_Crypto_Facts.thy ===== *)
theory Msg_Crypto_Facts
  imports Msg_Crypto
begin

text \<open>
  Properties of message encryption: an envelope is accepted exactly when it is an encryption under the
  channel's keys, the two ends of a channel understand each other, no keystream block is used twice in a
  message, and the table of channels keeps no keys of a channel that is gone.
\<close>

section \<open>Bytes\<close>

lemma code_inject: "code a = code b \<longleftrightarrow> a = b"
  by (metis char_of_char)

lemma char_of_NUL: "n < 256 \<Longrightarrow> char_of n = NUL \<longleftrightarrow> n = (0 :: nat)"
proof -
  assume n: "n < 256"
  have "char_of n = NUL \<longleftrightarrow> code (char_of n) = code NUL" by (simp only: code_inject)
  also have "\<dots> \<longleftrightarrow> n = 0" using n by (simp add: NUL_def)
  finally show ?thesis .
qed

lemma code_xor_char [simp]: "code (xor_char a b) = code a XOR code b"
proof -
  have "take_bit 8 (code a XOR code b) = code a XOR code b"
    by (simp add: take_bit_nat_eq_self)
  then show ?thesis by (simp add: xor_char_def take_bit_eq_mod)
qed

lemma xor_char_cancel [simp]: "xor_char (xor_char a k) k = a"
proof -
  have "code (xor_char (xor_char a k) k) = code a" by (simp add: xor.assoc)
  then show ?thesis by (simp only: code_inject)
qed

lemma map2_xor_cancel: "length a \<le> length k \<Longrightarrow> map2 xor_char (map2 xor_char a k) k = a"
  by (induction a k rule: list_induct2') auto

text \<open>The comparison that does not stop at the first difference is equality.\<close>

lemma fold_xor_zero: "fold (\<lambda>(x, y) diff. diff OR (code x XOR code y)) ps d = 0 \<longleftrightarrow> d = 0 \<and> (\<forall>(x, y)\<in>set ps. x = y)"
proof (induction ps arbitrary: d)
  case (Cons p ps)
  obtain x y where p: "p = (x, y)" by fastforce
  have "code x XOR code y = 0 \<longleftrightarrow> x = y" by (metis xor_self_eq code_inject xor.right_neutral xor.assoc xor.left_neutral)
  with Cons p show ?case by (auto simp: or_eq_0_iff)
qed simp

lemma macs_equal_iff: "constant_time_eq a b \<longleftrightarrow> a = b"
proof -
  have "length a = length b \<Longrightarrow> (\<forall>(x, y)\<in>set (zip a b). x = y) \<longleftrightarrow> a = b"
    by (induction a b rule: list_induct2) auto
  then show ?thesis by (auto simp: constant_time_eq_def fold_xor_zero)
qed

section \<open>Counter mode\<close>

lemma carry_inc_length [simp]: "length (carry_inc s) = length s"
  by (induction s) (simp_all add: Let_def)

lemma increment_counter_length [simp]: "length (increment_counter c) = length c"
  by (simp add: increment_counter_def)

text \<open>A block cipher keeps the length of a block.\<close>

definition block_cipher :: "(string \<Rightarrow> string) \<Rightarrow> bool" where
  "block_cipher e \<longleftrightarrow> (\<forall>b. length b = 16 \<longrightarrow> length (e b) = 16)"

lemma ctr_blocks_length: "block_cipher e \<Longrightarrow> length c = 16 \<Longrightarrow> length (ctr_blocks e c s) = length s"
proof (induction e c s rule: ctr_blocks.induct)
  case (1 e c s)
  then show ?case by (cases "s = []") (simp_all add: ctr_blocks.simps [of e c] block_cipher_def)
qed

lemma ctr_blocks_involution: "block_cipher e \<Longrightarrow> length c = 16 \<Longrightarrow> ctr_blocks e c (ctr_blocks e c s) = s"
proof (induction e c s rule: ctr_blocks.induct)
  case (1 e c s)
  show ?case
  proof (cases "s = []")
    case True
    then show ?thesis by (simp add: ctr_blocks.simps)
  next
    case False
    let ?a = "map2 xor_char (take 16 s) (e c)" and ?r = "ctr_blocks e (increment_counter c) (drop 16 s)"
    have e: "length (e c) = 16" using 1(2,3) by (simp add: block_cipher_def)
    have s: "ctr_blocks e c s = ?a @ ?r" using False by (simp add: ctr_blocks.simps [of e c s])
    have a: "length ?a = min (length s) 16" using e by simp
    have "take 16 (?a @ ?r) = ?a" "drop 16 (?a @ ?r) = ?r"
      using a ctr_blocks_length [OF 1(2), of "increment_counter c" "drop 16 s"] 1(3) by (cases "length s \<le> 16"; simp)+
    moreover have "?a \<noteq> []" using a False by (metis length_0_conv length_greater_0_conv min_less_iff_conj zero_less_numeral less_irrefl)
    then have "?a @ ?r \<noteq> []" by blast
    ultimately have "ctr_blocks e c (?a @ ?r) = map2 xor_char ?a (e c) @ ctr_blocks e (increment_counter c) ?r"
      by (simp only: ctr_blocks.simps [of e c "?a @ ?r"] if_False)
    also have "\<dots> = take 16 s @ drop 16 s"
      using 1 False e map2_xor_cancel [of "take 16 s" "e c"] by simp
    finally show ?thesis by (simp add: s)
  qed
qed

text \<open>The counter of a block as a number, and counting on.\<close>

fun le_value :: "string \<Rightarrow> nat" where
  "le_value [] = 0"
| "le_value (c # cs) = code c + 256 * le_value cs"

definition counter_value :: "string \<Rightarrow> nat" where
  "counter_value block = le_value (rev (drop 12 block))"

lemma le_value_less: "le_value s < 256 ^ length s"
proof (induction s)
  case (Cons c s)
  have "code c < 256" by simp
  moreover have "256 * (le_value s + 1) \<le> 256 * 256 ^ length s" using Cons by (intro mult_le_mono2) simp
  ultimately show ?case by (simp del: nat_of_char_less_256)
qed simp

lemma le_value_carry: "le_value (carry_inc s) = (le_value s + 1) mod 256 ^ length s"
proof (induction s)
  case (Cons c s)
  have c: "code c < 256" by simp
  show ?case
  proof (cases "code c = 255")
    case True
    have "le_value (carry_inc (c # s)) = 256 * ((le_value s + 1) mod 256 ^ length s)"
      using Cons True char_of_NUL [of 0] by (simp add: Let_def) (simp add: NUL_def)
    also have "\<dots> = (256 * (le_value s + 1)) mod (256 * 256 ^ length s)" by (rule mult_mod_right)
    finally show ?thesis using True by (simp add: algebra_simps)
  next
    case False
    then have less: "code c + 1 < 256" using c by linarith
    then have "char_of (code c + 1) \<noteq> NUL" using char_of_NUL [of "code c + 1"] by simp
    then have "le_value (carry_inc (c # s)) = code c + 1 + 256 * le_value s" using less by simp
    moreover have "\<dots> < 256 ^ length (c # s)" using le_value_less [of s] less by simp
    ultimately show ?thesis by simp
  qed
qed simp

lemma counter_value_inc: "length b = 16 \<Longrightarrow> counter_value (increment_counter b) = (counter_value b + 1) mod 2 ^ 32"
  using le_value_carry [of "rev (drop 12 b)"] by (simp add: counter_value_def increment_counter_def)

lemma counter_value_iterate:
  "length b = 16 \<Longrightarrow> length ((increment_counter ^^ n) b) = 16 \<and> counter_value ((increment_counter ^^ n) b) = (counter_value b + n) mod 2 ^ 32"
proof (induction n)
  case 0
  then show ?case using le_value_less [of "rev (drop 12 b)"] by (simp add: counter_value_def)
next
  case (Suc n)
  then show ?case using counter_value_inc [of "(increment_counter ^^ n) b"] by (simp add: mod_Suc_eq)
qed

text \<open>Counter mode never repeats a keystream block: the counters of any two blocks of a message of up to
  2 to the 32 blocks differ, while the first twelve bytes of the nonce stay.\<close>

theorem ctr_counters_distinct:
  assumes "length nonce = 16" "i < j" "j < 2 ^ 32"
  shows "(increment_counter ^^ i) nonce \<noteq> (increment_counter ^^ j) nonce \<and>
    take 12 ((increment_counter ^^ i) nonce) = take 12 nonce"
proof -
  have "(counter_value nonce + i) mod 2 ^ 32 \<noteq> (counter_value nonce + j) mod 2 ^ 32"
  proof
    assume "(counter_value nonce + i) mod 2 ^ 32 = (counter_value nonce + j) mod 2 ^ 32"
    from this [symmetric] have "(2 :: nat) ^ 32 dvd j - i"
      using mod_eq_dvd_iff_nat [of "counter_value nonce + i" "counter_value nonce + j" "2 ^ 32"] assms(2) by simp
    with assms show False using dvd_imp_le [of "2 ^ 32" "j - i"] by simp
  qed
  moreover have "take 12 ((increment_counter ^^ i) nonce) = take 12 nonce"
    by (induction i) (use assms(1) in \<open>simp_all add: increment_counter_def\<close>)
  ultimately show ?thesis using counter_value_iterate [OF assms(1)] by metis
qed

theorem ctr_counters_distinct_witness:
  "(increment_counter ^^ 3) (replicate 16 (CHR 0xFF)) \<noteq> (increment_counter ^^ 5) (replicate 16 (CHR 0xFF))"
  using ctr_counters_distinct [of "replicate 16 (CHR 0xFF)" 3 5] by simp

section \<open>Envelopes\<close>

text \<open>The documented sizes of the primitives.\<close>

definition prims_ok :: "crypto_prims \<Rightarrow> bool" where
  "prims_ok pr \<longleftrightarrow> (\<forall>k. block_cipher (aes256_block pr k)) \<and> (\<forall>k d. length (hmac_sha256 pr k d) = 32) \<and>
     (\<forall>d. length (sha256 pr d) = 32) \<and> (\<forall>p s n. length (pbkdf2_sha256 pr p s n) = 32) \<and>
     (\<forall>p s k. argon2id pr p s = Some k \<longrightarrow> length k = 32)"

lemma aes_ctr: "prims_ok pr \<Longrightarrow> length nonce = 16 \<Longrightarrow> length (aes256_ctr_process pr k nonce s) = length s"
  "prims_ok pr \<Longrightarrow> length nonce = 16 \<Longrightarrow> aes256_ctr_process pr k nonce (aes256_ctr_process pr k nonce s) = s"
  by (simp_all add: prims_ok_def aes256_ctr_process_def ctr_blocks_length ctr_blocks_involution)

lemma compute_hmac_length: "prims_ok pr \<Longrightarrow> length (compute_hmac pr k d) = 32"
  by (simp add: prims_ok_def compute_hmac_def)

text \<open>An envelope with header \<open>hd\<close>, which is the version and, in version 2, the salt.\<close>

definition sealed :: "crypto_prims \<Rightarrow> string \<Rightarrow> string \<Rightarrow> string \<Rightarrow> string \<Rightarrow> string" where
  "sealed pr master_key header nonce plaintext =
     (let (enc_key, mac_key) = derive_per_message_keys pr master_key nonce;
          body = header @ nonce @ aes256_ctr_process pr enc_key nonce plaintext
      in body @ compute_hmac pr mac_key body)"

lemma sealed_length:
  "prims_ok pr \<Longrightarrow> length nonce = 16 \<Longrightarrow> length (sealed pr k header nonce pt) = length header + 48 + length pt"
  by (simp add: sealed_def derive_per_message_keys_def aes_ctr(1) compute_hmac_length)


text \<open>The parts of an envelope.\<close>

lemma envelope_parts:
  assumes "h + 48 \<le> length input"
  obtains header nonce ct mac where "input = header @ nonce @ ct @ mac" "length header = h" "length nonce = 16"
    "length ct = length input - (h + 48)" "length mac = 32"
proof -
  let ?ct = "take (length input - (h + 48)) (drop (h + 16) input)" and ?mac = "drop (length input - 32) input"
  have "drop (h + 16) input = ?ct @ ?mac"
    using assms append_take_drop_id [of "length input - (h + 48)" "drop (h + 16) input"] by (simp add: add.commute)
  then have "input = take h input @ take 16 (drop h input) @ ?ct @ ?mac"
    by (metis append_take_drop_id drop_drop add.commute)
  then show thesis using that [of "take h input" "take 16 (drop h input)" ?ct ?mac] assms by simp
qed

lemma decrypt_parts:
  assumes "length salt = 16" "length nonce = 16" "length mac = 32"
  shows "decrypt_message_v2 pr k (v # salt @ nonce @ ct @ mac) buf =
     (if v \<noteq> VERSION then (Inl ESP_ERR_NOT_SUPPORTED, buf) else if length buf < length ct then (Inl ESP_ERR_NO_MEM, buf)
      else
        (let (enc_key, mac_key) = derive_per_message_keys pr k nonce in
         if compute_hmac pr mac_key (v # salt @ nonce @ ct) \<noteq> mac then (Inl ESP_ERR_INVALID_CRC, buf)
         else (Inr (length ct), aes256_ctr_process pr enc_key nonce ct @ drop (length ct) buf)))"
    "decrypt_message pr k (v # nonce @ ct @ mac) buf =
     (if v \<noteq> LEGACY_VERSION then (Inl ESP_ERR_NOT_SUPPORTED, buf) else if length buf < length ct then (Inl ESP_ERR_NO_MEM, buf)
      else
        (let (enc_key, mac_key) = derive_per_message_keys pr k nonce in
         if compute_hmac pr mac_key (v # nonce @ ct) \<noteq> mac then (Inl ESP_ERR_INVALID_CRC, buf)
         else (Inr (length ct), aes256_ctr_process pr enc_key nonce ct @ drop (length ct) buf)))"
  using assms
  by (simp_all add: decrypt_message_v2_def decrypt_message_def crypto_lengths macs_equal_iff Let_def numeral_eq_Suc split: prod.splits)

lemmas legacy_parts = decrypt_parts(2) [OF length_replicate]

lemma decrypt_v2_iff:
  assumes "prims_ok pr"
  shows "decrypt_message_v2 pr k input buf = (Inr n, out) \<longleftrightarrow>
    (\<exists>salt nonce pt. length salt = 16 \<and> length nonce = 16 \<and> input = sealed pr k (VERSION # salt) nonce pt \<and>
       n = length pt \<and> n \<le> length buf \<and> out = pt @ drop n buf)"
proof
  assume dec: "decrypt_message_v2 pr k input buf = (Inr n, out)"
  then have "17 + 48 \<le> length input" by (simp add: decrypt_message_v2_def crypto_lengths split: if_splits)
  then obtain header nonce ct mac where parts: "input = header @ nonce @ ct @ mac" "length header = 17" "length nonce = 16" "length mac = 32"
    by (rule envelope_parts)
  then obtain v salt where v: "header = v # salt" "length salt = 16" by (cases header) auto
  obtain ek mk where keys: "derive_per_message_keys pr k nonce = (ek, mk)" by fastforce
  let ?pt = "aes256_ctr_process pr ek nonce ct"
  have "v = VERSION" "compute_hmac pr mk (v # salt @ nonce @ ct) = mac" "n = length ct" "length ct \<le> length buf" "out = ?pt @ drop (length ct) buf"
    using dec decrypt_parts(1) [OF v(2) parts(3,4), of pr k v ct buf] by (auto simp: parts(1) v(1) keys split: if_splits)
  moreover have "aes256_ctr_process pr ek nonce ?pt = ct" "length ?pt = length ct" using aes_ctr [OF assms parts(3)] by simp_all
  ultimately show "\<exists>salt nonce pt. length salt = 16 \<and> length nonce = 16 \<and> input = sealed pr k (VERSION # salt) nonce pt \<and>
       n = length pt \<and> n \<le> length buf \<and> out = pt @ drop n buf"
    using v parts by (intro exI [of _ salt] exI [of _ nonce] exI [of _ ?pt]) (simp add: sealed_def keys)
next
  assume "\<exists>salt nonce pt. length salt = 16 \<and> length nonce = 16 \<and> input = sealed pr k (VERSION # salt) nonce pt \<and>
       n = length pt \<and> n \<le> length buf \<and> out = pt @ drop n buf"
  then obtain salt nonce pt where e: "length salt = 16" "length nonce = 16" "input = sealed pr k (VERSION # salt) nonce pt"
    "n = length pt" "n \<le> length buf" "out = pt @ drop n buf" by blast
  obtain ek mk where keys: "derive_per_message_keys pr k nonce = (ek, mk)" by fastforce
  show "decrypt_message_v2 pr k input buf = (Inr n, out)"
    using e by (simp add: sealed_def keys decrypt_parts(1) compute_hmac_length [OF assms] aes_ctr [OF assms e(2)])
qed

lemma decrypt_legacy_iff:
  assumes "prims_ok pr"
  shows "decrypt_message pr k input buf = (Inr n, out) \<longleftrightarrow>
    (\<exists>nonce pt. length nonce = 16 \<and> input = sealed pr k [LEGACY_VERSION] nonce pt \<and>
       n = length pt \<and> n \<le> length buf \<and> out = pt @ drop n buf)"
proof
  assume dec: "decrypt_message pr k input buf = (Inr n, out)"
  then have "1 + 48 \<le> length input" by (simp add: decrypt_message_def crypto_lengths split: if_splits)
  then obtain header nonce ct mac where parts: "input = header @ nonce @ ct @ mac" "length header = 1" "length nonce = 16" "length mac = 32"
    by (rule envelope_parts)
  then obtain v where v: "header = [v]" by (cases header) auto
  obtain ek mk where keys: "derive_per_message_keys pr k nonce = (ek, mk)" by fastforce
  let ?pt = "aes256_ctr_process pr ek nonce ct"
  have "v = LEGACY_VERSION" "compute_hmac pr mk (v # nonce @ ct) = mac" "n = length ct" "length ct \<le> length buf" "out = ?pt @ drop (length ct) buf"
    using dec legacy_parts [OF parts(3,4), of pr k v ct buf] by (auto simp: parts(1) v keys split: if_splits)
  moreover have "aes256_ctr_process pr ek nonce ?pt = ct" "length ?pt = length ct" using aes_ctr [OF assms parts(3)] by simp_all
  ultimately show "\<exists>nonce pt. length nonce = 16 \<and> input = sealed pr k [LEGACY_VERSION] nonce pt \<and>
       n = length pt \<and> n \<le> length buf \<and> out = pt @ drop n buf"
    using v parts by (intro exI [of _ nonce] exI [of _ ?pt]) (simp add: sealed_def keys)
next
  assume "\<exists>nonce pt. length nonce = 16 \<and> input = sealed pr k [LEGACY_VERSION] nonce pt \<and>
       n = length pt \<and> n \<le> length buf \<and> out = pt @ drop n buf"
  then obtain nonce pt where e: "length nonce = 16" "input = sealed pr k [LEGACY_VERSION] nonce pt"
    "n = length pt" "n \<le> length buf" "out = pt @ drop n buf" by blast
  obtain ek mk where keys: "derive_per_message_keys pr k nonce = (ek, mk)" by fastforce
  show "decrypt_message pr k input buf = (Inr n, out)"
    using e by (simp add: sealed_def keys legacy_parts compute_hmac_length [OF assms] aes_ctr [OF assms e(1)])
qed

lemma open_envelope_iff:
  assumes "prims_ok pr" "length (cc_password_material ch) = 32"
  shows "(open_envelope pr ch ct buf = (Inr n, out) \<longleftrightarrow>
    (\<exists>nonce pt. length nonce = 16 \<and> n = length pt \<and> n \<le> length buf \<and> out = pt @ drop n buf \<and>
       (ct = sealed pr (cc_legacy_key ch) [LEGACY_VERSION] nonce pt \<or>
        (\<exists>salt key. length salt = 16 \<and> argon2id pr (cc_password_material ch) salt = Some key \<and>
           ct = sealed pr key (VERSION # salt) nonce pt)))) \<and>
    (\<forall>e. fst (open_envelope pr ch ct buf) = Inl e \<longrightarrow> snd (open_envelope pr ch ct buf) = buf)"
proof
  have vers: "LEGACY_VERSION \<noteq> VERSION" by (simp add: LEGACY_VERSION_def VERSION_def)
  have hd_sealed: "\<exists>r. sealed pr k (v # header) nonce pt = v # r" for k v header nonce pt
    by (simp add: sealed_def split: prod.splits)
  have pm: "cc_password_material ch \<noteq> []" using assms(2) by auto
  have key: "derive_v2_envelope_key_with (cc_password_material ch) (sealed pr k (VERSION # salt) nonce pt) (derive_v2_master_key pr) =
      (case argon2id pr (cc_password_material ch) salt of None \<Rightarrow> Inl ESP_FAIL | Some key \<Rightarrow> Inr key)"
    if "length salt = 16" "length nonce = 16" for k salt nonce pt
    using that assms sealed_length [OF assms(1) that(2), of k "VERSION # salt" pt] pm
    by (simp add: derive_v2_envelope_key_with_def crypto_lengths derive_v2_master_key_def derive_argon2id_key_def
        ARGON2ID_MAX_PASSWORD_LEN_def sealed_def split: prod.splits)
  show "open_envelope pr ch ct buf = (Inr n, out) \<longleftrightarrow>
    (\<exists>nonce pt. length nonce = 16 \<and> n = length pt \<and> n \<le> length buf \<and> out = pt @ drop n buf \<and>
       (ct = sealed pr (cc_legacy_key ch) [LEGACY_VERSION] nonce pt \<or>
        (\<exists>salt key. length salt = 16 \<and> argon2id pr (cc_password_material ch) salt = Some key \<and>
           ct = sealed pr key (VERSION # salt) nonce pt)))" (is "?l = ?r")
  proof
    assume l: ?l
    then obtain v r where ct: "ct = v # r" by (cases ct) (simp_all add: open_envelope_def)
    show ?r
    proof (cases "v = LEGACY_VERSION")
      case True
      with l ct decrypt_legacy_iff [OF assms(1)] show ?thesis by (auto simp: open_envelope_def)
    next
      case False
      with l ct obtain mk where v: "v = VERSION" and mk: "derive_v2_envelope_key_with (cc_password_material ch) ct (derive_v2_master_key pr) = Inr mk"
        and d: "decrypt_message_v2 pr mk ct buf = (Inr n, out)"
        by (auto simp: open_envelope_def split: if_splits sum.splits)
      from d [unfolded decrypt_v2_iff [OF assms(1)]] obtain salt nonce pt where e: "length salt = 16" "length nonce = 16"
        "ct = sealed pr mk (VERSION # salt) nonce pt" "n = length pt" "n \<le> length buf" "out = pt @ drop n buf" by blast
      then have "argon2id pr (cc_password_material ch) salt = Some mk" using mk key [OF e(1,2), of mk pt] by (simp split: option.splits)
      with e show ?thesis by blast
    qed
  next
    assume ?r
    then obtain nonce pt where e: "length nonce = 16" "n = length pt" "n \<le> length buf" "out = pt @ drop n buf"
      and c: "ct = sealed pr (cc_legacy_key ch) [LEGACY_VERSION] nonce pt \<or>
        (\<exists>salt key. length salt = 16 \<and> argon2id pr (cc_password_material ch) salt = Some key \<and> ct = sealed pr key (VERSION # salt) nonce pt)" by blast
    from c show ?l
    proof
      assume c: "ct = sealed pr (cc_legacy_key ch) [LEGACY_VERSION] nonce pt"
      then obtain r where "ct = LEGACY_VERSION # r" using hd_sealed by blast
      moreover have "decrypt_message pr (cc_legacy_key ch) ct buf = (Inr n, out)" using e c decrypt_legacy_iff [OF assms(1)] by blast
      ultimately show ?thesis by (simp add: open_envelope_def)
    next
      assume "\<exists>salt key. length salt = 16 \<and> argon2id pr (cc_password_material ch) salt = Some key \<and> ct = sealed pr key (VERSION # salt) nonce pt"
      then obtain salt k where s: "length salt = 16" "argon2id pr (cc_password_material ch) salt = Some k" "ct = sealed pr k (VERSION # salt) nonce pt" by blast
      then obtain r where "ct = VERSION # r" using hd_sealed by blast
      moreover have "decrypt_message_v2 pr k ct buf = (Inr n, out)" using e s decrypt_v2_iff [OF assms(1)] by blast
      ultimately show ?thesis using vers key [OF s(1) e(1), of k pt] s by (simp add: open_envelope_def)
    qed
  qed
  have "fst (decrypt_message pr k i b) = Inl e \<Longrightarrow> snd (decrypt_message pr k i b) = b"
    "fst (decrypt_message_v2 pr k i b) = Inl e \<Longrightarrow> snd (decrypt_message_v2 pr k i b) = b" for k i b e
    by (auto simp: decrypt_message_def decrypt_message_v2_def Let_def split: prod.splits if_splits)
  then show "\<forall>e. fst (open_envelope pr ch ct buf) = Inl e \<longrightarrow> snd (open_envelope pr ch ct buf) = buf"
    by (auto simp: open_envelope_def split: list.splits sum.splits)
qed

text \<open>C13. Only genuine envelopes are opened: a channel accepts an input exactly when it is the encryption of
  the plaintext returned, under the key the channel's password gives with the salt in the envelope, or in
  the old format under its legacy key. Any other input, one bit changed included, leaves the buffer.\<close>

theorem envelope_accepted_iff:
  assumes "prims_ok pr" "length (cc_password_material ch) = 32"
  shows "(open_envelope pr ch ct buf = (Inr n, out) \<longleftrightarrow>
    (\<exists>nonce pt. length nonce = 16 \<and> n = length pt \<and> n \<le> length buf \<and> out = pt @ drop n buf \<and>
       (ct = sealed pr (cc_legacy_key ch) [LEGACY_VERSION] nonce pt \<or>
        (\<exists>salt key. length salt = 16 \<and> argon2id pr (cc_password_material ch) salt = Some key \<and>
           ct = sealed pr key (VERSION # salt) nonce pt)))) \<and>
    (\<forall>e. fst (open_envelope pr ch ct buf) = Inl e \<longrightarrow> snd (open_envelope pr ch ct buf) = buf)"
  by (rule open_envelope_iff [OF assms])

section \<open>The table of channels\<close>

definition occupant :: "crypto_channel \<Rightarrow> crypto_channel option" where
  "occupant c = (if cc_active c then Some c else None)"

definition mc_slots :: "msg_crypto_state \<Rightarrow> crypto_channel option list" where
  "mc_slots st = map occupant (mc_channels st)"

text \<open>The channel of a contact.\<close>

definition channel_of :: "msg_crypto_state \<Rightarrow> u32 \<Rightarrow> crypto_channel option" where
  "channel_of st i = map_option ((!) (mc_channels st)) (find_channel i st)"

definition sized :: "crypto_channel \<Rightarrow> bool" where
  "sized c \<longleftrightarrow> length (cc_master_key c) = 32 \<and> length (cc_salt c) = 16 \<and> length (cc_password_material c) = 32 \<and>
     length (cc_legacy_key c) = 32"

definition wf_channels :: "msg_crypto_state \<Rightarrow> bool" where
  "wf_channels st \<longleftrightarrow> length (mc_channels st) = 32 \<and> distinct (slot_keys cc_contact (mc_slots st)) \<and>
     mc_count st = length (somes (mc_slots st)) \<and>
     (\<forall>c\<in>set (mc_channels st). sized c \<and> (\<not> cc_active c \<longrightarrow> c = empty_channel))"

lemma find_index_occupant:
  "find_index (\<lambda>c. cc_active c \<and> cc_contact c = i) cs = find_index (slot_has cc_contact i) (map occupant cs)"
  by (induction cs) (auto simp: slot_has_def occupant_def)

lemma channel_of_slots:
  assumes "distinct (slot_keys cc_contact (mc_slots st))"
  shows "channel_of st = slot_map cc_contact (mc_slots st)"
proof
  fix i
  show "channel_of st i = slot_map cc_contact (mc_slots st) i"
  proof (cases "find_channel i st")
    case None
    then have "i \<notin> set (slot_keys cc_contact (mc_slots st))"
      by (simp add: find_channel_def find_index_occupant find_slot_miss [of "slot_has cc_contact i" cc_contact i] flip: mc_slots_def)
    with None show ?thesis by (metis channel_of_def option.map(1) slot_map_None)
  next
    case (Some idx)
    then have "find_index (slot_has cc_contact i) (mc_slots st) = Some idx"
      by (simp add: find_channel_def find_index_occupant mc_slots_def)
    then obtain d where d: "idx < length (mc_slots st)" "mc_slots st ! idx = Some d" "cc_contact d = i" "Some d \<in> set (mc_slots st)"
      by (rule find_slot_hit [OF refl])
    then have "mc_channels st ! idx = d" by (auto simp: mc_slots_def occupant_def split: if_splits)
    with Some d slot_map_entry [OF assms d(4)] show ?thesis by (simp add: channel_of_def)
  qed
qed

lemma channel_at:
  assumes "find_channel i st = Some idx"
  shows "idx < length (mc_channels st)" "cc_active (mc_channels st ! idx)" "cc_contact (mc_channels st ! idx) = i"
    "mc_slots st ! idx = Some (mc_channels st ! idx)"
  using find_index_Some [OF assms [unfolded find_channel_def]] by (simp_all add: mc_slots_def occupant_def)

lemma zeroize_sized: "sized c \<Longrightarrow> zeroize_channel c = empty_channel"
  by (simp add: zeroize_channel_def empty_channel_def sized_def crypto_lengths map_replicate_const)

lemma slots_update: "mc_slots (st\<lparr>mc_channels := (mc_channels st)[idx := c], mc_count := n\<rparr>) = (mc_slots st)[idx := occupant c]"
  by (simp add: mc_slots_def map_update)

lemma set_update: "c \<in> set (xs[i := d]) \<Longrightarrow> c \<in> set xs \<or> c = d"
  using set_update_subset_insert [of xs i d] by blast

lemma clear_slot_effect:
  assumes "wf_channels st" "find_channel i st = Some idx"
  shows "wf_channels (clear_slot idx st)" "channel_of (clear_slot idx st) = (channel_of st)(i := None)"
    "idx < length (mc_channels (clear_slot idx st))" "\<not> cc_active (mc_channels (clear_slot idx st) ! idx)"
    "mc_initialized (clear_slot idx st) = mc_initialized st"
proof -
  note wf = assms(1) [unfolded wf_channels_def]
  note at = channel_at [OF assms(2)]
  have z: "zeroize_channel (mc_channels st ! idx) = empty_channel" using wf at(1) by (intro zeroize_sized) simp
  have len: "length (mc_slots st) = length (mc_channels st)" by (simp add: mc_slots_def)
  have slots: "mc_slots (clear_slot idx st) = (mc_slots st)[idx := None]"
    by (simp add: clear_slot_def z slots_update) (simp add: occupant_def empty_channel_def)
  note rm = remove_slot [of idx "mc_slots st" _ cc_contact, OF _ at(4)]
  have count: "mc_count (clear_slot idx st) = length (somes (mc_slots (clear_slot idx st)))"
    using rm(4) wf at(1) len by (simp add: slots) (simp add: clear_slot_def)
  have "sized empty_channel" by (simp add: sized_def empty_channel_def crypto_lengths)
  then have all: "\<forall>c\<in>set (mc_channels (clear_slot idx st)). sized c \<and> (\<not> cc_active c \<longrightarrow> c = empty_channel)"
    using wf by (auto simp: clear_slot_def z dest!: set_update)
  have dist: "distinct (slot_keys cc_contact (mc_slots (clear_slot idx st)))" using rm(1) wf at(1) len by (simp add: slots)
  with count all wf show "wf_channels (clear_slot idx st)" by (simp add: wf_channels_def) (simp add: clear_slot_def)
  show "channel_of (clear_slot idx st) = (channel_of st)(i := None)"
    using rm(3) wf at len channel_of_slots [OF dist] channel_of_slots [of st] by (simp add: slots)
  show "idx < length (mc_channels (clear_slot idx st))" "\<not> cc_active (mc_channels (clear_slot idx st) ! idx)"
    "mc_initialized (clear_slot idx st) = mc_initialized st"
    using at(1) by (simp_all add: clear_slot_def z) (simp add: empty_channel_def)
qed

definition fill_slot :: "nat \<Rightarrow> crypto_channel \<Rightarrow> msg_crypto_state \<Rightarrow> msg_crypto_state" where
  "fill_slot idx c st = st\<lparr>mc_channels := (mc_channels st)[idx := c], mc_count := mc_count st + 1\<rparr>"

lemma fill_slot_effect:
  assumes "wf_channels st" "idx < length (mc_channels st)" "\<not> cc_active (mc_channels st ! idx)" "channel_of st (cc_contact c) = None"
    and c: "cc_active c" "sized c"
  shows "wf_channels (fill_slot idx c st)" "channel_of (fill_slot idx c st) = (channel_of st)(cc_contact c \<mapsto> c)"
proof -
  note wf = assms(1) [unfolded wf_channels_def]
  have len: "length (mc_slots st) = length (mc_channels st)" by (simp add: mc_slots_def)
  have free: "mc_slots st ! idx = None" using assms(2,3) by (simp add: mc_slots_def occupant_def)
  have slots: "mc_slots (fill_slot idx c st) = (mc_slots st)[idx := Some c]"
    using c(1) by (simp add: fill_slot_def slots_update) (simp add: occupant_def)
  have "cc_contact c \<notin> set (slot_keys cc_contact (mc_slots st))"
    using assms(4) wf channel_of_slots [of st] by simp
  note fl = fill_empty_slot [of idx "mc_slots st" cc_contact c, OF _ free _ this]
  have dist: "distinct (slot_keys cc_contact (mc_slots (fill_slot idx c st)))" using fl(1) wf assms(2) len by (simp add: slots)
  have "\<forall>d\<in>set (mc_channels (fill_slot idx c st)). sized d \<and> (\<not> cc_active d \<longrightarrow> d = empty_channel)"
    using wf c by (auto simp: fill_slot_def dest!: set_update)
  moreover have "mc_count (fill_slot idx c st) = length (somes (mc_slots (fill_slot idx c st)))"
    using fl(4) wf assms(2) len by (simp add: slots) (simp add: fill_slot_def)
  ultimately show "wf_channels (fill_slot idx c st)" using dist wf by (simp add: wf_channels_def) (simp add: fill_slot_def)
  show "channel_of (fill_slot idx c st) = (channel_of st)(cc_contact c \<mapsto> c)"
    using fl(3) wf assms(2) len channel_of_slots [OF dist] channel_of_slots [of st] by (simp add: slots)
qed

lemma find_free: "find_free_slot st = Some idx \<Longrightarrow> idx < length (mc_channels st) \<and> \<not> cc_active (mc_channels st ! idx)"
  using find_index_Some by (fastforce simp: find_free_slot_def)

lemma find_channel_None: "find_channel i st = None \<longleftrightarrow> channel_of st i = None"
  by (simp add: channel_of_def)

text \<open>The channel a passphrase and a salt make, if the derivation succeeds.\<close>

definition made_channel :: "crypto_prims \<Rightarrow> u32 \<Rightarrow> string \<Rightarrow> string \<Rightarrow> crypto_channel option" where
  "made_channel pr i pw salt =
     map_option (\<lambda>k. \<lparr>cc_contact = i, cc_master_key = k, cc_salt = salt, cc_password_material = prehash_passphrase pr pw,
         cc_legacy_key = derive_master_key pr pw, cc_active = True, cc_tx = 0, cc_rx = 0\<rparr>)
       (argon2id pr (prehash_passphrase pr pw) salt)"

lemma made_channel_Some:
  assumes "prims_ok pr" "length salt = 16" "made_channel pr i pw salt = Some c"
  shows "sized c" "cc_active c" "cc_contact c = i" "cc_password_material c = prehash_passphrase pr pw" "cc_salt c = salt"
    "argon2id pr (prehash_passphrase pr pw) salt = Some (cc_master_key c)"
  using assms by (auto simp: made_channel_def sized_def prims_ok_def prehash_passphrase_def derive_master_key_def)

lemma establish_effect:
  assumes pr: "prims_ok pr" and salt: "\<forall>s. random = Some s \<longrightarrow> length s = 16" and wf: "wf_channels st"
    and run: "rs_msg_crypto_establish pr random i passphrase st = (r, st')"
  shows "wf_channels st' \<and> mc_initialized st' = mc_initialized st \<and>
    (if r = ESP_OK then \<exists>pw salt c. passphrase = Some pw \<and> random = Some salt \<and> made_channel pr i pw salt = Some c \<and>
        mc_initialized st \<and> channel_of st' = (channel_of st)(i \<mapsto> c)
     else st' = st)"
proof (cases "\<exists>pw salt k. passphrase = Some pw \<and> 0 < length pw \<and> length pw \<le> 256 \<and> mc_initialized st \<and> random = Some salt \<and>
    argon2id pr (prehash_passphrase pr pw) salt = Some k")
  case False
  have "length (prehash_passphrase pr pw) = 32" for pw using pr by (simp add: prims_ok_def prehash_passphrase_def)
  then have pm: "prehash_passphrase pr pw \<noteq> []" "\<not> 1024 < length (prehash_passphrase pr pw)" for pw by (metis list.size(3) zero_neq_numeral, simp)
  with False have "r \<noteq> ESP_OK \<and> st' = st"
    using run
    by (auto simp: rs_msg_crypto_establish_def MAX_PASSPHRASE_LEN_def derive_v2_master_key_def derive_argon2id_key_def
        ARGON2ID_MAX_PASSWORD_LEN_def Let_def not_less split: option.splits sum.splits if_splits)
  with wf show ?thesis by simp
next
  case True
  then obtain pw salt k where p: "passphrase = Some pw" "0 < length pw" "length pw \<le> 256" "mc_initialized st" "random = Some salt"
    "argon2id pr (prehash_passphrase pr pw) salt = Some k" by blast
  then obtain c where c: "made_channel pr i pw salt = Some c" by (simp add: made_channel_def)
  have "length salt = 16" using salt p(5) by simp
  note made = made_channel_Some [OF pr this c]
  have ceq: "c = \<lparr>cc_contact = i, cc_master_key = k, cc_salt = salt, cc_password_material = prehash_passphrase pr pw,
      cc_legacy_key = derive_master_key pr pw, cc_active = True, cc_tx = 0, cc_rx = 0\<rparr>"
    using c p(6) by (simp add: made_channel_def)
  have "length (prehash_passphrase pr pw) = 32" using pr by (simp add: prims_ok_def prehash_passphrase_def)
  then have pm: "prehash_passphrase pr pw \<noteq> []" "\<not> 1024 < length (prehash_passphrase pr pw)" by auto
  have res: "(r, st') = (case find_channel i st of
      Some idx \<Rightarrow> (ESP_OK, fill_slot idx c (clear_slot idx st))
    | None \<Rightarrow> (case find_free_slot st of Some idx \<Rightarrow> (ESP_OK, fill_slot idx c st) | None \<Rightarrow> (ESP_ERR_NO_MEM, st)))"
    using run p pm by (simp add: rs_msg_crypto_establish_def MAX_PASSPHRASE_LEN_def derive_v2_master_key_def derive_argon2id_key_def
        ARGON2ID_MAX_PASSWORD_LEN_def Let_def fill_slot_def ceq split: option.splits)
  have fill_init: "mc_initialized (fill_slot idx c s) = mc_initialized s" for idx s by (simp add: fill_slot_def)
  show ?thesis
  proof (cases "find_channel i st")
    case (Some idx)
    note cl = clear_slot_effect [OF wf Some]
    have "channel_of (clear_slot idx st) (cc_contact c) = None" using cl(2) made(3) by simp
    note fl = fill_slot_effect [OF cl(1,3,4) this made(2,1)]
    have "channel_of (fill_slot idx c (clear_slot idx st)) = (channel_of st)(i \<mapsto> c)" using fl(2) cl(2) made(3) by simp
    with Some res fl(1) cl(5) p c fill_init show ?thesis by auto
  next
    case None
    show ?thesis
    proof (cases "find_free_slot st")
      case None
      with \<open>find_channel i st = None\<close> res wf show ?thesis by simp
    next
      case (Some idx)
      have "channel_of st (cc_contact c) = None" using None made(3) by (simp add: find_channel_None)
      note fl = fill_slot_effect [OF wf _ _ this made(2,1)]
      from fl [of idx] find_free [OF Some] None Some res p c made(3) fill_init show ?thesis by auto
    qed
  qed
qed

text \<open>Counting a message leaves the keys.\<close>

lemma upd_channel_effect:
  assumes wf: "wf_channels st" "find_channel i st = Some idx"
    and f: "\<And>c. cc_contact (f c) = cc_contact c" "\<And>c. cc_active (f c) = cc_active c" "\<And>c. sized (f c) = sized c"
  shows "wf_channels (upd_channel idx f st)" "channel_of (upd_channel idx f st) = (channel_of st)(i \<mapsto> f (mc_channels st ! idx))"
    "mc_initialized (upd_channel idx f st) = mc_initialized st"
proof -
  note w = wf(1) [unfolded wf_channels_def]
  note at = channel_at [OF wf(2)]
  have len: "length (mc_slots st) = length (mc_channels st)" by (simp add: mc_slots_def)
  have slots: "mc_slots (upd_channel idx f st) = (mc_slots st)[idx := Some (f (mc_channels st ! idx))]"
    using at(2) f(2) by (simp add: upd_channel_def mc_slots_def map_update) (simp add: occupant_def)
  note rp = replace_slot [of idx "mc_slots st" "mc_channels st ! idx" cc_contact "f (mc_channels st ! idx)", OF _ at(4) f(1)]
  have dist: "distinct (slot_keys cc_contact (mc_slots (upd_channel idx f st)))" using rp(1) w at(1) len by (simp add: slots)
  have "mc_channels st ! idx \<in> set (mc_channels st)" using at(1) by simp
  then have "sized (f (mc_channels st ! idx))" "cc_active (f (mc_channels st ! idx))" using w f at(2) by auto
  then have "\<forall>c\<in>set (mc_channels (upd_channel idx f st)). sized c \<and> (\<not> cc_active c \<longrightarrow> c = empty_channel)"
    using w by (auto simp: upd_channel_def dest!: set_update)
  moreover have "mc_count (upd_channel idx f st) = length (somes (mc_slots (upd_channel idx f st)))"
    using rp(3) w at(1) len by (simp add: slots) (simp add: upd_channel_def)
  ultimately show "wf_channels (upd_channel idx f st)" using dist w by (simp add: wf_channels_def) (simp add: upd_channel_def)
  show "channel_of (upd_channel idx f st) = (channel_of st)(i \<mapsto> f (mc_channels st ! idx))"
    using rp(2) w at(1,3) len channel_of_slots [OF dist] channel_of_slots [of st] by (simp add: slots)
  show "mc_initialized (upd_channel idx f st) = mc_initialized st" by (simp add: upd_channel_def)
qed

lemma cleared_wf:
  assumes "wf_channels st"
  shows "wf_channels (st\<lparr>mc_channels := map zeroize_channel (mc_channels st), mc_count := 0, mc_initialized := b\<rparr>)"
proof -
  have "map zeroize_channel (mc_channels st) = map (\<lambda>_. empty_channel) (mc_channels st)"
    using assms by (auto simp: wf_channels_def intro!: map_cong zeroize_sized)
  then have "map zeroize_channel (mc_channels st) = replicate 32 empty_channel"
    using assms by (simp add: map_replicate_const wf_channels_def)
  then show ?thesis
    by (simp add: wf_channels_def mc_slots_def occupant_def slot_keys_def sized_def empty_channel_def crypto_lengths)
qed

section \<open>Runs\<close>

datatype crypto_op =
    Crypto_init
  | Establish "string option" u32 "string option"
  | Destroy u32
  | Destroy_all
  | Encrypt "string option" u32 "string option" nat "string option"
  | Decrypt u32 "string option" "string option"

fun crypto_step :: "crypto_prims \<Rightarrow> crypto_op \<Rightarrow> msg_crypto_state \<Rightarrow> msg_crypto_state" where
  "crypto_step pr Crypto_init st = snd (rs_msg_crypto_init st)"
| "crypto_step pr (Establish random i pw) st = snd (rs_msg_crypto_establish pr random i pw st)"
| "crypto_step pr (Destroy i) st = snd (rs_msg_crypto_destroy i st)"
| "crypto_step pr Destroy_all st = snd (rs_msg_crypto_destroy_all st)"
| "crypto_step pr (Encrypt random i pt n ct) st = snd (snd (rs_msg_crypto_encrypt pr random i pt n ct st))"
| "crypto_step pr (Decrypt i ct pt) st = snd (snd (rs_msg_crypto_decrypt pr i ct pt st))"

text \<open>The random generator fills the sixteen bytes it is asked for.\<close>

fun salted :: "crypto_op \<Rightarrow> bool" where
  "salted (Establish random i pw) \<longleftrightarrow> (\<forall>s. random = Some s \<longrightarrow> length s = 16)"
| "salted _ \<longleftrightarrow> True"

definition count_tx :: "crypto_channel \<Rightarrow> crypto_channel" where "count_tx c = c\<lparr>cc_tx := cc_tx c + 1\<rparr>"
definition count_rx :: "crypto_channel \<Rightarrow> crypto_channel" where "count_rx c = c\<lparr>cc_rx := cc_rx c + 1\<rparr>"

lemma encrypt_state:
  "snd (snd (rs_msg_crypto_encrypt pr random i pt n ct st)) = st \<or>
   (\<exists>idx. find_channel i st = Some idx \<and> snd (snd (rs_msg_crypto_encrypt pr random i pt n ct st)) = upd_channel idx count_tx st)"
  by (auto simp: rs_msg_crypto_encrypt_def Let_def count_tx_def [abs_def] split: option.splits prod.splits sum.splits)

lemma decrypt_state:
  "snd (snd (rs_msg_crypto_decrypt pr i ct pt st)) = st \<or>
   (\<exists>idx. find_channel i st = Some idx \<and> snd (snd (rs_msg_crypto_decrypt pr i ct pt st)) = upd_channel idx count_rx st)"
  by (auto simp: rs_msg_crypto_decrypt_def Let_def count_rx_def [abs_def] split: option.splits prod.splits sum.splits)

lemma counted:
  "cc_contact (count_tx c) = cc_contact c" "cc_active (count_tx c) = cc_active c" "sized (count_tx c) = sized c"
  "cc_contact (count_rx c) = cc_contact c" "cc_active (count_rx c) = cc_active c" "sized (count_rx c) = sized c"
  by (simp_all add: count_tx_def count_rx_def sized_def)

lemma crypto_step_wf:
  assumes "prims_ok pr" "salted op" "wf_channels st"
  shows "wf_channels (crypto_step pr op st)"
proof (cases op)
  case (Establish random i pw)
  obtain r st' where run: "rs_msg_crypto_establish pr random i pw st = (r, st')" by fastforce
  then show ?thesis using establish_effect [OF assms(1) _ assms(3) run] assms(2) Establish by simp
next
  case (Destroy i)
  then show ?thesis using assms(3) clear_slot_effect(1) [OF assms(3)]
    by (auto simp: rs_msg_crypto_destroy_def split: option.split)
next
  case (Encrypt random i pt n ct)
  then show ?thesis
    using encrypt_state [of pr random i pt n ct st] upd_channel_effect(1) [OF assms(3), of i _ count_tx] counted assms(3) by auto
next
  case (Decrypt i ct pt)
  then show ?thesis
    using decrypt_state [of pr i ct pt st] upd_channel_effect(1) [OF assms(3), of i _ count_rx] counted assms(3) by auto
next
  case Destroy_all
  then show ?thesis using assms(3) cleared_wf [OF assms(3), of "mc_initialized st"] by (simp add: rs_msg_crypto_destroy_all_def)
qed (use cleared_wf [OF assms(3), of True] in \<open>simp add: rs_msg_crypto_init_def\<close>)

lemma new_wf: "wf_channels msg_crypto_new"
  by (simp add: msg_crypto_new_def wf_channels_def mc_slots_def occupant_def slot_keys_def sized_def empty_channel_def
      crypto_lengths MAX_CHANNELS_def)

lemma runs_wf: "prims_ok pr \<Longrightarrow> list_all salted ops \<Longrightarrow> wf_channels st \<Longrightarrow> wf_channels (fold (crypto_step pr) ops st)"
  by (induction ops arbitrary: st) (simp_all add: crypto_step_wf)

lemma somes_filter: "somes (map occupant cs) = filter cc_active cs"
  by (induction cs) (simp_all add: occupant_def)

text \<open>C15. No key outlives its channel: after any run of the interface from boot there are 32 slots, the
  active ones belong to different contacts and are as many as counted, and every other slot is zero from
  end to end, keys, salts and counters.\<close>

theorem no_keys_left:
  assumes "prims_ok pr" "list_all salted ops"
    and "st = fold (crypto_step pr) ops msg_crypto_new"
  shows "length (mc_channels st) = 32 \<and> mc_count st = length (filter cc_active (mc_channels st)) \<and>
    distinct (map cc_contact (filter cc_active (mc_channels st))) \<and>
    (\<forall>c\<in>set (mc_channels st). cc_active c \<or>
       c = \<lparr>cc_contact = 0, cc_master_key = replicate 32 NUL, cc_salt = replicate 16 NUL, cc_password_material = replicate 32 NUL,
            cc_legacy_key = replicate 32 NUL, cc_active = False, cc_tx = 0, cc_rx = 0\<rparr>)"
proof -
  have "wf_channels st" using runs_wf [OF assms(1,2) new_wf] assms(3) by simp
  then show ?thesis
    by (auto simp: wf_channels_def mc_slots_def somes_filter slot_keys_def empty_channel_def crypto_lengths)
qed



section \<open>Concrete primitives\<close>

text \<open>Primitives of the right sizes.\<close>

definition toy_prims :: crypto_prims where
  "toy_prims =
     \<lparr>aes256_block = \<lambda>k b. replicate (length b) (CHR ''k''), hmac_sha256 = \<lambda>k d. replicate 32 (char_of (length d)),
      sha256 = \<lambda>d. replicate 32 (char_of (length d)), pbkdf2_sha256 = \<lambda>p s n. replicate 32 (CHR ''p''),
      argon2id = \<lambda>p s. Some (replicate 32 (CHR ''a''))\<rparr>"

lemma toy_ok: "prims_ok toy_prims"
  by (simp add: prims_ok_def toy_prims_def block_cipher_def)

lemma toy_argon: "argon2id toy_prims p s = Some (replicate 32 (CHR ''a''))"
  by (simp add: toy_prims_def)

definition zeros :: "nat \<Rightarrow> string" where "zeros n = replicate n NUL"

theorem no_keys_left_witness:
  "length (filter cc_active (mc_channels (fold (crypto_step toy_prims)
     [Crypto_init, Establish (Some (zeros 16)) 1 (Some ''secret''), Destroy 1] msg_crypto_new))) =
   mc_count (fold (crypto_step toy_prims) [Crypto_init, Establish (Some (zeros 16)) 1 (Some ''secret''), Destroy 1] msg_crypto_new)"
  using no_keys_left [OF toy_ok _ refl, of "[Crypto_init, Establish (Some (zeros 16)) 1 (Some ''secret''), Destroy 1]"]
  by (simp add: zeros_def del: fold.simps)




theorem envelope_accepted_iff_witness:
  "open_envelope toy_prims (empty_channel\<lparr>cc_password_material := zeros 32\<rparr>)
     (sealed toy_prims (replicate 32 (CHR ''a'')) (VERSION # zeros 16) (zeros 16) ''hello'') (zeros 6) = (Inr 5, ''hello'' @ [NUL])"
proof -
  let ?ch = "empty_channel\<lparr>cc_password_material := zeros 32\<rparr>"
  have "\<exists>nonce pt. length nonce = 16 \<and> 5 = length pt \<and> 5 \<le> length (zeros 6) \<and> ''hello'' @ [NUL] = pt @ drop 5 (zeros 6) \<and>
      (sealed toy_prims (replicate 32 (CHR ''a'')) (VERSION # zeros 16) (zeros 16) ''hello'' = sealed toy_prims (cc_legacy_key ?ch) [LEGACY_VERSION] nonce pt \<or>
       (\<exists>salt key. length salt = 16 \<and> argon2id toy_prims (cc_password_material ?ch) salt = Some key \<and>
          sealed toy_prims (replicate 32 (CHR ''a'')) (VERSION # zeros 16) (zeros 16) ''hello'' = sealed toy_prims key (VERSION # salt) nonce pt))"
    by (rule exI [of _ "zeros 16"], rule exI [of _ "''hello''"], intro conjI disjI2 exI [of _ "zeros 16"] exI [of _ "replicate 32 (CHR ''a'')"] refl)
      (simp_all add: zeros_def toy_argon drop_replicate)
  with envelope_accepted_iff [OF toy_ok, of ?ch] show ?thesis by (simp add: zeros_def)
qed


end
