(* ===== verification/Secure_Wipe.thy ===== *)
theory Secure_Wipe
  imports Rust_Str
begin

text \<open>
  Emergency data destruction (\<open>kernel_rs/src/secure_wipe.rs\<close>): the plan of what to erase in which order, the
  status of each target, the overwrite patterns and the progress. Byte counts are \<open>u64\<close> and wrap as in the
  release build; indices and block sizes are naturals. The C functions take the plan as an option, \<open>None\<close>
  for the null pointer, and the C strings without their terminator.
\<close>

section \<open>The pseudo-random generator\<close>

record xorshift64 = xs_state :: u64

definition xorshift_new :: "u64 \<Rightarrow> xorshift64" where
  "xorshift_new seed = \<lparr>xs_state = (if seed = 0 then 0x5A5A5A5A5A5A5A5A else seed)\<rparr>"

definition xorshift_next :: "xorshift64 \<Rightarrow> u64 \<times> xorshift64" where
  "xorshift_next g = (
     let x = xs_state g;
         x = x XOR push_bit 13 x;
         x = x XOR drop_bit 7 x;
         x = x XOR push_bit 17 x
     in (x, g\<lparr>xs_state := x\<rparr>))"

definition u64_le_bytes :: "u64 \<Rightarrow> u8 list" where
  "u64_le_bytes v = map (\<lambda>k. ucast (drop_bit (8 * k) v)) [0..<8]"

text \<open>\<open>generate_random_block\<close>: the loop over what remains of the block.\<close>

fun random_bytes :: "nat \<Rightarrow> xorshift64 \<Rightarrow> u8 list \<times> xorshift64" where
  "random_bytes n g =
     (if n = 0 then ([], g)
      else let (val, g1) = xorshift_next g;
               copy_len = min n 8;
               (rest, g2) = random_bytes (n - copy_len) g1
           in (take copy_len (u64_le_bytes val) @ rest, g2))"

declare random_bytes.simps [simp del]

section \<open>Patterns\<close>

definition GUTMANN_PATTERNS :: "(u8 \<times> u8 \<times> u8) option list" where
  "GUTMANN_PATTERNS = [
     None, None, None, None,
     Some (0x55, 0x55, 0x55), Some (0xAA, 0xAA, 0xAA),
     Some (0x92, 0x49, 0x24), Some (0x49, 0x24, 0x92), Some (0x24, 0x92, 0x49),
     Some (0x00, 0x00, 0x00), Some (0x11, 0x11, 0x11), Some (0x22, 0x22, 0x22), Some (0x33, 0x33, 0x33),
     Some (0x44, 0x44, 0x44), Some (0x55, 0x55, 0x55), Some (0x66, 0x66, 0x66), Some (0x77, 0x77, 0x77),
     Some (0x88, 0x88, 0x88), Some (0x99, 0x99, 0x99), Some (0xAA, 0xAA, 0xAA), Some (0xBB, 0xBB, 0xBB),
     Some (0xCC, 0xCC, 0xCC), Some (0xDD, 0xDD, 0xDD), Some (0xEE, 0xEE, 0xEE), Some (0xFF, 0xFF, 0xFF),
     Some (0x92, 0x49, 0x24), Some (0x49, 0x24, 0x92), Some (0x24, 0x92, 0x49),
     Some (0x6D, 0xB6, 0xDB), Some (0xB6, 0xDB, 0x6D), Some (0xDB, 0x6D, 0xB6),
     None, None, None, None]"

datatype wipe_pattern = WipeZeros | WipeOnes | WipeRandom | DoD3Pass | Gutmann

definition wipe_pattern_from_i32 :: "int \<Rightarrow> wipe_pattern option" where
  "wipe_pattern_from_i32 v =
     (if v = 0 then Some WipeZeros else if v = 1 then Some WipeOnes else if v = 2 then Some WipeRandom
      else if v = 3 then Some DoD3Pass else if v = 4 then Some Gutmann else None)"

section \<open>Targets\<close>

datatype wipe_priority = WipeCritical | WipeHigh | WipeNormal | WipeLow

fun wipe_rank :: "wipe_priority \<Rightarrow> nat" where
  "wipe_rank WipeCritical = 0"
| "wipe_rank WipeHigh = 1"
| "wipe_rank WipeNormal = 2"
| "wipe_rank WipeLow = 3"

text \<open>The derived order.\<close>

instantiation wipe_priority :: linorder
begin

definition less_eq_wipe_priority :: "wipe_priority \<Rightarrow> wipe_priority \<Rightarrow> bool" where
  "less_eq_wipe_priority p q \<longleftrightarrow> wipe_rank p \<le> wipe_rank q"

definition less_wipe_priority :: "wipe_priority \<Rightarrow> wipe_priority \<Rightarrow> bool" where
  "less_wipe_priority p q \<longleftrightarrow> wipe_rank p < wipe_rank q"

instance
proof
  show "p = q" if "p \<le> q" "q \<le> p" for p q :: wipe_priority
    using that by (cases p; cases q) (auto simp: less_eq_wipe_priority_def)
qed (auto simp: less_eq_wipe_priority_def less_wipe_priority_def)

end

definition wipe_priority_from_u8 :: "u8 \<Rightarrow> wipe_priority option" where
  "wipe_priority_from_u8 v =
     (if v = 0 then Some WipeCritical else if v = 1 then Some WipeHigh else if v = 2 then Some WipeNormal
      else if v = 3 then Some WipeLow else None)"

datatype wipe_status = WipePending | WipeInProgress | WipeCompleted | WipeFailed string | WipeSkipped

fun wipe_is_failed :: "wipe_status \<Rightarrow> bool" where
  "wipe_is_failed (WipeFailed reason) = True"
| "wipe_is_failed s = False"

record wipe_target =
  wt_path :: string
  wt_size_bytes :: u64
  wt_is_directory :: bool
  wt_priority :: wipe_priority
  wt_status :: wipe_status

record wipe_summary =
  ws_total_targets :: nat
  ws_completed :: nat
  ws_failed :: nat
  ws_skipped :: nat
  ws_pending :: nat
  ws_total_bytes :: u64
  ws_completed_bytes :: u64
  ws_pattern :: wipe_pattern

section \<open>The plan\<close>

record wipe_plan =
  wp_targets :: "wipe_target list"
  wp_pattern :: wipe_pattern
  wp_prng :: xorshift64

definition wipe_plan_new :: "wipe_pattern \<Rightarrow> wipe_plan" where
  "wipe_plan_new pat = \<lparr>wp_targets = [], wp_pattern = pat, wp_prng = xorshift_new 0xDEADBEEFCAFEBABE\<rparr>"

text \<open>\<open>sort_by_key\<close> is stable, as \<^const>\<open>sort_key\<close> is.\<close>

definition add_target :: "string \<Rightarrow> u64 \<Rightarrow> bool \<Rightarrow> wipe_priority \<Rightarrow> wipe_plan \<Rightarrow> wipe_plan" where
  "add_target path size_bytes is_directory prio p = p\<lparr>wp_targets := sort_key wt_priority (wp_targets p @
     [\<lparr>wt_path = path, wt_size_bytes = size_bytes, wt_is_directory = is_directory, wt_priority = prio,
       wt_status = WipePending\<rparr>])\<rparr>"

definition add_default_targets :: "wipe_plan \<Rightarrow> wipe_plan" where
  "add_default_targets p = fold (\<lambda>(path, prio). add_target path 0 True prio)
     [(''/sdcard/vault/'', WipeCritical), (''/sdcard/config/keys/'', WipeCritical),
      (''/sdcard/messages/'', WipeHigh), (''/sdcard/notes/'', WipeHigh), (''/sdcard/documents/'', WipeHigh),
      (''/sdcard/apps/'', WipeNormal), (''/sdcard/logs/'', WipeNormal),
      (''/sdcard/cache/'', WipeLow), (''/sdcard/thumbnails/'', WipeLow)] p"

definition targets_by_priority :: "wipe_priority \<Rightarrow> wipe_plan \<Rightarrow> wipe_target list" where
  "targets_by_priority prio p = filter (\<lambda>t. wt_priority t = prio) (wp_targets p)"

definition wipe_pending_count :: "wipe_plan \<Rightarrow> nat" where
  "wipe_pending_count p = length (filter (\<lambda>t. wt_status t = WipePending) (wp_targets p))"

definition wipe_completed_count :: "wipe_plan \<Rightarrow> nat" where
  "wipe_completed_count p = length (filter (\<lambda>t. wt_status t = WipeCompleted) (wp_targets p))"

definition wipe_failed_count :: "wipe_plan \<Rightarrow> nat" where
  "wipe_failed_count p = length (filter (\<lambda>t. wipe_is_failed (wt_status t)) (wp_targets p))"

definition wipe_total_bytes :: "wipe_plan \<Rightarrow> u64" where
  "wipe_total_bytes p = sum_list (map wt_size_bytes (wp_targets p))"

definition wipe_completed_bytes :: "wipe_plan \<Rightarrow> u64" where
  "wipe_completed_bytes p =
     sum_list (map wt_size_bytes (filter (\<lambda>t. wt_status t = WipeCompleted) (wp_targets p)))"

definition progress_percent :: "wipe_plan \<Rightarrow> u8" where
  "progress_percent p = (
     let total = wipe_total_bytes p in
     if total = 0 then
       if wp_targets p = [] then 100
       else
         let finished = length (filter (\<lambda>t. wt_status t \<in> {WipeCompleted, WipeSkipped}) (wp_targets p));
             pct = (of_nat finished * 100 :: u64) div of_nat (length (wp_targets p))
         in ucast (min pct 100)
     else
       let completed = wipe_completed_bytes p;
           pct = (completed * 100) div total
       in ucast (min pct 100))"

fun wipe_closed :: "wipe_status \<Rightarrow> bool" where
  "wipe_closed WipeCompleted = True"
| "wipe_closed WipeSkipped = True"
| "wipe_closed (WipeFailed reason) = True"
| "wipe_closed s = False"

definition wipe_is_complete :: "wipe_plan \<Rightarrow> bool" where
  "wipe_is_complete p \<longleftrightarrow> wp_targets p \<noteq> [] \<and> list_all (\<lambda>t. wipe_closed (wt_status t)) (wp_targets p)"

text \<open>The \<open>mark\<close> operations: the bounds of the vector, the states they accept, the state they set.\<close>

definition mark_target :: "wipe_status set \<Rightarrow> wipe_status \<Rightarrow> nat \<Rightarrow> wipe_plan \<Rightarrow> int \<times> wipe_plan" where
  "mark_target from to index p =
     (if \<not> index < length (wp_targets p) then (ESP_ERR_INVALID_ARG, p)
      else if wt_status (wp_targets p ! index) \<notin> from then (ESP_ERR_INVALID_STATE, p)
      else (ESP_OK, p\<lparr>wp_targets := (wp_targets p)[index := (wp_targets p ! index)\<lparr>wt_status := to\<rparr>]\<rparr>))"

definition mark_in_progress :: "nat \<Rightarrow> wipe_plan \<Rightarrow> int \<times> wipe_plan" where
  "mark_in_progress = mark_target {WipePending} WipeInProgress"

definition mark_completed :: "nat \<Rightarrow> wipe_plan \<Rightarrow> int \<times> wipe_plan" where
  "mark_completed = mark_target {WipeInProgress, WipePending} WipeCompleted"

definition mark_failed :: "nat \<Rightarrow> string \<Rightarrow> wipe_plan \<Rightarrow> int \<times> wipe_plan" where
  "mark_failed index reason = mark_target {WipeInProgress, WipePending} (WipeFailed reason) index"

definition mark_skipped :: "nat \<Rightarrow> wipe_plan \<Rightarrow> int \<times> wipe_plan" where
  "mark_skipped = mark_target {WipePending, WipeInProgress} WipeSkipped"

definition next_pending :: "wipe_plan \<Rightarrow> nat option" where
  "next_pending p = find_index (\<lambda>t. wt_status t = WipePending) (wp_targets p)"

definition passes_required :: "wipe_plan \<Rightarrow> nat" where
  "passes_required p = (case wp_pattern p of
     WipeZeros \<Rightarrow> 1 | WipeOnes \<Rightarrow> 1 | WipeRandom \<Rightarrow> 1 | DoD3Pass \<Rightarrow> 3 | Gutmann \<Rightarrow> 35)"

definition generate_random_block :: "nat \<Rightarrow> wipe_plan \<Rightarrow> u8 list \<times> wipe_plan" where
  "generate_random_block block_size p =
     (let (block, g) = random_bytes block_size (wp_prng p) in (block, p\<lparr>wp_prng := g\<rparr>))"

definition generate_overwrite_block :: "nat \<Rightarrow> nat \<Rightarrow> wipe_plan \<Rightarrow> u8 list \<times> wipe_plan" where
  "generate_overwrite_block pass block_size p = (case wp_pattern p of
     WipeZeros \<Rightarrow> (replicate block_size 0x00, p)
   | WipeOnes \<Rightarrow> (replicate block_size 0xFF, p)
   | WipeRandom \<Rightarrow> generate_random_block block_size p
   | DoD3Pass \<Rightarrow>
       (if pass = 0 then (replicate block_size 0x00, p)
        else if pass = 1 then (replicate block_size 0xFF, p)
        else generate_random_block block_size p)
   | Gutmann \<Rightarrow> (case GUTMANN_PATTERNS ! (pass mod 35) of
       Some (a, b, c) \<Rightarrow> (map (\<lambda>i. [a, b, c] ! (i mod 3)) [0..<block_size], p)
     | None \<Rightarrow> generate_random_block block_size p))"

definition wipe_plan_summary :: "wipe_plan \<Rightarrow> wipe_summary" where
  "wipe_plan_summary p =
     \<lparr>ws_total_targets = length (wp_targets p), ws_completed = wipe_completed_count p, ws_failed = wipe_failed_count p,
      ws_skipped = length (filter (\<lambda>t. wt_status t = WipeSkipped) (wp_targets p)), ws_pending = wipe_pending_count p,
      ws_total_bytes = wipe_total_bytes p, ws_completed_bytes = wipe_completed_bytes p, ws_pattern = wp_pattern p\<rparr>"

section \<open>C entry points\<close>

definition rs_wipe_plan_create :: "int \<Rightarrow> wipe_plan option" where
  "rs_wipe_plan_create pattern = map_option wipe_plan_new (wipe_pattern_from_i32 pattern)"

definition rs_wipe_plan_add_target :: "string option \<Rightarrow> u64 \<Rightarrow> int \<Rightarrow> u8 \<Rightarrow> wipe_plan option \<Rightarrow> int \<times> wipe_plan option" where
  "rs_wipe_plan_add_target path size_bytes is_dir prio plan = (case (plan, path) of
     (Some p, Some s) \<Rightarrow>
       (if \<not> utf8_valid s then (ESP_ERR_INVALID_ARG, plan)
        else case wipe_priority_from_u8 prio of
          None \<Rightarrow> (ESP_ERR_INVALID_ARG, plan)
        | Some pr \<Rightarrow> (ESP_OK, Some (add_target s size_bytes (is_dir \<noteq> 0) pr p)))
   | _ \<Rightarrow> (ESP_ERR_INVALID_ARG, plan))"

definition rs_wipe_plan_add_defaults :: "wipe_plan option \<Rightarrow> int \<times> wipe_plan option" where
  "rs_wipe_plan_add_defaults plan = (case plan of
     None \<Rightarrow> (ESP_ERR_INVALID_ARG, None) | Some p \<Rightarrow> (ESP_OK, Some (add_default_targets p)))"

definition rs_wipe_plan_next_pending :: "wipe_plan option \<Rightarrow> int" where
  "rs_wipe_plan_next_pending plan = (case plan of
     None \<Rightarrow> - 1 | Some p \<Rightarrow> (case next_pending p of Some idx \<Rightarrow> sint (of_nat idx :: 32 word) | None \<Rightarrow> - 1))"

definition rs_wipe_plan_mark_completed :: "int \<Rightarrow> wipe_plan option \<Rightarrow> int \<times> wipe_plan option" where
  "rs_wipe_plan_mark_completed index plan = (case plan of
     None \<Rightarrow> (ESP_ERR_INVALID_ARG, None)
   | Some p \<Rightarrow> if index < 0 then (ESP_ERR_INVALID_ARG, plan) else map_prod id Some (mark_completed (nat index) p))"

definition rs_wipe_plan_mark_failed :: "int \<Rightarrow> string option \<Rightarrow> wipe_plan option \<Rightarrow> int \<times> wipe_plan option" where
  "rs_wipe_plan_mark_failed index reason plan = (case plan of
     None \<Rightarrow> (ESP_ERR_INVALID_ARG, None)
   | Some p \<Rightarrow>
       if index < 0 then (ESP_ERR_INVALID_ARG, plan)
       else map_prod id Some (mark_failed (nat index)
         (case reason of None \<Rightarrow> ''unknown'' | Some s \<Rightarrow> if utf8_valid s then s else ''invalid reason string'') p))"

definition rs_wipe_plan_progress :: "wipe_plan option \<Rightarrow> u8" where
  "rs_wipe_plan_progress plan = (case plan of None \<Rightarrow> 0 | Some p \<Rightarrow> progress_percent p)"

definition rs_wipe_plan_is_complete :: "wipe_plan option \<Rightarrow> int" where
  "rs_wipe_plan_is_complete plan = (case plan of None \<Rightarrow> 0 | Some p \<Rightarrow> if wipe_is_complete p then 1 else 0)"

text \<open>The third component is what is written to the buffer, \<open>None\<close> when it is left alone.\<close>

definition rs_wipe_plan_generate_block :: "u32 \<Rightarrow> bool \<Rightarrow> nat \<Rightarrow> wipe_plan option \<Rightarrow>
    int \<times> wipe_plan option \<times> u8 list option" where
  "rs_wipe_plan_generate_block pass buf_null buf_len plan = (case plan of
     None \<Rightarrow> (ESP_ERR_INVALID_ARG, None, None)
   | Some p \<Rightarrow>
       if buf_null \<or> buf_len = 0 then (ESP_ERR_INVALID_ARG, plan, None)
       else let (block, p') = generate_overwrite_block (unat pass) buf_len p in (ESP_OK, Some p', Some (take buf_len block)))"

definition rs_wipe_plan_passes_required :: "wipe_plan option \<Rightarrow> int" where
  "rs_wipe_plan_passes_required plan = (case plan of None \<Rightarrow> 0 | Some p \<Rightarrow> int (passes_required p))"

end
