(* ===== verification/Wipe_Facts.thy ===== *)
theory Wipe_Facts
  imports Secure_Wipe "HOL-Library.Multiset"
begin

text \<open>
  Properties of the wipe plan: the order of the targets, what a caller that works through the plan gets to,
  what the progress says, and what the overwrite blocks hold.
\<close>

section \<open>Runs\<close>

datatype wipe_op =
    AddTarget string u64 bool wipe_priority
  | AddDefaults
  | MarkInProgress nat
  | MarkCompleted nat
  | MarkFailed nat string
  | MarkSkipped nat
  | OverwriteBlock nat nat

fun wipe_step :: "wipe_op \<Rightarrow> wipe_plan \<Rightarrow> wipe_plan" where
  "wipe_step (AddTarget path n is_dir prio) p = add_target path n is_dir prio p"
| "wipe_step AddDefaults p = add_default_targets p"
| "wipe_step (MarkInProgress i) p = snd (mark_in_progress i p)"
| "wipe_step (MarkCompleted i) p = snd (mark_completed i p)"
| "wipe_step (MarkFailed i reason) p = snd (mark_failed i reason p)"
| "wipe_step (MarkSkipped i) p = snd (mark_skipped i p)"
| "wipe_step (OverwriteBlock pass n) p = snd (generate_overwrite_block pass n p)"

text \<open>What a target is, without how far it got; what an operation adds.\<close>

definition job :: "wipe_target \<Rightarrow> string \<times> u64 \<times> bool \<times> wipe_priority" where
  "job t = (wt_path t, wt_size_bytes t, wt_is_directory t, wt_priority t)"

fun job_priority :: "string \<times> u64 \<times> bool \<times> wipe_priority \<Rightarrow> wipe_priority" where
  "job_priority (path, n, is_dir, prio) = prio"

fun added_jobs :: "wipe_op \<Rightarrow> (string \<times> u64 \<times> bool \<times> wipe_priority) list" where
  "added_jobs (AddTarget path n is_dir prio) = [(path, n, is_dir, prio)]"
| "added_jobs AddDefaults =
     [(''/sdcard/vault/'', 0, True, WipeCritical), (''/sdcard/config/keys/'', 0, True, WipeCritical),
      (''/sdcard/messages/'', 0, True, WipeHigh), (''/sdcard/notes/'', 0, True, WipeHigh),
      (''/sdcard/documents/'', 0, True, WipeHigh),
      (''/sdcard/apps/'', 0, True, WipeNormal), (''/sdcard/logs/'', 0, True, WipeNormal),
      (''/sdcard/cache/'', 0, True, WipeLow), (''/sdcard/thumbnails/'', 0, True, WipeLow)]"
| "added_jobs _ = []"

section \<open>Order\<close>

lemma map_sort_key: "map g (sort_key (f \<circ> g) xs) = sort_key f (map g xs)"
proof -
  have "map g (insort_key (f \<circ> g) x ys) = insort_key f (g x) (map g ys)" for x ys
    by (induction ys) auto
  then show ?thesis by (induction xs) auto
qed

lemma sort_key_again: "sort_key f (sort_key f xs @ ys) = sort_key f (xs @ ys)"
proof (rule properties_for_sort_key)
  fix k
  have eq: "(\<lambda>x. f k = f x) = (\<lambda>x. f x = f k)" by auto
  show "filter (\<lambda>x. f k = f x) (sort_key f (xs @ ys)) = filter (\<lambda>x. f k = f x) (sort_key f xs @ ys)"
    by (simp only: eq filter_append sort_key_stable)
qed simp_all

lemma job_priority_job [simp]: "job_priority (job t) = wt_priority t"
  by (simp add: job_def)

lemma jobs_add_target:
  "map job (wp_targets (add_target path n is_dir prio p)) =
   sort_key job_priority (map job (wp_targets p) @ [(path, n, is_dir, prio)])"
proof -
  have eq: "wt_priority = job_priority \<circ> job" by (simp add: fun_eq_iff)
  show ?thesis unfolding add_target_def by (simp add: eq map_sort_key) (simp add: job_def)
qed

lemma jobs_fold_add:
  "map job (wp_targets (fold (\<lambda>(path, prio). add_target path 0 True prio) ts p)) =
   (if ts = [] then map job (wp_targets p)
    else sort_key job_priority (map job (wp_targets p) @ map (\<lambda>(path, prio). (path, 0, True, prio)) ts))"
proof (induction ts arbitrary: p)
  case (Cons t ts)
  obtain path prio where [simp]: "t = (path, prio)" by (cases t)
  show ?case
    using sort_key_again [of job_priority "map job (wp_targets p) @ [(path, 0, True, prio)]"]
    by (simp add: Cons.IH jobs_add_target)
qed simp

lemma jobs_defaults:
  "map job (wp_targets (add_default_targets p)) = sort_key job_priority (map job (wp_targets p) @ added_jobs AddDefaults)"
  by (simp only: add_default_targets_def jobs_fold_add) simp

lemma mark_target_effect:
  "mark_target from to i p =
     (if i < length (wp_targets p) \<and> wt_status (wp_targets p ! i) \<in> from
      then (ESP_OK, p\<lparr>wp_targets := (wp_targets p)[i := (wp_targets p ! i)\<lparr>wt_status := to\<rparr>]\<rparr>)
      else (if i < length (wp_targets p) then ESP_ERR_INVALID_STATE else ESP_ERR_INVALID_ARG, p))"
  by (simp add: mark_target_def)

lemma jobs_mark: "map job (wp_targets (snd (mark_target from to i p))) = map job (wp_targets p)"
proof -
  have "map job (ts[i := (ts ! i)\<lparr>wt_status := s\<rparr>]) = map job ts" for ts s
    by (cases "i < length ts") (simp_all add: map_update job_def list_update_same_conv list_update_beyond)
  then show ?thesis by (simp add: mark_target_effect)
qed

lemma overwrite_targets [simp]: "wp_targets (snd (generate_overwrite_block pass n p)) = wp_targets p"
  by (auto simp: generate_overwrite_block_def generate_random_block_def split: wipe_pattern.split option.split prod.split)

lemma jobs_step:
  "sorted (map wt_priority (wp_targets p)) \<Longrightarrow>
   map job (wp_targets (wipe_step e p)) = sort_key job_priority (map job (wp_targets p) @ added_jobs e)"
proof -
  assume s: "sorted (map wt_priority (wp_targets p))"
  then have "sort_key job_priority (map job (wp_targets p)) = map job (wp_targets p)"
    by (intro sort_key_id_if_sorted) (simp add: comp_def)
  then show ?thesis
    by (cases e) (simp_all add: jobs_add_target jobs_defaults jobs_mark mark_in_progress_def mark_completed_def mark_failed_def
        mark_skipped_def)
qed

lemma sorted_jobs: "sorted (map wt_priority ts) \<longleftrightarrow> sorted (map job_priority (map job ts))"
  by (simp add: comp_def)

lemma jobs_run:
  assumes "sorted (map wt_priority (wp_targets p))"
  shows "map job (wp_targets (fold wipe_step es p)) = sort_key job_priority (map job (wp_targets p) @ concat (map added_jobs es)) \<and>
    sorted (map wt_priority (wp_targets (fold wipe_step es p)))"
  using assms
proof (induction es arbitrary: p)
  case Nil
  then show ?case using sort_key_id_if_sorted [of job_priority "map job (wp_targets p)"] by (simp add: comp_def)
next
  case (Cons e es)
  note st = jobs_step [OF Cons.prems, of e]
  have "sorted (map wt_priority (wp_targets (wipe_step e p)))" by (simp only: sorted_jobs st sorted_sort_key)
  from Cons.IH [OF this] show ?case
    using sort_key_again [of job_priority "map job (wp_targets p) @ added_jobs e"] by (simp add: st)
qed

section \<open>Closed targets\<close>

definition closed_targets :: "wipe_plan \<Rightarrow> wipe_target multiset" where
  "closed_targets p = mset (filter (\<lambda>t. wipe_closed (wt_status t)) (wp_targets p))"

lemma closed_list_update:
  assumes "i < length ts" "\<not> P (ts ! i)"
  shows "mset (filter P ts) \<subseteq># mset (filter P (ts[i := t]))"
proof -
  note id_take_nth_drop [OF assms(1)]
  then have "filter P ts = filter P (take i ts) @ filter P (drop (Suc i) ts)"
    using assms(2) by (metis append.left_neutral filter.simps(2) filter_append)
  moreover have "ts[i := t] = take i ts @ t # drop (Suc i) ts" using assms(1) by (rule upd_conv_take_nth_drop)
  ultimately show ?thesis by simp
qed

lemma closed_mark:
  "\<forall>s\<in>from. \<not> wipe_closed s \<Longrightarrow> closed_targets p \<subseteq># closed_targets (snd (mark_target from to i p))"
  using closed_list_update [of i "wp_targets p" "\<lambda>t. wipe_closed (wt_status t)"]
  by (auto simp: mark_target_effect closed_targets_def simp del: mset_filter)

lemma closed_add: "closed_targets (add_target path n is_dir prio p) = closed_targets p"
  by (simp add: closed_targets_def add_target_def)

lemma closed_overwrite: "closed_targets (snd (generate_overwrite_block pass n p)) = closed_targets p"
  by (simp add: closed_targets_def)

lemma closed_step: "closed_targets p \<subseteq># closed_targets (wipe_step e p)"
proof (cases e)
  case AddDefaults
  have "closed_targets (fold (\<lambda>(path, prio). add_target path 0 True prio) ts p) = closed_targets p" for ts
    by (induction ts arbitrary: p) (auto simp: closed_add)
  then show ?thesis by (simp only: AddDefaults wipe_step.simps add_default_targets_def subset_mset.order_refl)
qed (simp_all add: closed_add mark_in_progress_def mark_completed_def mark_failed_def mark_skipped_def closed_mark
    closed_overwrite)

lemma closed_run: "closed_targets p \<subseteq># closed_targets (fold wipe_step es p)"
proof (induction es arbitrary: p)
  case (Cons e es)
  show ?case using subset_mset.order_trans [OF closed_step Cons.IH] by simp
qed simp

text \<open>C39. After any sequence of operations on a new plan the targets are those that were added, sorted by
  priority and within a priority in the order of their additions, and a target that once was completed,
  failed or skipped stays in the plan with that status.\<close>

theorem wipe_plan_order:
  "map job (wp_targets (fold wipe_step es (wipe_plan_new pat))) = sort_key job_priority (concat (map added_jobs es)) \<and>
   closed_targets (fold wipe_step es (wipe_plan_new pat)) \<subseteq># closed_targets (fold wipe_step (es @ fs) (wipe_plan_new pat))"
  using jobs_run [of "wipe_plan_new pat" es] closed_run [of "fold wipe_step es (wipe_plan_new pat)" fs]
  by (simp_all add: wipe_plan_new_def)


section \<open>Working through a plan\<close>

text \<open>
  A C client: ask for the next pending target, erase it, report success or failure. The list holds the
  results of the erasures, in the order they are made.
\<close>

datatype erasure = Erased | NotErased "string option"

fun erased_status :: "erasure \<Rightarrow> wipe_status" where
  "erased_status Erased = WipeCompleted"
| "erased_status (NotErased reason) =
     WipeFailed (case reason of None \<Rightarrow> ''unknown'' | Some s \<Rightarrow> if utf8_valid s then s else ''invalid reason string'')"

fun report_erasure :: "erasure \<Rightarrow> int \<Rightarrow> wipe_plan option \<Rightarrow> int \<times> wipe_plan option" where
  "report_erasure Erased i plan = rs_wipe_plan_mark_completed i plan"
| "report_erasure (NotErased reason) i plan = rs_wipe_plan_mark_failed i reason plan"

primrec work_through :: "erasure list \<Rightarrow> wipe_plan option \<Rightarrow> (int \<times> int) list \<times> wipe_plan option" where
  "work_through [] plan = ([], plan)"
| "work_through (e # es) plan = (
     let i = rs_wipe_plan_next_pending plan in
     if i < 0 then ([], plan)
     else let (code, plan1) = report_erasure e i plan; (log, plan2) = work_through es plan1
          in ((i, code) # log, plan2))"

definition pending_at :: "wipe_plan \<Rightarrow> nat list" where
  "pending_at p = filter (\<lambda>i. wt_status (wp_targets p ! i) = WipePending) [0..<length (wp_targets p)]"

lemma find_index_positions:
  "find_index P xs = (case filter (\<lambda>i. P (xs ! i)) [0..<length xs] of [] \<Rightarrow> None | i # is \<Rightarrow> Some i)"
proof (induction xs)
  case (Cons x xs)
  have "[0..<length (x # xs)] = 0 # map Suc [0..<length xs]" by (simp only: length_Cons upt_conv_Cons [OF zero_less_Suc] map_Suc_upt)
  then show ?case by (simp add: Cons.IH filter_map comp_def split: list.split)
qed simp

lemma positions_update:
  assumes "filter (\<lambda>k. P (xs ! k)) [0..<length xs] = i # js" "\<not> P x"
  shows "filter (\<lambda>k. P (xs[i := x] ! k)) [0..<length xs] = js"
proof -
  have i: "i < length xs" using assms(1) [symmetric] by (metis atLeastLessThan_iff filter_is_subset list.set_intros(1) set_upt subsetD)
  have "filter (\<lambda>k. P (xs[i := x] ! k)) [0..<length xs] = filter (\<lambda>k. k \<noteq> i \<and> P (xs ! k)) [0..<length xs]"
    using assms(2) i by (intro filter_cong) (auto simp: nth_list_update)
  also have "\<dots> = filter (\<lambda>k. k \<noteq> i) (i # js)" by (simp flip: assms(1)) (simp add: conj_commute)
  also have "\<dots> = js"
  proof -
    have "distinct (i # js)" unfolding assms(1) [symmetric] by simp
    then show ?thesis by (auto intro!: filter_True)
  qed
  finally show ?thesis .
qed

lemma next_pending_at: "next_pending p = (case pending_at p of [] \<Rightarrow> None | i # js \<Rightarrow> Some i)"
  by (simp add: next_pending_def find_index_positions pending_at_def)

lemma pending_at_less: "i \<in> set (pending_at p) \<Longrightarrow> i < length (wp_targets p) \<and> wt_status (wp_targets p ! i) = WipePending"
  by (auto simp: pending_at_def)

lemma distinct_pending_at: "distinct (pending_at p)"
  by (simp add: pending_at_def)

lemma length_pending_at: "length (pending_at p) = wipe_pending_count p"
proof -
  have "length (filter (\<lambda>i. P (xs ! i)) [0..<length xs]) = length (filter P xs)" for P and xs :: "wipe_target list"
    using filter_map [of P "(!) xs" "[0..<length xs]"] by (simp add: map_nth comp_def)
  then show ?thesis by (simp add: pending_at_def wipe_pending_count_def)
qed

abbreviation settled :: "nat \<Rightarrow> wipe_status \<Rightarrow> wipe_plan \<Rightarrow> wipe_plan" where
  "settled i s p \<equiv> p\<lparr>wp_targets := (wp_targets p)[i := (wp_targets p ! i)\<lparr>wt_status := s\<rparr>]\<rparr>"

lemma pending_at_settled:
  "pending_at p = i # js \<Longrightarrow> s \<noteq> WipePending \<Longrightarrow> pending_at (settled i s p) = js"
  unfolding pending_at_def
  using positions_update [of "\<lambda>t. wt_status t = WipePending" "wp_targets p" i js "(wp_targets p ! i)\<lparr>wt_status := s\<rparr>"]
  by simp

lemma report_pending:
  assumes "i < length (wp_targets p)" "wt_status (wp_targets p ! i) = WipePending"
  shows "report_erasure e (int i) (Some p) = (ESP_OK, Some (settled i (erased_status e) p))"
  using assms
  by (cases e) (simp_all add: rs_wipe_plan_mark_completed_def rs_wipe_plan_mark_failed_def mark_completed_def
      mark_failed_def mark_target_def)

lemma next_pending_int:
  assumes "length (wp_targets p) < 2 ^ 31"
  shows "rs_wipe_plan_next_pending (Some p) = (case pending_at p of [] \<Rightarrow> - 1 | i # js \<Rightarrow> int i)"
proof (cases "pending_at p")
  case (Cons i js)
  then have "i < 2 ^ 31" using pending_at_less [of i p] assms by simp
  then show ?thesis
    by (simp add: rs_wipe_plan_next_pending_def next_pending_at Cons signed_of_nat take_bit_nat_eq_self signed_take_bit_int_eq_self)
qed (simp add: rs_wipe_plan_next_pending_def next_pending_at)

text \<open>The statuses after the results \<open>es\<close> were reported for the targets at \<open>js\<close>.\<close>

fun settle :: "nat list \<Rightarrow> erasure list \<Rightarrow> wipe_plan \<Rightarrow> wipe_plan" where
  "settle (j # js) (e # es) p = settle js es (settled j (erased_status e) p)"
| "settle _ _ p = p"

lemma erased_not_pending [simp]: "erased_status e \<noteq> WipePending" "erased_status e \<noteq> WipeInProgress"
  by (cases e; simp)+

lemma work_through_settles:
  assumes "length (wp_targets p) < 2 ^ 31"
  shows "work_through es (Some p) =
    (map (\<lambda>i. (int i, ESP_OK)) (take (length es) (pending_at p)), Some (settle (pending_at p) es p))"
  using assms
proof (induction es arbitrary: p)
  case (Cons e es)
  show ?case
  proof (cases "pending_at p")
    case (Cons i js)
    note i = pending_at_less [of i p, unfolded Cons, simplified]
    note IH = Cons.IH [of "settled i (erased_status e) p"]
    show ?thesis
      using IH Cons.prems i
      by (simp add: next_pending_int Cons report_pending pending_at_settled)
  qed (use Cons.prems in \<open>simp add: next_pending_int\<close>)
qed (simp split: list.split)


lemma settle_length [simp]: "length (wp_targets (settle js es p)) = length (wp_targets p)"
  by (induction js es p rule: settle.induct) simp_all

lemma settle_jobs: "map job (wp_targets (settle js es p)) = map job (wp_targets p)"
proof (induction js es p rule: settle.induct)
  case (1 j js e es p)
  have "map job (wp_targets (settled j s p)) = map job (wp_targets p)" for s
    by (cases "j < length (wp_targets p)") (simp_all add: map_update job_def list_update_same_conv list_update_beyond)
  with 1 show ?case by simp
qed simp_all

lemma settle_others: "k \<notin> set js \<Longrightarrow> wp_targets (settle js es p) ! k = wp_targets p ! k"
  by (induction js es p rule: settle.induct) simp_all

lemma settle_status:
  assumes "distinct js" "\<forall>j\<in>set js. j < length (wp_targets p)" "n < length js" "n < length es"
  shows "wt_status (wp_targets (settle js es p) ! (js ! n)) = erased_status (es ! n)"
  using assms
proof (induction js es p arbitrary: n rule: settle.induct)
  case (1 j js e es p)
  show ?case
  proof (cases n)
    case 0
    then show ?thesis using 1(2,3) by (simp add: settle_others)
  next
    case (Suc m)
    then show ?thesis using 1 by simp
  qed
qed simp_all

lemma sorted_filter_positions:
  assumes "sorted (map f xs)" shows "sorted (map (\<lambda>i. f (xs ! i)) (filter P [0..<length xs]))"
proof -
  have "sorted (map (\<lambda>i. f (xs ! i)) [0..<length xs])"
    using assms map_nth [of xs] by (metis (no_types, lifting) map_eq_conv map_map comp_apply)
  then show ?thesis by (rule sorted_filter)
qed

lemma closed_cases: "wipe_closed s \<longleftrightarrow> s \<noteq> WipePending \<and> s \<noteq> WipeInProgress"
  by (cases s) auto

lemma erased_closed: "wipe_closed (erased_status e)"
  by (simp add: closed_cases)

lemma settled_plan:
  assumes "length (wp_targets p) < 2 ^ 31" "wipe_pending_count p \<le> length es" "q = settle (pending_at p) es p"
  shows "rs_wipe_plan_next_pending (Some q) = - 1"
    and "\<forall>n<wipe_pending_count p. wt_status (wp_targets q ! (pending_at p ! n)) = erased_status (es ! n)"
    and "\<forall>k<length (wp_targets p). wt_status (wp_targets p ! k) \<noteq> WipePending \<longrightarrow> wp_targets q ! k = wp_targets p ! k"
    and "rs_wipe_plan_is_complete (Some q) = 1 \<longleftrightarrow>
      wp_targets p \<noteq> [] \<and> (\<forall>t\<in>set (wp_targets p). wt_status t \<noteq> WipeInProgress)"
proof -
  have len: "length (wp_targets q) = length (wp_targets p)" by (simp add: assms(3))
  show st: "\<forall>n<wipe_pending_count p. wt_status (wp_targets q ! (pending_at p ! n)) = erased_status (es ! n)"
  proof (intro allI impI)
    fix n assume "n < wipe_pending_count p"
    then show "wt_status (wp_targets q ! (pending_at p ! n)) = erased_status (es ! n)"
      unfolding assms(3) using assms(2) pending_at_less [of _ p]
      by (intro settle_status) (simp_all add: distinct_pending_at length_pending_at)
  qed
  show oth: "\<forall>k<length (wp_targets p). wt_status (wp_targets p ! k) \<noteq> WipePending \<longrightarrow> wp_targets q ! k = wp_targets p ! k"
    by (auto simp: assms(3) intro!: settle_others dest: pending_at_less)
  have at: "wipe_closed (wt_status (wp_targets q ! k)) \<longleftrightarrow> wt_status (wp_targets p ! k) \<noteq> WipeInProgress"
    "wt_status (wp_targets q ! k) \<noteq> WipePending" if k: "k < length (wp_targets p)" for k
  proof -
    have "wipe_closed (wt_status (wp_targets q ! k))" if "wt_status (wp_targets p ! k) = WipePending"
    proof -
      from k that have "k \<in> set (pending_at p)" by (simp add: pending_at_def)
      then obtain n where "n < wipe_pending_count p" "pending_at p ! n = k" by (auto simp: in_set_conv_nth length_pending_at)
      with st show ?thesis by (auto simp: erased_closed)
    qed
    with oth k show "wipe_closed (wt_status (wp_targets q ! k)) \<longleftrightarrow> wt_status (wp_targets p ! k) \<noteq> WipeInProgress"
      "wt_status (wp_targets q ! k) \<noteq> WipePending" by (auto simp: closed_cases)
  qed
  have "pending_at q = []" using at(2) by (auto simp: pending_at_def len filter_empty_conv)
  then show "rs_wipe_plan_next_pending (Some q) = - 1" using assms(1) by (simp add: next_pending_int len)
  show "rs_wipe_plan_is_complete (Some q) = 1 \<longleftrightarrow>
      wp_targets p \<noteq> [] \<and> (\<forall>t\<in>set (wp_targets p). wt_status t \<noteq> WipeInProgress)"
    using at(1) len by (auto simp: rs_wipe_plan_is_complete_def wipe_is_complete_def list_all_length all_set_conv_all_nth)
qed

text \<open>C16. Whatever was done to a plan, a client that asks for the next pending target, erases it and reports
  the result, and goes on for as long as it is given a target, gets every pending target exactly once,
  the most urgent ones first; no report is refused, then there is none left, every
  target it got has the status it reported, the others are as they were, and the plan is complete unless it
  is empty or a target had been marked as in progress.\<close>

theorem wipe_works_through:
  assumes "p = fold wipe_step ops (wipe_plan_new pat)" "length (wp_targets p) < 2 ^ 31" "wipe_pending_count p \<le> length es"
  shows "\<exists>q. work_through es (Some p) = (map (\<lambda>i. (int i, ESP_OK)) (pending_at p), Some q) \<and>
    sorted (map (\<lambda>i. wt_priority (wp_targets p ! i)) (pending_at p)) \<and>
    rs_wipe_plan_next_pending (Some q) = - 1 \<and> map job (wp_targets q) = map job (wp_targets p) \<and>
    (\<forall>n<wipe_pending_count p. wt_status (wp_targets q ! (pending_at p ! n)) = erased_status (es ! n)) \<and>
    (\<forall>k<length (wp_targets p). wt_status (wp_targets p ! k) \<noteq> WipePending \<longrightarrow> wp_targets q ! k = wp_targets p ! k) \<and>
    (rs_wipe_plan_is_complete (Some q) = 1 \<longleftrightarrow>
      wp_targets p \<noteq> [] \<and> (\<forall>t\<in>set (wp_targets p). wt_status t \<noteq> WipeInProgress))"
proof (intro exI [of _ "settle (pending_at p) es p"] conjI)
  show "work_through es (Some p) = (map (\<lambda>i. (int i, ESP_OK)) (pending_at p), Some (settle (pending_at p) es p))"
    using work_through_settles [OF assms(2), of es] assms(3) by (simp add: length_pending_at)
  have "sorted (map wt_priority (wp_targets p))"
    unfolding assms(1) using jobs_run [of "wipe_plan_new pat" ops] by (simp add: wipe_plan_new_def)
  then show "sorted (map (\<lambda>i. wt_priority (wp_targets p ! i)) (pending_at p))"
    unfolding pending_at_def by (rule sorted_filter_positions)
qed (use settled_plan [OF assms(2,3) refl] in \<open>auto simp: settle_jobs\<close>)

definition sample_plan :: wipe_plan where
  "sample_plan = fold wipe_step [AddTarget ''/sdcard/logs/'' 0 True WipeNormal, AddTarget ''/sdcard/vault/'' 10 True WipeCritical]
     (wipe_plan_new DoD3Pass)"

lemma sample_targets: "wp_targets sample_plan =
  [\<lparr>wt_path = ''/sdcard/vault/'', wt_size_bytes = 10, wt_is_directory = True, wt_priority = WipeCritical, wt_status = WipePending\<rparr>,
   \<lparr>wt_path = ''/sdcard/logs/'', wt_size_bytes = 0, wt_is_directory = True, wt_priority = WipeNormal, wt_status = WipePending\<rparr>]"
  by (simp add: sample_plan_def wipe_plan_new_def add_target_def less_eq_wipe_priority_def)

theorem wipe_works_through_witness:
  "\<exists>q. work_through [Erased, NotErased None, Erased] (Some sample_plan) = ([(0, ESP_OK), (1, ESP_OK)], Some q) \<and>
     rs_wipe_plan_next_pending (Some q) = - 1 \<and>
     map wt_status (wp_targets q) = [WipeCompleted, WipeFailed ''unknown''] \<and> rs_wipe_plan_is_complete (Some q) = 1"
proof -
  have pend: "pending_at sample_plan = [0, 1]" "wipe_pending_count sample_plan = 2"
    by (simp_all add: pending_at_def wipe_pending_count_def sample_targets upt_rec)
  obtain q where q: "work_through [Erased, NotErased None, Erased] (Some sample_plan) = ([(0, ESP_OK), (1, ESP_OK)], Some q)"
    "rs_wipe_plan_next_pending (Some q) = - 1" "map job (wp_targets q) = map job (wp_targets sample_plan)"
    "\<forall>n<2. wt_status (wp_targets q ! ([0, 1] ! n)) = erased_status ([Erased, NotErased None, Erased] ! n)"
    "rs_wipe_plan_is_complete (Some q) = 1"
    using wipe_works_through [OF sample_plan_def, of "[Erased, NotErased None, Erased]"]
    by (auto simp: pend sample_targets)
  from q(3) have len: "length (wp_targets q) = 2" by (metis length_map sample_targets length_Cons list.size(3) numeral_2_eq_2)
  from q(4) have "wt_status (wp_targets q ! 0) = WipeCompleted" "wt_status (wp_targets q ! 1) = WipeFailed ''unknown''"
    by (auto simp: numeral_2_eq_2 All_less_Suc)
  then have "map wt_status (wp_targets q) = [WipeCompleted, WipeFailed ''unknown'']"
    using len by (intro nth_equalityI) (auto simp: less_2_cases_iff)
  with q(1,2,5) show ?thesis by (intro exI [of _ q]) simp
qed


section \<open>Progress\<close>

definition known_size :: "wipe_target list \<Rightarrow> nat" where
  "known_size ts = sum_list (map (\<lambda>t. unat (wt_size_bytes t)) ts)"

definition completed_targets :: "wipe_plan \<Rightarrow> wipe_target list" where
  "completed_targets p = filter (\<lambda>t. wt_status t = WipeCompleted) (wp_targets p)"

lemma unat_known_size:
  "known_size ts < 2 ^ 64 \<Longrightarrow> unat (sum_list (map wt_size_bytes ts)) = known_size ts"
  by (induction ts) (simp_all add: known_size_def unat_add_nowrap)

lemma known_size_filter: "known_size (filter P ts) + known_size (filter (\<lambda>t. \<not> P t) ts) = known_size ts"
  by (induction ts) (simp_all add: known_size_def)

lemma ucast_pct: "unat (ucast (min x 100 :: u64) :: u8) = min (unat x) 100"
proof -
  have "unat (min x 100) = min (unat x) 100" by (simp add: min_def word_le_nat_alt)
  then show ?thesis by (simp add: unsigned_ucast_eq take_bit_nat_eq_self)
qed

lemma pct_less: "(a :: nat) \<le> n \<Longrightarrow> 0 < n \<Longrightarrow> a * 100 div n \<le> 100 \<and> (a * 100 div n = 100 \<longleftrightarrow> a = n)"
proof -
  assume a: "a \<le> n" "0 < n"
  show ?thesis
  proof (cases "a = n")
    case False
    then have "a * 100 div n < 100" using a by (intro less_mult_imp_div_less) simp
    then show ?thesis using False by simp
  qed (use a in simp)
qed

lemma unat_pct:
  fixes a n :: u64
  assumes "unat a * 100 < 2 ^ 64"
  shows "unat (a * 100 div n) = unat a * 100 div unat n"
proof -
  have "unat (a * 100) = unat a * 100" using assms by (simp add: unat_mult_nowrap)
  then show ?thesis by (simp add: unat_div_distrib)
qed

lemma unat_pct_nat:
  assumes "a \<le> n" "n * 100 < 2 ^ 64"
  shows "unat (of_nat a * 100 div of_nat n :: u64) = a * 100 div n"
proof -
  have "unat (of_nat a :: u64) = a" "unat (of_nat n :: u64) = n" using assms by (simp_all add: unat_of_nat)
  with unat_pct [of "of_nat a" "of_nat n"] assms show ?thesis by simp
qed

abbreviation finished_targets :: "wipe_plan \<Rightarrow> wipe_target list" where
  "finished_targets p \<equiv> filter (\<lambda>t. wt_status t \<in> {WipeCompleted, WipeSkipped}) (wp_targets p)"

lemma progress_value:
  assumes "known_size (wp_targets p) * 100 < 2 ^ 64" "length (wp_targets p) * 100 < 2 ^ 64"
  shows "unat (progress_percent p) =
    (if 0 < known_size (wp_targets p) then known_size (completed_targets p) * 100 div known_size (wp_targets p)
     else if wp_targets p = [] then 100 else length (finished_targets p) * 100 div length (wp_targets p))"
proof -
  have fin: "length (finished_targets p) \<le> length (wp_targets p)" by simp
  have comp: "known_size (completed_targets p) \<le> known_size (wp_targets p)"
    using known_size_filter [of "\<lambda>t. wt_status t = WipeCompleted" "wp_targets p"] by (simp add: completed_targets_def)
  have tot: "unat (wipe_total_bytes p) = known_size (wp_targets p)"
    using assms(1) by (simp add: wipe_total_bytes_def unat_known_size)
  then have tot0: "wipe_total_bytes p = 0 \<longleftrightarrow> known_size (wp_targets p) = 0" by (simp add: unat_eq_0 flip: tot)
  have com: "unat (wipe_completed_bytes p) = known_size (completed_targets p)"
    using assms(1) comp by (simp add: wipe_completed_bytes_def unat_known_size flip: completed_targets_def)
  note cnt = unat_pct_nat [OF fin assms(2)]
  show ?thesis
  proof (cases "0 < known_size (wp_targets p)")
    case True
    then show ?thesis
      using assms(1) comp pct_less [OF comp True]
      by (simp add: progress_percent_def tot0 Let_def ucast_pct unat_pct com tot)
  next
    case False
    then show ?thesis
      using cnt pct_less [OF fin] by (simp add: progress_percent_def tot0 Let_def ucast_pct)
  qed
qed

lemma known_size_0: "known_size ts = 0 \<longleftrightarrow> (\<forall>t\<in>set ts. wt_size_bytes t = 0)"
  by (auto simp: known_size_def unat_eq_0)

lemma all_finished: "length (finished_targets p) = length (wp_targets p) \<longleftrightarrow> (\<forall>t\<in>set (wp_targets p). wt_status t \<in> {WipeCompleted, WipeSkipped})"
  by (metis (no_types, lifting) filter_True filter_id_conv length_filter_less nat_neq_iff)

text \<open>The progress never exceeds 100. For plans below 184 petabytes it is the percentage of bytes in
  completed targets, rounded down, or of completed and skipped targets when no size is known, and it is 100
  exactly when every target of known size is completed, or, when none is known, every one is completed or
  skipped.\<close>

theorem wipe_progress_exact:
  assumes "known_size (wp_targets p) * 100 < 2 ^ 64" "length (wp_targets p) * 100 < 2 ^ 64"
  shows "unat (progress_percent p) =
      (if 0 < known_size (wp_targets p) then known_size (completed_targets p) * 100 div known_size (wp_targets p)
       else if wp_targets p = [] then 100 else length (finished_targets p) * 100 div length (wp_targets p)) \<and>
    unat (progress_percent p) \<le> 100 \<and>
    (progress_percent p = 100 \<longleftrightarrow>
      (if 0 < known_size (wp_targets p) then \<forall>t\<in>set (wp_targets p). wt_size_bytes t \<noteq> 0 \<longrightarrow> wt_status t = WipeCompleted
       else \<forall>t\<in>set (wp_targets p). wt_status t \<in> {WipeCompleted, WipeSkipped}))"
proof -
  note v = progress_value [OF assms]
  have iff: "progress_percent p = 100 \<longleftrightarrow> unat (progress_percent p) = 100" by (simp add: word_unat_eq_iff)
  have comp: "known_size (completed_targets p) \<le> known_size (wp_targets p)"
    "known_size (completed_targets p) = known_size (wp_targets p) \<longleftrightarrow>
      (\<forall>t\<in>set (wp_targets p). wt_size_bytes t \<noteq> 0 \<longrightarrow> wt_status t = WipeCompleted)"
    using known_size_filter [of "\<lambda>t. wt_status t = WipeCompleted" "wp_targets p"]
      known_size_0 [of "filter (\<lambda>t. wt_status t \<noteq> WipeCompleted) (wp_targets p)"] by (auto simp: completed_targets_def)
  have fin: "length (finished_targets p) \<le> length (wp_targets p)" by simp
  show ?thesis
  proof (cases "0 < known_size (wp_targets p)")
    case True
    with pct_less [OF comp(1) True] comp(2) v iff show ?thesis by simp
  next
    case False
    with pct_less [OF fin] v iff all_finished [of p] show ?thesis by (cases "wp_targets p = []") simp_all
  qed
qed

theorem wipe_progress_exact_witness:
  "progress_percent (snd (mark_completed 0 sample_plan)) = 100 \<and> progress_percent sample_plan = 0"
proof -
  have t: "wp_targets (snd (mark_completed 0 sample_plan)) = (wp_targets sample_plan)[0 := (wp_targets sample_plan ! 0)\<lparr>wt_status := WipeCompleted\<rparr>]"
    by (simp add: mark_completed_def mark_target_def sample_targets)
  have "progress_percent (snd (mark_completed 0 sample_plan)) = 100"
    using wipe_progress_exact [of "snd (mark_completed 0 sample_plan)"] by (simp add: t sample_targets known_size_def)
  moreover have "unat (progress_percent sample_plan) = 0"
    using wipe_progress_exact [of sample_plan] by (simp add: sample_targets known_size_def completed_targets_def)
  ultimately show ?thesis by (simp add: unat_eq_0)
qed


section \<open>Overwrite blocks\<close>

abbreviation next_state :: "xorshift64 \<Rightarrow> xorshift64" where
  "next_state g \<equiv> snd (xorshift_next g)"

lemma xorshift_next_value: "fst (xorshift_next g) = xs_state (next_state g)"
  by (simp add: xorshift_next_def Let_def)

lemma xor_push_zero:
  fixes x :: "'a::len word"
  assumes "x XOR push_bit k x = 0" "0 < k"
  shows "x = 0"
proof (rule bit_word_eqI)
  fix n assume "n < LENGTH('a)"
  have b: "bit x m = (k \<le> m \<and> bit x (m - k))" if "m < LENGTH('a)" for m
    using that arg_cong [OF assms(1), of "\<lambda>w. bit w m"] by (auto simp: bit_simps)
  have "m < LENGTH('a) \<longrightarrow> \<not> bit x m" for m
  proof (induction m rule: less_induct)
    case (less m)
    with b [of m] assms(2) show ?case by auto
  qed
  then show "bit x n = bit 0 n" using \<open>n < LENGTH('a)\<close> by simp
qed

lemma xor_drop_zero:
  fixes x :: "'a::len word"
  assumes "x XOR drop_bit k x = 0" "0 < k"
  shows "x = 0"
proof (rule bit_word_eqI)
  fix n assume "n < LENGTH('a)"
  have b: "bit x m = bit x (m + k)" if "m < LENGTH('a)" for m
    using that arg_cong [OF assms(1), of "\<lambda>w. bit w m"] by (auto simp: bit_simps add.commute)
  have "bit x m \<Longrightarrow> False" for m
  proof (induction "LENGTH('a) - m" arbitrary: m rule: less_induct)
    case less
    then have "m < LENGTH('a)" by (simp add: bit_imp_le_length)
    then have "bit x (m + k)" "LENGTH('a) - (m + k) < LENGTH('a) - m" using b less.prems assms(2) by auto
    with less.hyps show ?case by blast
  qed
  then show "bit x n = bit 0 n" by auto
qed

lemma next_state_nonzero: "xs_state g \<noteq> 0 \<Longrightarrow> xs_state (next_state g) \<noteq> 0"
  using xor_push_zero [of "xs_state g" 13] xor_drop_zero [of "xs_state g XOR push_bit 13 (xs_state g)" 7]
    xor_push_zero [of "(xs_state g XOR push_bit 13 (xs_state g)) XOR drop_bit 7 (xs_state g XOR push_bit 13 (xs_state g))" 17]
  by (auto simp: xorshift_next_def Let_def)

lemma states_nonzero: "xs_state g \<noteq> 0 \<Longrightarrow> xs_state ((next_state ^^ k) g) \<noteq> 0"
  by (induction k) (simp_all add: next_state_nonzero)

lemma length_le_bytes [simp]: "length (u64_le_bytes v) = 8"
  by (simp add: u64_le_bytes_def)

lemma le_bytes_nonzero:
  assumes "v \<noteq> 0" shows "\<exists>b\<in>set (u64_le_bytes v). b \<noteq> 0"
proof (rule ccontr)
  assume "\<not> ?thesis"
  then have z: "ucast (drop_bit (8 * k) v) = (0 :: u8)" if "k < 8" for k using that by (auto simp: u64_le_bytes_def)
  have "v = 0"
  proof (rule bit_word_eqI)
    fix n assume n: "n < LENGTH(64)"
    then have "bit (ucast (drop_bit (8 * (n div 8)) v) :: u8) (n mod 8) = bit v n"
      by (simp add: bit_simps mult_div_mod_eq)
    with z [of "n div 8"] n show "bit v n = bit 0 n" by (simp add: less_mult_imp_div_less)
  qed
  with assms show False ..
qed

text \<open>The blocks of a random pass: the states of the generator in little-endian order.\<close>

lemma random_bytes_states:
  "random_bytes n g = (take n (concat (map (\<lambda>k. u64_le_bytes (xs_state ((next_state ^^ Suc k) g))) [0..<(n + 7) div 8])),
     (next_state ^^ ((n + 7) div 8)) g)"
proof (induction n g rule: random_bytes.induct)
  case (1 n g)
  show ?case
  proof (cases "n = 0")
    case False
    let ?m = "(n - min n 8 + 7) div 8"
    have m: "(n + 7) div 8 = Suc ?m"
      using False by (cases "n \<le> 8") (simp_all add: min_def div_nat_eqI le_div_geq)
    have sh: "[0..<Suc ?m] = 0 # map Suc [0..<?m]" by (simp only: upt_conv_Cons [OF zero_less_Suc] map_Suc_upt)
    have val: "fst (xorshift_next g) = xs_state (next_state g)" by (rule xorshift_next_value)
    have it: "(next_state ^^ k) (next_state g) = (next_state ^^ Suc k) g" for k by (induction k) simp_all
    obtain v g1 where ng: "xorshift_next g = (v, g1)" by fastforce
    have IH: "random_bytes (n - min n 8) g1 = (take (n - min n 8)
        (concat (map (\<lambda>k. u64_le_bytes (xs_state ((next_state ^^ Suc k) g1))) [0..<?m])), (next_state ^^ ?m) g1)"
      using "1" [OF False ng [symmetric] refl refl] .
    have g1: "g1 = next_state g" "v = xs_state (next_state g)" using ng val by simp_all
    have "random_bytes n g = (take (min n 8) (u64_le_bytes v) @ fst (random_bytes (n - min n 8) g1), snd (random_bytes (n - min n 8) g1))"
      using False by (subst random_bytes.simps) (simp add: ng Let_def split: prod.split)
    then show ?thesis unfolding IH m sh
      by (simp add: g1 it comp_def take_append min_def del: funpow.simps) (simp add: funpow_swap1)
  qed (simp add: random_bytes.simps)
qed


lemma concat_groups:
  assumes "\<And>i. length (f i) = w"
  shows "length (concat (map f [0..<m])) = w * m"
    and "k < m \<Longrightarrow> j < w \<Longrightarrow> concat (map f [0..<m]) ! (w * k + j) = f k ! j"
proof -
  show len: "length (concat (map f [0..<m])) = w * m" for m by (induction m) (simp_all add: assms)
  show "k < m \<Longrightarrow> j < w \<Longrightarrow> concat (map f [0..<m]) ! (w * k + j) = f k ! j"
  proof (induction m)
    case (Suc m)
    show ?case
    proof (cases "k = m")
      case False
      with Suc.prems have km: "k < m" by simp
      then have "w * k + j < w * Suc k" "w * Suc k \<le> w * m" using Suc.prems by (simp_all only: mult_le_mono2 Suc_le_eq) simp_all
      then have "w * k + j < w * m" by linarith
      with Suc.IH [OF km Suc.prems(2)] show ?thesis by (simp add: nth_append len)
    qed (use Suc.prems in \<open>simp add: nth_append len\<close>)
  qed simp
qed

definition random_block_ok :: "nat \<Rightarrow> u8 list \<Rightarrow> bool" where
  "random_block_ok n b \<longleftrightarrow> length b = n \<and> (\<forall>k. 8 * k + 8 \<le> n \<longrightarrow> (\<exists>j<8. b ! (8 * k + j) \<noteq> 0))"

lemma random_bytes_ok:
  assumes "xs_state g \<noteq> 0"
  shows "random_block_ok n (fst (random_bytes n g))" "xs_state (snd (random_bytes n g)) \<noteq> 0"
proof -
  let ?f = "\<lambda>k. u64_le_bytes (xs_state ((next_state ^^ Suc k) g))" and ?m = "(n + 7) div 8"
  have grp: "length (concat (map ?f [0..<?m])) = 8 * ?m"
    "k < ?m \<Longrightarrow> j < 8 \<Longrightarrow> concat (map ?f [0..<?m]) ! (8 * k + j) = ?f k ! j" for k j
    by (rule concat_groups, simp)+
  have "\<exists>j<8. take n (concat (map ?f [0..<?m])) ! (8 * k + j) \<noteq> 0" if k: "8 * k + 8 \<le> n" for k
  proof -
    from le_bytes_nonzero [OF states_nonzero [OF assms], of "Suc k"] obtain j where
      j: "j < 8" "?f k ! j \<noteq> 0" by (auto simp: in_set_conv_nth)
    have "k < ?m" using k by linarith
    then have "take n (concat (map ?f [0..<?m])) ! (8 * k + j) = ?f k ! j" using grp(2) j(1) k by simp
    with j show ?thesis by metis
  qed
  moreover have "n \<le> 8 * ?m" by linarith
  ultimately show "random_block_ok n (fst (random_bytes n g))"
    unfolding random_block_ok_def random_bytes_states by (simp add: grp(1) del: funpow.simps)
  show "xs_state (snd (random_bytes n g)) \<noteq> 0" by (simp add: random_bytes_states states_nonzero [OF assms])
qed

text \<open>What a pass of a pattern writes: three bytes over and over, or pseudo-random bytes.\<close>

fun pass_bytes :: "wipe_pattern \<Rightarrow> nat \<Rightarrow> (u8 \<times> u8 \<times> u8) option" where
  "pass_bytes WipeZeros k = Some (0, 0, 0)"
| "pass_bytes WipeOnes k = Some (0xFF, 0xFF, 0xFF)"
| "pass_bytes WipeRandom k = None"
| "pass_bytes DoD3Pass k = (if k = 0 then Some (0, 0, 0) else if k = 1 then Some (0xFF, 0xFF, 0xFF) else None)"
| "pass_bytes Gutmann k = GUTMANN_PATTERNS ! (k mod 35)"

lemma three_bytes: "[a, b, c] ! (i mod 3) = (if i mod 3 = 0 then a else if i mod 3 = 1 then b else c)"
proof -
  have "i mod 3 = 0 \<or> i mod 3 = 1 \<or> i mod 3 = 2" by linarith
  then show ?thesis by auto
qed

lemma overwrite_fixed:
  assumes "pass_bytes (wp_pattern p) pass = Some (a, b, c)"
  shows "generate_overwrite_block pass n p = (map (\<lambda>i. if i mod 3 = 0 then a else if i mod 3 = 1 then b else c) [0..<n], p)"
proof -
  have rep: "replicate n x = map (\<lambda>i. if i mod 3 = 0 then x else if i mod 3 = 1 then x else x) [0..<n]" for x :: u8
    by (intro nth_equalityI) auto
  show ?thesis
    using assms by (cases "wp_pattern p") (auto simp: generate_overwrite_block_def rep three_bytes split: if_splits)
qed

lemma overwrite_random:
  assumes "pass_bytes (wp_pattern p) pass = None"
  shows "generate_overwrite_block pass n p = (fst (random_bytes n (wp_prng p)), p\<lparr>wp_prng := snd (random_bytes n (wp_prng p))\<rparr>)"
  using assms by (cases "wp_pattern p")
    (auto simp: generate_overwrite_block_def generate_random_block_def split: if_splits prod.split)

lemma overwrite_cases:
  obtains a b c where "generate_overwrite_block pass n p = (map (\<lambda>i. if i mod 3 = 0 then a else if i mod 3 = 1 then b else c) [0..<n], p)"
    "pass_bytes (wp_pattern p) pass = Some (a, b, c)"
  | "generate_overwrite_block pass n p = (fst (random_bytes n (wp_prng p)), p\<lparr>wp_prng := snd (random_bytes n (wp_prng p))\<rparr>)"
    "pass_bytes (wp_pattern p) pass = None"
proof (cases "pass_bytes (wp_pattern p) pass")
  case None
  with that(2) overwrite_random [OF None] show ?thesis by blast
next
  case (Some t)
  obtain a b c where t: "t = (a, b, c)" by (cases t)
  with that(1) overwrite_fixed [OF Some [unfolded t]] Some show ?thesis by blast
qed

lemma prng_step: "wp_pattern (wipe_step e p) = wp_pattern p \<and> (xs_state (wp_prng p) \<noteq> 0 \<longrightarrow> xs_state (wp_prng (wipe_step e p)) \<noteq> 0)"
proof (cases e)
  case AddDefaults
  have "wp_pattern (fold (\<lambda>(path, prio). add_target path 0 True prio) ts p) = wp_pattern p \<and>
    wp_prng (fold (\<lambda>(path, prio). add_target path 0 True prio) ts p) = wp_prng p" for ts
    by (induction ts arbitrary: p) (auto simp: add_target_def)
  then show ?thesis by (simp only: AddDefaults wipe_step.simps add_default_targets_def) blast
next
  case (OverwriteBlock pass n)
  show ?thesis unfolding OverwriteBlock wipe_step.simps by (rule overwrite_cases [of pass n p]) (simp_all add: random_bytes_ok)
qed (simp_all add: add_target_def mark_in_progress_def mark_completed_def mark_failed_def mark_skipped_def mark_target_effect)

lemma prng_run: "xs_state (wp_prng p) \<noteq> 0 \<Longrightarrow>
  wp_pattern (fold wipe_step es p) = wp_pattern p \<and> xs_state (wp_prng (fold wipe_step es p)) \<noteq> 0"
  by (induction es arbitrary: p) (simp_all add: prng_step)

text \<open>C40. Every overwrite block has the length asked for and generating it leaves the targets alone. A pass
  with fixed bytes repeats them; a random pass takes the states of the generator, which never reaches zero,
  so eight bytes of such a block that come from one state are never all zero.\<close>

theorem wipe_block_contents:
  assumes "p = fold wipe_step ops (wipe_plan_new pat)" "generate_overwrite_block pass n p = (b, q)"
  shows "length b = n \<and> wp_targets q = wp_targets p \<and>
    (case pass_bytes pat pass of
       Some (x, y, z) \<Rightarrow> q = p \<and> (\<forall>i<n. b ! i = (if i mod 3 = 0 then x else if i mod 3 = 1 then y else z))
     | None \<Rightarrow> b = take n (concat (map (\<lambda>k. u64_le_bytes (xs_state ((next_state ^^ Suc k) (wp_prng p)))) [0..<(n + 7) div 8])) \<and>
         (\<forall>k. 8 * k + 8 \<le> n \<longrightarrow> (\<exists>j<8. b ! (8 * k + j) \<noteq> 0)))"
proof -
  have pat: "wp_pattern p = pat" "xs_state (wp_prng p) \<noteq> 0"
    unfolding assms(1) using prng_run [of "wipe_plan_new pat" ops] by (simp_all add: wipe_plan_new_def xorshift_new_def)
  show ?thesis
  proof (cases rule: overwrite_cases [of pass n p])
    case (1 x y z)
    with assms(2) pat(1) show ?thesis by auto
  next
    case 2
    with random_bytes_ok(1) [OF pat(2), of n] assms(2) pat(1) show ?thesis
      by (auto simp: random_block_ok_def random_bytes_states)
  qed
qed

theorem wipe_block_contents_witness:
  "fst (generate_overwrite_block 1 3 sample_plan) = [0xFF, 0xFF, 0xFF] \<and>
   (\<exists>j<8. fst (generate_overwrite_block 2 8 sample_plan) ! j \<noteq> 0)"
proof -
  have f: "generate_overwrite_block k n sample_plan = (fst (generate_overwrite_block k n sample_plan), snd (generate_overwrite_block k n sample_plan))" for k n
    by simp
  have "length (fst (generate_overwrite_block 1 3 sample_plan)) = 3 \<and>
      (\<forall>i<3. fst (generate_overwrite_block 1 3 sample_plan) ! i = 0xFF)"
    using wipe_block_contents [OF sample_plan_def f, of 1 3] by simp
  then have "fst (generate_overwrite_block 1 3 sample_plan) = [0xFF, 0xFF, 0xFF]"
    by (auto simp: list_eq_iff_nth_eq less_Suc_eq numeral_3_eq_3)
  moreover have "\<exists>j<8. fst (generate_overwrite_block 2 8 sample_plan) ! j \<noteq> 0"
    using wipe_block_contents [OF sample_plan_def f, of 2 8] by (auto dest: spec [of _ 0])
  ultimately show ?thesis by blast
qed

end
