(* ===== verification/Sos_Beacon.thy ===== *)
theory Sos_Beacon
  imports Rust_Str
begin

text \<open>
  The SOS beacon (\<open>kernel_rs/src/sos_beacon.rs\<close>): packets of 109 bytes with a CRC, and the beacon that
  produces them while an emergency is active. Bytes are \<open>u8\<close> words; floating point numbers are the words that
  \<open>to_be_bytes\<close> writes, which nothing here computes with. The C functions take the beacon as an
  option, \<open>None\<close> for the null pointer, and C strings without their terminator.
\<close>

section \<open>Bytes\<close>

definition to_be_bytes :: "nat \<Rightarrow> 'a::len word \<Rightarrow> u8 list" where
  "to_be_bytes n w = map (\<lambda>k. ucast (drop_bit (8 * (n - 1 - k)) w)) [0..<n]"

definition from_be_bytes :: "u8 list \<Rightarrow> 'a::len word" where
  "from_be_bytes bs = fold (\<lambda>b w. push_bit 8 w OR ucast b) bs 0"

definition SOS_MAGIC :: "u8 list" where "SOS_MAGIC = map of_char ''SOS!''"
definition SOS_PROTOCOL_VERSION :: u8 where "SOS_PROTOCOL_VERSION = 1"
definition SOS_MESSAGE_MAX :: nat where "SOS_MESSAGE_MAX = 64"
definition SOS_PACKET_SIZE :: nat where "SOS_PACKET_SIZE = 109"

datatype sos_status = SosActive | SosMoving | SosImmobile | SosMedical | SosCancel | SosTest

fun sos_status_u8 :: "sos_status \<Rightarrow> u8" where
  "sos_status_u8 SosActive = 0"
| "sos_status_u8 SosMoving = 1"
| "sos_status_u8 SosImmobile = 2"
| "sos_status_u8 SosMedical = 3"
| "sos_status_u8 SosCancel = 4"
| "sos_status_u8 SosTest = 5"

definition sos_status_from_u8 :: "u8 \<Rightarrow> sos_status option" where
  "sos_status_from_u8 v =
     (if v = 0 then Some SosActive else if v = 1 then Some SosMoving else if v = 2 then Some SosImmobile
      else if v = 3 then Some SosMedical else if v = 4 then Some SosCancel else if v = 5 then Some SosTest else None)"

section \<open>The checksum\<close>

definition crc_bit :: "u16 \<Rightarrow> u16" where
  "crc_bit crc = (if crc AND 0x8000 \<noteq> 0 then push_bit 1 crc XOR 0x1021 else push_bit 1 crc)"

definition crc_byte :: "u8 \<Rightarrow> u16 \<Rightarrow> u16" where
  "crc_byte byte crc = (crc_bit ^^ 8) (crc XOR push_bit 8 (ucast byte))"

definition crc16_ccitt :: "u8 list \<Rightarrow> u16" where
  "crc16_ccitt data = fold crc_byte data 0xFFFF"

section \<open>Packets\<close>

record sos_message =
  sm_magic :: "u8 list"
  sm_version :: u8
  sm_sequence :: u16
  sm_device_id :: "u8 list"
  sm_timestamp :: u32
  sm_latitude :: u64
  sm_longitude :: u64
  sm_altitude_m :: u32
  sm_satellites :: u8
  sm_battery_pct :: u8
  sm_status :: sos_status
  sm_message_len :: u8
  sm_message :: "u8 list"
  sm_checksum :: u16

text \<open>Everything before the checksum.\<close>

definition sos_payload :: "sos_message \<Rightarrow> u8 list" where
  "sos_payload m =
     sm_magic m @ [sm_version m] @ to_be_bytes 2 (sm_sequence m) @ sm_device_id m @ to_be_bytes 4 (sm_timestamp m) @
     to_be_bytes 8 (sm_latitude m) @ to_be_bytes 8 (sm_longitude m) @ to_be_bytes 4 (sm_altitude_m m) @
     [sm_satellites m] @ [sm_battery_pct m] @ [sos_status_u8 (sm_status m)] @ [sm_message_len m] @ sm_message m"

definition sos_to_bytes :: "sos_message \<Rightarrow> u8 list" where
  "sos_to_bytes m = (let buf = sos_payload m in buf @ to_be_bytes 2 (crc16_ccitt buf))"

abbreviation cut :: "nat \<Rightarrow> nat \<Rightarrow> 'a list \<Rightarrow> 'a list" where
  "cut off n xs \<equiv> take n (drop off xs)"

definition sos_from_bytes :: "u8 list \<Rightarrow> int + sos_message" where
  "sos_from_bytes data =
     (if length data < SOS_PACKET_SIZE then Inl ESP_ERR_INVALID_ARG
      else if take 4 data \<noteq> SOS_MAGIC then Inl ESP_ERR_INVALID_ARG
      else
        let payload = take (SOS_PACKET_SIZE - 2) data;
            expected_crc = crc16_ccitt payload;
            stored_crc = from_be_bytes [data ! (SOS_PACKET_SIZE - 2), data ! (SOS_PACKET_SIZE - 1)]
        in if expected_crc \<noteq> stored_crc then Inl ESP_FAIL
        else case sos_status_from_u8 (data ! 41) of
          None \<Rightarrow> Inl ESP_ERR_INVALID_ARG
        | Some status \<Rightarrow> Inr
            \<lparr>sm_magic = cut 0 4 data, sm_version = data ! 4, sm_sequence = from_be_bytes (cut 5 2 data),
             sm_device_id = cut 7 8 data, sm_timestamp = from_be_bytes (cut 15 4 data),
             sm_latitude = from_be_bytes (cut 19 8 data), sm_longitude = from_be_bytes (cut 27 8 data),
             sm_altitude_m = from_be_bytes (cut 35 4 data), sm_satellites = data ! 39, sm_battery_pct = data ! 40,
             sm_status = status, sm_message_len = data ! 42, sm_message = cut 43 SOS_MESSAGE_MAX data,
             sm_checksum = from_be_bytes (cut 107 2 data)\<rparr>)"

section \<open>The beacon\<close>

record gps_position =
  gp_latitude :: u64
  gp_longitude :: u64
  gp_altitude_m :: u32
  gp_speed_kmh :: u32
  gp_heading_deg :: u32
  gp_satellites :: u8
  gp_fix_valid :: bool
  gp_timestamp :: u32

record sos_beacon =
  sb_device_id :: "u8 list"
  sb_active :: bool
  sb_status :: "sos_status option"
  sb_sequence :: u16
  sb_packets_sent :: u32
  sb_latitude :: u64
  sb_longitude :: u64
  sb_altitude_m :: u32
  sb_satellites :: u8
  sb_battery_pct :: u8
  sb_timestamp :: u32
  sb_message :: "u8 list"
  sb_message_len :: u8
  sb_activation_timestamp :: "u32 option"

definition sos_beacon_new :: "u8 list \<Rightarrow> sos_beacon" where
  "sos_beacon_new device_id =
     \<lparr>sb_device_id = device_id, sb_active = False, sb_status = None, sb_sequence = 0, sb_packets_sent = 0,
      sb_latitude = 0, sb_longitude = 0, sb_altitude_m = 0, sb_satellites = 0, sb_battery_pct = 0, sb_timestamp = 0,
      sb_message = replicate SOS_MESSAGE_MAX 0, sb_message_len = 0, sb_activation_timestamp = None\<rparr>"

definition sos_set_message :: "string \<Rightarrow> sos_beacon \<Rightarrow> sos_beacon" where
  "sos_set_message msg b = (
     let len = min (length msg) SOS_MESSAGE_MAX
     in b\<lparr>sb_message := map of_char (take len msg) @ replicate (SOS_MESSAGE_MAX - len) 0, sb_message_len := of_nat len\<rparr>)"

definition sos_cancel :: "sos_beacon \<Rightarrow> int \<times> sos_beacon" where
  "sos_cancel b = (if \<not> sb_active b then (ESP_ERR_INVALID_STATE, b) else (ESP_OK, b\<lparr>sb_status := Some SosCancel\<rparr>))"

definition sos_activate :: "sos_status \<Rightarrow> string option \<Rightarrow> sos_beacon \<Rightarrow> int \<times> sos_beacon" where
  "sos_activate status message b =
     (if sb_active b \<and> status \<noteq> SosCancel then (ESP_ERR_INVALID_STATE, b)
      else if status = SosCancel then sos_cancel b
      else
        let b1 = b\<lparr>sb_active := True, sb_status := Some status, sb_sequence := 0,
                    sb_activation_timestamp := Some (sb_timestamp b)\<rparr>
        in (ESP_OK, case message of
              Some msg \<Rightarrow> sos_set_message msg b1
            | None \<Rightarrow> b1\<lparr>sb_message := replicate SOS_MESSAGE_MAX 0, sb_message_len := 0\<rparr>))"

definition sos_current_status :: "sos_beacon \<Rightarrow> sos_status option" where
  "sos_current_status b = (if sb_active b then sb_status b else None)"

definition sos_update_position :: "gps_position \<Rightarrow> sos_beacon \<Rightarrow> sos_beacon" where
  "sos_update_position pos b =
     b\<lparr>sb_latitude := gp_latitude pos, sb_longitude := gp_longitude pos, sb_altitude_m := gp_altitude_m pos,
       sb_satellites := gp_satellites pos, sb_timestamp := gp_timestamp pos\<rparr>"

definition sos_update_battery :: "u8 \<Rightarrow> sos_beacon \<Rightarrow> sos_beacon" where
  "sos_update_battery pct b = b\<lparr>sb_battery_pct := (if 100 < pct then 100 else pct)\<rparr>"

definition sos_next_packet :: "sos_beacon \<Rightarrow> u8 list option \<times> sos_beacon" where
  "sos_next_packet b =
     (if \<not> sb_active b then (None, b)
      else
        let msg = \<lparr>sm_magic = SOS_MAGIC, sm_version = SOS_PROTOCOL_VERSION, sm_sequence = sb_sequence b,
                   sm_device_id = sb_device_id b, sm_timestamp = sb_timestamp b, sm_latitude = sb_latitude b,
                   sm_longitude = sb_longitude b, sm_altitude_m = sb_altitude_m b, sm_satellites = sb_satellites b,
                   sm_battery_pct = sb_battery_pct b, sm_status = unwrap_or SosActive (sb_status b),
                   sm_message_len = sb_message_len b, sm_message = sb_message b, sm_checksum = 0\<rparr>;
            bytes = sos_to_bytes msg;
            b1 = b\<lparr>sb_sequence := sb_sequence b + 1, sb_packets_sent := sb_packets_sent b + 1\<rparr>;
            b2 = (if sb_status b1 = Some SosCancel
                  then b1\<lparr>sb_active := False, sb_status := None, sb_activation_timestamp := None\<rparr> else b1)
        in (Some bytes, b2))"

definition sos_interval_seconds :: "sos_beacon \<Rightarrow> u32" where
  "sos_interval_seconds b = (case sb_status b of
     Some SosActive \<Rightarrow> 30 | Some SosMedical \<Rightarrow> 30 | Some SosMoving \<Rightarrow> 60 | Some SosImmobile \<Rightarrow> 120
   | Some SosCancel \<Rightarrow> 10 | Some SosTest \<Rightarrow> 10 | None \<Rightarrow> 0)"

definition elapsed_since_activation :: "sos_beacon \<Rightarrow> u32 option" where
  "elapsed_since_activation b =
     (if \<not> sb_active b then None
      else map_option (\<lambda>act_ts. if sb_timestamp b < act_ts then 0 else sb_timestamp b - act_ts) (sb_activation_timestamp b))"

section \<open>C entry points\<close>

text \<open>The identifier at the pointer has eight bytes.\<close>

definition rs_sos_beacon_create :: "u8 list option \<Rightarrow> sos_beacon option" where
  "rs_sos_beacon_create device_id = map_option sos_beacon_new device_id"

definition rs_sos_beacon_activate :: "u8 \<Rightarrow> string option \<Rightarrow> sos_beacon option \<Rightarrow> int \<times> sos_beacon option" where
  "rs_sos_beacon_activate status msg beacon = (case beacon of
     None \<Rightarrow> (ESP_ERR_INVALID_ARG, None)
   | Some b \<Rightarrow> (case sos_status_from_u8 status of
       None \<Rightarrow> (ESP_ERR_INVALID_ARG, beacon)
     | Some s \<Rightarrow> map_prod id Some
         (sos_activate s (case msg of None \<Rightarrow> None | Some m \<Rightarrow> if utf8_valid m then Some m else None) b)))"

definition rs_sos_beacon_cancel :: "sos_beacon option \<Rightarrow> int \<times> sos_beacon option" where
  "rs_sos_beacon_cancel beacon = (case beacon of
     None \<Rightarrow> (ESP_ERR_INVALID_ARG, None) | Some b \<Rightarrow> map_prod id Some (sos_cancel b))"

definition rs_sos_beacon_is_active :: "sos_beacon option \<Rightarrow> int" where
  "rs_sos_beacon_is_active beacon = (case beacon of None \<Rightarrow> ESP_FAIL | Some b \<Rightarrow> if sb_active b then 1 else 0)"

definition rs_sos_beacon_update_position :: "gps_position option \<Rightarrow> sos_beacon option \<Rightarrow> int \<times> sos_beacon option" where
  "rs_sos_beacon_update_position pos beacon = (case (beacon, pos) of
     (Some b, Some p) \<Rightarrow> (ESP_OK, Some (sos_update_position p b))
   | _ \<Rightarrow> (ESP_ERR_INVALID_ARG, beacon))"

definition rs_sos_beacon_update_battery :: "u8 \<Rightarrow> sos_beacon option \<Rightarrow> int \<times> sos_beacon option" where
  "rs_sos_beacon_update_battery pct beacon = (case beacon of
     None \<Rightarrow> (ESP_ERR_INVALID_ARG, None) | Some b \<Rightarrow> (ESP_OK, Some (sos_update_battery pct b)))"

text \<open>The last component is what is written to the buffer.\<close>

definition rs_sos_beacon_next_packet :: "bool \<Rightarrow> nat \<Rightarrow> sos_beacon option \<Rightarrow> int \<times> sos_beacon option \<times> u8 list" where
  "rs_sos_beacon_next_packet buf_null buf_len beacon = (case beacon of
     None \<Rightarrow> (ESP_ERR_INVALID_ARG, None, [])
   | Some b \<Rightarrow>
       if buf_null then (ESP_ERR_INVALID_ARG, beacon, [])
       else if buf_len < SOS_PACKET_SIZE then (ESP_ERR_INVALID_ARG, beacon, [])
       else (case sos_next_packet b of
         (Some packet, b') \<Rightarrow> (int SOS_PACKET_SIZE, Some b', take SOS_PACKET_SIZE packet)
       | (None, b') \<Rightarrow> (0, Some b', [])))"

definition rs_sos_beacon_interval :: "sos_beacon option \<Rightarrow> u32" where
  "rs_sos_beacon_interval beacon = (case beacon of None \<Rightarrow> 0 | Some b \<Rightarrow> sos_interval_seconds b)"

end
