(* ===== verification/Sos_Facts.thy ===== *)
theory Sos_Facts
  imports Sos_Beacon
begin

text \<open>
  Properties of the SOS beacon: which bytes are packets and of which message, that the checksum catches every
  corruption within two neighbouring bytes, and what a beacon sends in the course of an emergency.
\<close>

section \<open>Big-endian bytes\<close>

lemma length_to_be [simp]: "length (to_be_bytes n w) = n"
  by (simp add: to_be_bytes_def)

lemma to_be_Suc: "to_be_bytes (Suc n) w = to_be_bytes n (drop_bit 8 w) @ [ucast w]"
proof -
  have "8 * (n - k) = 8 * (n - 1 - k) + 8" if "k < n" for k using that by simp
  then have "map (\<lambda>k. ucast (drop_bit (8 * (n - k)) w) :: u8) [0..<n] = map (\<lambda>k. ucast (drop_bit (8 * (n - 1 - k)) (drop_bit 8 w))) [0..<n]"
    by (intro map_cong) (simp_all add: drop_bit_drop_bit)
  then show ?thesis by (simp add: to_be_bytes_def)
qed

lemma from_be_snoc: "from_be_bytes (bs @ [b]) = push_bit 8 (from_be_bytes bs) OR ucast b"
  by (simp add: from_be_bytes_def)

lemma from_to_be: "from_be_bytes (to_be_bytes n w) = take_bit (8 * n) (w :: 'a::len word)"
proof (induction n arbitrary: w)
  case (Suc n)
  have "push_bit 8 (take_bit (8 * n) (drop_bit 8 w)) OR ucast (ucast w :: u8) = take_bit (8 * Suc n) w"
    by (rule bit_word_eqI) (auto simp: bit_simps)
  then show ?case by (simp add: to_be_Suc from_be_snoc Suc.IH)
qed (simp add: to_be_bytes_def from_be_bytes_def)

lemma bit_from_be: "bit (from_be_bytes bs :: 'a::len word) k \<Longrightarrow> k < 8 * length bs"
proof (induction bs arbitrary: k rule: rev_induct)
  case (snoc b bs)
  then have "(8 \<le> k \<and> bit (from_be_bytes bs :: 'a word) (k - 8)) \<or> k < 8"
    by (auto simp: from_be_snoc bit_simps dest: bit_imp_le_length)
  with snoc.IH [of "k - 8"] show ?case by auto
qed (simp add: from_be_bytes_def)

lemma to_from_be: "8 * length bs \<le> LENGTH('a) \<Longrightarrow> to_be_bytes (length bs) (from_be_bytes bs :: 'a::len word) = bs"
proof (induction bs rule: rev_induct)
  case (snoc b bs)
  let ?v = "from_be_bytes bs :: 'a word"
  have fit: "k < LENGTH('a) - 8" if "bit ?v k" for k using bit_from_be [OF that] snoc.prems by simp
  have hi: "drop_bit 8 (push_bit 8 ?v OR ucast b) = ?v"
    by (rule bit_word_eqI) (use snoc.prems in \<open>auto simp: bit_simps dest: fit bit_imp_le_length\<close>)
  have lo: "(ucast (push_bit 8 ?v OR ucast b) :: u8) = b"
    by (rule bit_word_eqI) (use snoc.prems in \<open>auto simp: bit_simps\<close>)
  have "to_be_bytes (Suc (length bs)) (from_be_bytes (bs @ [b]) :: 'a word) = bs @ [b]"
    unfolding from_be_snoc to_be_Suc hi lo using snoc by simp
  then show ?case by simp
qed (simp add: to_be_bytes_def)

section \<open>The checksum\<close>

lemma crc_bit_eq: "crc_bit c = push_bit 1 c XOR (if bit c 15 then 0x1021 else 0)"
proof -
  have "c AND 0x8000 \<noteq> 0 \<longleftrightarrow> bit c 15"
  proof -
    have "c AND 0x8000 = c AND push_bit 15 1" by simp
    also have "c AND push_bit 15 1 \<noteq> 0 \<longleftrightarrow> bit c 15" by (simp add: bit_iff_and_push_bit_not_eq_0)
    finally show ?thesis .
  qed
  then show ?thesis by (simp add: crc_bit_def)
qed

lemma crc_bit_xor: "crc_bit (a XOR b) = crc_bit a XOR crc_bit b"
  by (cases "bit a 15"; cases "bit b 15") (simp_all add: crc_bit_eq push_bit_xor bit_xor_iff ac_simps)

lemma crc_bits_xor: "(crc_bit ^^ k) (a XOR b) = (crc_bit ^^ k) a XOR (crc_bit ^^ k) b"
  by (induction k) (simp_all add: crc_bit_xor)

lemma bit_crc_bit: "bit (crc_bit c) n \<longleftrightarrow> n < 16 \<and> ((0 < n \<and> bit c (n - 1)) \<noteq> (bit c 15 \<and> bit (0x1021 :: u16) n))"
proof -
  have "bit (push_bit 1 c) n \<longleftrightarrow> n < 16 \<and> 0 < n \<and> bit c (n - 1)"
    by (simp only: bit_push_bit_iff possible_bit_word) auto
  then show ?thesis by (auto simp only: crc_bit_eq bit_xor_iff split: if_splits dest: bit_imp_le_length) auto
qed

lemma crc_bit_zero: "crc_bit c = 0 \<longleftrightarrow> c = 0"
proof
  assume z: "crc_bit c = 0"
  then have none: "\<not> bit (crc_bit c) n" for n by simp
  from none [of 0] have top: "\<not> bit c 15" by (simp add: bit_crc_bit)
  show "c = 0"
  proof (rule bit_word_eqI)
    fix n assume "n < LENGTH(16)"
    then have "n = 15 \<or> Suc n < 16" by auto
    then show "bit c n = bit 0 n" using none [of "Suc n"] top by (auto simp: bit_crc_bit)
  qed
qed (simp add: crc_bit_eq)

lemma xor_eq_zero: "a XOR b = 0 \<longleftrightarrow> a = (b :: 'a::len word)"
  by (metis xor.assoc xor.left_neutral xor_self_eq)

lemma xor_cancel: "c XOR a = c XOR b \<longleftrightarrow> a = (b :: 'a::len word)" "a XOR c = b XOR c \<longleftrightarrow> a = b"
  by (metis xor.assoc xor.left_neutral xor_self_eq, metis xor.assoc xor.right_neutral xor_self_eq)

lemma crc_bits_zero: "(crc_bit ^^ k) c = 0 \<longleftrightarrow> c = 0"
  by (induction k) (simp_all add: crc_bit_zero)

lemma crc_bits_inj: "(crc_bit ^^ k) a = (crc_bit ^^ k) b \<longleftrightarrow> a = b"
  using crc_bits_zero [of k "a XOR b"] by (simp add: crc_bits_xor xor_eq_zero)

lemma crc_bits_low:
  assumes "k \<le> 8" shows "(crc_bit ^^ k) (ucast (d :: u8)) = push_bit k (ucast d)"
  using assms
proof (induction k)
  case (Suc k)
  have "\<not> bit (push_bit k (ucast d) :: u16) 15" using Suc.prems by (auto simp: bit_simps dest: bit_imp_le_length)
  then have "crc_bit (push_bit k (ucast d)) = push_bit (Suc k) (ucast d)"
    using push_bit_push_bit [of 1 k "ucast d :: u16"] by (simp only: crc_bit_eq if_False xor.right_neutral plus_1_eq_Suc)
  with Suc show ?case by simp
qed simp

text \<open>Two bytes at once.\<close>

definition two_bytes :: "u8 \<Rightarrow> u8 \<Rightarrow> u16" where
  "two_bytes a b = push_bit 8 (ucast a) XOR ucast b"

lemma bit_two_bytes: "k < 8 \<Longrightarrow> bit (two_bytes a b) k = bit b k" "k < 8 \<Longrightarrow> bit (two_bytes a b) (k + 8) = bit a k"
  by (auto simp: two_bytes_def bit_simps dest: bit_imp_le_length)

lemma two_bytes_inj: "two_bytes a b = two_bytes a' b' \<longleftrightarrow> a = a' \<and> b = b'"
proof
  assume eq: "two_bytes a b = two_bytes a' b'"
  have "bit a k = bit a' k" "bit b k = bit b' k" if "k < 8" for k
    using bit_two_bytes [OF that, of a b] bit_two_bytes [OF that, of a' b'] eq by simp_all
  then show "a = a' \<and> b = b'" by (auto intro!: bit_word_eqI)
qed simp

lemma crc_two_bytes: "fold crc_byte [a, b] c = (crc_bit ^^ 16) (c XOR two_bytes a b)"
proof -
  have "(crc_bit ^^ 16) x = (crc_bit ^^ 8) ((crc_bit ^^ 8) x)" for x
    using funpow_add [of 8 8 crc_bit] by simp
  then show ?thesis
    using crc_bits_low [of 8 b]
    by (simp add: crc_byte_def two_bytes_def crc_bits_xor xor.assoc)
qed

lemma crc_fold_inj: "fold crc_byte xs a = fold crc_byte xs b \<longleftrightarrow> a = b"
proof (induction xs arbitrary: a b)
  case (Cons x xs)
  have "crc_byte x a = crc_byte x b \<longleftrightarrow> a = b"
    by (simp add: crc_byte_def crc_bits_inj xor_cancel)
  with Cons show ?case by simp
qed simp

lemma crc_burst:
  "fold crc_byte (xs @ a # b # ys) c = fold crc_byte (xs @ a' # b' # ys) c \<longleftrightarrow> a = a' \<and> b = b'"
  using crc_two_bytes [of a b "fold crc_byte xs c"] crc_two_bytes [of a' b' "fold crc_byte xs c"]
  by (simp add: crc_fold_inj crc_bits_inj two_bytes_inj xor_cancel)

lemma two_bytes_be: "two_bytes a b = from_be_bytes [a, b]"
  by (rule bit_word_eqI) (auto simp: two_bytes_def from_be_bytes_def bit_simps dest: bit_imp_le_length)

text \<open>A checksum that fits leaves nothing.\<close>

lemma crc_residue: "fold crc_byte (xs @ [a, b]) c = 0 \<longleftrightarrow> fold crc_byte xs c = from_be_bytes [a, b]"
  using crc_two_bytes [of a b "fold crc_byte xs c"] by (simp add: crc_bits_zero two_bytes_be xor_eq_zero)


section \<open>Packets\<close>

text \<open>What the types of the fields say, and the magic.\<close>

definition sos_wf :: "sos_message \<Rightarrow> bool" where
  "sos_wf m \<longleftrightarrow> sm_magic m = SOS_MAGIC \<and> length (sm_device_id m) = 8 \<and> length (sm_message m) = 64"

lemma length_magic [simp]: "length SOS_MAGIC = 4"
  by (simp add: SOS_MAGIC_def)

lemma length_payload: "sos_wf m \<Longrightarrow> length (sos_payload m) = 107"
  by (simp add: sos_payload_def sos_wf_def)

lemma length_packet: "sos_wf m \<Longrightarrow> length (sos_to_bytes m) = SOS_PACKET_SIZE"
  by (simp add: sos_to_bytes_def Let_def length_payload SOS_PACKET_SIZE_def)

lemma sos_status_roundtrip: "sos_status_from_u8 v = Some s \<longleftrightarrow> v = sos_status_u8 s"
  by (cases s) (auto simp: sos_status_from_u8_def)

lemma from_to_be_width [simp]:
  "from_be_bytes (to_be_bytes 2 (a :: u16)) = a" "from_be_bytes (to_be_bytes 4 (b :: u32)) = b"
  "from_be_bytes (to_be_bytes 8 (c :: u64)) = c"
  by (simp_all add: from_to_be take_bit_word_eq_self)

lemma cut_append:
  "length xs = off \<Longrightarrow> length ys = n \<Longrightarrow> take n (drop off (xs @ ys @ zs)) = ys"
  by simp

lemma two_of: "length xs = 2 \<Longrightarrow> [xs ! 0, xs ! 1] = xs"
  by (cases xs; cases "tl xs") auto

lemma parse_packet:
  assumes "sos_wf m"
  shows "sos_from_bytes (sos_to_bytes m @ rest) = Inr (m\<lparr>sm_checksum := crc16_ccitt (sos_payload m)\<rparr>)"
proof -
  let ?c = "crc16_ccitt (sos_payload m)"
  let ?d = "sos_to_bytes m @ rest"
  have d: "?d = sos_payload m @ to_be_bytes 2 ?c @ rest" by (simp add: sos_to_bytes_def Let_def)
  have len: "length (sos_payload m) = 107" by (rule length_payload [OF assms])
  have crc: "take 107 ?d = sos_payload m" "take 2 (drop 107 ?d) = to_be_bytes 2 ?c"
    "[?d ! 107, ?d ! 108] = to_be_bytes 2 ?c"
    using two_of [of "to_be_bytes 2 ?c"] by (simp_all add: d len nth_append)
  have parts: "take 4 ?d = sm_magic m" "?d ! 4 = sm_version m" "take 2 (drop 5 ?d) = to_be_bytes 2 (sm_sequence m)"
    "take 8 (drop 7 ?d) = sm_device_id m" "take 4 (drop 15 ?d) = to_be_bytes 4 (sm_timestamp m)"
    "take 8 (drop 19 ?d) = to_be_bytes 8 (sm_latitude m)" "take 8 (drop 27 ?d) = to_be_bytes 8 (sm_longitude m)"
    "take 4 (drop 35 ?d) = to_be_bytes 4 (sm_altitude_m m)" "?d ! 39 = sm_satellites m" "?d ! 40 = sm_battery_pct m"
    "?d ! 41 = sos_status_u8 (sm_status m)" "?d ! 42 = sm_message_len m" "take 64 (drop 43 ?d) = sm_message m"
    using assms by (simp_all add: d sos_payload_def sos_wf_def nth_append)
  have st: "sos_status_from_u8 (sos_status_u8 (sm_status m)) = Some (sm_status m)" by (simp add: sos_status_roundtrip)
  have "\<not> length ?d < 109" by (simp add: d len)
  then show ?thesis
    using assms crc parts by (simp add: sos_from_bytes_def Let_def SOS_PACKET_SIZE_def SOS_MESSAGE_MAX_def st sos_wf_def)
qed

lemma take_part: "n \<le> m \<Longrightarrow> take m xs = take n xs @ take (m - n) (drop n xs)"
  by (metis add_diff_inverse_nat leD take_add)

lemma take_one: "n < length xs \<Longrightarrow> take (Suc 0) (drop n xs) = [xs ! n]"
  by (simp add: take_Suc_conv_app_nth Cons_nth_drop_Suc [symmetric])

lemma cut_be:
  "off + 2 \<le> length d \<Longrightarrow> to_be_bytes 2 (from_be_bytes (take 2 (drop off d)) :: u16) = take 2 (drop off d)"
  "off + 4 \<le> length d \<Longrightarrow> to_be_bytes 4 (from_be_bytes (take 4 (drop off d)) :: u32) = take 4 (drop off d)"
  "off + 8 \<le> length d \<Longrightarrow> to_be_bytes 8 (from_be_bytes (take 8 (drop off d)) :: u64) = take 8 (drop off d)"
  using to_from_be [of "take 2 (drop off d)", where 'a = 16] to_from_be [of "take 4 (drop off d)", where 'a = 32]
    to_from_be [of "take 8 (drop off d)", where 'a = 64] by simp_all

lemma packet_parts:
  assumes "109 \<le> length d"
  shows "take 107 d = take 4 d @ [d ! 4] @ take 2 (drop 5 d) @ take 8 (drop 7 d) @ take 4 (drop 15 d) @ take 8 (drop 19 d) @
    take 8 (drop 27 d) @ take 4 (drop 35 d) @ [d ! 39] @ [d ! 40] @ [d ! 41] @ [d ! 42] @ take 64 (drop 43 d)"
proof -
  have one: "[d ! n] = take (Suc 0) (drop n d)" if "n < 107" for n by (rule take_one [symmetric]) (use that assms in simp)
  show ?thesis
    using take_part [of 43 107 d] take_part [of 42 43 d] take_part [of 41 42 d] take_part [of 40 41 d] take_part [of 39 40 d]
      take_part [of 35 39 d] take_part [of 27 35 d] take_part [of 19 27 d] take_part [of 15 19 d] take_part [of 7 15 d]
      take_part [of 5 7 d] take_part [of 4 5 d]
    by (simp add: one)
qed

lemma parsed_packet:
  assumes "sos_from_bytes data = Inr m"
  shows "SOS_PACKET_SIZE \<le> length data \<and> sos_wf m \<and> take SOS_PACKET_SIZE data = sos_to_bytes m \<and>
    sm_checksum m = crc16_ccitt (sos_payload m)"
proof -
  note df = assms [unfolded sos_from_bytes_def Let_def SOS_PACKET_SIZE_def SOS_MESSAGE_MAX_def, simplified]
  have len: "109 \<le> length data" and magic: "take 4 data = SOS_MAGIC"
    and crc: "crc16_ccitt (take 107 data) = from_be_bytes [data ! 107, data ! 108]"
    using df by (auto split: if_splits)
  obtain s where st: "sos_status_from_u8 (data ! 41) = Some s" using df by (auto split: if_splits option.splits)
  then have s: "sos_status_u8 s = data ! 41" by (simp add: sos_status_roundtrip)
  have m: "m = \<lparr>sm_magic = take 4 data, sm_version = data ! 4, sm_sequence = from_be_bytes (cut 5 2 data),
      sm_device_id = cut 7 8 data, sm_timestamp = from_be_bytes (cut 15 4 data),
      sm_latitude = from_be_bytes (cut 19 8 data), sm_longitude = from_be_bytes (cut 27 8 data),
      sm_altitude_m = from_be_bytes (cut 35 4 data), sm_satellites = data ! 39, sm_battery_pct = data ! 40,
      sm_status = s, sm_message_len = data ! 42, sm_message = cut 43 64 data, sm_checksum = from_be_bytes (cut 107 2 data)\<rparr>"
    using df st by (auto split: if_splits)
  have last: "take 2 (drop 107 data) = [data ! 107, data ! 108]"
    using two_of [of "take 2 (drop 107 data)"] len by simp
  have pay: "sos_payload m = take 107 data"
    unfolding packet_parts [OF len] using len by (simp add: m sos_payload_def s cut_be)
  have "take 109 data = take 107 data @ [data ! 107, data ! 108]" using take_part [of 107 109 data] by (simp add: last)
  moreover have "to_be_bytes 2 (crc16_ccitt (take 107 data)) = [data ! 107, data ! 108]"
    using cut_be(1) [of 107 data] len by (simp add: last crc)
  ultimately have "take 109 data = sos_to_bytes m" by (simp add: sos_to_bytes_def pay Let_def)
  moreover have "sm_checksum m = crc16_ccitt (sos_payload m)" by (simp only: pay) (simp add: m last crc)
  moreover have "sos_wf m" using len magic by (simp add: m sos_wf_def)
  ultimately show ?thesis using len by (simp add: SOS_PACKET_SIZE_def)
qed

text \<open>C19. A message is read from bytes exactly when they begin with the packet of that message, with the
  magic and the checksum of its contents: packets are read back field by field, and nothing else is read.\<close>

theorem sos_packet_iff:
  "sos_from_bytes data = Inr m \<longleftrightarrow>
   SOS_PACKET_SIZE \<le> length data \<and> sos_wf m \<and> take SOS_PACKET_SIZE data = sos_to_bytes m \<and>
   sm_checksum m = crc16_ccitt (sos_payload m)"
proof
  assume r: "SOS_PACKET_SIZE \<le> length data \<and> sos_wf m \<and> take SOS_PACKET_SIZE data = sos_to_bytes m \<and>
    sm_checksum m = crc16_ccitt (sos_payload m)"
  then have "data = sos_to_bytes m @ drop SOS_PACKET_SIZE data" by (metis append_take_drop_id)
  moreover have "m\<lparr>sm_checksum := crc16_ccitt (sos_payload m)\<rparr> = m" using r by (metis sos_message.surjective sos_message.update_convs(14))
  ultimately show "sos_from_bytes data = Inr m" using parse_packet r by metis
qed (rule parsed_packet)


lemma accepted_residue:
  assumes "sos_from_bytes data = Inr m" shows "fold crc_byte (take 109 data) 0xFFFF = 0"
  using parsed_packet [OF assms] crc_residue
  by (metis (no_types, lifting) SOS_PACKET_SIZE_def Let_def crc16_ccitt_def from_to_be_width(1) length_to_be sos_to_bytes_def two_of)

lemma split_two:
  assumes "Suc i < length xs" shows "xs = take i xs @ xs ! i # xs ! Suc i # drop (Suc (Suc i)) xs"
  using assms by (metis Cons_nth_drop_Suc Suc_lessD append_take_drop_id)

text \<open>C17. Corruption that stays within two neighbouring bytes of a packet is always detected: no packet that
  is accepted turns into another that is accepted.\<close>

theorem sos_burst_detected:
  assumes "sos_from_bytes data = Inr m" "length data = SOS_PACKET_SIZE" "length data' = SOS_PACKET_SIZE"
    "Suc i < SOS_PACKET_SIZE" "\<forall>k<SOS_PACKET_SIZE. k \<noteq> i \<and> k \<noteq> Suc i \<longrightarrow> data' ! k = data ! k" "data' \<noteq> data"
  shows "\<exists>e. sos_from_bytes data' = Inl e"
proof (rule ccontr)
  assume "\<not> ?thesis"
  then obtain m' where m': "sos_from_bytes data' = Inr m'" by (cases "sos_from_bytes data'") auto
  note size = assms(2-4) [unfolded SOS_PACKET_SIZE_def]
  have same: "take i data' = take i data" "drop (Suc (Suc i)) data' = drop (Suc (Suc i)) data"
    using assms(5) size by (auto simp: list_eq_iff_nth_eq SOS_PACKET_SIZE_def)
  have res: "fold crc_byte data 0xFFFF = 0" "fold crc_byte data' 0xFFFF = 0"
    using accepted_residue [OF assms(1)] accepted_residue [OF m'] size by simp_all
  have cut: "data = take i data @ data ! i # data ! Suc i # drop (Suc (Suc i)) data"
    "data' = take i data @ data' ! i # data' ! Suc i # drop (Suc (Suc i)) data"
    using split_two [of i data] split_two [of i data'] size same by simp_all
  have "fold crc_byte (take i data @ data ! i # data ! Suc i # drop (Suc (Suc i)) data) 0xFFFF =
    fold crc_byte (take i data @ data' ! i # data' ! Suc i # drop (Suc (Suc i)) data) 0xFFFF"
    using res by (simp only: cut [symmetric])
  then have "data ! i = data' ! i \<and> data ! Suc i = data' ! Suc i" by (simp only: crc_burst)
  with cut have "data' = data" by metis
  with assms(6) show False ..
qed

definition sample_message :: sos_message where
  "sample_message = \<lparr>sm_magic = SOS_MAGIC, sm_version = 1, sm_sequence = 7, sm_device_id = replicate 8 2, sm_timestamp = 3,
     sm_latitude = 4, sm_longitude = 5, sm_altitude_m = 6, sm_satellites = 9, sm_battery_pct = 50, sm_status = SosActive,
     sm_message_len = 0, sm_message = replicate 64 0, sm_checksum = 0\<rparr>"

theorem sos_burst_detected_witness:
  "\<exists>e. sos_from_bytes ((sos_to_bytes sample_message)[4 := 255, 5 := 255]) = Inl e"
proof -
  let ?d = "sos_to_bytes sample_message"
  have wf: "sos_wf sample_message" by (simp add: sos_wf_def sample_message_def)
  have ok: "sos_from_bytes ?d = Inr (sample_message\<lparr>sm_checksum := crc16_ccitt (sos_payload sample_message)\<rparr>)"
    using parse_packet [OF wf, of "[]"] by simp
  have len: "length ?d = SOS_PACKET_SIZE" by (rule length_packet [OF wf])
  have "?d ! 4 = 1" by (simp add: sos_to_bytes_def Let_def sos_payload_def sample_message_def nth_append)
  with len have "?d[4 := 255, 5 := 255] ! 4 \<noteq> ?d ! 4" by (simp add: SOS_PACKET_SIZE_def)
  then have "?d[4 := 255, 5 := 255] \<noteq> ?d" by metis
  with sos_burst_detected [OF ok len, of "?d[4 := 255, 5 := 255]" 4] len show ?thesis by (simp add: SOS_PACKET_SIZE_def)
qed

section \<open>An emergency\<close>

datatype sos_op =
    Activate sos_status "string option"
  | CancelSos
  | UpdatePosition gps_position
  | UpdateBattery u8
  | SetMessage string
  | NextPacket

text \<open>The return code (\<open>ESP_OK\<close> for operations without one), the packet and the next state.\<close>

fun sos_step :: "sos_op \<Rightarrow> sos_beacon \<Rightarrow> int \<times> u8 list option \<times> sos_beacon" where
  "sos_step (Activate s msg) b = (let (r, b') = sos_activate s msg b in (r, None, b'))"
| "sos_step CancelSos b = (let (r, b') = sos_cancel b in (r, None, b'))"
| "sos_step (UpdatePosition pos) b = (ESP_OK, None, sos_update_position pos b)"
| "sos_step (UpdateBattery pct) b = (ESP_OK, None, sos_update_battery pct b)"
| "sos_step (SetMessage msg) b = (ESP_OK, None, sos_set_message msg b)"
| "sos_step NextPacket b = (let (pkt, b') = sos_next_packet b in (ESP_OK, pkt, b'))"

text \<open>The course of an emergency: nothing, calls with a status, or the cancellation that is still to be sent;
  with the number of the next packet.\<close>

datatype phase = Quiet | Calling sos_status u16 | Cancelling u16

fun phase_step :: "sos_op \<Rightarrow> phase \<Rightarrow> int \<times> (sos_status \<times> u16) option \<times> phase" where
  "phase_step (Activate s msg) Quiet =
     (if s = SosCancel then (ESP_ERR_INVALID_STATE, None, Quiet) else (ESP_OK, None, Calling s 0))"
| "phase_step (Activate s msg) (Calling s' n) =
     (if s = SosCancel then (ESP_OK, None, Cancelling n) else (ESP_ERR_INVALID_STATE, None, Calling s' n))"
| "phase_step (Activate s msg) (Cancelling n) =
     (if s = SosCancel then (ESP_OK, None, Cancelling n) else (ESP_ERR_INVALID_STATE, None, Cancelling n))"
| "phase_step CancelSos Quiet = (ESP_ERR_INVALID_STATE, None, Quiet)"
| "phase_step CancelSos (Calling s n) = (ESP_OK, None, Cancelling n)"
| "phase_step CancelSos (Cancelling n) = (ESP_OK, None, Cancelling n)"
| "phase_step NextPacket Quiet = (ESP_OK, None, Quiet)"
| "phase_step NextPacket (Calling s n) = (ESP_OK, Some (s, n), Calling s (n + 1))"
| "phase_step NextPacket (Cancelling n) = (ESP_OK, Some (SosCancel, n), Quiet)"
| "phase_step _ ph = (ESP_OK, None, ph)"

definition phase_of :: "sos_beacon \<Rightarrow> phase" where
  "phase_of b = (case sos_current_status b of
     None \<Rightarrow> Quiet
   | Some s \<Rightarrow> if s = SosCancel then Cancelling (sb_sequence b) else Calling s (sb_sequence b))"

text \<open>What a receiver reads from a packet.\<close>

definition heard :: "sos_beacon \<Rightarrow> u8 list \<Rightarrow> sos_status \<times> u16 \<Rightarrow> bool" where
  "heard b pkt c \<longleftrightarrow> (\<exists>m. sos_from_bytes pkt = Inr m \<and> (sm_status m, sm_sequence m) = c \<and>
     sm_device_id m = sb_device_id b \<and> sm_timestamp m = sb_timestamp b \<and> sm_latitude m = sb_latitude b \<and>
     sm_longitude m = sb_longitude b \<and> sm_altitude_m m = sb_altitude_m b \<and> sm_satellites m = sb_satellites b \<and>
     sm_battery_pct m = sb_battery_pct b \<and> sm_battery_pct m \<le> 100 \<and>
     take (unat (sm_message_len m)) (sm_message m) = take (unat (sb_message_len b)) (sb_message b))"

definition sos_inv :: "sos_beacon \<Rightarrow> bool" where
  "sos_inv b \<longleftrightarrow> length (sb_device_id b) = 8 \<and> length (sb_message b) = 64 \<and> sb_message_len b \<le> 64 \<and> sb_battery_pct b \<le> 100 \<and>
     (sb_active b \<longleftrightarrow> sb_status b \<noteq> None) \<and> (sb_active b \<longleftrightarrow> sb_activation_timestamp b \<noteq> None)"

definition sos_moved :: "sos_op \<Rightarrow> sos_beacon \<Rightarrow> sos_beacon" where
  "sos_moved e b = snd (snd (sos_step e b))"

lemma set_message_inv:
  "length (sb_message (sos_set_message msg b)) = 64" "sb_message_len (sos_set_message msg b) \<le> 64"
  by (simp_all add: sos_set_message_def Let_def SOS_MESSAGE_MAX_def word_le_nat_alt unat_of_nat)

lemma set_message_same:
  "sb_active (sos_set_message msg b) = sb_active b" "sb_status (sos_set_message msg b) = sb_status b"
  "sb_sequence (sos_set_message msg b) = sb_sequence b" "sb_device_id (sos_set_message msg b) = sb_device_id b"
  "sb_battery_pct (sos_set_message msg b) = sb_battery_pct b"
  "sb_activation_timestamp (sos_set_message msg b) = sb_activation_timestamp b"
  by (simp_all add: sos_set_message_def Let_def)

lemma sos_inv_step: "sos_inv b \<Longrightarrow> sos_inv (sos_moved e b)"
  by (cases e) (auto simp: sos_moved_def sos_inv_def sos_activate_def sos_cancel_def sos_update_position_def
      sos_update_battery_def sos_next_packet_def Let_def set_message_inv set_message_same SOS_MESSAGE_MAX_def not_less
      split: option.split)

interpretation beacon: machine sos_moved sos_inv
  by unfold_locales (rule sos_inv_step)

lemma sos_inv_new: "length i = 8 \<Longrightarrow> sos_inv (sos_beacon_new i)"
  by (simp add: sos_inv_def sos_beacon_new_def SOS_MESSAGE_MAX_def)

lemma sos_step_refines:
  assumes "sos_inv b" "sos_step e b = (r, pkt, b')"
  shows "\<exists>c. phase_step e (phase_of b) = (r, c, phase_of b') \<and> rel_option (heard b) pkt c"
proof (cases e)
  case NextPacket
  show ?thesis
  proof (cases "sb_status b")
    case None
    with assms show ?thesis
      by (auto simp: NextPacket sos_inv_def sos_next_packet_def phase_of_def sos_current_status_def)
  next
    case (Some s)
    define m where "m = \<lparr>sm_magic = SOS_MAGIC, sm_version = SOS_PROTOCOL_VERSION, sm_sequence = sb_sequence b,
       sm_device_id = sb_device_id b, sm_timestamp = sb_timestamp b, sm_latitude = sb_latitude b,
       sm_longitude = sb_longitude b, sm_altitude_m = sb_altitude_m b, sm_satellites = sb_satellites b,
       sm_battery_pct = sb_battery_pct b, sm_status = s, sm_message_len = sb_message_len b, sm_message = sb_message b,
       sm_checksum = 0\<rparr>"
    have "sos_wf m" using assms(1) by (simp add: m_def sos_wf_def sos_inv_def)
    from parse_packet [OF this, of "[]"] have "heard b (sos_to_bytes m) (s, sb_sequence b)"
      using assms(1) by (simp add: heard_def m_def sos_inv_def)
    moreover have "sb_active b" using assms(1) Some by (simp add: sos_inv_def)
    ultimately show ?thesis
      using assms(2) Some by (cases "s = SosCancel")
        (auto simp: NextPacket sos_next_packet_def Let_def phase_of_def sos_current_status_def unwrap_or_def m_def)
  qed
qed (use assms in \<open>auto simp: sos_inv_def sos_activate_def sos_cancel_def sos_update_position_def sos_update_battery_def
    Let_def phase_of_def sos_current_status_def set_message_same split: if_splits option.splits\<close>)

text \<open>Runs: what every operation gave, with the beacon it was given.\<close>

fun sos_trace :: "sos_op list \<Rightarrow> sos_beacon \<Rightarrow> (sos_beacon \<times> int \<times> u8 list option) list" where
  "sos_trace [] b = []"
| "sos_trace (e # es) b = (let (r, pkt, b') = sos_step e b in (b, r, pkt) # sos_trace es b')"

fun phase_trace :: "sos_op list \<Rightarrow> phase \<Rightarrow> (int \<times> (sos_status \<times> u16) option) list" where
  "phase_trace [] ph = []"
| "phase_trace (e # es) ph = (let (r, c, ph') = phase_step e ph in (r, c) # phase_trace es ph')"

lemma sos_trace_refines:
  "sos_inv b \<Longrightarrow> list_all2 (\<lambda>(b, r, pkt) (r', c). r = r' \<and> rel_option (heard b) pkt c) (sos_trace es b) (phase_trace es (phase_of b))"
proof (induction es arbitrary: b)
  case (Cons e es)
  obtain r pkt b' where st: "sos_step e b = (r, pkt, b')" by (cases "sos_step e b")
  obtain c where c: "phase_step e (phase_of b) = (r, c, phase_of b')" "rel_option (heard b) pkt c"
    using sos_step_refines [OF Cons.prems st] by blast
  have "sos_inv b'" using sos_inv_step [OF Cons.prems, of e] by (simp add: sos_moved_def st)
  with Cons.IH c show ?case by (simp add: st)
qed simp

text \<open>C18. A beacon goes through its emergencies as the phases say, whatever is called in which order: a status
  other than the cancellation starts calls numbered from zero, which nothing but a cancellation ends, the
  cancellation is sent exactly once, then there are no packets until the next activation. Each packet it
  gives is read by a receiver with the status and number the phase has, and with the identifier, position,
  charge and text the beacon has at that time.\<close>

theorem sos_beacon_refines_phases:
  assumes "length i = 8"
  shows "list_all2 (\<lambda>(b, r, pkt) (r', c). r = r' \<and> rel_option (heard b) pkt c)
    (sos_trace es (sos_beacon_new i)) (phase_trace es Quiet)"
proof -
  have "phase_of (sos_beacon_new i) = Quiet" by (simp add: phase_of_def sos_current_status_def sos_beacon_new_def)
  with sos_trace_refines [OF sos_inv_new [OF assms]] show ?thesis by metis
qed

theorem sos_beacon_refines_phases_witness:
  "\<exists>b1 b2 p1 p2. map snd (sos_trace [Activate SosMedical (Some ''help''), NextPacket, CancelSos, NextPacket, NextPacket]
       (sos_beacon_new (replicate 8 1))) = [(ESP_OK, None), (ESP_OK, Some p1), (ESP_OK, None), (ESP_OK, Some p2), (ESP_OK, None)] \<and>
     heard b1 p1 (SosMedical, 0) \<and> heard b2 p2 (SosCancel, 1)"
proof -
  have len: "length (replicate 8 (1 :: u8)) = 8" by simp
  show ?thesis
    using sos_beacon_refines_phases [OF len, of "[Activate SosMedical (Some ''help''), NextPacket, CancelSos, NextPacket, NextPacket]"]
    by (auto simp: list_all2_Cons2 option_rel_Some2 list.rel_map split: prod.splits)
qed

end
