(* ===== verification/Recovery_Catalog.thy ===== *)
theory Recovery_Catalog
  imports Json_Lite
begin

text \<open>
  How the Recovery OS reads a catalog (\<open>recovery/src/recovery_ota.rs\<close>): the chip, the searching JSON
  helpers of this file, the objects of the catalog, which entries suit a chip and a board, the board of the
  device, and the names of components. Texts are
  UTF-8 bytes; the Unicode tables behind \<open>to_lowercase\<close> and \<open>is_alphanumeric\<close> are arguments.
\<close>

section \<open>The chip\<close>

definition detect_chip :: "u32 \<Rightarrow> string" where
  "detect_chip model =
     (if model = 1 then ''esp32'' else if model = 2 then ''esp32s2'' else if model = 9 then ''esp32s3''
      else if model = 5 then ''esp32c3'' else if model = 13 then ''esp32c6'' else ''unknown'')"

definition chip_arch_family :: "string \<Rightarrow> string" where
  "chip_arch_family chip =
     (if chip \<in> {''esp32'', ''esp32s2'', ''esp32s3''} then ''xtensa''
      else if chip \<in> {''esp32c3'', ''esp32c6''} then ''riscv32'' else ''unknown'')"

section \<open>JSON\<close>

definition json_extract_string :: "string \<Rightarrow> string \<Rightarrow> string option" where
  "json_extract_string json key =
     Option.bind (after_pattern (quoted key) json) (\<lambda>after.
     Option.bind (split_once CHR '':'' after) (\<lambda>(_, rest).
       let rest = trim_start rest in
       if \<not> starts_with [DQ] rest then None
       else map_option fst (split_once DQ (tl rest))))"

definition json_extract_board_id :: "string \<Rightarrow> string option" where
  "json_extract_board_id json = json_extract_string json ''board_id''"

text \<open>The text between the first brace after the key and the first closing brace after that.\<close>

definition inner_object :: "string \<Rightarrow> string \<Rightarrow> string option" where
  "inner_object json outer =
     Option.bind (after_pattern (quoted outer) json) (\<lambda>after.
     Option.bind (split_once CHR ''{'' after) (\<lambda>(_, inner_start).
       map_option fst (split_once CHR ''}'' inner_start)))"

definition json_extract_str_nested :: "string \<Rightarrow> string \<Rightarrow> string \<Rightarrow> string option" where
  "json_extract_str_nested json outer key =
     Option.bind (inner_object json outer) (\<lambda>inner. json_extract_string inner key)"

definition catalog_extract_detection_str :: "string \<Rightarrow> string \<Rightarrow> string option" where
  "catalog_extract_detection_str obj_json key =
     Option.bind (inner_object obj_json ''detection'') (\<lambda>inner. json_extract_string inner key)"

definition json_hex_or_int_u16 :: "string \<Rightarrow> string \<Rightarrow> u16" where
  "json_hex_or_int_u16 json key =
     (case after_pattern (quoted key) json of
        None \<Rightarrow> 0
      | Some after_key \<Rightarrow>
          (case strip_prefix '':'' (trim_start after_key) of
             None \<Rightarrow> 0
           | Some s \<Rightarrow>
               (let after_colon = trim_start s in
                if starts_with [DQ] after_colon then
                  (case split_once DQ (tl after_colon) of
                     None \<Rightarrow> 0
                   | Some (inner, _) \<Rightarrow>
                       (let s = trim inner in
                        case (case strip_prefix ''0x'' s of None \<Rightarrow> strip_prefix ''0X'' s | Some h \<Rightarrow> Some h) of
                          Some hex \<Rightarrow> of_nat (unwrap_or 0 (parse_uint 16 U16_MAX hex))
                        | None \<Rightarrow> of_nat (unwrap_or 0 (parse_uint 10 U16_MAX s))))
                else of_nat (unwrap_or 0 (parse_uint 10 U16_MAX (takeWhile is_digit after_colon))))))"

definition catalog_extract_detection_u16 :: "string \<Rightarrow> string \<Rightarrow> u16" where
  "catalog_extract_detection_u16 obj_json key =
     (case inner_object obj_json ''detection'' of None \<Rightarrow> 0 | Some inner \<Rightarrow> json_hex_or_int_u16 inner key)"

definition catalog_json_escape :: "string \<Rightarrow> string" where
  "catalog_json_escape s = concat (map (\<lambda>c. if c = BSL then [BSL, BSL] else if c = DQ then [BSL, DQ] else [c]) s)"

text \<open>The length of the object that starts the text: up to the brace that closes it, braces in strings left out.\<close>

fun object_length :: "nat \<Rightarrow> bool \<Rightarrow> bool \<Rightarrow> string \<Rightarrow> nat option" where
  "object_length depth in_str escape [] = None"
| "object_length depth in_str escape (c # cs) =
     (if escape then map_option Suc (object_length depth in_str False cs)
      else if c = BSL \<and> in_str then map_option Suc (object_length depth in_str True cs)
      else if c = DQ then map_option Suc (object_length depth (\<not> in_str) False cs)
      else if c = CHR ''{'' \<and> \<not> in_str then map_option Suc (object_length (depth + 1) in_str False cs)
      else if c = CHR ''}'' \<and> \<not> in_str then
        (if depth - 1 = 0 then Some 1 else map_option Suc (object_length (depth - 1) in_str False cs))
      else map_option Suc (object_length depth in_str False cs))"

definition next_object :: "string \<Rightarrow> (string \<times> string) option" where
  "next_object src =
     (case find_index (\<lambda>c. c = CHR ''{'') src of
        None \<Rightarrow> None
      | Some start \<Rightarrow>
          (let s = drop start src in
           case object_length 0 False False s of None \<Rightarrow> None | Some n \<Rightarrow> Some (take n s, drop n s)))"

lemma object_length_le: "object_length depth in_str escape s = Some n \<Longrightarrow> 0 < n \<and> n \<le> length s"
  by (induction depth in_str escape s arbitrary: n rule: object_length.induct) (auto split: if_splits)

lemma next_object_shorter: "next_object src = Some (obj, rest) \<Longrightarrow> length rest < length src"
  using object_length_le by (fastforce simp: next_object_def Let_def split: option.splits)

function iter_json_objects :: "string \<Rightarrow> string list" where
  "iter_json_objects json = (case next_object json of None \<Rightarrow> [] | Some (obj, rest) \<Rightarrow> obj # iter_json_objects rest)"
  by pat_completeness auto
termination
  by (relation "measure length") (auto simp: next_object_shorter)

declare iter_json_objects.simps [simp del]

section \<open>Entries for a chip and a board\<close>

definition catalog_entry_arch_matches :: "string \<Rightarrow> string \<Rightarrow> bool" where
  "catalog_entry_arch_matches obj chip =
     (case json_extract_string obj ''arch'' of Some arch \<Rightarrow> arch = [] \<or> arch = chip | None \<Rightarrow> True)"

text \<open>The loop over the quoted strings: what remains after each is shorter.\<close>

lemma split_once_shorter: "split_once d s = Some (a, b) \<Longrightarrow> length b < length s"
  by (simp add: split_once_Some)

function quoted_member :: "string \<Rightarrow> string \<Rightarrow> bool" where
  "quoted_member name rem =
     (case split_once DQ rem of
        None \<Rightarrow> False
      | Some (_, val) \<Rightarrow>
          (case split_once DQ val of
             None \<Rightarrow> False
           | Some (v, rem') \<Rightarrow> v = name \<or> quoted_member name rem'))"
  by pat_completeness auto
termination
  by (relation "measure (\<lambda>(name, rem). length rem)") (auto dest!: split_once_shorter)

declare quoted_member.simps [simp del]

definition catalog_entry_board_matches :: "string \<Rightarrow> string \<Rightarrow> bool" where
  "catalog_entry_board_matches entry_json board_name =
     (case after_pattern (quoted ''compatible_boards'') entry_json of
        None \<Rightarrow> True
      | Some after \<Rightarrow>
          (case split_once CHR ''['' after of
             None \<Rightarrow> True
           | Some (_, inner_start) \<Rightarrow>
               (case split_once CHR '']'' inner_start of
                  None \<Rightarrow> True
                | Some (inner, _) \<Rightarrow> trim inner = [] \<or> quoted_member board_name (trim inner))))"

definition entry_board_id :: "string \<Rightarrow> string" where
  "entry_board_id obj =
     unwrap_or [] (case json_extract_string obj ''board_id'' of None \<Rightarrow> json_extract_string obj ''id'' | Some i \<Rightarrow> Some i)"

definition board_option :: "string \<Rightarrow> string \<Rightarrow> string option" where
  "board_option chip obj =
     (if json_extract_string obj ''type'' \<noteq> Some ''board'' then None
      else if \<not> catalog_entry_arch_matches obj chip then None
      else if entry_board_id obj = [] then None
      else
        (let i = entry_board_id obj;
             label = unwrap_or i (json_extract_string obj ''name'');
             arch = unwrap_or [] (json_extract_string obj ''arch'')
         in Some (''{'' @ quoted ''id'' @ '':'' @ quoted (catalog_json_escape i) @ '','' @ quoted ''label'' @ '':'' @
              quoted (catalog_json_escape label) @ '','' @ quoted ''arch'' @ '':'' @ quoted (catalog_json_escape arch) @ ''}'')))"

text \<open>The board list of a catalog text, and whether it has a board; the requests are made in \<open>Recovery_Ota\<close>.\<close>

definition board_options_of :: "string \<Rightarrow> string \<Rightarrow> string" where
  "board_options_of catalog_json chip = join '','' (List.map_filter (board_option chip) (iter_json_objects catalog_json))"

definition lists_board :: "string \<Rightarrow> string \<Rightarrow> string \<Rightarrow> bool" where
  "lists_board catalog_json chip board_id =
     list_ex (\<lambda>obj. json_extract_string obj ''type'' = Some ''board'' \<and> catalog_entry_arch_matches obj chip \<and>
       entry_board_id obj = board_id) (iter_json_objects catalog_json)"

definition find_catalog_entry_by_type :: "string \<Rightarrow> string \<Rightarrow> string option" where
  "find_catalog_entry_by_type json entry_type =
     find (\<lambda>obj. json_extract_string obj ''type'' = Some entry_type) (iter_json_objects json)"

section \<open>The board\<close>

text \<open>The characters of a text, each with its bytes.\<close>

function utf8_chars :: "string \<Rightarrow> string list" where
  "utf8_chars [] = []"
| "utf8_chars (c # cs) =
     (let n = unwrap_or 0 (utf8_tail (code c) (map of_char cs)) in (c # take n cs) # utf8_chars (drop n cs))"
  by pat_completeness auto
termination
  by (relation "measure length") auto

definition board_name_to_slug :: "(string \<Rightarrow> string) \<Rightarrow> (string \<Rightarrow> bool) \<Rightarrow> string \<Rightarrow> string" where
  "board_name_to_slug to_lowercase is_alphanumeric name = (
     let lower = to_lowercase name in
     if str_contains lower ''t-deck pro'' \<or> str_contains lower ''tdeck pro'' \<or> str_contains lower ''t-deck-pro'' then ''tdeck-pro''
     else if str_contains lower ''t-display-s3'' \<or> str_contains lower ''tdisplay-s3'' \<or> str_contains lower ''t display s3''
       then ''tdisplay-s3''
     else if str_contains lower ''t3-s3'' \<or> str_contains lower ''t3 s3'' then ''t3-s3''
     else if str_contains lower ''t-deck'' \<or> str_contains lower ''tdeck'' then ''tdeck''
     else join ''-'' (filter (\<lambda>s. s \<noteq> []) (split_on CHR ''-''
       (concat (map (\<lambda>c. if is_alphanumeric c \<or> c = ''-'' then c else ''-'') (utf8_chars lower))))))"

definition FALLBACK_BOARD :: string where "FALLBACK_BOARD = ''tdeck-pro''"

text \<open>\<open>content\<close>: what \<open>read_to_string\<close> gives for the board file.\<close>

definition read_board_name :: "(string \<Rightarrow> string) \<Rightarrow> (string \<Rightarrow> bool) \<Rightarrow> string option \<Rightarrow> string" where
  "read_board_name to_lowercase is_alphanumeric content =
     (case content of
        None \<Rightarrow> FALLBACK_BOARD
      | Some c \<Rightarrow>
          (case json_extract_board_id c of
             Some i \<Rightarrow> i
           | None \<Rightarrow>
               (case json_extract_str_nested c ''board'' ''name'' of
                  Some name \<Rightarrow> board_name_to_slug to_lowercase is_alphanumeric name
                | None \<Rightarrow> FALLBACK_BOARD)))"

text \<open>Like \<open>read_board_name\<close>, without the fallback.\<close>

definition autodetect_board :: "(string \<Rightarrow> string) \<Rightarrow> (string \<Rightarrow> bool) \<Rightarrow> string option \<Rightarrow> string option" where
  "autodetect_board to_lowercase is_alphanumeric content =
     Option.bind content (\<lambda>c.
       case json_extract_board_id c of
         Some i \<Rightarrow> Some i
       | None \<Rightarrow> map_option (board_name_to_slug to_lowercase is_alphanumeric) (json_extract_str_nested c ''board'' ''name''))"

lemma read_board_name_autodetect:
  "read_board_name lc al content = unwrap_or FALLBACK_BOARD (autodetect_board lc al content)"
  by (simp add: read_board_name_def autodetect_board_def unwrap_or_def split: option.splits bind_splits)

section \<open>Names of components\<close>

record detected_component =
  dc_bus :: string
  dc_address :: u16
  dc_chip_id :: "u16 option"

definition KNOWN_I2C_DEVICES :: "(u8 \<times> string) list" where
  "KNOWN_I2C_DEVICES =
     [(0x15, ''CST816S Touch''), (0x1A, ''CST328 Touch''), (0x28, ''BHI260AP IMU''), (0x34, ''TCA8418 Keyboard''),
      (0x23, ''LTR-553 Light Sensor''), (0x18, ''LIS3DH Accelerometer''), (0x51, ''PCF8563 RTC''), (0x55, ''PCF8563 RTC''),
      (0x6A, ''QMI8658C Accel/Gyro''), (0x6B, ''QMI8658C Accel/Gyro''), (0x76, ''BMP280 Pressure''), (0x3C, ''SSD1306 OLED'')]"

definition KNOWN_SPI_DEVICES :: "(u8 \<times> string) list" where
  "KNOWN_SPI_DEVICES = [(34, ''GDEQ031T10 E-Paper''), (3, ''SX1262 LoRa Radio''), (48, ''SD Card'')]"

definition KNOWN_UART_DEVICES :: "(u8 \<times> string) list" where
  "KNOWN_UART_DEVICES = [(2, ''MIA-M10Q GPS'')]"

definition i2c_device_name :: "u8 \<Rightarrow> string option" where
  "i2c_device_name addr = map_option snd (find (\<lambda>(a, _). a = addr) KNOWN_I2C_DEVICES)"

definition spi_device_name :: "u8 \<Rightarrow> string option" where
  "spi_device_name cs_pin = map_option snd (find (\<lambda>(p, _). p = cs_pin) KNOWN_SPI_DEVICES)"

definition uart_device_name :: "u8 \<Rightarrow> string option" where
  "uart_device_name port = map_option snd (find (\<lambda>(p, _). p = port) KNOWN_UART_DEVICES)"

definition component_device_name :: "detected_component \<Rightarrow> string" where
  "component_device_name c =
     (if dc_bus c = ''i2c'' then unwrap_or ''Unknown Device'' (i2c_device_name (ucast (dc_address c)))
      else if dc_bus c = ''spi'' then unwrap_or ''Unknown SPI Device'' (spi_device_name (ucast (dc_address c)))
      else if dc_bus c = ''uart'' then unwrap_or ''Unknown UART Device'' (uart_device_name (ucast (dc_address c)))
      else ''Unknown Device'')"

text \<open>Probing is disabled: nothing is ever found.\<close>

definition scan_hardware :: "detected_component list" where
  "scan_hardware = []"

end
