(* ===== verification/Recovery_Device.thy ===== *)
theory Recovery_Device
  imports Ota Anti_Rollback Bounded_Io Catalog_Path Artifact_Manifest Recovery_Catalog
begin

text \<open>
  What the updates of the Recovery OS act on (\<open>recovery/src/recovery_ota.rs\<close>): the card, the flash, the
  non-volatile store and the network, and the helpers that request, read, check and flash bytes. ESP-IDF,
  the crates \<open>ed25519-dalek\<close> and \<open>sha2\<close>, the board file and the chip are the environment, an argument. An
  \<open>anyhow\<close> error of the file itself is \<open>Other\<close>; its text and the log are left out.
\<close>

section \<open>Readers\<close>

text \<open>An open stream is what its reads will give, an error code or bytes; after the last comes the end.
  A read takes at most as many bytes as its buffer holds and leaves the rest for the next.\<close>

type_synonym stream = "(nat + string) list"

fun next_read :: "nat \<Rightarrow> stream \<Rightarrow> (nat + string) \<times> stream" where
  "next_read n [] = (Inr [], [])"
| "next_read n (Inl e # rs) = (Inl e, rs)"
| "next_read n (Inr c # rs) = (Inr (take n c), if length c \<le> n then rs else Inr (drop n c) # rs)"

fun stream_bytes :: "stream \<Rightarrow> nat" where
  "stream_bytes [] = 0"
| "stream_bytes (Inl e # rs) = Suc (stream_bytes rs)"
| "stream_bytes (Inr c # rs) = Suc (length c) + stream_bytes rs"

lemma next_read_shorter: "next_read n rs = (Inr c, rs') \<Longrightarrow> c \<noteq> [] \<Longrightarrow> stream_bytes rs' < stream_bytes rs"
  by (cases "(n, rs)" rule: next_read.cases) (auto split: if_splits)

section \<open>The device\<close>

record response =
  rsp_status :: nat
  rsp_length :: "string option"
  rsp_encoding :: "string option"
  rsp_body :: stream

text \<open>Beyond the card: the answers the next requests get, what the next files to be opened give when they
  are read, the flash, the handle to the non-volatile store, and the progress shown.\<close>

record ('f, 'n) device = disk +
  dv_net :: "response option list"
  dv_reads :: "(string \<Rightarrow> stream) list"
  dv_flash :: 'f
  dv_nvs :: "'n option"
  dv_progress :: nat

type_synonym ('f, 'n, 'a) dev = "(('f, 'n, unit) device_ext, 'a) io"

record ('k, 'v, 'f, 'n) environment =
  env_crypto :: "('k, 'v) ed25519"
  env_sha256 :: "string \<Rightarrow> string"
  env_ota :: "'f ota_api"
  env_image_state :: "nat \<Rightarrow> 'f \<Rightarrow> int \<times> u32"
  env_boot_partition :: "'f \<Rightarrow> nat option"
  env_get_u32 :: "string \<Rightarrow> 'n \<Rightarrow> (unit + u32 option) \<times> 'n"
  env_set_u32 :: "string \<Rightarrow> u32 \<Rightarrow> 'n \<Rightarrow> (unit + unit) \<times> 'n"
  env_chip :: u32
  env_board :: string
  env_debug :: bool

text \<open>\<open>env_board\<close> is the board of the device, read from its board file on the other volume.\<close>

section \<open>Calls\<close>

text \<open>A call outside the card meets its fate as well: when power is lost, it had its effect or had not.\<close>

definition device_call ::
  "(('f, 'n) device \<Rightarrow> 'a \<times> ('f, 'n) device) \<Rightarrow> ('f, 'n, 'a) dev" where
  "device_call f d =
     (let rest = d\<lparr>dk_fates := tl (dk_fates d)\<rparr> in
      case dk_fates d of
        PowerLoss g _ # _ \<Rightarrow> (Off, if g = [] then rest else snd (f rest))
      | _ \<Rightarrow> (case f rest of (x, d') \<Rightarrow> (Val x, d')))"

definition flash_call :: "('f \<Rightarrow> 'a \<times> 'f) \<Rightarrow> ('f, 'n, 'a) dev" where
  "flash_call f = device_call (\<lambda>d. case f (dv_flash d) of (x, fl) \<Rightarrow> (x, d\<lparr>dv_flash := fl\<rparr>))"

definition look_flash :: "('f \<Rightarrow> 'a) \<Rightarrow> ('f, 'n, 'a) dev" where
  "look_flash f d = (Val (f (dv_flash d)), d)"

text \<open>A call on the handle of the non-volatile store, an error when it was never opened.\<close>

definition nvs_call :: "('n \<Rightarrow> (unit + 'a) \<times> 'n) \<Rightarrow> ('f, 'n, 'a) dev" where
  "nvs_call f =
     bind_io (device_call (\<lambda>d. case dv_nvs d of
         None \<Rightarrow> (Inl (), d)
       | Some n \<Rightarrow> (case f n of (x, n') \<Rightarrow> (x, d\<lparr>dv_nvs := Some n'\<rparr>))))
       (\<lambda>r. case r of Inl _ \<Rightarrow> throw Other | Inr x \<Rightarrow> ret x)"

definition set_progress :: "nat \<Rightarrow> ('f, 'n, unit) dev" where
  "set_progress n d = (Val (), d\<lparr>dv_progress := n\<rparr>)"

text \<open>\<open>?\<close> on a result.\<close>

definition lift_result :: "'e + 'a \<Rightarrow> ('s, 'a) io" where
  "lift_result r = (case r of Inl _ \<Rightarrow> throw Other | Inr x \<Rightarrow> ret x)"

definition lift_io :: "io_error + 'a \<Rightarrow> ('s, 'a) io" where
  "lift_io r = (case r of Inl e \<Rightarrow> throw e | Inr x \<Rightarrow> ret x)"

text \<open>\<open>transaction_io_error\<close>.\<close>

definition transaction_io_error :: "('s, 'a) io \<Rightarrow> ('s, 'a) io" where
  "transaction_io_error c = handle c (\<lambda>_. throw Other)"

text \<open>\<open>File::open\<close>, the stream of its contents with the length in its metadata.\<close>

definition open_file :: "path \<Rightarrow> ('f, 'n, stream \<times> nat) dev" where
  "open_file p =
     bind_io (read_file p) (\<lambda>s d.
       (Val ((case dv_reads d of [] \<Rightarrow> [Inr s] | f # _ \<Rightarrow> f s), length s), d\<lparr>dv_reads := tl (dv_reads d)\<rparr>))"

text \<open>\<open>metadata\<close> of a path: the length of a file.\<close>

definition file_len :: "path \<Rightarrow> ('s, nat) io" where
  "file_len p = bind_io (read_file p) (\<lambda>s. ret (length s))"

text \<open>Appending to an open file; interrupted, it may hold anything.\<close>

definition append_file :: "path \<Rightarrow> string \<Rightarrow> ('s, unit) io" where
  "append_file p c =
     prim (\<lambda>m. case look m p of Some (File s) \<Rightarrow> Inr ((), put p (File (s @ c)) m) | _ \<Rightarrow> Inl NotFound)
          (\<lambda>g ps m. case look m p of Some (File _) \<Rightarrow> if ps = [] then put p (File g) m else m | _ \<Rightarrow> m)"

section \<open>Requests\<close>

definition http_request :: "string \<Rightarrow> ('f, 'n, response option) dev" where
  "http_request url =
     device_call (\<lambda>d. (case dv_net d of [] \<Rightarrow> None | r # _ \<Rightarrow> r, d\<lparr>dv_net := tl (dv_net d)\<rparr>))"

definition with_http_response ::
  "string \<Rightarrow> usize \<Rightarrow> (stream \<Rightarrow> usize option \<Rightarrow> ('f, 'n, 'a) dev) \<Rightarrow> ('f, 'n, 'a) dev" where
  "with_http_response url max_len consume =
     bind_io (http_request url) (\<lambda>answer.
       case answer of
         None \<Rightarrow> throw Other
       | Some response \<Rightarrow>
           if rsp_status response \<noteq> 200 then throw Other
           else bind_io (lift_result (validate_framing (rsp_length response) (rsp_encoding response) max_len)) (\<lambda>declared.
             consume (rsp_body response) declared))"

text \<open>The loops over a response body, into memory and into a file.\<close>

function collect_body :: "body_limit \<Rightarrow> string \<Rightarrow> stream \<Rightarrow> body_error + body_limit \<times> string" where
  "collect_body limit body rs =
     (case next_read 4096 rs of
        (Inl e, _) \<Rightarrow> Inl (StreamError e)
      | (Inr c, rs') \<Rightarrow>
          if c = [] then Inr (limit, body)
          else (case observe (of_nat (length c)) limit of
                  Inl e \<Rightarrow> Inl e
                | Inr limit' \<Rightarrow> collect_body limit' (body @ c) rs'))"
  by pat_completeness auto
termination
  by (relation "measure (\<lambda>(limit, body, rs). stream_bytes rs)") (auto dest: next_read_shorter [OF sym])

function save_body :: "path \<Rightarrow> body_limit \<Rightarrow> stream \<Rightarrow> ('f, 'n, body_limit) dev" where
  "save_body p limit rs =
     (case next_read 4096 rs of
        (Inl e, _) \<Rightarrow> throw Other
      | (Inr c, rs') \<Rightarrow>
          if c = [] then ret limit
          else (case observe (of_nat (length c)) limit of
                  Inl e \<Rightarrow> throw Other
                | Inr limit' \<Rightarrow> seq (append_file p c) (save_body p limit' rs')))"
  by pat_completeness auto
termination
  by (relation "measure (\<lambda>(p, limit, rs). stream_bytes rs)") (auto dest: next_read_shorter [OF sym])

declare collect_body.simps [simp del] save_body.simps [simp del]

definition http_get_bytes :: "string \<Rightarrow> usize \<Rightarrow> ('f, 'n, string) dev" where
  "http_get_bytes url max_len =
     with_http_response url max_len (\<lambda>response declared. lift_result (
       and_then (limit_new declared max_len) (\<lambda>limit.
       and_then (collect_body limit [] response) (\<lambda>(limit, body).
       and_then (limit_finish limit) (\<lambda>_. Inr body)))))"

definition http_get_string :: "string \<Rightarrow> usize \<Rightarrow> ('f, 'n, string) dev" where
  "http_get_string url max_len = bind_io (http_get_bytes url max_len) (\<lambda>bytes. ret (utf8_lossy bytes))"

definition http_get_to_file :: "string \<Rightarrow> usize \<Rightarrow> path \<Rightarrow> ('f, 'n, usize) dev" where
  "http_get_to_file url max_len destination =
     with_http_response url max_len (\<lambda>response declared.
       seq (ensure_parent destination)
       (seq (write_file destination [])
       (bind_io (lift_result (limit_new declared max_len)) (\<lambda>limit.
        bind_io (save_body destination limit response) (\<lambda>limit.
        bind_io (lift_result (limit_finish limit)) (\<lambda>written.
        seq (sync_file destination) (ret written)))))))"

section \<open>Checks\<close>

text \<open>The loop that feeds a stream to a hasher or a verifier, 4096 bytes at a time.\<close>

function feed :: "('v \<Rightarrow> string \<Rightarrow> 'v) \<Rightarrow> 'v \<Rightarrow> stream \<Rightarrow> nat + 'v" where
  "feed update v rs =
     (case next_read 4096 rs of
        (Inl e, _) \<Rightarrow> Inl e
      | (Inr c, rs') \<Rightarrow> if c = [] then Inr v else feed update (update v c) rs')"
  by pat_completeness auto
termination
  by (relation "measure (\<lambda>(update, v, rs). stream_bytes rs)") (auto dest: next_read_shorter [OF sym])

declare feed.simps [simp del]

text \<open>A hasher is the bytes it was given.\<close>

definition verify_sha256_file :: "('k, 'v, 'f, 'n) environment \<Rightarrow> path \<Rightarrow> string \<Rightarrow> ('f, 'n, unit) dev" where
  "verify_sha256_file env p expected_sha256 =
     (let expected = to_ascii_lower (trim expected_sha256) in
      if length expected \<noteq> 64 \<or> \<not> list_all is_hexdigit expected then throw Other
      else bind_io (open_file p) (\<lambda>(file, _).
        bind_io (lift_result (feed (@) [] file)) (\<lambda>bytes.
          if bytes_to_hex (env_sha256 env bytes) \<noteq> expected then throw Other else ret ())))"

definition MAX_SIGNATURE_SIZE :: nat where "MAX_SIGNATURE_SIZE = 64"

definition RECOVERY_SIGNING_KEY :: "bool \<Rightarrow> string" where
  "RECOVERY_SIGNING_KEY debug_assertions = bytes_of
     (if debug_assertions then
        [0xa1, 0x3e, 0x7b, 0x54, 0x02, 0xd8, 0xf1, 0x6c, 0x89, 0x45, 0xbb, 0x0a, 0xe7, 0x33, 0x9d, 0x5f,
         0x12, 0xc4, 0x68, 0xae, 0x7d, 0x01, 0xf5, 0x92, 0xb6, 0x3a, 0xde, 0x84, 0x50, 0xc7, 0x1b, 0xe9]
      else
        [0xeb, 0x7b, 0xc6, 0x5c, 0x1e, 0x3f, 0xfc, 0x49, 0x96, 0x1c, 0xa8, 0x15, 0xdb, 0x34, 0x37, 0x58,
         0x34, 0x6d, 0xbe, 0x80, 0x50, 0x38, 0xbc, 0xd4, 0x49, 0x5a, 0x7a, 0x01, 0x66, 0x5e, 0x60, 0x89])"

definition verify_ed25519_reader ::
  "('k, 'v, 'f, 'n) environment \<Rightarrow> stream \<Rightarrow> string \<Rightarrow> unit option" where
  "verify_ed25519_reader env reader signature =
     (if length signature \<noteq> 64 then None
      else case key_from_bytes (env_crypto env) (RECOVERY_SIGNING_KEY (env_debug env)) of
        None \<Rightarrow> None
      | Some k \<Rightarrow>
          (case stream_start (env_crypto env) k signature of
             None \<Rightarrow> None
           | Some v \<Rightarrow>
               (case feed (stream_update (env_crypto env)) v reader of
                  Inl _ \<Rightarrow> None
                | Inr v' \<Rightarrow> if stream_verifies (env_crypto env) v' then Some () else None)))"

definition verify_ed25519_file ::
  "('k, 'v, 'f, 'n) environment \<Rightarrow> path \<Rightarrow> string \<Rightarrow> ('f, 'n, unit) dev" where
  "verify_ed25519_file env p signature =
     bind_io (open_file p) (\<lambda>(file, _). lift_result (ok_or () (verify_ed25519_reader env file signature)))"

definition read_signature_file :: "path \<Rightarrow> ('s, string) io" where
  "read_signature_file p =
     bind_io (file_len p) (\<lambda>n. if n \<noteq> MAX_SIGNATURE_SIZE then throw Other else read_file p)"

definition read_bounded_file :: "path \<Rightarrow> nat \<Rightarrow> ('s, string) io" where
  "read_bounded_file p max_len =
     bind_io (file_len p) (\<lambda>n. if n = 0 \<or> max_len < n then throw Other else read_file p)"

end
