(* ===== verification/Recovery_Ota.thy ===== *)
theory Recovery_Ota
  imports Recovery_Device
begin

text \<open>
  The updates of the Recovery OS (\<open>recovery/src/recovery_ota.rs\<close>): the anti-rollback state, flashing and
  selecting the spare partition, firmware from the card, and the signed bundle of a catalog from the
  first request to the installed generation, with what is resolved at the next boot. The card is the
  volume below \<open>/sdcard\<close>.
\<close>

section \<open>Constants\<close>

definition SD_FIRMWARE_PATH :: path where "SD_FIRMWARE_PATH = [''update'', ''thistle_os.bin'']"
definition MAX_FIRMWARE_SIZE :: nat where "MAX_FIRMWARE_SIZE = 4 * 1024 * 1024"
definition MAX_CATALOG_SIZE :: nat where "MAX_CATALOG_SIZE = 256 * 1024"
definition MAX_BOARD_PROFILE_SIZE :: nat where "MAX_BOARD_PROFILE_SIZE = 64 * 1024"
definition MAX_EXECUTABLE_SIZE :: nat where "MAX_EXECUTABLE_SIZE = 2 * 1024 * 1024"
definition MAX_ARTIFACT_MANIFEST_SIZE :: nat where "MAX_ARTIFACT_MANIFEST_SIZE = 4096"
definition SECURITY_VERSION_KEY :: string where "SECURITY_VERSION_KEY = ''fw_sec_ver''"

section \<open>The anti-rollback state\<close>

definition init_anti_rollback :: "'n option \<Rightarrow> ('f, 'n, unit) dev" where
  "init_anti_rollback opened =
     (case opened of
        None \<Rightarrow> throw Other
      | Some nvs \<Rightarrow> (\<lambda>d. if dv_nvs d \<noteq> None then (Err Other, d) else (Val (), d\<lparr>dv_nvs := Some nvs\<rparr>)))"

text \<open>The closures that \<open>anti_rollback.rs\<close> calls act on the device, and on whether it still has power:
  without it they do nothing more.\<close>

definition as_call :: "('s, 'a) io \<Rightarrow> 's disk_scheme \<times> bool \<Rightarrow> (unit + 'a) \<times> 's disk_scheme \<times> bool" where
  "as_call c = (\<lambda>(d, off).
     if off then (Inl (), d, off)
     else case c d of (Val x, d') \<Rightarrow> (Inr x, d', False) | (Err e, d') \<Rightarrow> (Inl (), d', False) | (Off, d') \<Rightarrow> (Inl (), d', True))"

definition run_policy ::
  "('s disk_scheme \<times> bool \<Rightarrow> ('e + 'a) \<times> 's disk_scheme \<times> bool) \<Rightarrow> ('s, 'a) io" where
  "run_policy f d =
     (case f (d, False) of (r, d', off) \<Rightarrow>
        if off then (Off, d') else (case r of Inl e \<Rightarrow> (Err Other, d') | Inr x \<Rightarrow> (Val x, d')))"

definition load_security_version ::
  "('k, 'v, 'f, 'n) environment \<Rightarrow> (('f, 'n) device \<times> bool) loader" where
  "load_security_version env = as_call (nvs_call (env_get_u32 env SECURITY_VERSION_KEY))"

definition store_security_version ::
  "('k, 'v, 'f, 'n) environment \<Rightarrow> (('f, 'n) device \<times> bool) storer" where
  "store_security_version env value = as_call (nvs_call (env_set_u32 env SECURITY_VERSION_KEY value))"

definition require_newer_firmware :: "('k, 'v, 'f, 'n) environment \<Rightarrow> u32 \<Rightarrow> ('f, 'n, unit) dev" where
  "require_newer_firmware env candidate =
     bind_io (run_policy (require_newer candidate (load_security_version env))) (\<lambda>_. ret ())"

section \<open>The spare partition\<close>

datatype ota1_state = Valid | PendingVerify | Invalid | NotPresent

definition IMG_PENDING_VERIFY :: u32 where "IMG_PENDING_VERIFY = 1"
definition IMG_VALID :: u32 where "IMG_VALID = 2"

definition check_ota1 :: "('k, 'v, 'f, 'n) environment \<Rightarrow> 'f \<Rightarrow> ota1_state" where
  "check_ota1 env f =
     (case next_partition (env_ota env) f of
        None \<Rightarrow> NotPresent
      | Some p \<Rightarrow>
          (case env_image_state env p f of (rc, state) \<Rightarrow>
             if rc \<noteq> ESP_OK then Invalid
             else if state = IMG_VALID then Valid
             else if state = IMG_PENDING_VERIFY then PendingVerify
             else Invalid))"

definition ota1_is_boot_partition :: "('k, 'v, 'f, 'n) environment \<Rightarrow> 'f \<Rightarrow> bool" where
  "ota1_is_boot_partition env f =
     (next_partition (env_ota env) f \<noteq> None \<and> env_boot_partition env f = next_partition (env_ota env) f)"

definition select_ota1_for_boot :: "('k, 'v, 'f, 'n) environment \<Rightarrow> ('f, 'n, unit) dev" where
  "select_ota1_for_boot env =
     bind_io (look_flash (next_partition (env_ota env))) (\<lambda>part.
       case part of
         None \<Rightarrow> throw Other
       | Some p \<Rightarrow>
           bind_io (flash_call (set_boot_partition (env_ota env) p)) (\<lambda>rc.
             if rc \<noteq> ESP_OK then throw Other else ret ()))"

text \<open>\<open>esp_restart\<close> does not return.\<close>

definition boot_ota1 :: "('k, 'v, 'f, 'n) environment \<Rightarrow> ('f, 'n, unit) dev" where
  "boot_ota1 env = seq (select_ota1_for_boot env) (\<lambda>d. (Off, d))"

definition give_up :: "'f ota_api \<Rightarrow> u32 \<Rightarrow> ('f, 'n, 'a) dev" where
  "give_up api h = seq (flash_call (\<lambda>f. ((), ota_abort api h f))) (throw Other)"

text \<open>The loop over the image: the bytes written so far are the bytes hashed so far.\<close>

function flash_pieces :: "'f ota_api \<Rightarrow> u32 \<Rightarrow> nat \<Rightarrow> string \<Rightarrow> stream \<Rightarrow> ('f, 'n, string) dev" where
  "flash_pieces api h total_len hashed reader =
     (if total_len \<le> length hashed then ret hashed
      else case next_read (min 4096 (total_len - length hashed)) reader of
        (Inl e, _) \<Rightarrow> give_up api h
      | (Inr chunk, reader') \<Rightarrow>
          if chunk = [] then give_up api h
          else
            bind_io (flash_call (ota_write api h chunk)) (\<lambda>rc.
              if rc \<noteq> ESP_OK then give_up api h
              else flash_pieces api h total_len (hashed @ chunk) reader'))"
  by pat_completeness auto
termination
  by (relation "measure (\<lambda>(api, h, total_len, hashed, reader). stream_bytes reader)") (auto dest: next_read_shorter [OF sym])

declare flash_pieces.simps [simp del]

definition finish_image :: "('k, 'v, 'f, 'n) environment \<Rightarrow> string \<Rightarrow> u32 \<Rightarrow> string \<Rightarrow> ('f, 'n, unit) dev" where
  "finish_image env expected_sha256 h hashed =
     (if bytes_to_hex (env_sha256 env hashed) \<noteq> expected_sha256 then give_up (env_ota env) h
      else bind_io (flash_call (ota_end (env_ota env) h)) (\<lambda>rc. if rc \<noteq> ESP_OK then throw Other else ret ()))"

definition flash_image ::
  "('k, 'v, 'f, 'n) environment \<Rightarrow> stream \<Rightarrow> nat \<Rightarrow> string \<Rightarrow> nat \<Rightarrow> ('f, 'n, unit) dev" where
  "flash_image env reader total_len expected_sha256 p =
     bind_io (flash_call (ota_begin (env_ota env) p total_len)) (\<lambda>(rc, h).
       if rc \<noteq> ESP_OK then throw Other
       else bind_io (flash_pieces (env_ota env) h total_len [] reader) (finish_image env expected_sha256 h))"

definition write_ota1_reader ::
  "('k, 'v, 'f, 'n) environment \<Rightarrow> stream \<Rightarrow> nat \<Rightarrow> string \<Rightarrow> ('f, 'n, unit) dev" where
  "write_ota1_reader env reader total_len expected_sha256 =
     (if total_len = 0 \<or> MAX_FIRMWARE_SIZE < total_len then throw Other
      else if length expected_sha256 \<noteq> 64 \<or> \<not> list_all (\<lambda>c. is_hexdigit c \<and> \<not> is_upper c) expected_sha256 then throw Other
      else
        bind_io (look_flash (next_partition (env_ota env))) (\<lambda>part.
          case part of None \<Rightarrow> throw Other | Some p \<Rightarrow> flash_image env reader total_len expected_sha256 p))"

definition write_ota1_file :: "('k, 'v, 'f, 'n) environment \<Rightarrow> path \<Rightarrow> string \<Rightarrow> ('f, 'n, unit) dev" where
  "write_ota1_file env p expected_sha256 =
     bind_io (open_file p) (\<lambda>(file, size). write_ota1_reader env file size expected_sha256)"

definition advance_security_version_and_select ::
  "('k, 'v, 'f, 'n) environment \<Rightarrow> u32 \<Rightarrow> ('f, 'n, unit) dev" where
  "advance_security_version_and_select env candidate =
     run_policy (advance_before_activation candidate (load_security_version env) (store_security_version env)
       (as_call (select_ota1_for_boot env)))"

section \<open>Firmware from the card\<close>

definition check_sd_firmware :: "('s, bool) io" where
  "check_sd_firmware = asks (path_exists SD_FIRMWARE_PATH)"

text \<open>Beside the image: the name with more at its end.\<close>

definition beside :: "path \<Rightarrow> string \<Rightarrow> path" where
  "beside p x = butlast p @ [last p @ x]"

definition device_chip :: "('k, 'v, 'f, 'n) environment \<Rightarrow> string" where
  "device_chip env = detect_chip (env_chip env)"

text \<open>A signed manifest: the signature of its bytes, then its text.\<close>

definition open_manifest ::
  "('k, 'v, 'f, 'n) environment \<Rightarrow> string \<Rightarrow> string \<Rightarrow> artifact_manifest option" where
  "open_manifest env canonical signature =
     (case verify_ed25519_reader env [Inr canonical] signature of
        None \<Rightarrow> None
      | Some _ \<Rightarrow>
          if \<not> utf8_valid canonical then None
          else (case artifact_parse canonical of Inl _ \<Rightarrow> None | Inr m \<Rightarrow> Some m))"

definition apply_sd_firmware :: "('k, 'v, 'f, 'n) environment \<Rightarrow> ('f, 'n, unit) dev" where
  "apply_sd_firmware env =
     bind_io (read_bounded_file (beside SD_FIRMWARE_PATH ''.manifest'') MAX_ARTIFACT_MANIFEST_SIZE) (\<lambda>canonical.
     bind_io (read_signature_file (beside SD_FIRMWARE_PATH ''.manifest.sig'')) (\<lambda>signature.
     case open_manifest env canonical signature of
       None \<Rightarrow> throw Other
     | Some manifest \<Rightarrow>
         if am_type manifest \<noteq> Firmware then throw Other
         else
           seq (lift_result (validate_for_device manifest (device_chip env) (env_board env) 1))
           (seq (require_newer_firmware env (am_security_version manifest))
           (bind_io (open_file SD_FIRMWARE_PATH) (\<lambda>(firmware, firmware_size).
             if firmware_size \<noteq> unat (am_size manifest) \<or> MAX_FIRMWARE_SIZE < firmware_size then throw Other
             else
               seq (verify_sha256_file env SD_FIRMWARE_PATH (am_sha256 manifest))
               (seq (write_ota1_reader env firmware firmware_size (am_sha256 manifest))
                  (advance_security_version_and_select env (am_security_version manifest))))))))"

section \<open>Signed manifests of a catalog\<close>

record verified_manifest =
  vm_manifest :: artifact_manifest
  vm_canonical :: string
  vm_signature :: string

fun fetch_verified_manifests ::
  "('k, 'v, 'f, 'n) environment \<Rightarrow> string list \<Rightarrow> ('f, 'n, verified_manifest list) dev" where
  "fetch_verified_manifests env [] = ret []"
| "fetch_verified_manifests env (obj # objs) =
     (case json_extract_string obj ''type'' of
        None \<Rightarrow> fetch_verified_manifests env objs
      | Some legacy_type \<Rightarrow>
          if legacy_type \<notin> {''firmware'', ''board'', ''driver'', ''wm''} then fetch_verified_manifests env objs
          else (case json_extract_string obj ''manifest_url'' of None \<Rightarrow> throw Other | Some manifest_url \<Rightarrow>
               (case json_extract_string obj ''manifest_sig_url'' of None \<Rightarrow> throw Other | Some signature_url \<Rightarrow>
                bind_io (http_get_bytes manifest_url (of_nat MAX_ARTIFACT_MANIFEST_SIZE)) (\<lambda>canonical.
                bind_io (http_get_bytes signature_url (of_nat MAX_SIGNATURE_SIZE)) (\<lambda>signature.
                case open_manifest env canonical signature of
                  None \<Rightarrow> throw Other
                | Some manifest \<Rightarrow>
                    if artifact_type_str (am_type manifest) \<noteq> legacy_type then throw Other
                    else if is_some_and (\<lambda>legacy_id. legacy_id \<noteq> am_id manifest) (json_extract_string obj ''id'') then throw Other
                    else
                      bind_io (fetch_verified_manifests env objs) (\<lambda>manifests.
                        ret (\<lparr>vm_manifest = manifest, vm_canonical = canonical, vm_signature = signature\<rparr> # manifests)))))))"

text \<open>The artifacts for this chip and board; one that is selected has to be valid.\<close>

definition suits :: "string \<Rightarrow> string \<Rightarrow> artifact_manifest \<Rightarrow> bool" where
  "suits chip board m \<longleftrightarrow>
     \<not> (am_arch m \<noteq> chip \<or> \<not> list_ex (\<lambda>candidate. candidate = board) (am_boards m) \<or> (am_type m = Board \<and> am_id m \<noteq> board))"

fun select_artifacts :: "string \<Rightarrow> string \<Rightarrow> verified_manifest list \<Rightarrow> artifact_error + verified_manifest list" where
  "select_artifacts chip board [] = Inr []"
| "select_artifacts chip board (a # as) =
     (if \<not> suits chip board (vm_manifest a) then select_artifacts chip board as
      else
        and_then (validate_for_device (vm_manifest a) chip board 1) (\<lambda>_.
        and_then (select_artifacts chip board as) (\<lambda>selected. Inr (a # selected))))"

definition artifact_size_limit :: "artifact_type \<Rightarrow> nat" where
  "artifact_size_limit t =
     (case t of Firmware \<Rightarrow> MAX_FIRMWARE_SIZE | Board \<Rightarrow> MAX_BOARD_PROFILE_SIZE
      | Driver \<Rightarrow> MAX_EXECUTABLE_SIZE | WindowManager \<Rightarrow> MAX_EXECUTABLE_SIZE)"

section \<open>The download directory\<close>

definition stage_new :: "('s, unit) io" where
  "stage_new =
     seq (bind_io (asks (path_exists BUNDLE_DOWNLOAD_DIR)) (\<lambda>x. if x then remove_dir_all BUNDLE_DOWNLOAD_DIR else ret ()))
       (create_dir_all BUNDLE_DOWNLOAD_DIR)"

definition stage_path :: "string \<Rightarrow> ('s, path) io" where
  "stage_path name =
     (if name = [] \<or> CHR ''/'' \<in> set name \<or> BSL \<in> set name \<or> name = ''.'' \<or> name = ''..'' then throw InvalidInput
      else ret (BUNDLE_DOWNLOAD_DIR @ [name]))"

definition stage_write :: "string \<Rightarrow> string \<Rightarrow> ('s, path) io" where
  "stage_write name data =
     bind_io (stage_path name) (\<lambda>p. seq (write_file p data) (seq (sync_file p) (ret p)))"

text \<open>\<open>Drop\<close>: whatever the body ends with, the directory goes.\<close>

definition with_stage :: "('s, 'a) io \<Rightarrow> ('s, 'a) io" where
  "with_stage body d =
     (case body d of
        (Off, d') \<Rightarrow> (Off, d')
      | (r, d') \<Rightarrow>
          (case remove_dir_all BUNDLE_DOWNLOAD_DIR d' of
             (Off, d'') \<Rightarrow> (Off, d'')
           | (_, d'') \<Rightarrow> (r, d'')))"

section \<open>Downloads\<close>

definition download_verified_payload ::
  "('k, 'v, 'f, 'n) environment \<Rightarrow> artifact_manifest \<Rightarrow> path \<Rightarrow> ('f, 'n, unit) dev" where
  "download_verified_payload env artifact destination =
     (if artifact_size_limit (am_type artifact) < unat (am_size artifact) then throw Other
      else
        bind_io (http_get_to_file (am_url artifact) (am_size artifact) destination) (\<lambda>written.
          if written \<noteq> am_size artifact then throw Other
          else verify_sha256_file env destination (am_sha256 artifact)))"

definition staged_name :: "nat \<Rightarrow> string \<Rightarrow> string" where
  "staged_name downloaded x = show_nat downloaded @ ''-'' @ x"

definition from_file :: "string \<Rightarrow> path \<Rightarrow> ('s, bundle_file) io" where
  "from_file p src = lift_io (bundle_file_from_file p src)"

definition stage_firmware ::
  "('k, 'v, 'f, 'n) environment \<Rightarrow> nat \<Rightarrow> verified_manifest \<Rightarrow> ('f, 'n, bundle_file list \<times> path) dev" where
  "stage_firmware env downloaded a =
     bind_io (stage_path (staged_name downloaded ''firmware.bin'')) (\<lambda>staged.
     seq (download_verified_payload env (vm_manifest a) staged)
     (bind_io (stage_write (staged_name downloaded ''manifest'') (vm_canonical a)) (\<lambda>staged_manifest.
      bind_io (stage_write (staged_name downloaded ''manifest-signature'') (vm_signature a)) (\<lambda>staged_signature.
      bind_io (from_file ''config/firmware.manifest'' staged_manifest) (\<lambda>f1.
      bind_io (from_file ''config/firmware.manifest.sig'' staged_signature) (\<lambda>f2.
      ret ([f1, f2], staged)))))))"

definition stage_component ::
  "('k, 'v, 'f, 'n) environment \<Rightarrow> nat \<Rightarrow> verified_manifest \<Rightarrow> ('f, 'n, bundle_file list) dev" where
  "stage_component env downloaded a =
     (let relative = am_destination (vm_manifest a); board = (am_type (vm_manifest a) = Board) in
      bind_io (stage_path (staged_name downloaded ''payload'')) (\<lambda>staged.
      seq (download_verified_payload env (vm_manifest a) staged)
      (bind_io (if board then bind_io (from_file ''config/board.json'' staged) (\<lambda>f. ret [f]) else ret []) (\<lambda>fs1.
       bind_io (from_file relative staged) (\<lambda>f2.
       bind_io (stage_write (staged_name downloaded ''manifest'') (vm_canonical a)) (\<lambda>staged_manifest.
       bind_io (stage_write (staged_name downloaded ''manifest-signature'') (vm_signature a)) (\<lambda>staged_signature.
       bind_io (from_file (relative @ ''.manifest'') staged_manifest) (\<lambda>f3.
       bind_io (from_file (relative @ ''.manifest.sig'') staged_signature) (\<lambda>f4.
       bind_io (if board
                then bind_io (from_file ''config/board.json.manifest'' staged_manifest) (\<lambda>f5.
                     bind_io (from_file ''config/board.json.manifest.sig'' staged_signature) (\<lambda>f6. ret [f5, f6]))
                else ret []) (\<lambda>fs5.
       ret (fs1 @ [f2, f3, f4] @ fs5)))))))))))"

definition stage_artifact ::
  "('k, 'v, 'f, 'n) environment \<Rightarrow> nat \<Rightarrow> bundle_file list \<Rightarrow> (path \<times> string) option \<Rightarrow> verified_manifest \<Rightarrow>
   ('f, 'n, bundle_file list \<times> (path \<times> string) option) dev" where
  "stage_artifact env downloaded files firmware a =
     (if am_type (vm_manifest a) = Firmware then
        (if firmware \<noteq> None then throw Other
         else bind_io (stage_firmware env downloaded a) (\<lambda>(fs, staged).
           ret (files @ fs, Some (staged, am_sha256 (vm_manifest a)))))
      else bind_io (stage_component env downloaded a) (\<lambda>fs. ret (files @ fs, firmware)))"

text \<open>The loop over the selected artifacts: how many there are, how many are done, the destinations so far,
  the files of the bundle, and the firmware with its digest.\<close>

fun download_artifacts ::
  "('k, 'v, 'f, 'n) environment \<Rightarrow> nat \<Rightarrow> nat \<Rightarrow> string list \<Rightarrow> bundle_file list \<Rightarrow> (path \<times> string) option \<Rightarrow>
   verified_manifest list \<Rightarrow> ('f, 'n, nat \<times> bundle_file list \<times> (path \<times> string) option) dev" where
  "download_artifacts env total_entries downloaded destinations files firmware [] = ret (downloaded, files, firmware)"
| "download_artifacts env total_entries downloaded destinations files firmware (a # as) =
     (if am_destination (vm_manifest a) \<in> set destinations then throw Other
      else
        seq (lift_result (validate_catalog_id (am_id (vm_manifest a))))
        (bind_io (stage_artifact env downloaded files firmware a) (\<lambda>(files', firmware').
          seq (set_progress (min ((downloaded + 1) * 80 div total_entries) 80))
            (download_artifacts env total_entries (downloaded + 1) (am_destination (vm_manifest a) # destinations) files' firmware' as))))"

definition count_type :: "artifact_type \<Rightarrow> verified_manifest list \<Rightarrow> nat" where
  "count_type t as = length (filter (\<lambda>a. am_type (vm_manifest a) = t) as)"

text \<open>From the selected artifacts to the installed bundle.\<close>

definition install_selected ::
  "('k, 'v, 'f, 'n) environment \<Rightarrow> u32 \<Rightarrow> verified_manifest list \<Rightarrow> ('f, 'n, nat) dev" where
  "install_selected env version selected =
     bind_io (download_artifacts env (length selected) 0 [] [] None selected) (\<lambda>(downloaded, files, firmware).
       case firmware of
         None \<Rightarrow> throw Other
       | Some (firmware_path, firmware_sha256) \<Rightarrow>
           seq (install (\<lambda>_. ret ()) (transaction_io_error (write_ota1_file env firmware_path firmware_sha256))
                 (transaction_io_error (advance_security_version_and_select env version)) files)
           (seq (set_progress 100) (ret downloaded)))"

definition recovery_download_board_bundle_for ::
  "('k, 'v, 'f, 'n) environment \<Rightarrow> string \<Rightarrow> string \<Rightarrow> ('f, 'n, nat) dev" where
  "recovery_download_board_bundle_for env catalog_url board_name =
     seq (set_progress 0)
     (bind_io (http_get_string catalog_url (of_nat MAX_CATALOG_SIZE)) (\<lambda>catalog_json.
      bind_io (fetch_verified_manifests env (iter_json_objects catalog_json)) (\<lambda>verified_manifests.
      bind_io (lift_result (select_artifacts (device_chip env) board_name verified_manifests)) (\<lambda>selected.
      if selected = [] then throw Other
      else if count_type Firmware selected \<noteq> 1 \<or> count_type Board selected \<noteq> 1 then throw Other
      else case find (\<lambda>a. am_type (vm_manifest a) = Firmware) selected of
        None \<Rightarrow> throw Other
      | Some fw \<Rightarrow>
          (let version = am_security_version (vm_manifest fw) in
           seq (require_newer_firmware env version)
           (seq stage_new (with_stage (install_selected env version selected))))))))"

definition recovery_download_board_bundle ::
  "('k, 'v, 'f, 'n) environment \<Rightarrow> string \<Rightarrow> ('f, 'n, nat) dev" where
  "recovery_download_board_bundle env catalog_url =
     recovery_download_board_bundle_for env catalog_url (env_board env)"

definition download_and_flash :: "('k, 'v, 'f, 'n) environment \<Rightarrow> string \<Rightarrow> ('f, 'n, unit) dev" where
  "download_and_flash env catalog_url =
     bind_io (recovery_download_board_bundle_for env catalog_url (env_board env)) (\<lambda>_. ret ())"

section \<open>At boot\<close>

definition recover_at_boot :: "('k, 'v, 'f, 'n) environment \<Rightarrow> ('f, 'n, unit) dev" where
  "recover_at_boot env =
     bind_io (look_flash (\<lambda>f. (ota1_is_boot_partition env f, check_ota1 env f = Valid))) (\<lambda>(ota_selected, ota_valid).
       recover_interrupted_bundle ota_selected ota_valid)"

section \<open>What the web pages show of a catalog\<close>

fun plan_entries :: "string \<Rightarrow> string \<Rightarrow> verified_manifest list \<Rightarrow> artifact_error + string list \<times> u32 list" where
  "plan_entries chip board [] = Inr ([], [])"
| "plan_entries chip board (a # as) =
     (let m = vm_manifest a in
      if \<not> suits chip board m then plan_entries chip board as
      else
        and_then (validate_for_device m chip board 1) (\<lambda>_.
        and_then (plan_entries chip board as) (\<lambda>(entries, versions).
          Inr ((''{'' @ quoted ''id'' @ '':'' @ quoted (am_id m) @ '','' @ quoted ''type'' @ '':'' @ quoted (artifact_type_str (am_type m)) @ '','' @
                quoted ''version'' @ '':'' @ quoted (am_version m) @ '','' @ quoted ''destination'' @ '':'' @ quoted (am_destination m) @ ''}'') # entries,
               (if am_type m = Firmware then am_security_version m # versions else versions)))))"

definition recovery_bundle_plan_json ::
  "('k, 'v, 'f, 'n) environment \<Rightarrow> string \<Rightarrow> string \<Rightarrow> ('f, 'n, string) dev" where
  "recovery_bundle_plan_json env catalog_url board_name =
     bind_io (http_get_string catalog_url (of_nat MAX_CATALOG_SIZE)) (\<lambda>catalog_json.
     bind_io (fetch_verified_manifests env (iter_json_objects catalog_json)) (\<lambda>verified_manifests.
     bind_io (lift_result (plan_entries (device_chip env) board_name verified_manifests)) (\<lambda>(entries, versions).
     if length versions \<noteq> 1 then throw Other
     else
       seq (require_newer_firmware env (hd versions))
         (ret (''{'' @ quoted ''ok'' @ '':true,'' @ quoted ''board'' @ '':'' @ quoted board_name @ '','' @
               quoted ''chip'' @ '':'' @ quoted (device_chip env) @ '','' @ quoted ''catalog_source'' @ '':'' @ quoted catalog_url @ '','' @
               quoted ''count'' @ '':'' @ show_nat (length entries) @ '','' @ quoted ''entries'' @ '':['' @ join '','' entries @ '']}'')))))"

definition catalog_board_options_json :: "string \<Rightarrow> string \<Rightarrow> ('f, 'n, string) dev" where
  "catalog_board_options_json catalog_url chip =
     bind_io (http_get_string catalog_url (of_nat MAX_CATALOG_SIZE)) (\<lambda>catalog_json. ret (board_options_of catalog_json chip))"

definition catalog_contains_board :: "string \<Rightarrow> string \<Rightarrow> string \<Rightarrow> ('f, 'n, bool) dev" where
  "catalog_contains_board catalog_url chip board_id =
     (if board_id = [] then ret False
      else handle (bind_io (http_get_string catalog_url (of_nat MAX_CATALOG_SIZE)) (\<lambda>catalog_json.
             ret (lists_board catalog_json chip board_id))) (\<lambda>_. ret False))"

definition download_catalog_entry_to_file ::
  "('k, 'v, 'f, 'n) environment \<Rightarrow> string \<Rightarrow> string option \<Rightarrow> string option \<Rightarrow> bool \<Rightarrow> usize \<Rightarrow> path \<Rightarrow>
   ('f, 'n, string option) dev" where
  "download_catalog_entry_to_file env url expected_sha256 sig_url require_signature max_len destination =
     bind_io (http_get_to_file url max_len destination) (\<lambda>_.
     seq (if is_some_and (\<lambda>s. trim s \<noteq> []) expected_sha256 then verify_sha256_file env destination (the expected_sha256)
          else throw Other)
       (if is_some_and (\<lambda>s. trim s \<noteq> []) sig_url then
          bind_io (http_get_bytes (the sig_url) (of_nat MAX_SIGNATURE_SIZE)) (\<lambda>signature.
            seq (verify_ed25519_file env destination signature) (ret (Some signature)))
        else if require_signature then throw Other
        else ret None))"

end
