(* ===== verification/Device_Logic.thy ===== *)
theory Device_Logic
  imports Recovery_Ota
begin

text \<open>
  Reasoning about programs on the whole device. \<open>st_spec P c Q E\<close> is \<open>io_spec\<close> with predicates on the state
  instead of the tree. What a program leaves alone is a relation between the states before and after:
  \<open>keeps R c\<close>; the locales collect the rules for a reflexive and transitive relation, and for one that does
  not see the card.
\<close>

section \<open>Triples\<close>

definition st_spec ::
  "('s disk_scheme \<Rightarrow> bool) \<Rightarrow> ('s, 'a) io \<Rightarrow> ('a \<Rightarrow> 's disk_scheme \<Rightarrow> bool) \<Rightarrow> ('s disk_scheme \<Rightarrow> bool) \<Rightarrow> bool" where
  "st_spec P c Q E \<longleftrightarrow>
     (\<forall>d. P d \<longrightarrow> (case c d of (Val x, d') \<Rightarrow> Q x d' | (Err e, d') \<Rightarrow> E d' | (Off, d') \<Rightarrow> E d'))"

lemma st_run: "st_spec P c Q E \<Longrightarrow> P d \<Longrightarrow> c d = (r, d') \<Longrightarrow> (case r of Val x \<Rightarrow> Q x d' | _ \<Rightarrow> E d')"
  by (auto simp: st_spec_def split: outcome.splits)

lemma st_run_all: "st_spec P c (\<lambda>_. U) U \<Longrightarrow> P d \<Longrightarrow> c d = (r, d') \<Longrightarrow> U d'"
  by (cases r) (fastforce simp: st_spec_def)+

lemma io_spec_st: "io_spec P c Q E = st_spec (\<lambda>d. P (dk_fs d)) c (\<lambda>x d. Q x (dk_fs d)) (\<lambda>d. E (dk_fs d))"
  by (simp add: io_spec_def st_spec_def)

lemma st_conseq:
  "st_spec P' c Q' E' \<Longrightarrow> (\<And>d. P d \<Longrightarrow> P' d) \<Longrightarrow> (\<And>x d. Q' x d \<Longrightarrow> Q x d) \<Longrightarrow> (\<And>d. E' d \<Longrightarrow> E d) \<Longrightarrow> st_spec P c Q E"
  by (fastforce simp: st_spec_def split: prod.splits outcome.splits)

lemma st_pre: "st_spec P' c Q E \<Longrightarrow> (\<And>d. P d \<Longrightarrow> P' d) \<Longrightarrow> st_spec P c Q E"
  by (rule st_conseq)

lemma st_fact: "(\<And>d. P d \<Longrightarrow> F) \<Longrightarrow> (F \<Longrightarrow> st_spec P c Q E) \<Longrightarrow> st_spec P c Q E"
  by (meson st_spec_def)

lemma st_ret: "(\<And>d. P d \<Longrightarrow> Q x d) \<Longrightarrow> st_spec P (ret x) Q E"
  by (simp add: st_spec_def ret_def)

lemma st_throw: "(\<And>d. P d \<Longrightarrow> E d) \<Longrightarrow> st_spec P (throw e) Q E"
  by (simp add: st_spec_def throw_def)

lemma st_if: "st_spec P c Q E \<Longrightarrow> st_spec P c' Q E \<Longrightarrow> st_spec P (if b then c else c') Q E"
  by simp

lemma st_bind:
  fixes c :: "('s, 'a) io"
  assumes "st_spec P c R E" "\<And>x. st_spec (R x) (f x) Q E"
  shows "st_spec P (bind_io c f) Q E"
  unfolding st_spec_def
proof (intro allI impI)
  fix d :: "'s disk_scheme" assume "P d"
  with assms(1) have c: "case c d of (Val x, d') \<Rightarrow> R x d' | (Err e, d') \<Rightarrow> E d' | (Off, d') \<Rightarrow> E d'"
    by (simp add: st_spec_def)
  obtain r d' where r: "c d = (r, d')" by fastforce
  show "case bind_io c f d of (Val x, d') \<Rightarrow> Q x d' | (Err e, d') \<Rightarrow> E d' | (Off, d') \<Rightarrow> E d'"
    using c r assms(2) by (cases r) (simp_all add: bind_io_def st_spec_def)
qed

lemma st_seq: "st_spec P c (\<lambda>_. R) E \<Longrightarrow> st_spec R f Q E \<Longrightarrow> st_spec P (seq c f) Q E"
  unfolding seq_def by (rule st_bind [where R = "\<lambda>_. R"])

lemma st_handle:
  fixes c :: "('s, 'a) io"
  assumes "st_spec P c Q R" "\<And>e. st_spec R (h e) Q E" "\<And>d. R d \<Longrightarrow> E d"
  shows "st_spec P (handle c h) Q E"
  unfolding st_spec_def
proof (intro allI impI)
  fix d :: "'s disk_scheme" assume "P d"
  with assms(1) have c: "case c d of (Val x, d') \<Rightarrow> Q x d' | (Err e, d') \<Rightarrow> R d' | (Off, d') \<Rightarrow> R d'"
    by (simp add: st_spec_def)
  obtain r d' where r: "c d = (r, d')" by fastforce
  show "case handle c h d of (Val x, d') \<Rightarrow> Q x d' | (Err e, d') \<Rightarrow> E d' | (Off, d') \<Rightarrow> E d'"
    using c r assms(2,3) by (cases r) (simp_all add: handle_def st_spec_def)
qed

lemma st_lift_result: "(\<And>x d. r = Inr x \<Longrightarrow> P d \<Longrightarrow> Q x d) \<Longrightarrow> (\<And>d. P d \<Longrightarrow> E d) \<Longrightarrow> st_spec P (lift_result r) Q E"
  by (auto simp: lift_result_def split: sum.split intro: st_ret st_throw)

lemma st_lift_io: "(\<And>x d. r = Inr x \<Longrightarrow> P d \<Longrightarrow> Q x d) \<Longrightarrow> (\<And>d. P d \<Longrightarrow> E d) \<Longrightarrow> st_spec P (lift_io r) Q E"
  by (auto simp: lift_io_def split: sum.split intro: st_ret st_throw)

text \<open>What every value a program returns satisfies.\<close>

definition yields :: "('a \<Rightarrow> bool) \<Rightarrow> ('s, 'a) io \<Rightarrow> bool" where
  "yields V c \<longleftrightarrow> (\<forall>d x d'. c d = (Val x, d') \<longrightarrow> V x)"

lemma yields_ret: "V x \<Longrightarrow> yields V (ret x)"
  by (simp add: yields_def ret_def)

lemma yields_throw: "yields V (throw e)"
  by (simp add: yields_def throw_def)

lemma yields_bind: "yields W c \<Longrightarrow> (\<And>x. W x \<Longrightarrow> yields V (f x)) \<Longrightarrow> yields V (bind_io c f)"
  by (fastforce simp: yields_def bind_io_def split: prod.splits outcome.splits)

lemma yields_bind_any: "(\<And>x. yields V (f x)) \<Longrightarrow> yields V (bind_io c f)"
  by (fastforce simp: yields_def bind_io_def split: prod.splits outcome.splits)

lemma yields_seq: "yields V f \<Longrightarrow> yields V (seq c f)"
  unfolding seq_def by (rule yields_bind_any)

lemma yields_lift_result: "(\<And>x. r = Inr x \<Longrightarrow> V x) \<Longrightarrow> yields V (lift_result r)"
  by (cases r) (auto simp: lift_result_def intro: yields_ret yields_throw)

lemma yields_lift_io: "(\<And>x. r = Inr x \<Longrightarrow> V x) \<Longrightarrow> yields V (lift_io r)"
  by (cases r) (auto simp: lift_io_def intro: yields_ret yields_throw)

lemma st_yields: "st_spec P c Q E \<Longrightarrow> yields V c \<Longrightarrow> st_spec P c (\<lambda>x d. Q x d \<and> V x) E"
  by (fastforce simp: st_spec_def yields_def split: prod.splits outcome.splits)

section \<open>What a program keeps\<close>

definition keeps :: "('s disk_scheme \<Rightarrow> 's disk_scheme \<Rightarrow> bool) \<Rightarrow> ('s, 'a) io \<Rightarrow> bool" where
  "keeps R c \<longleftrightarrow> (\<forall>d. R d (snd (c d)))"

lemma keepsD: "keeps R c \<Longrightarrow> c d = (r, d') \<Longrightarrow> R d d'"
  by (metis keeps_def snd_conv)

text \<open>A predicate the relation transports holds after a program that keeps the relation.\<close>

lemma st_keeps:
  assumes "keeps R c" "\<And>d d'. P d \<Longrightarrow> R d d' \<Longrightarrow> P' d'"
  shows "st_spec P c (\<lambda>_. P') P'"
  unfolding st_spec_def
proof (intro allI impI)
  fix d assume "P d"
  moreover obtain r d' where "c d = (r, d')" by fastforce
  ultimately show "case c d of (Val x, d') \<Rightarrow> P' d' | (Err e, d') \<Rightarrow> P' d' | (Off, d') \<Rightarrow> P' d'"
    using assms keepsD [OF assms(1)] by (auto split: outcome.split)
qed

text \<open>A triple may be read with what the program keeps.\<close>

lemma st_frame:
  assumes "st_spec P c Q E" "keeps R c" "\<And>x d d'. P d \<Longrightarrow> R d d' \<Longrightarrow> Q x d' \<Longrightarrow> Q' x d'"
    "\<And>d d'. P d \<Longrightarrow> R d d' \<Longrightarrow> E d' \<Longrightarrow> E' d'"
  shows "st_spec P c Q' E'"
  unfolding st_spec_def
proof (intro allI impI)
  fix d assume P: "P d"
  obtain r d' where r: "c d = (r, d')" by fastforce
  with assms(3,4) [OF P keepsD [OF assms(2) r]] st_run [OF assms(1) P r]
  show "case c d of (Val x, d') \<Rightarrow> Q' x d' | (Err e, d') \<Rightarrow> E' d' | (Off, d') \<Rightarrow> E' d'"
    by (cases r) simp_all
qed

locale state_frame =
  fixes R :: "'s disk_scheme \<Rightarrow> 's disk_scheme \<Rightarrow> bool"
  assumes R_refl: "R d d" and R_trans: "R d d' \<Longrightarrow> R d' d'' \<Longrightarrow> R d d''"
begin

lemma keeps_ret: "keeps R (ret x)"
  by (simp add: keeps_def ret_def R_refl)

lemma keeps_throw: "keeps R (throw e)"
  by (simp add: keeps_def throw_def R_refl)

lemma keeps_asks: "keeps R (asks f)"
  by (simp add: keeps_def asks_def R_refl)

lemma keeps_bind:
  fixes c :: "('s, 'a) io"
  assumes "keeps R c" "\<And>x. keeps R (f x)"
  shows "keeps R (bind_io c f)"
  unfolding keeps_def
proof
  fix d :: "'s disk_scheme"
  obtain r d' where r: "c d = (r, d')" by fastforce
  show "R d (snd (bind_io c f d))"
  proof (cases r)
    case (Val x)
    with r have "bind_io c f d = f x d'" by (simp add: bind_io_def)
    moreover have "R d' (snd (f x d'))" using assms(2) by (simp add: keeps_def)
    ultimately show ?thesis using R_trans keepsD [OF assms(1) r] by simp
  qed (use r keepsD [OF assms(1) r] in \<open>simp_all add: bind_io_def\<close>)
qed

lemma keeps_seq: "keeps R c \<Longrightarrow> keeps R f \<Longrightarrow> keeps R (seq c f)"
  unfolding seq_def by (rule keeps_bind)

lemma keeps_handle:
  fixes c :: "('s, 'a) io"
  assumes "keeps R c" "\<And>e. keeps R (h e)"
  shows "keeps R (handle c h)"
  unfolding keeps_def
proof
  fix d :: "'s disk_scheme"
  obtain r d' where r: "c d = (r, d')" by fastforce
  show "R d (snd (handle c h d))"
  proof (cases r)
    case (Err e)
    with r have "handle c h d = h e d'" by (simp add: handle_def)
    moreover have "R d' (snd (h e d'))" using assms(2) by (simp add: keeps_def)
    ultimately show ?thesis using R_trans keepsD [OF assms(1) r] by simp
  qed (use r keepsD [OF assms(1) r] in \<open>simp_all add: handle_def\<close>)
qed

lemma keeps_for_each: "(\<And>x. keeps R (f x)) \<Longrightarrow> keeps R (for_each f xs)"
  by (induction xs) (simp_all add: keeps_ret keeps_seq)

lemma keeps_lift_result: "keeps R (lift_result r)"
  by (cases r) (simp_all add: lift_result_def keeps_ret keeps_throw)

lemma keeps_lift_io: "keeps R (lift_io r)"
  by (cases r) (simp_all add: lift_io_def keeps_ret keeps_throw)

lemma keeps_with_stage:
  assumes "keeps R body" "keeps R (remove_dir_all BUNDLE_DOWNLOAD_DIR)"
  shows "keeps R (with_stage body)"
  unfolding keeps_def
proof
  fix d :: "'s disk_scheme"
  obtain r d' where r: "body d = (r, d')" by fastforce
  obtain r2 d2 where r2: "remove_dir_all BUNDLE_DOWNLOAD_DIR d' = (r2 :: unit outcome, d2)" by fastforce
  from keepsD [OF assms(1) r] keepsD [OF assms(2) r2] show "R d (snd (with_stage body d))"
    by (cases r; cases r2) (auto simp: with_stage_def r r2 intro: R_trans)
qed

lemmas keeps_intros = keeps_ret keeps_throw keeps_asks keeps_bind keeps_seq keeps_handle keeps_for_each
  keeps_lift_result keeps_lift_io

end

text \<open>A relation that sees neither the tree nor the fates is kept by everything that only uses the card.\<close>

locale card_blind = state_frame R for R :: "'s disk_scheme \<Rightarrow> 's disk_scheme \<Rightarrow> bool" +
  assumes R_card: "R d (d\<lparr>dk_fs := m, dk_fates := fates\<rparr>)"
begin

lemma R_tree: "R d (d\<lparr>dk_fates := fates, dk_fs := m\<rparr>)" "R d (d\<lparr>dk_fates := fates\<rparr>)"
proof -
  have "d\<lparr>dk_fates := fates, dk_fs := m\<rparr> = d\<lparr>dk_fs := m, dk_fates := fates\<rparr>" by simp
  then show "R d (d\<lparr>dk_fates := fates, dk_fs := m\<rparr>)" using R_card by metis
  have "d\<lparr>dk_fates := fates\<rparr> = d\<lparr>dk_fs := dk_fs d, dk_fates := fates\<rparr>" by simp
  then show "R d (d\<lparr>dk_fates := fates\<rparr>)" using R_card by metis
qed

lemma keeps_prim: "keeps R (prim act torn)"
  unfolding keeps_def prim_def Let_def
  using R_tree by (auto split: list.split fate.split sum.split)

lemma keeps_card:
  "keeps R (create_dir_all p)" "keeps R (write_file p s)" "keeps R (copy_file p q)" "keeps R (sync_file p)"
  "keeps R (read_file p)" "keeps R (rename p q)" "keeps R (remove_file p)" "keeps R (remove_dir_all p)"
  "keeps R (append_file p s)"
  by (simp_all add: keeps_prim create_dir_all_def write_file_def copy_file_def sync_file_def read_file_def
      rename_def remove_file_def remove_dir_all_def append_file_def)

lemma keeps_ensure_parent: "keeps R (ensure_parent p)"
  by (simp add: ensure_parent_def keeps_ret keeps_card)

lemma keeps_write_synced: "keeps R (write_synced p s)"
  by (simp add: write_synced_def keeps_seq keeps_ensure_parent keeps_card)

lemma keeps_stage_contents: "keeps R (stage_contents p c)"
  by (cases c) (simp_all add: stage_contents_def keeps_write_synced keeps_seq keeps_ensure_parent keeps_card)

lemma keeps_read_journal: "keeps R read_journal"
  by (auto simp: read_journal_def intro!: keeps_intros keeps_card split: sum.split)

lemma keeps_write_phase: "keeps R (write_phase ph)"
  by (cases ph) (simp_all add: write_phase_def keeps_ret keeps_write_synced)

lemma keeps_remove_file_if_present: "keeps R (remove_file_if_present p)"
  by (auto simp: remove_file_if_present_def intro!: keeps_intros keeps_card)

lemma keeps_write_journal: "keeps R (write_journal j)"
  by (auto simp: write_journal_def Let_def intro!: keeps_intros keeps_card)

lemma keeps_restore_entry: "keeps R (restore_entry e)"
  by (auto simp: restore_entry_def Let_def intro!: keeps_intros keeps_card keeps_remove_file_if_present keeps_ensure_parent)

lemma keeps_rollback: "keeps R rollback"
  by (auto simp: rollback_def intro!: keeps_intros keeps_card keeps_read_journal keeps_restore_entry)

lemma keeps_finalize: "keeps R finalize"
  by (auto simp: finalize_def intro!: keeps_intros keeps_card)

lemma keeps_recover: "keeps R (recover_interrupted_bundle selected valid)"
  by (auto simp: recover_interrupted_bundle_def recovery_action_def
      intro!: keeps_intros keeps_card keeps_read_journal keeps_rollback keeps_finalize split: recovery_action.split)

lemma keeps_stage_files: "(\<And>b. keeps R (hook b)) \<Longrightarrow> keeps R (stage_files hook i seen fs)"
  by (induction fs arbitrary: i seen) (auto simp: Let_def intro!: keeps_intros keeps_stage_contents)

lemma keeps_prepare: "(\<And>b. keeps R (hook b)) \<Longrightarrow> keeps R (prepare hook fs)"
  by (auto simp: prepare_def intro!: keeps_intros keeps_stage_files keeps_write_journal)

lemma keeps_activate_entry: "(\<And>b. keeps R (hook b)) \<Longrightarrow> keeps R (activate_entry hook e)"
  by (auto simp: activate_entry_def Let_def split: prod.split intro!: keeps_intros keeps_card keeps_ensure_parent)

text \<open>An installation whose closures act beyond the card: \<open>I\<close> holds until the firmware is written, \<open>J\<close> until the
  boot partition is selected; both, and what may be left behind, are blind to the card.\<close>

lemma st_through:
  "keeps R c \<Longrightarrow> (\<And>d d'. I d \<Longrightarrow> R d d' \<Longrightarrow> I d') \<Longrightarrow> (\<And>d. I d \<Longrightarrow> E d) \<Longrightarrow> st_spec I c (\<lambda>_. I) E"
  by (rule st_conseq [OF st_keeps [of R c I I]]) blast+

lemma st_operate:
  assumes stable: "\<And>d d'. I d \<Longrightarrow> R d d' \<Longrightarrow> I d'" "\<And>d d'. J d \<Longrightarrow> R d d' \<Longrightarrow> J d'"
    and weaken: "\<And>d. I d \<Longrightarrow> E d" "\<And>d. J d \<Longrightarrow> E d"
    and fw: "st_spec I fw (\<lambda>_. J) E" and sel: "st_spec J sel (\<lambda>_. D) E"
  shows "st_spec I (operate (\<lambda>_. ret ()) fw sel) (\<lambda>_. D) E"
  unfolding operate_def
  by (intro st_bind [OF st_through [of _ I]] st_seq [OF st_through [of _ I]] st_seq [OF fw] st_seq [OF st_through [of _ J]] sel
      keeps_read_journal keeps_for_each keeps_activate_entry keeps_ret keeps_write_phase) (fact stable weaken)+

lemma st_install:
  assumes stable: "\<And>d d'. I d \<Longrightarrow> R d d' \<Longrightarrow> I d'" "\<And>d d'. J d \<Longrightarrow> R d d' \<Longrightarrow> J d'" "\<And>d d'. E d \<Longrightarrow> R d d' \<Longrightarrow> E d'"
    and weaken: "\<And>d. I d \<Longrightarrow> E d" "\<And>d. J d \<Longrightarrow> E d"
    and fw: "st_spec I fw (\<lambda>_. J) E" and sel: "st_spec J sel (\<lambda>_. D) E"
  shows "st_spec I (install (\<lambda>_. ret ()) fw sel files) (\<lambda>_. D) E"
proof -
  have I: "keeps R c \<Longrightarrow> st_spec I c (\<lambda>_. I) E" for c :: "('s, 'b) io"
    by (rule st_through) (use stable(1) weaken(1) in blast)+
  have E: "keeps R c \<Longrightarrow> st_spec E c (\<lambda>_. E) E" for c :: "('s, 'b) io"
    by (rule st_through) (use stable(3) in blast)+
  have op: "st_spec I (operate (\<lambda>_. ret ()) fw sel) (\<lambda>_. D) E"
    by (rule st_operate [OF _ _ weaken fw sel]) (use stable in blast)+
  have undo: "st_spec E (seq (handle rollback (\<lambda>_. throw Other)) (throw e)) (\<lambda>_. D) E" for e
    by (intro st_seq [OF E] keeps_handle keeps_rollback keeps_throw st_throw)
  have clear: "st_spec E (seq (handle (remove_dir_all transaction_root) (\<lambda>_. ret ())) (throw e)) (\<lambda>_. I) E" for e
    by (intro st_seq [OF E] keeps_handle keeps_card keeps_ret st_throw)
  have prep: "st_spec I (prepare (\<lambda>_. ret ()) files) (\<lambda>_. I) E"
    by (intro I keeps_prepare keeps_ret)
  have clean: "keeps R (bind_io (asks (path_exists transaction_root)) (\<lambda>x. if x then remove_dir_all transaction_root else ret ()) :: ('s, unit) io)"
    by (auto intro!: keeps_intros keeps_card)
  show ?thesis
    unfolding install_def
    by (rule st_bind [OF I [OF keeps_asks] st_if [OF st_throw [OF weaken(1)]]], assumption)
      (intro st_seq [OF I [OF clean]] st_seq [OF I] st_seq [OF st_handle [OF prep clear]] st_handle [OF op undo] keeps_card)
qed

end

lemma st_with_stage:
  assumes "st_spec P body Q E" "keeps R (remove_dir_all BUNDLE_DOWNLOAD_DIR)"
    and "\<And>x d d'. Q x d \<Longrightarrow> R d d' \<Longrightarrow> Q x d' \<and> E d'" "\<And>d d'. E d \<Longrightarrow> R d d' \<Longrightarrow> E d'"
  shows "st_spec P (with_stage body) Q E"
  unfolding st_spec_def
proof (intro allI impI)
  fix d assume P: "P d"
  obtain r d1 where r: "body d = (r, d1)" by fastforce
  obtain r2 d2 where r2: "remove_dir_all BUNDLE_DOWNLOAD_DIR d1 = (r2 :: unit outcome, d2)" by fastforce
  note R = keepsD [OF assms(2) r2] and post = st_run [OF assms(1) P r]
  show "case with_stage body d of (Val x, d') \<Rightarrow> Q x d' | (Err e, d') \<Rightarrow> E d' | (Off, d') \<Rightarrow> E d'"
  proof (cases r)
    case (Val x)
    with post assms(3) [OF _ R] show ?thesis by (cases r2) (simp_all add: with_stage_def r r2)
  next
    case (Err e)
    with post assms(4) [OF _ R] show ?thesis by (cases r2) (simp_all add: with_stage_def r r2)
  next
    case Off
    with post show ?thesis by (simp add: with_stage_def r)
  qed
qed

end
