(* ===== verification/Recovery_Boot.thy ===== *)
theory Recovery_Boot
  imports Device_Logic
begin

text \<open>
  The pieces of an update, seen from the flash and the non-volatile store: programs that touch neither
  (\<open>calm\<close>), what the interfaces of ESP-IDF promise about partitions and stored numbers (\<open>spare_contract\<close>,
  \<open>store_contract\<close>), what a signature of the recovery key vouches for, and the anti-rollback policy as a program.
\<close>

section \<open>Beyond the card\<close>

definition beyond :: "('f \<Rightarrow> 'n option \<Rightarrow> bool) \<Rightarrow> ('f, 'n) device \<Rightarrow> bool" where
  "beyond P d = P (dv_flash d) (dv_nvs d)"

text \<open>Programs that touch neither the flash nor the store.\<close>

definition calm :: "('f, 'n) device \<Rightarrow> ('f, 'n) device \<Rightarrow> bool" where
  "calm d d' \<longleftrightarrow> dv_flash d' = dv_flash d \<and> dv_nvs d' = dv_nvs d"

interpretation calm: card_blind calm
  by unfold_locales (auto simp: calm_def)

lemma beyond_calm: "beyond P d \<Longrightarrow> calm d d' \<Longrightarrow> beyond P d'"
  by (simp add: beyond_def calm_def)

lemma st_calm: "keeps calm c \<Longrightarrow> (\<And>f n. P f n \<Longrightarrow> E f n) \<Longrightarrow> st_spec (beyond P) c (\<lambda>_. beyond P) (beyond E)"
  by (rule st_conseq [OF st_keeps [of calm c "beyond P" "beyond P"]]) (auto simp: beyond_def calm_def)

lemma st_flash:
  assumes "\<And>f n x f'. P f n \<Longrightarrow> g f = (x, f') \<Longrightarrow> Q x f' n \<and> E f' n" "\<And>f n. P f n \<Longrightarrow> E f n"
  shows "st_spec (beyond P) (flash_call g) (\<lambda>x. beyond (Q x)) (beyond E)"
  using assms unfolding st_spec_def flash_call_def device_call_def beyond_def Let_def
  by (auto split: list.split fate.split prod.split)

lemma st_look_flash:
  "(\<And>f n. P f n \<Longrightarrow> Q (g f) f n) \<Longrightarrow> st_spec (beyond P) (look_flash g) (\<lambda>x. beyond (Q x)) E"
  by (simp add: st_spec_def look_flash_def beyond_def)

lemma st_nvs:
  assumes "\<And>f n x n'. P f (Some n) \<Longrightarrow> g n = (x, n') \<Longrightarrow> E f (Some n') \<and> (\<forall>y. x = Inr y \<longrightarrow> Q y f (Some n'))"
    and "\<And>f n. P f n \<Longrightarrow> E f n"
  shows "st_spec (beyond P) (nvs_call g) (\<lambda>x. beyond (Q x)) (beyond E)"
  unfolding nvs_call_def
proof (rule st_bind)
  show "st_spec (beyond P) (device_call (\<lambda>d. case dv_nvs d of None \<Rightarrow> (Inl (), d)
       | Some n \<Rightarrow> (case g n of (x, n') \<Rightarrow> (x, d\<lparr>dv_nvs := Some n'\<rparr>))))
     (\<lambda>r. beyond (\<lambda>f n. E f n \<and> (\<forall>y. r = Inr y \<longrightarrow> Q y f n))) (beyond E)"
    using assms unfolding st_spec_def device_call_def beyond_def Let_def
    by (auto split: list.split fate.split prod.split option.split)
  show "st_spec (beyond (\<lambda>f n. E f n \<and> (\<forall>y. r = Inr y \<longrightarrow> Q y f n)))
     (case r of Inl _ \<Rightarrow> throw Other | Inr x \<Rightarrow> ret x) (\<lambda>x. beyond (Q x)) (beyond E)" for r
    by (cases r) (auto intro!: st_ret st_throw simp: beyond_def)
qed

lemma device_call_state:
  "snd (device_call f d) \<in> {d\<lparr>dk_fates := tl (dk_fates d)\<rparr>, snd (f (d\<lparr>dk_fates := tl (dk_fates d)\<rparr>))}"
  by (auto simp: device_call_def Let_def split: list.split fate.split prod.split)

lemma calm_device_call:
  fixes f :: "('f, 'n) device \<Rightarrow> 'a \<times> ('f, 'n) device"
  assumes "\<And>d x d'. f d = (x, d') \<Longrightarrow> calm d d'"
  shows "keeps calm (device_call f)"
  unfolding keeps_def
proof
  fix d :: "('f, 'n) device"
  have "calm (d\<lparr>dk_fates := tl (dk_fates d)\<rparr>) (snd (f (d\<lparr>dk_fates := tl (dk_fates d)\<rparr>)))"
    by (rule assms [OF prod.collapse [symmetric]])
  with device_call_state [of f d] show "calm d (snd (device_call f d))" by (auto simp: calm_def)
qed

lemma calm_http_request: "keeps calm (http_request url)"
  unfolding http_request_def by (rule calm_device_call) (auto simp: calm_def)

lemma calm_set_progress: "keeps calm (set_progress n)"
  by (simp add: keeps_def set_progress_def calm_def)

lemma calm_open_file: "keeps calm (open_file p)"
  unfolding open_file_def by (intro calm.keeps_bind calm.keeps_card) (simp add: keeps_def calm_def)

lemma calm_with_http_response:
  "(\<And>body declared. keeps calm (consume body declared)) \<Longrightarrow> keeps calm (with_http_response url m consume)"
  unfolding with_http_response_def
  by (intro calm.keeps_bind calm_http_request) (auto intro!: calm.keeps_intros split: option.split)

lemma calm_http_get_bytes: "keeps calm (http_get_bytes url m)"
  unfolding http_get_bytes_def by (intro calm_with_http_response calm.keeps_lift_result)

lemma calm_http_get_string: "keeps calm (http_get_string url m)"
  unfolding http_get_string_def by (intro calm.keeps_intros calm_http_get_bytes)

lemma calm_save_body: "keeps calm (save_body p limit rs)"
  by (induction p limit rs rule: save_body.induct)
    (subst save_body.simps, auto intro!: calm.keeps_intros calm.keeps_card split: sum.split prod.split)

lemma calm_http_get_to_file: "keeps calm (http_get_to_file url m p)"
  unfolding http_get_to_file_def
  by (intro calm_with_http_response calm.keeps_intros calm.keeps_card calm.keeps_ensure_parent calm_save_body)

lemma calm_verify_sha256_file: "keeps calm (verify_sha256_file env p sha)"
  by (auto simp: verify_sha256_file_def Let_def intro!: calm.keeps_intros calm_open_file)

lemma calm_read_bounded: "keeps calm (read_bounded_file p n)" "keeps calm (read_signature_file p)"
  by (auto simp: read_bounded_file_def read_signature_file_def file_len_def intro!: calm.keeps_intros calm.keeps_card)

lemma calm_fetch_verified_manifests: "keeps calm (fetch_verified_manifests env objs)"
  by (induction objs) (auto intro!: calm.keeps_intros calm_http_get_bytes split: option.split)

lemma calm_stage_path: "keeps calm (stage_path name)"
  by (auto simp: stage_path_def intro!: calm.keeps_intros)

lemma calm_stage_write: "keeps calm (stage_write name data)"
  unfolding stage_write_def by (intro calm.keeps_intros calm_stage_path calm.keeps_card)

lemma calm_stage_new: "keeps calm stage_new"
  by (auto simp: stage_new_def intro!: calm.keeps_intros calm.keeps_card)

lemma calm_download_verified_payload: "keeps calm (download_verified_payload env m p)"
  by (auto simp: download_verified_payload_def intro!: calm.keeps_intros calm_http_get_to_file calm_verify_sha256_file)

lemma calm_stage_firmware: "keeps calm (stage_firmware env n a)"
  unfolding stage_firmware_def from_file_def
  by (intro calm.keeps_intros calm_stage_path calm_stage_write calm_download_verified_payload)

lemma calm_stage_component: "keeps calm (stage_component env n a)"
  unfolding stage_component_def from_file_def Let_def
  by (intro calm.keeps_intros calm_stage_path calm_stage_write calm_download_verified_payload)
    (auto intro!: calm.keeps_intros)

lemma calm_stage_artifact: "keeps calm (stage_artifact env n files fw a)"
  by (auto simp: stage_artifact_def intro!: calm.keeps_intros calm_stage_firmware calm_stage_component)

lemma calm_download_artifacts: "keeps calm (download_artifacts env k n dests files fw as)"
proof (induction as arbitrary: n dests files fw)
  case (Cons a as)
  then show ?case
    by (auto intro!: calm.keeps_intros calm_stage_artifact calm_set_progress)
qed (simp add: calm.keeps_ret)

section \<open>Signatures and digests of streams\<close>

fun stream_content :: "stream \<Rightarrow> string" where
  "stream_content [] = []"
| "stream_content (Inl e # rs) = []"
| "stream_content (Inr c # rs) = (if c = [] then [] else c @ stream_content rs)"

lemma next_read_content:
  "next_read n rs = (Inr c, rs') \<Longrightarrow> 0 < n \<Longrightarrow> stream_content rs = (if c = [] then [] else c @ stream_content rs')"
  by (cases "(n, rs)" rule: next_read.cases) (auto split: if_splits)

lemma feed_content:
  "feed update v rs = Inr v' \<Longrightarrow> \<exists>cs. v' = fold (\<lambda>c v. update v c) cs v \<and> concat cs = stream_content rs"
proof (induction update v rs rule: feed.induct)
  case (1 update v rs)
  from "1.prems" obtain c rs' where c: "next_read 4096 rs = (Inr c, rs')"
    by (subst (asm) feed.simps) (auto split: prod.splits sum.splits)
  note content = next_read_content [OF c]
  show ?case
  proof (cases "c = []")
    case True
    with "1.prems" c content show ?thesis by (intro exI [of _ "[]"]) (simp add: feed.simps [of update v rs])
  next
    case False
    with "1.prems" c have "feed update (update v c) rs' = Inr v'" by (simp add: feed.simps [of update v rs])
    from "1.IH" [OF c [symmetric] refl False this] obtain cs
      where "v' = fold (\<lambda>c v. update v c) cs (update v c)" "concat cs = stream_content rs'" by blast
    with content False show ?thesis by (intro exI [of _ "c # cs"]) simp
  qed
qed

lemma feed_bytes: "feed (@) [] rs = Inr bytes \<Longrightarrow> bytes = stream_content rs"
proof -
  have "fold (\<lambda>c v. v @ c) cs v = v @ concat cs" for cs :: "string list" and v by (induction cs arbitrary: v) simp_all
  then show "feed (@) [] rs = Inr bytes \<Longrightarrow> bytes = stream_content rs" by (auto dest: feed_content)
qed

definition signed_by_key :: "('k, 'v, 'f, 'n) environment \<Rightarrow> string \<Rightarrow> string \<Rightarrow> bool" where
  "signed_by_key env bytes signature \<longleftrightarrow>
     (\<exists>k. key_from_bytes (env_crypto env) (RECOVERY_SIGNING_KEY (env_debug env)) = Some k \<and> length signature = 64 \<and>
        key_verifies (env_crypto env) k bytes signature)"

lemma verify_ed25519_signed:
  assumes "stream_contract (env_crypto env)" "verify_ed25519_reader env rs signature = Some u"
  shows "signed_by_key env (stream_content rs) signature"
proof -
  from assms(2) obtain k v v' where k: "length signature = 64" "key_from_bytes (env_crypto env) (RECOVERY_SIGNING_KEY (env_debug env)) = Some k"
    "stream_start (env_crypto env) k signature = Some v" "feed (stream_update (env_crypto env)) v rs = Inr v'"
    "stream_verifies (env_crypto env) v'"
    by (auto simp: verify_ed25519_reader_def split: if_splits option.splits sum.splits)
  from feed_content [OF k(4)] obtain cs where
    cs: "v' = fold (\<lambda>c v. stream_update (env_crypto env) v c) cs v" "concat cs = stream_content rs" by blast
  have "key_verifies (env_crypto env) k (concat cs) signature"
    using assms(1) [unfolded stream_contract_def, THEN spec, THEN spec, of k signature] k(3,5) cs(1) by simp
  with k(1,2) cs(2) show ?thesis by (auto simp: signed_by_key_def)
qed

text \<open>A manifest of the key.\<close>

definition authentic :: "('k, 'v, 'f, 'n) environment \<Rightarrow> artifact_manifest \<Rightarrow> bool" where
  "authentic env m \<longleftrightarrow> (\<exists>canonical signature. signed_by_key env canonical signature \<and> artifact_parse canonical = Inr m)"

lemma open_manifest_signed:
  assumes "stream_contract (env_crypto env)" "open_manifest env canonical signature = Some m"
  shows "signed_by_key env canonical signature" "artifact_parse canonical = Inr m"
proof -
  from assms(2) show p: "artifact_parse canonical = Inr m"
    by (auto simp: open_manifest_def split: option.splits if_splits sum.splits)
  then have "canonical \<noteq> []" by (auto simp: artifact_parse_def ends_with_iff)
  then have "stream_content [Inr canonical] = canonical" by simp
  moreover from assms(2) obtain u where "verify_ed25519_reader env [Inr canonical] signature = Some u"
    by (auto simp: open_manifest_def split: option.splits)
  ultimately show "signed_by_key env canonical signature" using verify_ed25519_signed [OF assms(1)] by metis
qed

lemma open_manifest_authentic:
  "stream_contract (env_crypto env) \<Longrightarrow> open_manifest env canonical signature = Some m \<Longrightarrow> authentic env m"
  using open_manifest_signed [of env canonical signature m] unfolding authentic_def by blast

section \<open>The flash and the store\<close>

text \<open>What an update may do before it selects: nothing but to the image of the spare partition.\<close>

definition spare_only ::
  "('k, 'v, 'f, 'n) environment \<Rightarrow> ('f \<Rightarrow> nat \<Rightarrow> string) \<Rightarrow> ('f \<Rightarrow> nat) \<Rightarrow> 'f \<Rightarrow> 'f \<Rightarrow> bool" where
  "spare_only env img boot f f' \<longleftrightarrow>
     next_partition (env_ota env) f' = next_partition (env_ota env) f \<and> boot f' = boot f \<and>
     (\<forall>q. next_partition (env_ota env) f \<noteq> Some q \<longrightarrow> img f' q = img f q) \<and>
     (\<forall>q. env_image_state env q f' = env_image_state env q f)"

text \<open>What ESP-IDF documents of the calls on the spare partition: a handle writes to its partition, in
  order; only choosing a boot partition changes which one boots and in what state it is.\<close>

definition spare_contract ::
  "('k, 'v, 'f, 'n) environment \<Rightarrow> ('f \<Rightarrow> nat \<Rightarrow> string) \<Rightarrow> ('f \<Rightarrow> u32 \<Rightarrow> nat) \<Rightarrow> ('f \<Rightarrow> nat) \<Rightarrow> bool" where
  "spare_contract env img target boot \<longleftrightarrow>
     (\<forall>p n f c h f'. next_partition (env_ota env) f = Some p \<longrightarrow> ota_begin (env_ota env) p n f = ((c, h), f') \<longrightarrow>
        spare_only env img boot f f' \<and> (c = ESP_OK \<longrightarrow> target f' h = p \<and> img f' p = [])) \<and>
     (\<forall>h s f c f'. next_partition (env_ota env) f = Some (target f h) \<longrightarrow> ota_write (env_ota env) h s f = (c, f') \<longrightarrow>
        spare_only env img boot f f' \<and> target f' h = target f h \<and>
        (c = ESP_OK \<longrightarrow> img f' (target f h) = img f (target f h) @ s)) \<and>
     (\<forall>h f c f'. next_partition (env_ota env) f = Some (target f h) \<longrightarrow> ota_end (env_ota env) h f = (c, f') \<longrightarrow>
        spare_only env img boot f f' \<and> (c = ESP_OK \<longrightarrow> img f' = img f)) \<and>
     (\<forall>h f. next_partition (env_ota env) f = Some (target f h) \<longrightarrow> spare_only env img boot f (ota_abort (env_ota env) h f)) \<and>
     (\<forall>p f c f'. next_partition (env_ota env) f = Some p \<longrightarrow> set_boot_partition (env_ota env) p f = (c, f') \<longrightarrow>
        next_partition (env_ota env) f' = next_partition (env_ota env) f \<and> img f' = img f \<and>
        (if c = ESP_OK then boot f' = p
         else boot f' = boot f \<and> (\<forall>q. env_image_state env q f' = env_image_state env q f)))"

text \<open>And of the store: reading gives the value, writing leaves the old one or the new one.\<close>

definition store_contract :: "('k, 'v, 'f, 'n) environment \<Rightarrow> ('n \<Rightarrow> u32) \<Rightarrow> bool" where
  "store_contract env floor \<longleftrightarrow>
     (\<forall>n r n'. env_get_u32 env SECURITY_VERSION_KEY n = (r, n') \<longrightarrow> floor n' = floor n \<and>
        (\<forall>v. r = Inr v \<longrightarrow> unwrap_or 0 v = floor n)) \<and>
     (\<forall>c n r n'. env_set_u32 env SECURITY_VERSION_KEY c n = (r, n') \<longrightarrow> floor n' = c \<or> floor n' = floor n)"

definition floor_of :: "('n \<Rightarrow> u32) \<Rightarrow> 'n option \<Rightarrow> u32" where
  "floor_of floor n = (case n of None \<Rightarrow> 0 | Some x \<Rightarrow> floor x)"

section \<open>The policy as a program\<close>

lemma newer_program:
  "run_policy (require_newer c (as_call load)) =
     (if c = 0 then throw Other
      else bind_io (transaction_io_error load) (\<lambda>v.
        if c \<le> unwrap_or 0 v then throw Other else ret (unwrap_or 0 v)))"
  by (rule ext)
    (auto simp: run_policy_def require_newer_def current_version_def as_call_def transaction_io_error_def handle_def bind_io_def
      throw_def ret_def unwrap_or_def split: prod.split outcome.split option.split)

lemma advance_program:
  "run_policy (advance_before_activation c (as_call load) (\<lambda>v. as_call (store v)) (as_call activate)) =
     (if c = 0 then throw Other
      else bind_io (transaction_io_error load) (\<lambda>v.
        if c \<le> unwrap_or 0 v then throw Other
        else seq (transaction_io_error (store c))
          (bind_io (transaction_io_error load) (\<lambda>v.
            if unwrap_or 0 v \<noteq> c then throw Other else transaction_io_error activate))))"
proof (rule ext)
  fix d
  obtain r1 d1 where l1: "load d = (r1, d1)" by fastforce
  obtain r2 d2 where s2: "store c d1 = (r2, d2)" by fastforce
  obtain r3 d3 where l3: "load d2 = (r3, d3)" by fastforce
  obtain r4 d4 where a4: "activate d3 = (r4, d4)" by fastforce
  show "run_policy (advance_before_activation c (as_call load) (\<lambda>v. as_call (store v)) (as_call activate)) d =
     (if c = 0 then throw Other
      else bind_io (transaction_io_error load) (\<lambda>v.
        if c \<le> unwrap_or 0 v then throw Other
        else seq (transaction_io_error (store c))
          (bind_io (transaction_io_error load) (\<lambda>v.
            if unwrap_or 0 v \<noteq> c then throw Other else transaction_io_error activate)))) d"
    using l1 s2 l3 a4
    by (cases r1; cases r2; cases r3; cases r4)
      (auto simp: run_policy_def advance_before_activation_def require_newer_def current_version_def as_call_def
        transaction_io_error_def handle_def bind_io_def seq_def throw_def ret_def unwrap_or_def split: option.split)
qed

end
