(* ===== verification/Recovery_Safety.thy ===== *)
theory Recovery_Safety
  imports Recovery_Boot
begin

text \<open>
  What the Recovery OS may boot: an update only ever selects the spare partition, and only once the image
  in it has the digest of a signed firmware manifest for the device, newer than the recorded version.
\<close>

section \<open>Flashing and selecting\<close>

definition idle ::
  "('k, 'v, 'f, 'n) environment \<Rightarrow> ('f \<Rightarrow> nat \<Rightarrow> string) \<Rightarrow> ('f \<Rightarrow> nat) \<Rightarrow> ('n \<Rightarrow> u32) \<Rightarrow> 'f \<Rightarrow> u32 \<Rightarrow> 'f \<Rightarrow> 'n option \<Rightarrow> bool" where
  "idle env img boot floor f0 x f n \<longleftrightarrow> spare_only env img boot f0 f \<and> floor_of floor n = x"







lemma idle_next: "idle env img boot floor f0 x f n \<Longrightarrow> next_partition (env_ota env) f = next_partition (env_ota env) f0"
  by (simp add: idle_def spare_only_def)





















section \<open>The firmware of an update\<close>






section \<open>The updates\<close>








section \<open>Only signed firmware is selected\<close>























end
